(* ===== verification/Hdf5_Prelude.thy ===== *)
theory Hdf5_Prelude
  imports Main "HOL-Library.Word"
begin

unbundle bit_operations_syntax

text \<open>
  Shared vocabulary of the development: the machine integers of Go as words, the error values a
  Go function returns (and the panics the runtime raises), the little- and big-endian codecs of
  \<^verbatim>\<open>encoding/binary\<close>, random-access files (\<^verbatim>\<open>io.ReaderAt\<close> and
  \<^verbatim>\<open>io.WriterAt\<close>) and the generic lemmas on them that the components share.

  Conventions. \<^verbatim>\<open>uint8 .. uint64\<close> are words of that width, so \<open>+\<close>,
  \<open>-\<close>, \<open>*\<close> wrap as in Go. \<^verbatim>\<open>int\<close> values that are lengths of slices or
  offsets into them are natural numbers: a slice is shorter than \<open>2 ^ 63\<close> bytes, so sums of a
  few of them never reach the sign bit. Where the code converts a number read from a file to
  \<^verbatim>\<open>int\<close>, the conversion is written out. A Go function that returns
  \<^verbatim>\<open>(T, error)\<close> is a function into \<open>'t result\<close>.
\<close>

section \<open>Types\<close>

type_synonym byte = "8 word"
type_synonym u16 = "16 word"
type_synonym u32 = "32 word"
type_synonym u64 = "64 word"
type_synonym bytes = "byte list"

text \<open>
  An error is its format string: \<open>Errorf\<close> for \<^verbatim>\<open>errors.New\<close> and
  \<^verbatim>\<open>fmt.Errorf\<close>, \<open>Wrapf\<close> for an error that wraps a cause
  (\<^verbatim>\<open>%w\<close>, \<^verbatim>\<open>utils.WrapError\<close>). \<open>Panicf\<close> is a run-time panic: an index or a
  slice out of range, a division by zero, an impossible allocation.
\<close>

datatype go_error = Errorf string | Wrapf string go_error | Panicf string

type_synonym 'a result = "go_error + 'a"

primrec is_panic :: "go_error \<Rightarrow> bool" where
  "is_panic (Errorf s) = False"
| "is_panic (Wrapf s e) = False"
| "is_panic (Panicf s) = True"

text \<open>\<open>wrap s e\<close> is \<^verbatim>\<open>fmt.Errorf(s, e)\<close> on the error return path; a panic passes through it.\<close>

definition wrap :: "string \<Rightarrow> go_error \<Rightarrow> go_error" where
  "wrap s e = (if is_panic e then e else Wrapf s e)"

abbreviation index_panic :: go_error where
  "index_panic \<equiv> Panicf ''index out of range''"

abbreviation slice_panic :: go_error where
  "slice_panic \<equiv> Panicf ''slice bounds out of range''"

abbreviation divide_panic :: go_error where
  "divide_panic \<equiv> Panicf ''integer divide by zero''"

abbreviation makeslice_panic :: go_error where
  "makeslice_panic \<equiv> Panicf ''makeslice: len out of range''"

text \<open>The largest allocation of the Go runtime on a 64-bit platform; \<^verbatim>\<open>make\<close> panics above it.\<close>

abbreviation max_alloc :: nat where
  "max_alloc \<equiv> 2 ^ 48"

datatype byte_order = LittleEndian | BigEndian

named_theorems codec_simps \<open>evaluation of codecs on their own output\<close>
named_theorems result_splits \<open>splitting rules for results\<close>

lemmas [result_splits] = sum.splits if_splits

section \<open>Words\<close>

lemma unat_u64_less [simp]: "unat (w :: u64) < 18446744073709551616"
  using unsigned_less [of w] by simp

lemma unat_u32_less [simp]: "unat (w :: u32) < 4294967296"
  using unsigned_less [of w] by simp

lemma unat_u16_less [simp]: "unat (w :: u16) < 65536"
  using unsigned_less [of w] by simp

lemma unat_byte_less [simp]: "unat (w :: byte) < 256"
  using unsigned_less [of w] by simp

lemma unat_eqD: "unat v = unat w \<Longrightarrow> v = (w :: 'a::len word)"
  by (simp add: word_unat_eq_iff)

lemma unat_of_nat_less:
  "n < 2 ^ LENGTH('a) \<Longrightarrow> unat (of_nat n :: 'a::len word) = n"
  by (simp add: unsigned_of_nat take_bit_nat_eq_self)

lemma unat_ucast_up [simp]:
  "LENGTH('a) \<le> LENGTH('b) \<Longrightarrow> unat (ucast (w :: 'a::len word) :: 'b::len word) = unat w"
  by (simp add: unsigned_ucast_eq take_bit_nat_eq_self unsigned_less [THEN less_le_trans])

lemma ucast_up_eq_0 [simp]:
  "LENGTH('a) \<le> LENGTH('b) \<Longrightarrow> (ucast (w :: 'a::len word) :: 'b::len word) = 0 \<longleftrightarrow> w = 0"
  by (metis unat_eq_zero unat_ucast_up)

section \<open>Lists of bytes\<close>

abbreviation zeros :: "nat \<Rightarrow> bytes" where
  "zeros n \<equiv> replicate n 0"

lemma take_append_exact [simp]: "length xs = n \<Longrightarrow> take n (xs @ ys) = xs"
  by simp

lemma drop_append_exact [simp]: "length xs = n \<Longrightarrow> drop n (xs @ ys) = ys"
  by simp

lemma list_update_eq_nth_eqI:
  "length xs = length ys \<Longrightarrow> (\<And>i. i < length xs \<Longrightarrow> xs ! i = ys ! i) \<Longrightarrow> xs = ys"
  by (rule nth_equalityI) auto

lemma length_concat_const:
  "(\<And>x. x \<in> set xs \<Longrightarrow> length (f x) = w) \<Longrightarrow> length (concat (map f xs)) = w * length xs"
  by (induction xs) auto

text \<open>\<^verbatim>\<open>copy(dst[off:off+n], src[..])\<close> of \<open>n\<close> bytes into place.\<close>

definition blit :: "bytes \<Rightarrow> nat \<Rightarrow> bytes \<Rightarrow> bytes" where
  "blit dst off p = take off dst @ p @ drop (off + length p) dst"

lemma length_blit [simp]: "off + length p \<le> length dst \<Longrightarrow> length (blit dst off p) = length dst"
  by (simp add: blit_def)

lemma blit_Nil [simp]: "blit dst off [] = dst"
  by (simp add: blit_def)

lemma blit_full: "length p = length dst \<Longrightarrow> blit dst 0 p = p"
  by (simp add: blit_def)

lemma blit_adjacent:
  "off + length p + length q \<le> length dst \<Longrightarrow>
   blit (blit dst off p) (off + length p) q = blit dst off (p @ q)"
  by (simp add: blit_def ac_simps)

lemma blit_zeros:
  "length p \<le> k \<Longrightarrow> blit (pre @ zeros k) (length pre) p = pre @ p @ zeros (k - length p)"
  by (simp add: blit_def)

section \<open>The codecs of encoding/binary\<close>

text \<open>
  \<open>le_get bs\<close> is \<^verbatim>\<open>LittleEndian.UintN(bs)\<close> (the bytes or-ed together at increasing
  shifts), \<open>le_put n w\<close> are the bytes \<^verbatim>\<open>LittleEndian.PutUintN\<close> stores; big-endian
  is the reverse. Both are used at the width of the word; an \<open>n\<close> below it stores the low
  bytes, as a conversion \<^verbatim>\<open>uint16(v)\<close> before the call does.
\<close>

primrec le_get :: "bytes \<Rightarrow> 'a::len word" where
  "le_get [] = 0"
| "le_get (b # bs) = ucast b OR push_bit 8 (le_get bs)"

primrec le_put :: "nat \<Rightarrow> 'a::len word \<Rightarrow> bytes" where
  "le_put 0 w = []"
| "le_put (Suc n) w = ucast w # le_put n (drop_bit 8 w)"

fun order_get :: "byte_order \<Rightarrow> bytes \<Rightarrow> 'a::len word" where
  "order_get LittleEndian bs = le_get bs"
| "order_get BigEndian bs = le_get (rev bs)"

fun order_put :: "byte_order \<Rightarrow> nat \<Rightarrow> 'a::len word \<Rightarrow> bytes" where
  "order_put LittleEndian n w = le_put n w"
| "order_put BigEndian n w = rev (le_put n w)"

lemma le_put_numeral [simp]:
  "le_put (numeral k) w = ucast w # le_put (pred_numeral k) (drop_bit 8 w)"
  by (simp add: numeral_eq_Suc)

lemma length_le_put [simp]: "length (le_put n w) = n"
  by (induction n arbitrary: w) auto

lemma length_order_put [simp]: "length (order_put e n w) = n"
  by (cases e) auto

lemma le_get_le_put: "le_get (le_put n w) = take_bit (8 * n) (w :: 'a::len word)"
proof (induction n arbitrary: w)
  case 0
  then show ?case by simp
next
  case (Suc n)
  have "(ucast (ucast w :: byte) :: 'a word) OR push_bit 8 (take_bit (8 * n) (drop_bit 8 w))
      = take_bit (8 * Suc n) w"
    by (rule bit_word_eqI) (auto simp: bit_simps)
  with Suc show ?case by simp
qed

lemma order_get_order_put: "order_get e (order_put e n w) = take_bit (8 * n) (w :: 'a::len word)"
  by (cases e) (auto simp: le_get_le_put)

lemma le_get_le_put_full [simp, codec_simps]:
  "LENGTH('a) \<le> 8 * n \<Longrightarrow> le_get (le_put n w) = (w :: 'a::len word)"
  by (simp add: le_get_le_put take_bit_word_eq_self)

lemma order_get_order_put_full [simp, codec_simps]:
  "LENGTH('a) \<le> 8 * n \<Longrightarrow> order_get e (order_put e n w) = (w :: 'a::len word)"
  by (simp add: order_get_order_put take_bit_word_eq_self)

lemma le_put_cong_low:
  "take_bit (8 * n) v = take_bit (8 * n) w \<Longrightarrow> le_put n v = le_put n (w :: 'a::len word)"
proof (induction n arbitrary: v w)
  case 0
  then show ?case by simp
next
  case (Suc n)
  have bits: "bit v i = bit w i" if "i < 8 * Suc n" for i
    using Suc.prems that by (metis bit_take_bit_iff)
  have low: "ucast v = (ucast w :: byte)"
    using bits by (intro bit_word_eqI) (simp add: bit_simps)
  have "take_bit (8 * n) (drop_bit 8 v) = take_bit (8 * n) (drop_bit 8 w)"
  proof (rule bit_word_eqI)
    fix i
    have "i < 8 * n \<Longrightarrow> bit v (8 + i) = bit w (8 + i)"
      by (rule bits) simp
    then show "bit (take_bit (8 * n) (drop_bit 8 v)) i = bit (take_bit (8 * n) (drop_bit 8 w)) i"
      by (simp add: bit_take_bit_iff bit_drop_bit_eq) blast
  qed
  then have "le_put n (drop_bit 8 v) = le_put n (drop_bit 8 w)"
    by (rule Suc.IH)
  with low show ?case by simp
qed

lemma le_put_ucast_up:
  "LENGTH('a) \<le> LENGTH('b) \<Longrightarrow> le_put n (ucast (w :: 'a::len word) :: 'b::len word) = le_put n w"
proof (induction n arbitrary: w)
  case 0
  then show ?case by simp
next
  case (Suc n)
  have "(ucast (ucast w :: 'b word) :: byte) = ucast w"
    using Suc.prems by (intro bit_word_eqI) (auto simp: bit_simps dest: bit_imp_le_length)
  moreover have "drop_bit 8 (ucast w :: 'b word) = ucast (drop_bit 8 w)"
    using Suc.prems by (intro bit_word_eqI) (auto simp: bit_simps dest: bit_imp_le_length)
  ultimately show ?case using Suc by simp
qed

lemma le_put_le_get:
  "8 * length bs \<le> LENGTH('a) \<Longrightarrow> le_put (length bs) (le_get bs :: 'a::len word) = bs"
proof (induction bs)
  case Nil
  then show ?case by simp
next
  case (Cons b bs)
  let ?r = "le_get bs :: 'a word"
  have low: "(ucast (ucast b OR push_bit 8 ?r) :: byte) = b"
    using Cons.prems by (intro bit_word_eqI) (auto simp: bit_simps)
  have "take_bit (8 * length bs) (drop_bit 8 (ucast b OR push_bit 8 ?r)) = take_bit (8 * length bs) ?r"
    using Cons.prems by (intro bit_word_eqI) (auto simp: bit_simps dest: bit_imp_le_length)
  then have "le_put (length bs) (drop_bit 8 (ucast b OR push_bit 8 ?r)) = le_put (length bs) ?r"
    by (rule le_put_cong_low)
  with Cons low show ?case by simp
qed

section \<open>Files\<close>

text \<open>
  A file is its contents. \<open>ReadAt f n off\<close> is a \<^verbatim>\<open>ReadAt\<close> of a buffer of \<open>n\<close> bytes
  at \<^verbatim>\<open>int64(off)\<close>: an offset with the sign bit set is refused, and a read past the end
  is an \<^verbatim>\<open>io.EOF\<close>. \<open>WriteAt f p off\<close> overwrites in place and extends the file
  with zeros when it has to.
\<close>

definition ReadAt :: "bytes \<Rightarrow> nat \<Rightarrow> u64 \<Rightarrow> bytes result" where
  "ReadAt f n off =
     (if 2 ^ 63 \<le> unat off then Inl (Errorf ''negative offset'')
      else if n = 0 \<or> unat off + n \<le> length f then Inr (take n (drop (unat off) f))
      else Inl (Errorf ''EOF''))"

definition overwrite :: "bytes \<Rightarrow> nat \<Rightarrow> bytes \<Rightarrow> bytes" where
  "overwrite f off p =
     (if p = [] then f
      else take off (f @ zeros (off - length f)) @ p @ drop (off + length p) f)"

definition WriteAt :: "bytes \<Rightarrow> bytes \<Rightarrow> u64 \<Rightarrow> bytes result" where
  "WriteAt f p off =
     (if 2 ^ 63 \<le> unat off then Inl (Errorf ''negative offset'')
      else Inr (overwrite f (unat off) p))"

lemma length_overwrite [simp]: "p \<noteq> [] \<Longrightarrow> length (overwrite f off p) = max (length f) (off + length p)"
  by (auto simp: overwrite_def max_def)

lemma take_drop_overwrite [simp]: "take (length p) (drop off (overwrite f off p)) = p"
  by (simp add: overwrite_def)

lemma ReadAt_overwrite:
  "unat off < 2 ^ 63 \<Longrightarrow> ReadAt (overwrite f (unat off) p) (length p) off = Inr p"
  by (cases "p = []") (auto simp: ReadAt_def)

lemma take_drop_overwrite_before:
  "a + n \<le> off \<Longrightarrow> a + n \<le> length f \<Longrightarrow>
   take n (drop a (overwrite f off p)) = take n (drop a f)"
  by (simp add: overwrite_def take_drop)

lemma take_drop_overwrite_after:
  "off + length p \<le> a \<Longrightarrow> a + n \<le> length f \<Longrightarrow>
   take n (drop a (overwrite f off p)) = take n (drop a f)"
  by (simp add: overwrite_def)

end
