(* ===== verification/Overflow.thy ===== *)
theory Overflow
  imports Hdf5_Prelude
begin

text \<open>
  \<^verbatim>\<open>internal/utils/overflow.go\<close>: checked 64-bit multiplication, the byte size of a chunk, and the
  validation of hyperslab selections. The loops of the code are recursive functions on the list of
  dimensions that remains.
\<close>

section \<open>Checked multiplication\<close>

definition CheckMultiplyOverflow :: "u64 \<Rightarrow> u64 \<Rightarrow> unit result" where
  "CheckMultiplyOverflow a b =
     (if a = 0 \<or> b = 0 then Inr ()
      else if a > (- 1) div b then Inl (Errorf ''multiplication overflow: %d * %d exceeds uint64 max'')
      else Inr ())"

definition SafeMultiply :: "u64 \<Rightarrow> u64 \<Rightarrow> u64 result" where
  "SafeMultiply a b =
     (case CheckMultiplyOverflow a b of Inl e \<Rightarrow> Inl e | Inr _ \<Rightarrow> Inr (a * b))"

section \<open>Chunk sizes\<close>

fun chunk_dims_product :: "u64 \<Rightarrow> u64 list \<Rightarrow> u64 result" where
  "chunk_dims_product sz [] = Inr sz"
| "chunk_dims_product sz (dim # dims) =
     (if dim > 0 \<and> sz > (- 1) div dim
      then Inl (Errorf ''chunk size overflow at dimension %d: dimensions too large'')
      else chunk_dims_product (sz * dim) dims)"

definition CalculateChunkSize64 :: "u64 list \<Rightarrow> u64 \<Rightarrow> u64 result" where
  "CalculateChunkSize64 dimensions elementSize =
     (if dimensions = [] then Inl (Errorf ''no dimensions provided'')
      else if elementSize = 0 then Inl (Errorf ''element size cannot be zero'')
      else (case chunk_dims_product 1 dimensions of
              Inl e \<Rightarrow> Inl e
            | Inr sz \<Rightarrow>
                if sz > (- 1) div elementSize
                then Inl (Errorf ''chunk size overflow: total size too large (dims product: %d, elem size: %d)'')
                else Inr (sz * elementSize)))"

definition CalculateChunkSize :: "u32 list \<Rightarrow> u64 \<Rightarrow> u64 result" where
  "CalculateChunkSize dimensions elementSize =
     (if dimensions = [] then Inl (Errorf ''no dimensions provided'')
      else if elementSize = 0 then Inl (Errorf ''element size cannot be zero'')
      else (case chunk_dims_product 1 (map ucast dimensions) of
              Inl e \<Rightarrow> Inl e
            | Inr sz \<Rightarrow>
                if sz > (- 1) div elementSize
                then Inl (Errorf ''chunk size overflow: total size too large (dims product: %d, elem size: %d)'')
                else Inr (sz * elementSize)))"

section \<open>Buffer limits and hyperslab selections\<close>

definition ValidateBufferSize :: "u64 \<Rightarrow> u64 \<Rightarrow> string \<Rightarrow> unit result" where
  "ValidateBufferSize sz maxSize description =
     (if sz = 0 then Inl (Errorf (description @ '': size cannot be zero''))
      else if sz > maxSize then Inl (Errorf (description @ '': size %d exceeds maximum %d''))
      else Inr ())"

definition MaxChunkSize :: u64 where "MaxChunkSize = 1024 * 1024 * 1024"
definition MaxAttributeSize :: u64 where "MaxAttributeSize = 64 * 1024 * 1024"
definition MaxStringSize :: u64 where "MaxStringSize = 16 * 1024 * 1024"
definition MaxHyperslabElements :: u64 where "MaxHyperslabElements = 1000000000"

fun hyperslab_bounds_loop :: "u64 list \<Rightarrow> u64 list \<Rightarrow> u64 list \<Rightarrow> u64 list \<Rightarrow> unit result" where
  "hyperslab_bounds_loop (start # starts) (count # counts) (stride # strides) (dim # dims) =
     (if count = 0 then Inl (Errorf ''hyperslab count must be > 0 at dimension %d'')
      else (case SafeMultiply (count - 1) stride of
              Inl e \<Rightarrow> Inl (Wrapf ''hyperslab stride overflow at dimension %d: %w'' e)
            | Inr maxIndex \<Rightarrow>
                if start + maxIndex \<ge> dim
                then Inl (Errorf ''hyperslab selection exceeds dataset bounds at dimension %d: start=%d, count=%d, stride=%d, dim_size=%d'')
                else hyperslab_bounds_loop starts counts strides dims))"
| "hyperslab_bounds_loop _ _ _ _ = Inr ()"

definition ValidateHyperslabBounds :: "u64 list \<Rightarrow> u64 list \<Rightarrow> u64 list \<Rightarrow> u64 list \<Rightarrow> unit result" where
  "ValidateHyperslabBounds start count stride dims =
     (if length start \<noteq> length dims \<or> length count \<noteq> length dims \<or> length stride \<noteq> length dims
      then Inl (Errorf ''hyperslab dimension mismatch: start=%d, count=%d, stride=%d, dims=%d'')
      else hyperslab_bounds_loop start count stride dims)"

fun hyperslab_elements_loop :: "u64 \<Rightarrow> u64 list \<Rightarrow> u64 result" where
  "hyperslab_elements_loop tot [] = Inr tot"
| "hyperslab_elements_loop tot (c # cs) =
     (if c = 0 then Inl (Errorf ''zero count at dimension %d'')
      else (case CheckMultiplyOverflow tot c of
              Inl e \<Rightarrow> Inl (Wrapf ''hyperslab element overflow at dimension %d: %w'' e)
            | Inr _ \<Rightarrow> hyperslab_elements_loop (tot * c) cs))"

definition CalculateHyperslabElements :: "u64 list \<Rightarrow> u64 result" where
  "CalculateHyperslabElements count =
     (if count = [] then Inl (Errorf ''empty hyperslab count'')
      else (case hyperslab_elements_loop 1 count of
              Inl e \<Rightarrow> Inl e
            | Inr tot \<Rightarrow>
                (case ValidateBufferSize tot MaxHyperslabElements ''hyperslab selection'' of
                   Inl e \<Rightarrow> Inl e
                 | Inr _ \<Rightarrow> Inr tot)))"

section \<open>The division test is exactly the overflow test\<close>

lemma div_test_iff:
  assumes "b \<noteq> (0 :: u64)"
  shows "a > (- 1) div b \<longleftrightarrow> 2 ^ 64 \<le> unat a * unat b"
proof -
  have "0 < unat b" using assms by (simp add: unat_gt_0)
  have "a > (- 1) div b \<longleftrightarrow> (2 ^ 64 - 1) div unat b < unat a"
    by (simp add: word_less_nat_alt unat_div unsigned_minus_1_eq_mask mask_eq_exp_minus_1)
  also have "\<dots> \<longleftrightarrow> 2 ^ 64 - 1 < unat a * unat b"
    using \<open>0 < unat b\<close> by (simp add: div_less_iff_less_mult)
  also have "\<dots> \<longleftrightarrow> 2 ^ 64 \<le> unat a * unat b"
    by auto
  finally show ?thesis .
qed

lemma unat_mult_exact: "unat a * unat b < 2 ^ 64 \<Longrightarrow> unat (a * b :: u64) = unat a * unat b"
  by (simp add: unat_mult_lem [THEN iffD1])

lemma unat_add_exact: "unat a + unat b < 2 ^ 64 \<Longrightarrow> unat (a + b :: u64) = unat a + unat b"
  by (simp add: unat_add_lem [THEN iffD1])

lemma CheckMultiplyOverflow_iff:
  "CheckMultiplyOverflow a b = Inr () \<longleftrightarrow> unat a * unat b < 2 ^ 64"
  by (auto simp: CheckMultiplyOverflow_def div_test_iff not_le)

lemma CheckMultiplyOverflow_cases:
  "(case CheckMultiplyOverflow a b of Inl e \<Rightarrow> f e | Inr u \<Rightarrow> g) =
   (if unat a * unat b < 2 ^ 64 then g
    else f (Errorf ''multiplication overflow: %d * %d exceeds uint64 max''))"
  by (auto simp: CheckMultiplyOverflow_def div_test_iff not_le)


lemma SafeMultiply_eq:
  "SafeMultiply a b =
     (if unat a * unat b < 2 ^ 64 then Inr (a * b)
      else Inl (Errorf ''multiplication overflow: %d * %d exceeds uint64 max''))"
  by (simp add: SafeMultiply_def CheckMultiplyOverflow_cases)

lemma chunk_dims_product_exact:
  "chunk_dims_product sz dims = Inr r \<Longrightarrow>
   unat r = unat sz * prod_list (map unat dims)"
proof (induction sz dims rule: chunk_dims_product.induct)
  case (1 sz)
  then show ?case by simp
next
  case (2 sz dim dims)
  have step: "unat sz * unat dim < 2 ^ 64"
    using "2.prems" by (cases "dim = 0") (auto simp: div_test_iff not_le word_gt_0 split: if_splits)
  with "2" have "unat r = unat (sz * dim) * prod_list (map unat dims)"
    by (auto split: if_splits)
  with step show ?case by (simp add: unat_mult_exact mult.assoc)
qed

lemma chunk_dims_product_complete:
  "0 \<notin> set dims \<Longrightarrow> unat sz * prod_list (map unat dims) < 2 ^ 64 \<Longrightarrow>
   chunk_dims_product sz dims = Inr (sz * prod_list dims)"
proof (induction sz dims rule: chunk_dims_product.induct)
  case (1 sz)
  then show ?case by simp
next
  case (2 sz dim dims)
  have "1 \<le> prod_list (map unat dims)"
    using "2.prems"(1) by (induction dims) (auto simp: Suc_le_eq unat_gt_0)
  then have "unat sz * unat dim \<le> unat sz * unat dim * prod_list (map unat dims)"
    by (cases "prod_list (map unat dims)") auto
  also have "\<dots> < 2 ^ 64" using "2.prems"(2) by (simp add: mult.assoc)
  finally have step: "unat sz * unat dim < 2 ^ 64" .
  have guard: "\<not> (dim > 0 \<and> sz > (- 1) div dim)"
    using step by (cases "dim = 0") (auto simp: div_test_iff not_le)
  have "unat (sz * dim) * prod_list (map unat dims) < 2 ^ 64"
    using "2.prems"(2) step by (simp add: unat_mult_exact mult.assoc)
  with "2.IH"[OF guard] "2.prems"(1) guard show ?case
    by (auto simp: mult.assoc)
qed

lemma unat_prod_list_exact:
  "0 \<notin> set dims \<Longrightarrow> prod_list (map unat dims) < 2 ^ 64 \<Longrightarrow>
   unat (prod_list dims :: u64) = prod_list (map unat dims)"
  using chunk_dims_product_complete [of dims 1] chunk_dims_product_exact [of 1 dims] by simp

lemma CalculateChunkSize_64:
  "CalculateChunkSize dims es = CalculateChunkSize64 (map ucast dims) es"
  by (simp add: CalculateChunkSize_def CalculateChunkSize64_def)

lemma CalculateChunkSize64_iff:
  assumes "0 \<notin> set dims"
  shows "CalculateChunkSize64 dims es = Inr c \<longleftrightarrow>
     dims \<noteq> [] \<and> es \<noteq> 0 \<and> unat c = prod_list (map unat dims) * unat es"
proof
  assume ok: "CalculateChunkSize64 dims es = Inr c"
  then obtain p where p: "chunk_dims_product 1 dims = Inr p" "dims \<noteq> []" "es \<noteq> 0" "c = p * es"
    and small: "unat p * unat es < 2 ^ 64"
    by (auto simp: CalculateChunkSize64_def div_test_iff not_le split: sum.splits if_splits)
  from chunk_dims_product_exact [OF p(1)] small p(2-4)
  show "dims \<noteq> [] \<and> es \<noteq> 0 \<and> unat c = prod_list (map unat dims) * unat es"
    by (simp add: unat_mult_exact)
next
  assume r: "dims \<noteq> [] \<and> es \<noteq> 0 \<and> unat c = prod_list (map unat dims) * unat es"
  then have big: "prod_list (map unat dims) * unat es < 2 ^ 64"
    using unat_u64_less [of c] by simp
  have "prod_list (map unat dims) \<le> prod_list (map unat dims) * unat es"
    using r by (cases "unat es") (auto simp: unat_eq_zero)
  from this big have p: "prod_list (map unat dims) < 2 ^ 64" by (rule le_less_trans)
  from chunk_dims_product_complete [OF assms, of 1] p
  have "chunk_dims_product 1 dims = Inr (prod_list dims)" by simp
  moreover have u: "unat (prod_list dims) = prod_list (map unat dims)"
    by (rule unat_prod_list_exact) (use assms p in auto)
  moreover have "prod_list dims * es = c"
    using r big u by (intro unat_eqD) (simp add: unat_mult_exact)
  ultimately show "CalculateChunkSize64 dims es = Inr c"
    using r big by (simp add: CalculateChunkSize64_def div_test_iff)
qed

lemma hyperslab_elements_loop_eq:
  "hyperslab_elements_loop tot cs = Inr r \<longleftrightarrow>
     0 \<notin> set cs \<and> chunk_dims_product tot cs = Inr r"
proof (induction cs arbitrary: tot)
  case Nil
  then show ?case by simp
next
  case (Cons c cs)
  then show ?case
    by (cases "c = 0") (auto simp: CheckMultiplyOverflow_cases div_test_iff not_le word_gt_0)
qed

text \<open>One dimension of a selection: the indices it picks, and what the check of the code decides.\<close>

lemma last_index_in_range:
  assumes "count \<noteq> (0::nat)"
  shows "start + (count - 1) * stride < dim \<longleftrightarrow> (\<forall>k<count. start + k * stride < (dim::nat))"
proof
  assume last: "start + (count - 1) * stride < dim"
  show "\<forall>k<count. start + k * stride < dim"
  proof (intro allI impI)
    fix k assume "k < count"
    then have "k * stride \<le> (count - 1) * stride" by (intro mult_le_mono1) simp
    with last show "start + k * stride < dim" by linarith
  qed
next
  assume "\<forall>k<count. start + k * stride < dim"
  with assms show "start + (count - 1) * stride < dim" by simp
qed

lemma unat_minus_1: "count \<noteq> (0 :: u64) \<Longrightarrow> unat (count - 1) = unat count - 1"
  by (simp add: unat_minus_one)

definition selected_in_range :: "u64 \<Rightarrow> u64 \<Rightarrow> u64 \<Rightarrow> u64 \<Rightarrow> bool" where
  "selected_in_range start count stride dim \<longleftrightarrow>
     count \<noteq> 0 \<and> (\<forall>k<unat count. unat start + k * unat stride < unat dim)"

definition sum_fits :: "u64 \<Rightarrow> u64 \<Rightarrow> u64 \<Rightarrow> bool" where
  "sum_fits start count stride \<longleftrightarrow> unat start + (unat count - 1) * unat stride < 2 ^ 64"

lemma bounds_step_iff:
  assumes "sum_fits start count stride"
  shows "hyperslab_bounds_loop (start # starts) (count # counts) (stride # strides) (dim # dims) = Inr () \<longleftrightarrow>
     selected_in_range start count stride dim \<and> hyperslab_bounds_loop starts counts strides dims = Inr ()"
proof (cases "count = 0")
  case True
  then show ?thesis by (simp add: selected_in_range_def)
next
  case False
  note c = unat_minus_1 [OF False]
  have fit: "unat start + (unat count - 1) * unat stride < 2 ^ 64"
    using assms by (simp add: sum_fits_def)
  then have mul: "unat (count - 1) * unat stride < 2 ^ 64" by (simp add: c)
  have "unat (start + (count - 1) * stride) = unat start + (unat count - 1) * unat stride"
    using fit mul by (simp only: c unat_mult_exact [OF mul] unat_add_exact)
  then have "\<not> start + (count - 1) * stride \<ge> dim \<longleftrightarrow> selected_in_range start count stride dim"
    using False last_index_in_range [of "unat count" "unat start" "unat stride" "unat dim"]
    by (simp add: selected_in_range_def word_less_nat_alt not_le unat_eq_zero)
  then show ?thesis using False mul by (auto simp: SafeMultiply_eq)
qed

fun selection_in_range :: "u64 list \<Rightarrow> u64 list \<Rightarrow> u64 list \<Rightarrow> u64 list \<Rightarrow> bool" where
  "selection_in_range (s # ss) (c # cs) (t # ts) (d # ds) \<longleftrightarrow>
     selected_in_range s c t d \<and> selection_in_range ss cs ts ds"
| "selection_in_range [] [] [] [] \<longleftrightarrow> True"
| "selection_in_range _ _ _ _ \<longleftrightarrow> False"

fun selection_fits :: "u64 list \<Rightarrow> u64 list \<Rightarrow> u64 list \<Rightarrow> bool" where
  "selection_fits (s # ss) (c # cs) (t # ts) \<longleftrightarrow> sum_fits s c t \<and> selection_fits ss cs ts"
| "selection_fits _ _ _ \<longleftrightarrow> True"

lemma hyperslab_bounds_loop_iff:
  "length start = length dims \<Longrightarrow> length count = length dims \<Longrightarrow> length stride = length dims \<Longrightarrow>
   selection_fits start count stride \<Longrightarrow>
   hyperslab_bounds_loop start count stride dims = Inr () \<longleftrightarrow> selection_in_range start count stride dims"
proof (induction start count stride dims rule: selection_in_range.induct)
  case (1 s ss c cs t ts d ds)
  then show ?case by (simp only: selection_fits.simps selection_in_range.simps bounds_step_iff) simp
qed simp_all

lemma selection_in_range_lengths:
  "selection_in_range start count stride dims \<Longrightarrow>
   length start = length dims \<and> length count = length dims \<and> length stride = length dims"
  by (induction start count stride dims rule: selection_in_range.induct) auto

section \<open>Properties\<close>

text \<open>
  \<^verbatim>\<open>SafeMultiply\<close> returns a value exactly when the mathematical product fits 64 bits, and the
  value is that product: the division test neither lets a wrap-around through nor rejects a
  product that fits.
\<close>

theorem SafeMultiply_exact:
  "SafeMultiply a b = Inr c \<longleftrightarrow> unat a * unat b < 2 ^ 64 \<and> unat c = unat a * unat b"
proof -
  have "a * b = c \<longleftrightarrow> unat c = unat a * unat b" if "unat a * unat b < 2 ^ 64"
    using unat_mult_exact [OF that] by (auto intro: unat_eqD)
  then show ?thesis by (auto simp: SafeMultiply_eq)
qed

text \<open>
  \<^verbatim>\<open>CalculateChunkSize\<close> on non-zero dimensions succeeds exactly when there is a dimension, the
  element size is not zero and the size in bytes, computed over the integers, fits 64 bits; then it
  returns that size. No intermediate product wraps and no legal chunk is refused.
\<close>

theorem CalculateChunkSize_exact:
  assumes "0 \<notin> set dims"
  shows "CalculateChunkSize dims es = Inr c \<longleftrightarrow>
     dims \<noteq> [] \<and> es \<noteq> 0 \<and> unat c = prod_list (map unat dims) * unat es"
proof -
  have "0 \<notin> set (map (ucast :: u32 \<Rightarrow> u64) dims)"
    using assms by auto
  from CalculateChunkSize64_iff [OF this, of es c] show ?thesis
    by (simp add: CalculateChunkSize_64 comp_def)
qed

theorem CalculateChunkSize_exact_witness:
  "0 \<notin> set [3, 5 :: u32] \<and> CalculateChunkSize [3, 5] 8 = Inr 120"
  using CalculateChunkSize_exact [of "[3, 5]" 8 120] by simp

text \<open>
  \<^verbatim>\<open>CalculateHyperslabElements\<close> accepts a list of counts exactly when it is not empty, no
  count is zero and the number of selected elements is at most \<^verbatim>\<open>MaxHyperslabElements\<close>; it returns
  the exact number.
\<close>

theorem CalculateHyperslabElements_exact:
  "CalculateHyperslabElements count = Inr n \<longleftrightarrow>
     count \<noteq> [] \<and> 0 \<notin> set count \<and> prod_list (map unat count) \<le> 1000000000 \<and>
     unat n = prod_list (map unat count)"
proof
  assume "CalculateHyperslabElements count = Inr n"
  then have "count \<noteq> []" and loop: "hyperslab_elements_loop 1 count = Inr n"
    and "n \<noteq> 0" "n \<le> MaxHyperslabElements"
    by (auto simp: CalculateHyperslabElements_def ValidateBufferSize_def not_less
        split: sum.splits if_splits)
  from loop have "0 \<notin> set count" and p: "chunk_dims_product 1 count = Inr n"
    by (simp_all add: hyperslab_elements_loop_eq)
  moreover have "unat n \<le> 1000000000"
    using \<open>n \<le> MaxHyperslabElements\<close> by (simp add: MaxHyperslabElements_def word_le_nat_alt)
  ultimately show "count \<noteq> [] \<and> 0 \<notin> set count \<and> prod_list (map unat count) \<le> 1000000000 \<and>
     unat n = prod_list (map unat count)"
    using chunk_dims_product_exact [OF p] \<open>count \<noteq> []\<close> by simp
next
  assume r: "count \<noteq> [] \<and> 0 \<notin> set count \<and> prod_list (map unat count) \<le> 1000000000 \<and>
     unat n = prod_list (map unat count)"
  then have nz: "0 \<notin> set count" and small: "prod_list (map unat count) < 2 ^ 64" by auto
  have "unat (prod_list count) = unat n"
    using unat_prod_list_exact [OF nz small] r by simp
  then have n: "prod_list count = n" by (rule unat_eqD)
  have "prod_list (map unat count) \<noteq> 0"
    using nz by (auto simp: prod_list_zero_iff unat_eq_zero)
  then have "n \<noteq> 0" using r by auto
  moreover have "n \<le> MaxHyperslabElements"
    using r by (simp add: MaxHyperslabElements_def word_le_nat_alt)
  moreover have "hyperslab_elements_loop 1 count = Inr n"
    using nz small n chunk_dims_product_complete [of count 1]
    by (simp add: hyperslab_elements_loop_eq)
  ultimately show "CalculateHyperslabElements count = Inr n"
    using r by (simp add: CalculateHyperslabElements_def ValidateBufferSize_def not_less)
qed

text \<open>
  When no index sum \<^verbatim>\<open>start + (count - 1) * stride\<close> leaves 64 bits,
  \<^verbatim>\<open>ValidateHyperslabBounds\<close> accepts a selection exactly when the four lists have the same length and,
  in every dimension, the count is not zero and every selected index lies inside the dataset.
\<close>

theorem ValidateHyperslabBounds_correct:
  assumes "selection_fits start count stride"
  shows "ValidateHyperslabBounds start count stride dims = Inr () \<longleftrightarrow>
     selection_in_range start count stride dims"
  using assms hyperslab_bounds_loop_iff [of start dims count stride]
    selection_in_range_lengths [of start count stride dims]
  by (auto simp: ValidateHyperslabBounds_def)

theorem ValidateHyperslabBounds_correct_witness:
  "selection_fits [1, 0] [2, 3] [4, 1] \<and> ValidateHyperslabBounds [1, 0] [2, 3] [4, 1] [6, 3] = Inr () \<and>
   selection_in_range [1, 0] [2, 3] [4, 1] [6, 3]"
proof -
  have fits: "selection_fits [1, 0] [2, 3] [4, 1]" by (simp add: sum_fits_def)
  have "ValidateHyperslabBounds [1, 0] [2, 3] [4, 1] [6, 3] = Inr ()"
    by (simp add: ValidateHyperslabBounds_def SafeMultiply_eq)
  with ValidateHyperslabBounds_correct [OF fits, of "[6, 3]"] fits show ?thesis by simp
qed

text \<open>
  The precondition of the previous theorem is needed: the addition \<^verbatim>\<open>start[i] + maxIndex\<close> is not
  checked for overflow, so a selection that starts at the last 64-bit index and takes two elements is
  accepted for a dataset of ten elements, although its first index is already far outside.
\<close>

theorem ValidateHyperslabBounds_wraps:
  "ValidateHyperslabBounds [- 1] [2] [1] [10] = Inr () \<and>
   \<not> selection_in_range [- 1] [2] [1] [10]"
  by (auto simp: ValidateHyperslabBounds_def SafeMultiply_eq selected_in_range_def
      unsigned_minus_1_eq_mask mask_eq_exp_minus_1 intro!: exI [of _ 0])

end
