(* ===== verification/Chunking.thy ===== *)
theory Chunking
  imports Overflow
begin

text \<open>
  \<^verbatim>\<open>internal/writer/chunk_coordinator.go\<close>: the decomposition of an N-dimensional dataset into
  chunks. A coordinator holds the dataset dimensions, the chunk dimensions and the number of chunks
  per dimension. The development shows that the linear chunk index and the chunk coordinate are in
  bijection, that the chunks partition the elements of the dataset, and that
  \<^verbatim>\<open>ExtractChunkData\<close>, which copies element by element through two running byte offsets,
  returns exactly the elements of the chunk in row-major order.
\<close>

section \<open>The coordinator\<close>

record ChunkCoordinator =
  datasetDims :: "u64 list"
  chunkDims :: "u64 list"
  numChunks :: "u64 list"

definition NewChunkCoordinator :: "u64 list \<Rightarrow> u64 list \<Rightarrow> ChunkCoordinator result" where
  "NewChunkCoordinator dsDims ckDims =
     (if length dsDims \<noteq> length ckDims
      then Inl (Errorf ''dimensions mismatch: dataset has %d dims, chunk has %d dims'')
      else if length dsDims = 0 then Inl (Errorf ''dataset must have at least 1 dimension'')
      else if list_ex (\<lambda>dim. dim = 0) dsDims then Inl (Errorf ''dataset dimension %d cannot be zero'')
      else if list_ex (\<lambda>dim. dim = 0) ckDims then Inl (Errorf ''chunk dimension %d cannot be zero'')
      else Inr \<lparr>datasetDims = dsDims, chunkDims = ckDims,
                numChunks = map2 (\<lambda>d c. (d + c - 1) div c) dsDims ckDims\<rparr>)"

definition GetTotalChunks :: "ChunkCoordinator \<Rightarrow> u64" where
  "GetTotalChunks cc = foldl (*) 1 (numChunks cc)"

text \<open>
  The loop of \<^verbatim>\<open>GetChunkCoordinate\<close> runs from the last dimension to the first; the list of the
  loop is the list of chunk counts in that order.
\<close>

fun coordinate_loop :: "u64 \<Rightarrow> u64 list \<Rightarrow> u64 list result" where
  "coordinate_loop remaining [] = Inr []"
| "coordinate_loop remaining (n # ns) =
     (if n = 0 then Inl divide_panic
      else (case coordinate_loop (remaining div n) ns of
              Inl e \<Rightarrow> Inl e
            | Inr coord \<Rightarrow> Inr (remaining mod n # coord)))"

definition GetChunkCoordinate :: "ChunkCoordinator \<Rightarrow> u64 \<Rightarrow> u64 list result" where
  "GetChunkCoordinate cc index =
     (case coordinate_loop index (rev (numChunks cc)) of
        Inl e \<Rightarrow> Inl e
      | Inr coord \<Rightarrow> Inr (rev coord))"

definition chunk_extent :: "u64 \<Rightarrow> u64 \<Rightarrow> u64 \<Rightarrow> u64" where
  "chunk_extent x c d =
     (let start = x * c; stop = start + c
      in (if stop > d then d else stop) - start)"

fun chunk_size_loop :: "u64 list \<Rightarrow> u64 list \<Rightarrow> u64 list \<Rightarrow> u64 list result" where
  "chunk_size_loop [] cs ds = Inr []"
| "chunk_size_loop (x # xs) (c # cs) (d # ds) =
     (case chunk_size_loop xs cs ds of
        Inl e \<Rightarrow> Inl e
      | Inr sizes \<Rightarrow> Inr (chunk_extent x c d # sizes))"
| "chunk_size_loop (x # xs) _ _ = Inl index_panic"

definition GetChunkSize :: "ChunkCoordinator \<Rightarrow> u64 list \<Rightarrow> u64 list result" where
  "GetChunkSize cc coord = chunk_size_loop coord (chunkDims cc) (datasetDims cc)"

definition copy_element :: "bytes \<Rightarrow> u64 \<Rightarrow> u64 \<Rightarrow> u32 \<Rightarrow> bytes \<Rightarrow> bytes result" where
  "copy_element src srcOff dstOff elemSize dst =
     (let n = unat elemSize;
          s = unat srcOff; s' = unat (srcOff + ucast elemSize);
          t = unat dstOff; t' = unat (dstOff + ucast elemSize)
      in if s \<le> s' \<and> s' \<le> length src \<and> t \<le> t' \<and> t' \<le> length dst
         then Inr (blit dst t (take n (drop s src)))
         else Inl slice_panic)"

fun repeat_loop :: "(nat \<Rightarrow> 's \<Rightarrow> 's result) \<Rightarrow> nat \<Rightarrow> 's \<Rightarrow> 's result" where
  "repeat_loop f 0 s = Inr s"
| "repeat_loop f (Suc n) s =
     (case repeat_loop f n s of Inl e \<Rightarrow> Inl e | Inr s' \<Rightarrow> f n s')"

text \<open>
  The arguments of \<open>extractRecursive\<close> are the suffixes of the coordinate, the chunk dimensions, the
  dataset dimensions and the chunk sizes from the current dimension on, so the two stride loops are
  products over the tails.
\<close>

fun extractRecursive ::
    "bytes \<Rightarrow> u64 list \<Rightarrow> u64 list \<Rightarrow> u64 list \<Rightarrow> u64 list \<Rightarrow> u64 \<Rightarrow> u64 \<Rightarrow> u32 \<Rightarrow> bytes \<Rightarrow> bytes result" where
  "extractRecursive src (x # xs) (c # cs) (d # ds) (n # ns) srcOff dstOff elemSize dst =
     (let dsStride = foldl (*) 1 ds * ucast elemSize;
          chunkStride = foldl (*) 1 ns * ucast elemSize;
          start = x * c
      in repeat_loop
           (\<lambda>i. extractRecursive src xs cs ds ns
                  (srcOff + (start + of_nat i) * dsStride) (dstOff + of_nat i * chunkStride) elemSize)
           (unat n) dst)"
| "extractRecursive src _ _ [] _ srcOff dstOff elemSize dst = copy_element src srcOff dstOff elemSize dst"
| "extractRecursive src _ _ _ _ srcOff dstOff elemSize dst = Inl index_panic"

definition ExtractChunkData :: "ChunkCoordinator \<Rightarrow> bytes \<Rightarrow> u64 list \<Rightarrow> u32 \<Rightarrow> bytes result" where
  "ExtractChunkData cc src coord elemSize =
     (case GetChunkSize cc coord of
        Inl e \<Rightarrow> Inl e
      | Inr chunkSize \<Rightarrow>
          (let n = foldl (*) 1 chunkSize * ucast elemSize
           in if 2 ^ 63 \<le> unat n then Inl makeslice_panic
              else extractRecursive src coord (chunkDims cc) (datasetDims cc) chunkSize 0 0 elemSize
                     (zeros (unat n))))"

text \<open>The accessors return copies.\<close>

definition DatasetDims :: "ChunkCoordinator \<Rightarrow> u64 list" where
  "DatasetDims cc = map (\<lambda>d. d) (datasetDims cc)"

definition ChunkDims :: "ChunkCoordinator \<Rightarrow> u64 list" where
  "ChunkDims cc = map (\<lambda>d. d) (chunkDims cc)"

definition NumChunks :: "ChunkCoordinator \<Rightarrow> u64 list" where
  "NumChunks cc = map (\<lambda>d. d) (numChunks cc)"

section \<open>Row-major order\<close>

text \<open>
  \<open>row_major dims idx\<close> is the position of the index vector \<open>idx\<close> in the row-major layout of an
  array with dimensions \<open>dims\<close>.
\<close>

fun row_major :: "nat list \<Rightarrow> nat list \<Rightarrow> nat" where
  "row_major (n # ns) (x # xs) = x * prod_list ns + row_major ns xs"
| "row_major _ _ = 0"

lemma row_major_snoc:
  "length ns = length xs \<Longrightarrow> row_major (ns @ [n]) (xs @ [x]) = row_major ns xs * n + x"
  by (induction ns xs rule: list_induct2) (auto simp: algebra_simps)

lemma row_major_less:
  "list_all2 (<) xs ns \<Longrightarrow> row_major ns xs < prod_list ns"
proof (induction xs ns rule: list_all2_induct)
  case Nil
  then show ?case by simp
next
  case (Cons x xs n ns)
  then have "x * prod_list ns + row_major ns xs < Suc x * prod_list ns" by simp
  also have "\<dots> \<le> n * prod_list ns" using Cons by (intro mult_right_mono) auto
  finally show ?case by simp
qed

lemma row_major_inj:
  assumes "list_all2 (<) xs ns" "list_all2 (<) ys ns" "row_major ns xs = row_major ns ys"
  shows "xs = ys"
  using assms
proof (induction xs ns arbitrary: ys rule: list_all2_induct)
  case Nil
  then show ?case by simp
next
  case (Cons x xs n ns)
  then obtain y ys' where ys: "ys = y # ys'" "y < n" "list_all2 (<) ys' ns"
    by (auto simp: list_all2_Cons2)
  let ?p = "prod_list ns"
  have eq: "x * ?p + row_major ns xs = y * ?p + row_major ns ys'"
    using Cons.prems ys by simp
  have bx: "row_major ns xs < ?p" and by': "row_major ns ys' < ?p"
    using Cons.hyps ys by (auto intro: row_major_less)
  have "(x * ?p + row_major ns xs) div ?p = x" "(y * ?p + row_major ns ys') div ?p = y"
    using bx by' by simp_all
  with eq have "x = y" by metis
  with eq Cons.IH [OF ys(3)] ys show ?case by simp
qed


section \<open>Chunk coordinates\<close>

lemma coordinate_loop_correct:
  assumes "0 \<notin> set ns"
  shows "\<exists>xs. coordinate_loop r ns = Inr xs \<and> list_all2 (<) (map unat xs) (map unat ns)
           \<and> row_major (rev (map unat ns)) (rev (map unat xs)) = unat r mod prod_list (map unat ns)"
  using assms
proof (induction r ns rule: coordinate_loop.induct)
  case (1 r)
  then show ?case by simp
next
  case (2 r n ns)
  then obtain xs where xs: "coordinate_loop (r div n) ns = Inr xs"
      "list_all2 (<) (map unat xs) (map unat ns)"
      "row_major (rev (map unat ns)) (rev (map unat xs)) = unat (r div n) mod prod_list (map unat ns)"
    by auto
  have n: "0 < unat n" using 2 by (simp add: unat_gt_0)
  have len: "length (rev (map unat ns)) = length (rev (map unat xs))"
    using list_all2_lengthD [OF xs(2)] by simp
  have "row_major (rev (map unat (n # ns))) (rev (map unat (r mod n # xs)))
      = (unat r div unat n mod prod_list (map unat ns)) * unat n + unat r mod unat n"
    using row_major_snoc [OF len] xs(3) by (simp add: unat_div unat_mod)
  also have "\<dots> = unat r mod prod_list (map unat (n # ns))"
    by (simp add: mod_mult2_eq)
  finally show ?case using 2 xs n by (auto simp: unat_mod)
qed

lemma GetChunkCoordinate_correct:
  assumes "0 \<notin> set (numChunks cc)"
  shows "\<exists>coord. GetChunkCoordinate cc r = Inr coord
           \<and> list_all2 (<) (map unat coord) (map unat (numChunks cc))
           \<and> row_major (map unat (numChunks cc)) (map unat coord)
               = unat r mod prod_list (map unat (numChunks cc))"
proof -
  obtain xs where xs: "coordinate_loop r (rev (numChunks cc)) = Inr xs"
      "list_all2 (<) (map unat xs) (map unat (rev (numChunks cc)))"
      "row_major (rev (map unat (rev (numChunks cc)))) (rev (map unat xs))
         = unat r mod prod_list (map unat (rev (numChunks cc)))"
    using coordinate_loop_correct [of "rev (numChunks cc)" r] assms by auto
  have "list_all2 (<) (map unat (rev xs)) (map unat (numChunks cc))"
    using xs(2) by (metis list_all2_rev rev_map rev_rev_ident)
  moreover have "prod_list (map unat (rev (numChunks cc))) = prod_list (map unat (numChunks cc))"
    by (simp add: rev_map [symmetric])
  ultimately show ?thesis
    using xs by (auto simp: GetChunkCoordinate_def rev_map)
qed

text \<open>The number of chunks of a dimension is the ceiling of the quotient, when the sum fits.\<close>

lemma ceil_div_less_iff:
  assumes "0 < c" shows "x < (d + c - Suc 0) div c \<longleftrightarrow> x * c < (d :: nat)"
proof -
  have "x < (d + c - Suc 0) div c \<longleftrightarrow> Suc x * c \<le> d + c - Suc 0"
    using assms by (simp add: less_eq_div_iff_mult_less_eq Suc_le_eq [symmetric] del: mult_Suc)
  then show ?thesis using assms by auto
qed

lemma num_chunks_exact:
  assumes "(0::u64) < c" "0 < d" "unat d + unat c \<le> 2 ^ 64"
  shows "unat ((d + c - 1) div c) = (unat d + unat c - 1) div unat c"
proof -
  have "unat c \<ge> 1" "unat d \<ge> 1" using assms by (auto simp: Suc_le_eq unat_gt_0)
  have "d + c - 1 = of_nat (unat d + unat c - 1)"
    using \<open>unat c \<ge> 1\<close> by (simp add: of_nat_diff)
  also have "unat \<dots> = unat d + unat c - 1"
    using assms \<open>unat c \<ge> 1\<close> by (intro unat_of_nat_less) simp
  finally show ?thesis by (simp add: unat_div)
qed

definition dims_fit :: "u64 list \<Rightarrow> u64 list \<Rightarrow> bool" where
  "dims_fit ds cs = list_all2 (\<lambda>d c. 0 < d \<and> 0 < c \<and> unat d + unat c \<le> 2 ^ 64) ds cs"

definition valid_coord :: "ChunkCoordinator \<Rightarrow> u64 list \<Rightarrow> bool" where
  "valid_coord cc coord =
     list_all2 (\<lambda>x (c, d). unat x * unat c < unat d) coord (zip (chunkDims cc) (datasetDims cc))"

lemma NewChunkCoordinator_Inr:
  assumes "NewChunkCoordinator ds cs = Inr cc"
  shows "datasetDims cc = ds" "chunkDims cc = cs"
    "numChunks cc = map2 (\<lambda>d c. (d + c - 1) div c) ds cs" "length cs = length ds"
    "0 \<notin> set ds" "0 \<notin> set cs" "ds \<noteq> []"
  using assms by (auto simp: NewChunkCoordinator_def list_ex_iff split: if_splits)

lemma numChunks_valid:
  assumes "dims_fit ds cs"
  shows "list_all2 (<) (map unat coord) (map unat (map2 (\<lambda>d c. (d + c - 1) div c) ds cs))
    \<longleftrightarrow> list_all2 (\<lambda>x (c, d). unat x * unat c < unat d) coord (zip cs ds)"
  using assms unfolding dims_fit_def
proof (induction ds cs arbitrary: coord rule: list_all2_induct)
  case Nil
  then show ?case by simp
next
  case (Cons d ds c cs)
  have "unat ((d + c - 1) div c) = (unat d + unat c - 1) div unat c" "0 < unat c"
    using Cons num_chunks_exact by (auto simp: unat_gt_0 word_gt_0)
  with Cons.IH show ?case
    by (cases coord) (auto simp: ceil_div_less_iff)
qed

lemma numChunks_nonzero:
  assumes "dims_fit ds cs" shows "0 \<notin> set (map2 (\<lambda>d c. (d + c - 1) div c) ds cs)"
  using assms unfolding dims_fit_def
proof (induction ds cs rule: list_all2_induct)
  case Nil
  then show ?case by simp
next
  case (Cons d ds c cs)
  have "unat ((d + c - 1) div c) = (unat d + unat c - 1) div unat c" "0 < unat c" "0 < unat d"
    using Cons num_chunks_exact by (auto simp: unat_gt_0 word_gt_0)
  then have "0 < unat ((d + c - 1) div c)" by (simp add: ceil_div_less_iff)
  with Cons.IH show ?case by (auto simp: unat_gt_0)
qed

lemma foldl_times_prod_list: "foldl (*) a xs = a * prod_list (xs :: 'a::comm_monoid_mult list)"
  by (induction xs arbitrary: a) (auto simp: ac_simps)

lemma GetTotalChunks_exact:
  assumes "0 \<notin> set (numChunks cc)" "prod_list (map unat (numChunks cc)) < 2 ^ 64"
  shows "unat (GetTotalChunks cc) = prod_list (map unat (numChunks cc))"
  using unat_prod_list_exact [OF assms] by (simp add: GetTotalChunks_def foldl_times_prod_list)

lemma GetChunkCoordinate_bij:
  assumes new: "NewChunkCoordinator ds cs = Inr cc" and fit: "dims_fit ds cs"
    and tot: "prod_list (map unat (numChunks cc)) < 2 ^ 64"
  shows "i < GetTotalChunks cc \<Longrightarrow> \<exists>coord. GetChunkCoordinate cc i = Inr coord \<and> valid_coord cc coord
            \<and> row_major (map unat (numChunks cc)) (map unat coord) = unat i"
    and "valid_coord cc coord \<Longrightarrow> \<exists>!i. i < GetTotalChunks cc \<and> GetChunkCoordinate cc i = Inr coord"
proof -
  note cc = NewChunkCoordinator_Inr [OF new]
  let ?N = "map unat (numChunks cc)"
  have nz: "0 \<notin> set (numChunks cc)" using numChunks_nonzero [OF fit] cc by simp
  have valid: "list_all2 (<) (map unat coord) ?N \<longleftrightarrow> valid_coord cc coord" for coord
    using numChunks_valid [OF fit, of coord] cc by (simp add: valid_coord_def)
  note total = GetTotalChunks_exact [OF nz tot]
  show fwd: "\<exists>coord. GetChunkCoordinate cc i = Inr coord \<and> valid_coord cc coord
      \<and> row_major ?N (map unat coord) = unat i" if "i < GetTotalChunks cc" for i
    using GetChunkCoordinate_correct [OF nz, of i] that total valid
    by (auto simp: word_less_nat_alt)
  show "\<exists>!i. i < GetTotalChunks cc \<and> GetChunkCoordinate cc i = Inr coord"
    if "valid_coord cc coord" for coord
  proof -
    have in_range: "list_all2 (<) (map unat coord) ?N" using that valid by simp
    let ?i = "of_nat (row_major ?N (map unat coord)) :: u64"
    have i: "unat ?i = row_major ?N (map unat coord)"
      using row_major_less [OF in_range] tot by (simp add: unat_of_nat_less)
    then have less: "?i < GetTotalChunks cc"
      using row_major_less [OF in_range] total by (simp add: word_less_nat_alt)
    from fwd [OF less] obtain coord' where c': "GetChunkCoordinate cc ?i = Inr coord'"
        "valid_coord cc coord'" "row_major ?N (map unat coord') = unat ?i" by auto
    have "map unat coord' = map unat coord"
      using row_major_inj [of "map unat coord'" ?N "map unat coord"] c' valid in_range i by simp
    then have "coord' = coord" by (metis unat_eqD inj_map_eq_map injI)
    moreover have "j = ?i" if "j < GetTotalChunks cc" "GetChunkCoordinate cc j = Inr coord" for j
      using fwd [OF that(1)] that(2) by (auto intro: unat_eqD)
    ultimately show ?thesis using c'(1) less by blast
  qed
qed

text \<open>
  For a dataset whose chunk count fits 64 bits, the linear chunk indices below
  \<^verbatim>\<open>GetTotalChunks()\<close> and the chunk coordinates that start inside the dataset are in one-to-one
  correspondence through \<^verbatim>\<open>GetChunkCoordinate\<close>, in row-major order.
\<close>

theorem GetChunkCoordinate_bijective:
  assumes "NewChunkCoordinator ds cs = Inr cc" "dims_fit ds cs"
    "prod_list (map unat (numChunks cc)) < 2 ^ 64"
  shows "(\<forall>i < GetTotalChunks cc. \<exists>coord. GetChunkCoordinate cc i = Inr coord \<and> valid_coord cc coord
            \<and> row_major (map unat (NumChunks cc)) (map unat coord) = unat i)
       \<and> (\<forall>coord. valid_coord cc coord \<longrightarrow>
            (\<exists>!i. i < GetTotalChunks cc \<and> GetChunkCoordinate cc i = Inr coord))"
  using GetChunkCoordinate_bij [OF assms] by (simp add: NumChunks_def)

theorem GetChunkCoordinate_bijective_witness:
  "\<exists>!i. i < 12 \<and> GetChunkCoordinate (projr (NewChunkCoordinator [25, 35] [10, 10])) i = Inr [2, 3]"
proof -
  let ?cc = "\<lparr>datasetDims = [25, 35], chunkDims = [10, 10], numChunks = [3, 4]\<rparr> :: ChunkCoordinator"
  have new: "NewChunkCoordinator [25, 35] [10, 10] = Inr ?cc"
    by (simp add: NewChunkCoordinator_def)
  have "dims_fit [25, 35] [10, 10]" "prod_list (map unat (numChunks ?cc)) < 2 ^ 64"
    by (simp_all add: dims_fit_def)
  from GetChunkCoordinate_bijective [OF new this]
  have "valid_coord ?cc [2, 3] \<longrightarrow> (\<exists>!i. i < GetTotalChunks ?cc \<and> GetChunkCoordinate ?cc i = Inr [2, 3])"
    by blast
  moreover have "valid_coord ?cc [2, 3]" "GetTotalChunks ?cc = 12"
    by (simp_all add: valid_coord_def GetTotalChunks_def)
  ultimately show ?thesis by (simp add: new)
qed

section \<open>The cells of a chunk\<close>

lemma chunk_extent_exact:
  assumes "unat x * unat c < unat d" "unat d + unat c \<le> 2 ^ 64"
  shows "unat (chunk_extent x c d)
       = min (unat x * unat c + unat c) (unat d) - unat x * unat c"
proof -
  have s: "unat (x * c) = unat x * unat c"
    using assms by (intro unat_mult_exact) (simp add: less_le_trans [OF assms(1)])
  have e: "unat (x * c + c) = unat x * unat c + unat c"
    using assms s by (subst unat_add_exact) simp_all
  show ?thesis
    using assms s e
    by (auto simp: chunk_extent_def Let_def word_less_nat_alt unat_sub word_le_nat_alt min_def)
qed

text \<open>
  \<open>chunk_cells cc coord\<close> are the index vectors of the dataset that lie in the chunk, in row-major
  order: the product of the ranges that start at \<open>coord[i] * chunkDims[i]\<close> and have the length that
  \<^verbatim>\<open>GetChunkSize\<close> returns.
\<close>

definition ranges :: "u64 list \<Rightarrow> u64 list \<Rightarrow> u64 list \<Rightarrow> nat list list" where
  "ranges coord cs sizes =
     map (\<lambda>(x, c, n). [unat x * unat c..<unat x * unat c + unat n]) (zip coord (zip cs sizes))"

definition chunk_cells :: "ChunkCoordinator \<Rightarrow> u64 list \<Rightarrow> nat list list" where
  "chunk_cells cc coord =
     (case GetChunkSize cc coord of
        Inl e \<Rightarrow> []
      | Inr sizes \<Rightarrow> product_lists (ranges coord (chunkDims cc) sizes))"

lemma chunk_size_loop_Inr:
  "length coord = length cs \<Longrightarrow> length cs = length ds \<Longrightarrow>
   chunk_size_loop coord cs ds = Inr (map (\<lambda>(x, c, d). chunk_extent x c d) (zip coord (zip cs ds)))"
  by (induction coord cs ds rule: list_induct3) auto

lemma range_member_iff:
  assumes "unat x * unat c < unat d" "unat d + unat c \<le> 2 ^ 64" "0 < c"
  shows "unat x * unat c \<le> k \<and> k < unat x * unat c + unat (chunk_extent x c d)
     \<longleftrightarrow> k < unat d \<and> unat x = k div unat c"
proof -
  have "0 < unat c" using assms by (simp add: unat_gt_0 word_gt_0)
  then have "unat x * unat c \<le> k \<and> k < unat x * unat c + unat c \<longleftrightarrow> unat x = k div unat c"
    by (metis add.commute div_mult_self1_is_m div_nat_eqI dividend_less_times_div mult.commute
        mult_Suc times_div_less_eq_dividend)
  then show ?thesis
    using chunk_extent_exact [OF assms(1,2)] assms(1) by (auto simp: min_def split: if_splits)
qed

lemma ranges_member_iff:
  assumes "dims_fit ds cs" "list_all2 (\<lambda>x (c, d). unat x * unat c < unat d) coord (zip cs ds)"
  shows "list_all2 (\<lambda>k ks. k \<in> set ks) idx
           (ranges coord cs (map (\<lambda>(x, c, d). chunk_extent x c d) (zip coord (zip cs ds))))
     \<longleftrightarrow> list_all2 (<) idx (map unat ds) \<and> map unat coord = map2 (\<lambda>k c. k div unat c) idx cs"
  using assms unfolding dims_fit_def
proof (induction ds cs arbitrary: coord idx rule: list_all2_induct)
  case Nil
  then show ?case by (auto simp: ranges_def)
next
  case (Cons d ds c cs)
  then obtain x xs where coord: "coord = x # xs" and x: "unat x * unat c < unat d"
      and xs: "list_all2 (\<lambda>x (c, d). unat x * unat c < unat d) xs (zip cs ds)"
    by (auto simp: list_all2_Cons2)
  note rm = range_member_iff [OF x, of k for k]
  show ?case
    using Cons.hyps rm Cons.IH [OF xs]
    by (cases idx) (auto simp: coord ranges_def)
qed

lemma valid_coord_length:
  "valid_coord cc coord \<Longrightarrow> length (chunkDims cc) = length (datasetDims cc) \<Longrightarrow>
   length coord = length (chunkDims cc)"
  unfolding valid_coord_def by (drule list_all2_lengthD) simp

lemma chunk_cells_iff:
  assumes "NewChunkCoordinator ds cs = Inr cc" "dims_fit ds cs" "valid_coord cc coord"
  shows "idx \<in> set (chunk_cells cc coord)
     \<longleftrightarrow> list_all2 (<) idx (map unat ds) \<and> map unat coord = map2 (\<lambda>k c. k div unat c) idx cs"
proof -
  note cc = NewChunkCoordinator_Inr [OF assms(1)]
  have "length coord = length cs" using valid_coord_length [OF assms(3)] cc by simp
  then have "chunk_cells cc coord = product_lists
      (ranges coord cs (map (\<lambda>(x, c, d). chunk_extent x c d) (zip coord (zip cs ds))))"
    using cc by (simp add: chunk_cells_def GetChunkSize_def chunk_size_loop_Inr)
  then show ?thesis
    using ranges_member_iff [OF assms(2), of coord idx] assms(3) cc
    by (simp add: valid_coord_def product_lists_set)
qed

lemma index_coord:
  assumes "dims_fit ds cs" "list_all2 (<) idx (map unat ds)"
  shows "map unat (map2 (\<lambda>k c. of_nat (k div unat c)) idx cs :: u64 list) = map2 (\<lambda>k c. k div unat c) idx cs
     \<and> list_all2 (\<lambda>x (c, d). unat x * unat c < unat d)
         (map2 (\<lambda>k c. of_nat (k div unat c)) idx cs :: u64 list) (zip cs ds)"
  using assms unfolding dims_fit_def
proof (induction ds cs arbitrary: idx rule: list_all2_induct)
  case Nil
  then show ?case by simp
next
  case (Cons d ds c cs)
  then obtain k ks where idx: "idx = k # ks" "k < unat d" "list_all2 (<) ks (map unat ds)"
    by (auto simp: list_all2_Cons2)
  have le: "k div unat c * unat c < unat d" using idx(2) by (rule le_less_trans [rotated]) simp
  have "k div unat c < 2 ^ 64"
    by (rule le_less_trans [OF div_le_dividend less_trans [OF idx(2)]]) simp
  then have "unat (of_nat (k div unat c) :: u64) = k div unat c"
    by (simp add: unat_of_nat_less)
  with Cons.IH [OF idx(3)] idx le show ?case by simp
qed



section \<open>Extraction of a chunk\<close>

lemma repeat_loop_blit:
  assumes step: "\<And>i d. i < n \<Longrightarrow> length d = length dst \<Longrightarrow> f i d = Inr (blit d (off + i * w) (g i))"
    and len: "\<And>i. i < n \<Longrightarrow> length (g i) = w" and fits: "off + n * w \<le> length dst"
  shows "repeat_loop f n dst = Inr (blit dst off (concat (map g [0..<n])))"
  using assms
proof (induction n)
  case 0
  then show ?case by simp
next
  case (Suc n)
  let ?p = "concat (map g [0..<n])"
  have lp: "length ?p = n * w"
    using Suc.prems(2) by (subst length_concat_const [where w = w]) auto
  have "repeat_loop f n dst = Inr (blit dst off ?p)"
    using Suc.prems by (intro Suc.IH) auto
  moreover have "f n (blit dst off ?p) = Inr (blit (blit dst off ?p) (off + n * w) (g n))"
    using Suc.prems lp by simp
  moreover have "blit (blit dst off ?p) (off + n * w) (g n) = blit dst off (?p @ g n)"
    using blit_adjacent [of off ?p "g n" dst] Suc.prems lp by simp
  ultimately show ?case by simp
qed

text \<open>The element of \<open>src\<close> at an index vector, and the elements of a box in row-major order.\<close>

definition element_at :: "bytes \<Rightarrow> nat \<Rightarrow> nat \<Rightarrow> nat list \<Rightarrow> nat list \<Rightarrow> bytes" where
  "element_at src es off dims idx = take es (drop (off + row_major dims idx * es) src)"

definition elements :: "bytes \<Rightarrow> nat \<Rightarrow> nat \<Rightarrow> nat list \<Rightarrow> nat list list \<Rightarrow> bytes" where
  "elements src es off dims idxs = concat (map (element_at src es off dims) idxs)"

lemma concat_map_concat: "concat (map f (concat xss)) = concat (map (\<lambda>xs. concat (map f xs)) xss)"
  by (induction xss) auto

lemma elements_product_Cons:
  "elements src es off (d # ds) (product_lists ([s..<s + n] # rs))
     = concat (map (\<lambda>i. elements src es (off + (s + i) * (prod_list ds * es)) ds (product_lists rs)) [0..<n])"
proof -
  have shift: "[s..<s + n] = map (\<lambda>i. s + i) [0..<n]"
    by (induction n) auto
  show ?thesis
    unfolding shift
    by (simp add: elements_def element_at_def [abs_def] concat_map_concat comp_def algebra_simps)
qed

text \<open>A box inside the dataset: \<open>n\<close> cells from \<open>x * c\<close> on, in every dimension.\<close>

fun box_ok :: "u64 list \<Rightarrow> u64 list \<Rightarrow> u64 list \<Rightarrow> u64 list \<Rightarrow> bool" where
  "box_ok [] [] [] [] = True"
| "box_ok (x # xs) (c # cs) (d # ds) (n # ns) \<longleftrightarrow>
     unat x * unat c + unat n \<le> unat d \<and> 0 < unat n \<and> box_ok xs cs ds ns"
| "box_ok _ _ _ _ = False"

lemma box_ok_idx:
  "box_ok xs cs ds ns \<Longrightarrow> idx \<in> set (product_lists (ranges xs cs ns)) \<Longrightarrow>
   list_all2 (<) idx (map unat ds)"
  by (induction xs cs ds ns arbitrary: idx rule: box_ok.induct) (auto simp: ranges_def)

lemma box_ok_length:
  "box_ok xs cs ds ns \<Longrightarrow> length (product_lists (ranges xs cs ns)) = prod_list (map unat ns)"
  unfolding length_product_lists
  by (induction xs cs ds ns rule: box_ok.induct) (auto simp: ranges_def)

lemma box_ok_nonzero: "box_ok xs cs ds ns \<Longrightarrow> 0 \<notin> set ns \<and> 0 \<notin> set ds"
  by (induction xs cs ds ns rule: box_ok.induct) auto

lemma box_ok_prod_le: "box_ok xs cs ds ns \<Longrightarrow> prod_list (map unat ns) \<le> prod_list (map unat ds)"
  by (induction xs cs ds ns rule: box_ok.induct) (auto intro: mult_mono)

lemma length_elements:
  assumes "box_ok xs cs ds ns" "off + prod_list (map unat ds) * es \<le> length src"
  shows "length (elements src es off (map unat ds) (product_lists (ranges xs cs ns)))
       = prod_list (map unat ns) * es"
proof -
  have "length (element_at src es off (map unat ds) idx) = es"
    if "idx \<in> set (product_lists (ranges xs cs ns))" for idx
  proof -
    have "Suc (row_major (map unat ds) idx) * es \<le> prod_list (map unat ds) * es"
      using row_major_less [OF box_ok_idx [OF assms(1) that]] by (intro mult_right_mono) simp_all
    then show ?thesis using assms(2) by (simp add: element_at_def)
  qed
  then show ?thesis
    unfolding elements_def
    by (subst length_concat_const [where w = es]) (auto simp: box_ok_length [OF assms(1)] elements_def)
qed

lemma unat_offset_exact:
  assumes "unat off + unat k * unat w < 2 ^ 64"
  shows "unat (off + k * w :: u64) = unat off + unat k * unat w"
  using assms by (simp add: unat_mult_exact unat_add_exact)

lemma stride_exact:
  assumes "0 \<notin> set ds" "prod_list (map unat ds) * unat es < 2 ^ 64" "es \<noteq> 0"
  shows "unat (foldl (*) 1 ds * ucast (es :: u32) :: u64) = prod_list (map unat ds) * unat es"
proof -
  have "prod_list (map unat ds) \<le> prod_list (map unat ds) * unat es"
    using assms(3) by (cases "unat es") (simp_all add: unat_eq_zero)
  then have "unat (prod_list ds) = prod_list (map unat ds)"
    using assms by (intro unat_prod_list_exact le_less_trans [OF _ assms(2)]) simp_all
  then show ?thesis
    using assms by (simp add: foldl_times_prod_list unat_mult_exact)
qed

lemma stride_pos: "0 \<notin> set ds \<Longrightarrow> es \<noteq> 0 \<Longrightarrow> 0 < prod_list (map unat (ds :: u64 list)) * unat (es :: u32)"
  by (induction ds) (auto simp: unat_gt_0)

text \<open>One step along a dimension stays inside the buffer, and its byte offset does not wrap.\<close>

lemma step_in_bounds:
  assumes "s + n \<le> d" "i < n" "off + d * w \<le> (L :: nat)"
  shows "off + (s + i) * w + w \<le> L"
proof -
  have "Suc (s + i) * w \<le> d * w" using assms by (intro mult_right_mono) simp_all
  then show ?thesis using assms(3) by simp
qed

lemma step_offset_exact:
  assumes "s + unat n \<le> unat (d :: u64)" "i < unat (n :: u64)" "unat off + unat d * unat w \<le> L" "L < 2 ^ 64"
    and "0 < unat w" "unat b = s"
  shows "unat (off + (b + of_nat i) * w :: u64) = unat off + (s + i) * unat w"
proof -
  have "i < 2 ^ 64" by (rule less_trans [OF assms(2)]) simp
  then have i: "unat (of_nat i :: u64) = i" by (simp add: unat_of_nat_less)
  have "s + i < unat d" using assms(1,2) by simp
  then have "s + i < 2 ^ 64" by (rule less_trans) simp
  then have si: "unat (b + of_nat i) = s + i" using assms(6) i by (simp add: unat_add_exact)
  have "unat off + (s + i) * unat w + unat w \<le> L" using assms(1-3) by (rule step_in_bounds)
  then show ?thesis using assms(4,5) si by (subst unat_offset_exact) auto
qed

lemma extractRecursive_elements:
  assumes "box_ok xs cs ds ns" "es \<noteq> 0"
    and "unat so + prod_list (map unat ds) * unat es \<le> length src" "length src < 2 ^ 64"
    and "unat doff + prod_list (map unat ns) * unat es \<le> length dst" "length dst < 2 ^ 64"
  shows "extractRecursive src xs cs ds ns so doff es dst
       = Inr (blit dst (unat doff) (elements src (unat es) (unat so) (map unat ds) (product_lists (ranges xs cs ns))))"
  using assms
proof (induction xs cs ds ns arbitrary: so doff dst rule: box_ok.induct)
  case 1
  have "unat (so + ucast es) = unat so + unat es" "unat (doff + ucast es) = unat doff + unat es"
    using 1 by (simp_all add: unat_add_exact)
  with 1 show ?case
    by (simp add: copy_element_def elements_def element_at_def ranges_def)
next
  case (2 x xs c cs d ds n ns)
  let ?D = "prod_list (map unat ds) * unat es" and ?N = "prod_list (map unat ns) * unat es"
  let ?s = "unat x * unat c" and ?dw = "foldl (*) 1 ds * ucast es :: u64" and ?nw = "foldl (*) 1 ns * ucast es :: u64"
  let ?g = "\<lambda>i. elements src (unat es) (unat so + (?s + i) * ?D) (map unat ds) (product_lists (ranges xs cs ns))"
  have box: "box_ok xs cs ds ns" "?s + unat n \<le> unat d" "0 < unat n" using 2 by auto
  have nz: "0 \<notin> set ds" "0 \<notin> set ns" using box_ok_nonzero [OF box(1)] by auto
  have fits: "unat so + unat d * ?D \<le> length src" "unat doff + unat n * ?N \<le> length dst"
    using 2 by (auto simp: mult.assoc)
  then have "?D < 2 ^ 64" "?N < 2 ^ 64"
    using step_in_bounds [OF box(2,3) fits(1)] step_in_bounds [of 0 "unat n" "unat n", OF _ box(3) fits(2)] 2
    by auto
  then have str: "unat ?dw = ?D" "unat ?nw = ?N" and pos: "0 < unat ?dw" "0 < unat ?nw"
    using stride_exact stride_pos nz 2(3) by auto
  have "?s < 2 ^ 64" by (rule le_less_trans [of _ "unat d"]) (use box(2) in simp_all)
  then have start: "unat (x * c) = ?s" by (rule unat_mult_exact)
  have sb: "unat so + (?s + i) * ?D + ?D \<le> length src" if "i < unat n" for i
    using box(2) that fits(1) by (rule step_in_bounds)
  have step: "extractRecursive src xs cs ds ns (so + (x * c + of_nat i) * ?dw) (doff + of_nat i * ?nw) es e
      = Inr (blit e (unat doff + i * ?N) (?g i))" if i: "i < unat n" and e: "length e = length dst" for i e
  proof -
    have "unat (so + (x * c + of_nat i) * ?dw) = unat so + (?s + i) * ?D"
      using step_offset_exact [OF box(2) i _ 2(5) pos(1) start] fits(1) str(1) by simp
    moreover have "unat (doff + of_nat i * ?nw) = unat doff + i * ?N"
      using step_offset_exact [of 0 n n i doff ?nw _ 0, OF _ i _ 2(7) pos(2)] fits(2) str(2) by simp
    ultimately show ?thesis
      using 2(1) [OF box(1) 2(3), of "so + (x * c + of_nat i) * ?dw" "doff + of_nat i * ?nw" e] 2 sb [OF i] e
        step_in_bounds [of 0 "unat n" "unat n" i, OF _ i fits(2)] by simp
  qed
  have "repeat_loop (\<lambda>i. extractRecursive src xs cs ds ns (so + (x * c + of_nat i) * ?dw) (doff + of_nat i * ?nw) es)
      (unat n) dst = Inr (blit dst (unat doff) (concat (map ?g [0..<unat n])))"
    by (rule repeat_loop_blit [OF step length_elements [OF box(1) sb]]) (use fits in \<open>simp_all\<close>)
  then show ?case
    by (simp add: Let_def ranges_def elements_product_Cons del: product_lists.simps)
qed auto

lemma box_ok_chunk:
  assumes "dims_fit ds cs" "list_all2 (\<lambda>x (c, d). unat x * unat c < unat d) coord (zip cs ds)"
  shows "box_ok coord cs ds (map (\<lambda>(x, c, d). chunk_extent x c d) (zip coord (zip cs ds)))"
  using assms unfolding dims_fit_def
proof (induction ds cs arbitrary: coord rule: list_all2_induct)
  case Nil
  then show ?case by simp
next
  case (Cons d ds c cs)
  then obtain x xs where coord: "coord = x # xs" and x: "unat x * unat c < unat d"
      and xs: "list_all2 (\<lambda>x (c, d). unat x * unat c < unat d) xs (zip cs ds)"
    by (auto simp: list_all2_Cons2)
  have "0 < unat c" using Cons.hyps by (simp add: unat_gt_0 word_gt_0)
  then have "unat x * unat c + unat (chunk_extent x c d) \<le> unat d \<and> 0 < unat (chunk_extent x c d)"
    using chunk_extent_exact [OF x] Cons.hyps x by (simp add: min_def)
  with Cons.IH [OF xs] show ?case by (simp add: coord)
qed

lemma ExtractChunkData_exact:
  assumes new: "NewChunkCoordinator ds cs = Inr cc" and fit: "dims_fit ds cs"
    and valid: "valid_coord cc coord" and es: "es \<noteq> 0"
    and buf: "prod_list (map unat ds) * unat es \<le> length src" "length src < 2 ^ 63"
  shows "ExtractChunkData cc src coord es
       = Inr (elements src (unat es) 0 (map unat ds) (chunk_cells cc coord))"
proof -
  note cc = NewChunkCoordinator_Inr [OF new]
  let ?ns = "map (\<lambda>(x, c, d). chunk_extent x c d) (zip coord (zip cs ds))"
  have "length coord = length cs" using valid_coord_length [OF valid] cc by simp
  then have sizes: "GetChunkSize cc coord = Inr ?ns"
    using cc by (simp add: GetChunkSize_def chunk_size_loop_Inr)
  have box: "box_ok coord cs ds ?ns"
    using box_ok_chunk [OF fit] valid cc by (simp add: valid_coord_def)
  have le: "prod_list (map unat ?ns) * unat es \<le> length src"
    using box_ok_prod_le [OF box] buf(1) by (meson le_trans mult_le_mono1)
  then have n: "unat (foldl (*) 1 ?ns * ucast es :: u64) = prod_list (map unat ?ns) * unat es"
    using box_ok_nonzero [OF box] es buf(2) by (intro stride_exact) (simp_all del: map_map)
  let ?dst = "zeros (prod_list (map unat ?ns) * unat es)"
  have "extractRecursive src coord cs ds ?ns 0 0 es ?dst
      = Inr (blit ?dst 0 (elements src (unat es) 0 (map unat ds) (product_lists (ranges coord cs ?ns))))"
    using extractRecursive_elements [OF box es, of 0 src 0 ?dst] buf le by (simp del: map_map)
  also have "blit ?dst 0 (elements src (unat es) 0 (map unat ds) (product_lists (ranges coord cs ?ns)))
      = elements src (unat es) 0 (map unat ds) (product_lists (ranges coord cs ?ns))"
    using length_elements [OF box, of 0 "unat es" src] buf by (intro blit_full) (simp del: map_map)
  finally show ?thesis
    using sizes n cc le buf by (simp add: ExtractChunkData_def chunk_cells_def Let_def del: map_map)
qed

text \<open>
  C6. \<^verbatim>\<open>ExtractChunkData\<close> on a row-major buffer that holds the whole dataset never panics and
  returns the elements of the chunk's cells in row-major order, each once and with no other bytes.
\<close>

theorem ExtractChunkData_correct:
  assumes new: "NewChunkCoordinator ds cs = Inr cc" and fit: "dims_fit ds cs"
    and valid: "valid_coord cc coord" and es: "es \<noteq> 0"
    and buf: "prod_list (map unat ds) * unat es \<le> length src" "length src < 2 ^ 63"
  shows "ExtractChunkData cc src coord es
       = Inr (elements src (unat es) 0 (map unat ds) (chunk_cells cc coord))"
  by (rule ExtractChunkData_exact [OF assms])

theorem ExtractChunkData_correct_witness:
  "ExtractChunkData (projr (NewChunkCoordinator [2, 3] [2, 2])) [0, 1, 2, 3, 4, 5] [0, 1] 1 = Inr [2, 5]"
proof -
  let ?cc = "\<lparr>datasetDims = [2, 3], chunkDims = [2, 2], numChunks = [1, 2]\<rparr> :: ChunkCoordinator"
  have new: "NewChunkCoordinator [2, 3] [2, 2] = Inr ?cc"
    by (simp add: NewChunkCoordinator_def)
  have "ExtractChunkData ?cc [0, 1, 2, 3, 4, 5] [0, 1] 1
      = Inr (elements [0, 1, 2, 3, 4, 5] (unat (1 :: u32)) 0 (map unat [2, 3 :: u64]) (chunk_cells ?cc [0, 1]))"
    by (rule ExtractChunkData_correct [OF new]) (simp_all add: dims_fit_def valid_coord_def)
  moreover have "chunk_cells ?cc [0, 1] = [[0, 2], [1, 2]]"
    by code_simp
  ultimately show ?thesis
    by (simp add: new elements_def element_at_def)
qed

text \<open>
  The chunk count of a dimension is computed as \<open>(d + c - 1) div c\<close> in 64 bits. For a dataset
  dimension close to \<open>2 ^ 64\<close> the sum wraps: the coordinator is created without an error but has no
  chunks, and asking for the coordinate of chunk 0 divides by zero.
\<close>

theorem numChunks_wraps:
  "\<exists>cc. NewChunkCoordinator [18446744073709551615] [10] = Inr cc \<and> GetTotalChunks cc = 0
      \<and> GetChunkCoordinate cc 0 = Inl divide_panic"
  by (simp add: NewChunkCoordinator_def GetTotalChunks_def GetChunkCoordinate_def)

end
