(* ===== verification/Lzf.thy ===== *)
theory Lzf
  imports Hdf5_Prelude
begin

text \<open>
  The LZF codec of \<^verbatim>\<open>internal/writer/filter_lzf.go\<close> and the decoder of
  \<^verbatim>\<open>internal/core/filterpipeline.go\<close>. The compressor keeps a hash table from three-byte patterns
  to positions; the model keeps it too, although the proofs show that the decoded data never depend
  on what the table holds, only on the guards that are checked before a back-reference is emitted.
  The decoder is shown to invert the compressor on every input, and its output to be bounded by a
  constant factor of its input, whatever the input is.
\<close>

section \<open>Compression\<close>

definition hashLZF :: "byte \<Rightarrow> byte \<Rightarrow> byte \<Rightarrow> u32" where
  "hashLZF b0 b1 b2 =
     (let v = push_bit 16 (ucast b0) OR push_bit 8 (ucast b1) OR ucast b2;
          v = v XOR drop_bit 16 v;
          v = v * 0x45d9f3b;
          v = v XOR drop_bit 16 v
      in v AND 0x3fff)"

function appendLiteral :: "bytes \<Rightarrow> bytes \<Rightarrow> bytes" where
  "appendLiteral out literal =
     (if literal = [] then out
      else let runLen = (if length literal > 32 then 32 else length literal)
           in appendLiteral (out @ [of_nat (runLen - 1)] @ take runLen literal) (drop runLen literal))"
  by pat_completeness auto
termination
  by (relation "measure (length \<circ> snd)") auto

definition appendBackref :: "bytes \<Rightarrow> nat \<Rightarrow> nat \<Rightarrow> bytes" where
  "appendBackref out off len =
     (let off = off - 1
      in if len \<le> 8
         then out @ [of_nat (push_bit 5 (len - 2) OR drop_bit 8 off), of_nat (off AND 0xFF)]
         else out @ [of_nat (0xE0 OR drop_bit 8 off), of_nat (off AND 0xFF), of_nat (len - 9)])"

text \<open>The loop that extends a match while the bytes agree, up to \<^verbatim>\<open>maxLen\<close>.\<close>

function match_length :: "bytes \<Rightarrow> nat \<Rightarrow> nat \<Rightarrow> nat \<Rightarrow> nat \<Rightarrow> nat" where
  "match_length input ref inPos maxLen matchLen =
     (if matchLen < maxLen \<and> input ! (ref + matchLen) = input ! (inPos + matchLen)
      then match_length input ref inPos maxLen (matchLen + 1) else matchLen)"
  by pat_completeness auto
termination
  by (relation "measure (\<lambda>(_, _, _, maxLen, matchLen). maxLen - matchLen)") auto

type_synonym hash_table = "u32 \<Rightarrow> u32"

text \<open>The hash-table updates for the positions inside a match that ends at \<^verbatim>\<open>inPos\<close>.\<close>

definition update_htab :: "bytes \<Rightarrow> nat \<Rightarrow> nat \<Rightarrow> hash_table \<Rightarrow> hash_table" where
  "update_htab input inPos matchLen htab =
     fold (\<lambda>i h. let pos = inPos - matchLen + i
                 in if pos + 2 < length input
                    then h(hashLZF (input ! pos) (input ! (pos + 1)) (input ! (pos + 2)) := of_nat pos)
                    else h)
       [1..<matchLen - 2] htab"

text \<open>The guard in front of a back-reference.\<close>

definition match_found :: "bytes \<Rightarrow> nat \<Rightarrow> nat \<Rightarrow> bool" where
  "match_found input ref inPos \<longleftrightarrow>
     (let offset = int inPos - int ref
      in ref > 0 \<and> offset \<le> 8192 \<and> offset > 0
         \<and> input ! ref = input ! inPos \<and> input ! (ref + 1) = input ! (inPos + 1)
         \<and> input ! (ref + 2) = input ! (inPos + 2))"

definition max_match :: "bytes \<Rightarrow> nat \<Rightarrow> nat" where
  "max_match input inPos = (if length input - inPos > 264 then 264 else length input - inPos)"

lemma match_length_ge: "m \<le> match_length input ref inPos maxLen m"
proof (induction input ref inPos maxLen m rule: match_length.induct)
  case (1 input ref inPos maxLen m)
  then show ?case by (subst match_length.simps) (auto intro: le_trans [of _ "m + 1"] simp del: match_length.simps)
qed

declare match_length.simps [simp del] appendLiteral.simps [simp del]

text \<open>The main loop; the result is the pending literal position and the output.\<close>

function compress_loop :: "bytes \<Rightarrow> hash_table \<Rightarrow> nat \<Rightarrow> nat \<Rightarrow> bytes \<Rightarrow> nat \<times> bytes" where
  "compress_loop input htab inPos litPos out =
     (if inPos + 3 > length input then (litPos, out)
      else let hash = hashLZF (input ! inPos) (input ! (inPos + 1)) (input ! (inPos + 2));
               ref = unat (htab hash);
               htab = htab(hash := of_nat inPos)
           in if match_found input ref inPos
              then let out = (if litPos < inPos then appendLiteral out (take (inPos - litPos) (drop litPos input))
                              else out);
                       matchLen = match_length input ref inPos (max_match input inPos) 3;
                       out = appendBackref out (inPos - ref) matchLen;
                       inPos = inPos + matchLen
                   in compress_loop input (update_htab input inPos matchLen htab) inPos inPos out
              else compress_loop input htab (inPos + 1) litPos out)"
  by pat_completeness auto
termination
proof (relation "measure (\<lambda>(input, _, inPos, _, _). length input - inPos)", goal_cases)
  case (2 input htab inPos litPos out hash ref htab' out' matchLen out'' inPos')
  then have "3 \<le> matchLen" using match_length_ge by simp
  with 2 show ?case by simp
qed auto

declare compress_loop.simps [simp del]

definition lzfCompress :: "bytes \<Rightarrow> bytes result" where
  "lzfCompress input =
     (if length input = 0 then Inr input
      else case compress_loop input (\<lambda>_. 0) 0 0 [] of
             (litPos, out) \<Rightarrow>
               Inr (if litPos < length input then appendLiteral out (drop litPos input) else out))"

section \<open>Decompression\<close>

text \<open>
  The loop reads the remaining input, so \<^verbatim>\<open>inPos + n > inLen\<close> is \<open>n > length rest\<close>. A byte copy
  of a back-reference may read bytes that it has just appended.
\<close>

fun copy_back :: "nat \<Rightarrow> nat \<Rightarrow> bytes \<Rightarrow> bytes" where
  "copy_back srcPos 0 out = out"
| "copy_back srcPos (Suc n) out = copy_back (Suc srcPos) n (out @ [out ! srcPos])"

function decompress_loop :: "bytes \<Rightarrow> bytes \<Rightarrow> bytes result" where
  "decompress_loop [] out = Inr out"
| "decompress_loop (ctrl # rest) out =
     (if ctrl AND 0xE0 = 0
      then let runLen = unat ctrl + 1
           in if runLen > length rest then Inl (Errorf ''lzf: truncated literal run'')
              else decompress_loop (drop runLen rest) (out @ take runLen rest)
      else case rest of
             [] \<Rightarrow> Inl (Errorf ''lzf: truncated backreference'')
           | low # rest \<Rightarrow>
               let offset = (push_bit 8 (unat (ctrl AND 0x1F)) OR unat low) + 1
               in case (if ctrl AND 0xE0 = 0xE0
                        then (case rest of
                                [] \<Rightarrow> Inl (Errorf ''lzf: truncated long backreference'')
                              | b # rest \<Rightarrow> Inr (unat b + 9, rest))
                        else Inr (unat (drop_bit 5 ctrl AND 0x07) + 2, rest)) of
                    Inl e \<Rightarrow> Inl e
                  | Inr (runLen, rest) \<Rightarrow>
                      if offset > length out then Inl (Errorf ''lzf: invalid offset %d (output size: %d)'')
                      else decompress_loop rest (copy_back (length out - offset) runLen out))"
  by pat_completeness auto
termination
  by (relation "measure (length \<circ> fst)") (auto split: if_splits list.splits)

definition lzfDecompress :: "bytes \<Rightarrow> bytes result" where
  "lzfDecompress input = (if length input = 0 then Inr input else decompress_loop input [])"

section \<open>The filter\<close>

definition lzf_Apply :: "bytes \<Rightarrow> bytes result" where
  "lzf_Apply data =
     (if length data = 0 then Inr data
      else case lzfCompress data of
             Inl e \<Rightarrow> Inl (Wrapf ''lzf compression failed: %w'' e)
           | Inr compressed \<Rightarrow> Inr compressed)"

definition lzf_Remove :: "bytes \<Rightarrow> bytes result" where
  "lzf_Remove data =
     (if length data = 0 then Inr data
      else case lzfDecompress data of
             Inl e \<Rightarrow> Inl (Wrapf ''lzf decompression failed: %w'' e)
           | Inr decompressed \<Rightarrow> Inr decompressed)"

definition lzf_Encode :: "u16 \<times> u32 list" where
  "lzf_Encode = (0, [0, 0, 0])"

text \<open>The reader's decoder is a copy of the writer's.\<close>

definition core_lzfDecompress :: "bytes \<Rightarrow> bytes result" where
  "core_lzfDecompress input = (if length input = 0 then Inr input else decompress_loop input [])"

definition applyLZF :: "bytes \<Rightarrow> bytes result" where
  "applyLZF data =
     (if length data = 0 then Inr data
      else case core_lzfDecompress data of
             Inl e \<Rightarrow> Inl (Wrapf ''lzf decompression failed: %w'' e)
           | Inr decompressed \<Rightarrow> Inr decompressed)"

section \<open>Decoding of single segments\<close>

declare decompress_loop.simps(2) [simp del] copy_back.simps(2) [simp del]

text \<open>A control byte is three bits of run length above five bits of offset.\<close>

lemma ctrl_bits:
  assumes "r < 8" "h < 32"
  defines "c \<equiv> of_nat (push_bit 5 r OR h) :: byte"
  shows "unat (c AND 0x1F) = h" "unat (drop_bit 5 c AND 0x07) = r" "c AND 0xE0 = push_bit 5 (of_nat r)"
proof -
  let ?r = "of_nat r :: byte" and ?h = "of_nat h :: byte"
  have c: "c = push_bit 5 ?r OR ?h"
    by (simp add: c_def of_nat_or_eq of_nat_push_bit)
  have u: "unat ?r = r" "unat ?h = h" using assms by (simp_all add: unat_of_nat_less)
  have "take_bit 3 r = r" "take_bit 5 h = h"
    using assms by (simp_all add: take_bit_nat_eq_self)
  then have bits: "bit r n \<Longrightarrow> n < 3" "bit h n \<Longrightarrow> n < 5" for n
    by (metis bit_take_bit_iff)+
  have masks: "(0x1F :: byte) = mask 5" "(0x07 :: byte) = mask 3" "(0xE0 :: byte) = push_bit 5 (mask 3)"
    by (simp_all add: mask_eq_exp_minus_1)
  have "c AND 0x1F = ?h"
    unfolding c masks by (intro bit_word_eqI) (auto simp: bit_simps dest: bits)
  moreover have "drop_bit 5 c AND 0x07 = ?r"
    unfolding c masks by (intro bit_word_eqI) (auto simp: bit_simps dest: bits)
  ultimately show "unat (c AND 0x1F) = h" "unat (drop_bit 5 c AND 0x07) = r" using u by simp_all
  show "c AND 0xE0 = push_bit 5 ?r"
    unfolding c masks by (intro bit_word_eqI) (auto simp: bit_simps dest: bits)
qed

lemma ctrl_kind:
  "0 < r \<Longrightarrow> r < 7 \<Longrightarrow> push_bit 5 (of_nat r) \<noteq> (0 :: byte) \<and> push_bit 5 (of_nat r) \<noteq> (0xE0 :: byte)"
proof -
  assume "0 < r" "r < 7"
  then have "r \<in> {1, 2, 3, 4, 5, 6}" by auto
  then show ?thesis by auto
qed

lemma offset_bytes:
  "(push_bit 8 (drop_bit 8 off) OR unat (of_nat (off AND 0xFF) :: byte)) = (off :: nat)"
proof -
  have "off AND 0xFF = take_bit 8 off" by (simp add: take_bit_eq_mask mask_eq_exp_minus_1)
  then have "unat (of_nat (off AND 0xFF) :: byte) = take_bit 8 off"
    by (simp add: unsigned_of_nat)
  moreover have "push_bit 8 (drop_bit 8 off) OR take_bit 8 off = off"
    by (rule bit_eqI) (auto simp: bit_simps)
  ultimately show ?thesis by simp
qed

lemma decompress_literal:
  assumes "length lit = Suc n" "n < 32"
  shows "decompress_loop (of_nat n # lit @ rest) out = decompress_loop rest (out @ lit)"
proof -
  have "(of_nat n :: byte) AND 0xE0 = 0"
    using ctrl_bits(3) [of 0, OF _ assms(2)] by simp
  moreover have "unat (of_nat n :: byte) + 1 = length lit"
    using assms by (simp add: unat_of_nat_less)
  ultimately show ?thesis unfolding decompress_loop.simps by simp
qed

lemma decompress_appendLiteral:
  "\<forall>rest. decompress_loop (enc @ rest) [] = decompress_loop rest out \<Longrightarrow>
   decompress_loop (appendLiteral enc lit @ rest) [] = decompress_loop rest (out @ lit)"
proof (induction enc lit arbitrary: out rest rule: appendLiteral.induct)
  case (1 enc lit)
  show ?case
  proof (cases "lit = []")
    case True
    then show ?thesis using 1 by (simp add: appendLiteral.simps)
  next
    case False
    let ?n = "if length lit > 32 then 32 else length lit"
    obtain k where k: "?n = Suc k" "k < 32" "length (take ?n lit) = Suc k"
      using False by (cases ?n) (auto split: if_splits)
    have "decompress_loop ((enc @ [of_nat (?n - 1)] @ take ?n lit) @ rest) []
        = decompress_loop rest (out @ take ?n lit)" for rest
      using 1(2) decompress_literal [OF k(3,2), of rest out] k(1) by simp
    then have "decompress_loop (appendLiteral (enc @ [of_nat (?n - 1)] @ take ?n lit) (drop ?n lit) @ rest) []
        = decompress_loop rest ((out @ take ?n lit) @ drop ?n lit)"
      by (intro 1(1) [OF False refl]) blast
    then show ?thesis
      using False by (subst appendLiteral.simps) (simp only: Let_def if_False append_assoc append_take_drop_id)
  qed
qed

lemma copy_back_correct:
  "pos + n \<le> length xs \<Longrightarrow> s < pos \<Longrightarrow> (\<And>i. i < n \<Longrightarrow> xs ! (s + i) = xs ! (pos + i)) \<Longrightarrow>
   copy_back s n (take pos xs) = take (pos + n) xs"
proof (induction n arbitrary: s pos)
  case 0
  then show ?case by simp
next
  case (Suc n)
  have "xs ! s = xs ! pos" using Suc.prems(3) [of 0] by simp
  then have "take pos xs @ [take pos xs ! s] = take (Suc pos) xs"
    using Suc.prems by (simp add: take_Suc_conv_app_nth)
  moreover have "copy_back (Suc s) n (take (Suc pos) xs) = take (Suc pos + n) xs"
    using Suc.prems(1,2) Suc.prems(3) [of "Suc i" for i] by (intro Suc.IH) auto
  ultimately show ?case by (simp add: copy_back.simps(2))
qed

lemma decompress_backref:
  assumes "\<forall>rest. decompress_loop (enc @ rest) [] = decompress_loop rest out"
    and "1 \<le> off" "off \<le> 8192" "off \<le> length out" "3 \<le> len" "len \<le> 264"
  shows "decompress_loop (appendBackref enc off len @ rest) []
       = decompress_loop rest (copy_back (length out - off) len out)"
proof -
  let ?o = "off - 1"
  have h: "drop_bit 8 ?o < 32"
    using assms by (simp add: drop_bit_eq_div less_mult_imp_div_less)
  show ?thesis
  proof (cases "len \<le> 8")
    case True
    then have r: "len - 2 < 8" "0 < len - 2" "len - 2 < 7" using assms by auto
    let ?c = "of_nat (push_bit 5 (len - 2) OR drop_bit 8 ?o) :: byte"
    have c: "?c AND 0xE0 \<noteq> 0" "?c AND 0xE0 \<noteq> 0xE0" "unat (?c AND 0x1F) = drop_bit 8 ?o"
      using ctrl_bits [OF r(1) h] ctrl_kind [OF r(2,3)] by simp_all
    have len: "unat (drop_bit 5 ?c AND 0x07) + 2 = len"
      using ctrl_bits(2) [OF r(1) h] assms by simp
    have "decompress_loop (?c # of_nat (?o AND 0xFF) # rest) out
        = decompress_loop rest (copy_back (length out - off) len out)"
      unfolding decompress_loop.simps list.case c(3) len offset_bytes
      using assms c(1,2) by (simp add: Let_def)
    then show ?thesis
      using assms(1) True by (simp add: appendBackref_def Let_def)
  next
    case False
    let ?c = "of_nat (0xE0 OR drop_bit 8 ?o) :: byte"
    have c: "?c AND 0xE0 = 0xE0" "unat (?c AND 0x1F) = drop_bit 8 ?o"
      using ctrl_bits [of 7, OF _ h] by simp_all
    have "unat (of_nat (len - 9) :: byte) = len - 9"
      using assms by (intro unat_of_nat_less) simp
    then have len: "unat (of_nat (len - 9) :: byte) + 9 = len" using False by simp
    have "decompress_loop (?c # of_nat (?o AND 0xFF) # of_nat (len - 9) # rest) out
        = decompress_loop rest (copy_back (length out - off) len out)"
      unfolding decompress_loop.simps list.case c len offset_bytes
      using assms by (simp add: Let_def)
    then show ?thesis
      using assms(1) False by (simp add: appendBackref_def Let_def)
  qed
qed

section \<open>Round trip\<close>

lemma match_length_correct:
  assumes "m \<le> maxLen" "\<And>i. i < m \<Longrightarrow> input ! (ref + i) = input ! (pos + i)"
  shows "match_length input ref pos maxLen m \<le> maxLen
       \<and> (\<forall>i < match_length input ref pos maxLen m. input ! (ref + i) = input ! (pos + i))"
  using assms
proof (induction input ref pos maxLen m rule: match_length.induct)
  case (1 input ref pos maxLen m)
  show ?case
  proof (cases "m < maxLen \<and> input ! (ref + m) = input ! (pos + m)")
    case True
    then have "match_length input ref pos maxLen (m + 1) \<le> maxLen
       \<and> (\<forall>i < match_length input ref pos maxLen (m + 1). input ! (ref + i) = input ! (pos + i))"
      using 1 by (intro 1(1)) (auto simp: less_Suc_eq)
    then show ?thesis using True by (subst (1 2) match_length.simps) simp
  next
    case False
    then show ?thesis using 1 by (subst (1 2) match_length.simps) auto
  qed
qed

text \<open>A match that the compressor finds is a copy of earlier data of the right size.\<close>

lemma match_facts:
  assumes found: "match_found input ref pos" and room: "pos + 3 \<le> length input"
  defines "len \<equiv> match_length input ref pos (max_match input pos) 3"
  shows "ref < pos" "pos - ref \<le> 8192" "3 \<le> len" "len \<le> 264" "pos + len \<le> length input"
    "\<And>i. i < len \<Longrightarrow> input ! (ref + i) = input ! (pos + i)"
proof -
  show "ref < pos" "pos - ref \<le> 8192"
    using found by (auto simp: match_found_def Let_def)
  have "input ! (ref + i) = input ! (pos + i)" if "i < 3" for i
  proof -
    from that have "i \<in> {0, 1, 2}" by auto
    then show ?thesis using found by (auto simp: match_found_def Let_def)
  qed
  moreover have "3 \<le> max_match input pos" using room by (auto simp: max_match_def)
  ultimately have "len \<le> max_match input pos"
      and eq: "\<forall>i < len. input ! (ref + i) = input ! (pos + i)"
    unfolding len_def using match_length_correct [of 3 "max_match input pos" input ref pos] by simp_all
  then show "len \<le> 264" "pos + len \<le> length input"
    using room by (auto simp: max_match_def split: if_splits)
  show "3 \<le> len" unfolding len_def by (rule match_length_ge)
  show "\<And>i. i < len \<Longrightarrow> input ! (ref + i) = input ! (pos + i)" using eq by blast
qed

lemma compress_loop_correct:
  assumes "compress_loop input htab pos lit out = (lit', out')" "lit \<le> pos" "pos \<le> length input"
    and "\<forall>rest. decompress_loop (out @ rest) [] = decompress_loop rest (take lit input)"
  shows "lit' \<le> length input
       \<and> (\<forall>rest. decompress_loop (out' @ rest) [] = decompress_loop rest (take lit' input))"
  using assms
proof (induction input htab pos lit out rule: compress_loop.induct)
  case (1 input htab pos lit out)
  show ?case
  proof (cases "pos + 3 > length input")
    case True
    then show ?thesis using 1 by (simp add: compress_loop.simps)
  next
    case room: False
    let ?h = "hashLZF (input ! pos) (input ! (pos + 1)) (input ! (pos + 2))"
    let ?ref = "unat (htab ?h)"
    define tab where "tab = htab(?h := of_nat pos)"
    show ?thesis
    proof (cases "match_found input ?ref pos")
      case False
      have "compress_loop input htab pos lit out = compress_loop input tab (pos + 1) lit out"
        using room False by (subst compress_loop.simps) (simp add: Let_def tab_def)
      then show ?thesis
        using room 1(3-) by (intro 1(2) [OF room refl refl tab_def False]) auto
    next
      case True
      let ?out = "if lit < pos then appendLiteral out (take (pos - lit) (drop lit input)) else out"
      let ?len = "match_length input ?ref pos (max_match input pos) 3"
      have m: "?ref < pos" "pos - ?ref \<le> 8192" "3 \<le> ?len" "?len \<le> 264" "pos + ?len \<le> length input"
          "\<And>i. i < ?len \<Longrightarrow> input ! (?ref + i) = input ! (pos + i)"
        using match_facts [OF True] room by auto
      have "take lit input @ take (pos - lit) (drop lit input) = take pos input"
        using 1(4) by (metis le_add_diff_inverse take_add)
      then have lit: "\<forall>rest. decompress_loop (?out @ rest) [] = decompress_loop rest (take pos input)"
        using decompress_appendLiteral [OF 1(6), of "take (pos - lit) (drop lit input)"] 1(4,6) by auto
      have "decompress_loop (appendBackref ?out (pos - ?ref) ?len @ rest) []
          = decompress_loop rest (take (pos + ?len) input)" for rest
        using decompress_backref [OF lit, of "pos - ?ref" ?len rest] m
          copy_back_correct [of pos ?len input ?ref] by simp
      moreover have "compress_loop input htab pos lit out
          = compress_loop input (update_htab input (pos + ?len) ?len tab)
              (pos + ?len) (pos + ?len) (appendBackref ?out (pos - ?ref) ?len)"
        using room True by (subst compress_loop.simps) (simp add: Let_def tab_def)
      ultimately show ?thesis
        using 1(3) m(5) by (intro 1(1) [OF room refl refl tab_def True refl refl refl refl]) auto
    qed
  qed
qed

lemma lzfCompress_correct:
  "\<exists>out. lzfCompress data = Inr out \<and> lzfDecompress out = Inr data"
proof (cases "data = []")
  case True
  then show ?thesis by (simp add: lzfCompress_def lzfDecompress_def)
next
  case False
  obtain lit enc where c: "compress_loop data (\<lambda>_. 0) 0 0 [] = (lit, enc)" by force
  let ?out = "if lit < length data then appendLiteral enc (drop lit data) else enc"
  have enc: "lit \<le> length data" "\<forall>rest. decompress_loop (enc @ rest) [] = decompress_loop rest (take lit data)"
    using compress_loop_correct [OF c] by auto
  have "decompress_loop (?out @ []) [] = decompress_loop [] data"
    using decompress_appendLiteral [OF enc(2), of "drop lit data" "[]"] enc
    by (cases "lit < length data") (simp, metis le_neq_implies_less take_all order_refl)
  then have d: "decompress_loop ?out [] = Inr data" by simp
  then have "?out \<noteq> []" using False by (metis decompress_loop.simps(1) sum.inject(2))
  with d False c show ?thesis by (simp add: lzfCompress_def lzfDecompress_def)
qed

lemma lzf_roundtrip_ex: "\<exists>out. lzf_Apply data = Inr out \<and> lzf_Remove out = Inr data \<and> (data \<noteq> [] \<longrightarrow> out \<noteq> [])"
proof (cases "data = []")
  case True
  then show ?thesis by (simp add: lzf_Apply_def lzf_Remove_def)
next
  case False
  obtain out where out: "lzfCompress data = Inr out" "lzfDecompress out = Inr data"
    using lzfCompress_correct by blast
  moreover from out False have "out \<noteq> []" by (auto simp: lzfDecompress_def)
  ultimately show ?thesis using False by (simp add: lzf_Apply_def lzf_Remove_def)
qed

lemma applyLZF_eq: "applyLZF x = lzf_Remove x"
  by (simp only: applyLZF_def lzf_Remove_def core_lzfDecompress_def lzfDecompress_def)

lemma lzf_inverse: "lzf_Apply x = Inr y \<Longrightarrow> lzf_Remove y = Inr x"
  using lzf_roundtrip_ex [of x] by auto

text \<open>
  C2. LZF compression never fails, and decompressing its result gives back the original bytes, for
  every input.
\<close>

theorem lzf_roundtrip:
  "\<exists>out. lzf_Apply data = Inr out \<and> lzf_Remove out = Inr data \<and> applyLZF out = Inr data"
  unfolding applyLZF_eq using lzf_roundtrip_ex [of data] by blast

section \<open>Sizes\<close>

lemma length_copy_back [simp]: "length (copy_back s n out) = length out + n"
  by (induction s n out rule: copy_back.induct) (simp_all add: copy_back.simps(2))

lemma run_bits_le: "unat (drop_bit 5 (c :: byte) AND 0x07) \<le> 7"
proof -
  have "drop_bit 5 c AND 0x07 \<le> (0x07 :: byte)" by (rule word_and_le1)
  then show ?thesis by (simp add: word_le_nat_alt)
qed

lemma unat_byte_le: "unat (b :: byte) \<le> 255"
  using unat_byte_less [of b] by linarith

lemma decompress_loop_length:
  "decompress_loop inp out = Inr res \<Longrightarrow> length res \<le> length out + 88 * length inp"
proof (induction inp out arbitrary: res rule: decompress_loop.induct)
  case (1 out)
  then show ?case by simp
next
  case (2 ctrl rest out)
  show ?case
  proof (cases "ctrl AND 0xE0 = 0")
    case True
    then show ?thesis
      using 2(3) 2(1) [OF True refl, of res] by (auto simp: decompress_loop.simps(2) Let_def split: if_splits)
  next
    case False
    then obtain low rest' where rest: "rest = low # rest'"
      using 2(3) by (cases rest) (auto simp: decompress_loop.simps(2))
    let ?off = "(push_bit 8 (unat (ctrl AND 0x1F)) OR unat low) + 1"
    let ?seg = "if ctrl AND 0xE0 = 0xE0
                then (case rest' of
                        [] \<Rightarrow> Inl (Errorf ''lzf: truncated long backreference'')
                      | b # rest \<Rightarrow> Inr (unat b + 9, rest))
                else Inr (unat (drop_bit 5 ctrl AND 0x07) + 2, rest')"
    obtain n r where seg: "?seg = Inr (n, r)" and off: "\<not> ?off > length out"
        and rec: "decompress_loop r (copy_back (length out - ?off) n out) = Inr res"
      using 2(3) False rest
      by (auto simp: decompress_loop.simps(2) Let_def split: if_splits sum.splits list.splits prod.splits)
    have "length res \<le> length out + n + 88 * length r"
      using 2(2) [OF False rest refl seg refl off rec] by simp
    moreover have "n + 88 * length r \<le> 88 * (length rest' + 2)"
      using seg run_bits_le [of ctrl]
      by (auto split: if_splits list.splits intro: le_trans [OF unat_byte_le])
    ultimately show ?thesis using rest by simp
  qed
qed

text \<open>
  Decompression cannot blow up: on any input, however malformed, a successful LZF decoding
  returns at most 88 times as many bytes as it was given (264 bytes for a three-byte
  back-reference).
\<close>

theorem lzfDecompress_bounded:
  assumes "lzfDecompress inp = Inr out" shows "length out \<le> 88 * length inp"
  using assms decompress_loop_length [of inp "[]" out]
  by (auto simp: lzfDecompress_def split: if_splits)

theorem lzfDecompress_bounded_witness:
  "lzfDecompress [0, 7, 0xE0, 0, 255] = Inr (replicate 265 7) \<and> (265 :: nat) \<le> 88 * 5"
proof -
  have d: "lzfDecompress [0, 7, 0xE0, 0, 255] = Inr (replicate 265 7)" by code_simp
  from lzfDecompress_bounded [OF d] d show ?thesis by simp
qed

lemma length_appendLiteral:
  "32 * length (appendLiteral out lit) \<le> 32 * length out + 33 * length lit + 31"
proof -
  have "32 * length (appendLiteral out lit) \<le> 32 * length out + 33 * length lit + (if lit = [] then 0 else 31)"
  proof (induction out lit rule: appendLiteral.induct)
    case (1 out lit)
    show ?case
    proof (cases "lit = []")
      case True
      then show ?thesis by (simp add: appendLiteral.simps)
    next
      case False
      let ?n = "if length lit > 32 then 32 else length lit"
      have eq: "appendLiteral out lit
          = appendLiteral (out @ [of_nat (?n - 1)] @ take ?n lit) (drop ?n lit)"
        using False by (subst appendLiteral.simps) (simp add: Let_def)
      have "1 \<le> length lit" using False by (cases lit) auto
      then show ?thesis
        unfolding eq using 1(1) [OF False refl] False by (cases "length lit > 32") auto
    qed
  qed
  then show ?thesis by (auto split: if_splits)
qed

lemma length_appendBackref:
  "3 \<le> len \<Longrightarrow> 32 * length (appendBackref out off len) + 31 \<le> 32 * length out + 33 * len"
  by (auto simp: appendBackref_def Let_def)

lemma cost_step: "32 * b + 31 \<le> 32 * a + 33 * l \<Longrightarrow> 32 * a \<le> 33 * p + 31 \<Longrightarrow> 32 * b \<le> 33 * (p + l :: nat)"
  by simp

lemma compress_loop_length:
  assumes "compress_loop input htab pos lit out = (lit', out')" "lit \<le> pos" "pos \<le> length input"
    and "32 * length out \<le> 33 * lit"
  shows "lit' \<le> length input \<and> 32 * length out' \<le> 33 * lit'"
  using assms
proof (induction input htab pos lit out rule: compress_loop.induct)
  case (1 input htab pos lit out)
  show ?case
  proof (cases "pos + 3 > length input")
    case True
    then show ?thesis using 1 by (simp add: compress_loop.simps)
  next
    case room: False
    let ?h = "hashLZF (input ! pos) (input ! (pos + 1)) (input ! (pos + 2))"
    let ?ref = "unat (htab ?h)"
    define tab where "tab = htab(?h := of_nat pos)"
    show ?thesis
    proof (cases "match_found input ?ref pos")
      case False
      have "compress_loop input htab pos lit out = compress_loop input tab (pos + 1) lit out"
        using room False by (subst compress_loop.simps) (simp add: Let_def tab_def)
      then show ?thesis
        using room 1(3-) by (intro 1(2) [OF room refl refl tab_def False]) auto
    next
      case True
      let ?out = "if lit < pos then appendLiteral out (take (pos - lit) (drop lit input)) else out"
      let ?len = "match_length input ?ref pos (max_match input pos) 3"
      have m: "3 \<le> ?len" "pos + ?len \<le> length input"
        using match_facts [OF True] room by auto
      have "32 * length ?out \<le> 33 * pos + 31"
        using length_appendLiteral [of out "take (pos - lit) (drop lit input)"] 1(4-) by auto
      with length_appendBackref [OF m(1), of ?out "pos - ?ref"]
      have "32 * length (appendBackref ?out (pos - ?ref) ?len) \<le> 33 * (pos + ?len)"
        by (rule cost_step)
      moreover have "compress_loop input htab pos lit out
          = compress_loop input (update_htab input (pos + ?len) ?len tab)
              (pos + ?len) (pos + ?len) (appendBackref ?out (pos - ?ref) ?len)"
        using room True by (subst compress_loop.simps) (simp add: Let_def tab_def)
      ultimately show ?thesis
        using 1(3) m(2) by (intro 1(1) [OF room refl refl tab_def True refl refl refl refl]) auto
    qed
  qed
qed

text \<open>
  The buffer that the compressor allocates, \<open>n + n / 32 + 256\<close> bytes, is never outgrown: the
  compressed form of \<open>n\<close> bytes has at most \<open>n + (n + 31) / 32\<close> bytes.
\<close>

theorem lzfCompress_worst_case:
  "\<exists>out. lzfCompress input = Inr out \<and> length out \<le> length input + (length input + 31) div 32
     \<and> length out \<le> length input + length input div 32 + 256"
proof (cases "input = []")
  case True
  then show ?thesis by (simp add: lzfCompress_def)
next
  case False
  obtain lit enc where c: "compress_loop input (\<lambda>_. 0) 0 0 [] = (lit, enc)" by force
  have "lit \<le> length input" "32 * length enc \<le> 33 * lit"
    using compress_loop_length [OF c] by auto
  moreover have "32 * length (appendLiteral enc (drop lit input)) \<le> 32 * length enc + 33 * (length input - lit) + 31"
    using length_appendLiteral [of enc "drop lit input"] by simp
  ultimately have "32 * length (if lit < length input then appendLiteral enc (drop lit input) else enc)
      \<le> 33 * length input + 31"
    by auto
  then show ?thesis using False c by (auto simp: lzfCompress_def split: if_splits)
qed

end
