(* ===== verification/Filters.thy ===== *)
theory Filters
  imports Lzf
begin

text \<open>
  The chunk filters: the writer's filters and pipeline
  (\<^verbatim>\<open>internal/writer/filter_*.go\<close>) and the reader's pipeline
  (\<^verbatim>\<open>internal/core/filterpipeline.go\<close>). The DEFLATE and BZIP2 codecs of the Go library are the
  fields of a record of parameters; shuffle, Fletcher-32 and LZF are modelled in full.

  A locale states what a family of filters promises (removing a filter inverts applying it on the
  data it supports) and carries the round trip of whole pipelines; it is interpreted on the writer's
  filters. The reader is then compared with the writer: it inverts every pipeline of shuffle,
  Fletcher-32 and LZF, and three theorems record where the two sides of the code disagree (the
  format of DEFLATE streams, the layout of the pipeline message, optional filters).
\<close>

section \<open>Shuffle\<close>

text \<open>A sequence of assignments \<^verbatim>\<open>dst[d] = src[s]\<close>, with the bounds checks of the runtime.\<close>

fun copy_bytes :: "(nat \<times> nat) list \<Rightarrow> bytes \<Rightarrow> bytes \<Rightarrow> bytes result" where
  "copy_bytes [] src dst = Inr dst"
| "copy_bytes ((s, d) # ps) src dst =
     (if s < length src \<and> d < length dst then copy_bytes ps src (dst[d := src ! s]) else Inl index_panic)"

definition shuffle_Apply :: "u32 \<Rightarrow> bytes \<Rightarrow> bytes result" where
  "shuffle_Apply elementSize data =
     (let dataLen = of_nat (length data) :: u32
      in if dataLen = 0 then Inr data
         else if elementSize = 0 then Inl divide_panic
         else if dataLen mod elementSize \<noteq> 0
         then Inl (Errorf ''data length %d not multiple of element size %d'')
         else let numElements = dataLen div elementSize
              in copy_bytes
                   (concat (map (\<lambda>byteIndex. map (\<lambda>elemIndex.
                      (unat (of_nat elemIndex * elementSize + of_nat byteIndex),
                       unat (of_nat byteIndex * numElements + of_nat elemIndex)))
                      [0..<unat numElements]) [0..<unat elementSize]))
                   data (zeros (unat dataLen)))"

definition shuffle_Remove :: "u32 \<Rightarrow> bytes \<Rightarrow> bytes result" where
  "shuffle_Remove elementSize data =
     (let dataLen = of_nat (length data) :: u32
      in if dataLen = 0 then Inr data
         else if elementSize = 0 then Inl divide_panic
         else if dataLen mod elementSize \<noteq> 0
         then Inl (Errorf ''data length %d not multiple of element size %d'')
         else let numElements = dataLen div elementSize
              in copy_bytes
                   (concat (map (\<lambda>byteIndex. map (\<lambda>elemIndex.
                      (unat (of_nat byteIndex * numElements + of_nat elemIndex),
                       unat (of_nat elemIndex * elementSize + of_nat byteIndex)))
                      [0..<unat numElements]) [0..<unat elementSize]))
                   data (zeros (unat dataLen)))"

definition shuffle_Encode :: "u32 \<Rightarrow> u16 \<times> u32 list" where
  "shuffle_Encode elementSize = (0, [elementSize])"

text \<open>The reader's version: \<^verbatim>\<open>int\<close> arithmetic and the loops the other way round.\<close>

definition applyShuffle :: "bytes \<Rightarrow> u32 list \<Rightarrow> bytes result" where
  "applyShuffle data clientData =
     (case clientData of
        [] \<Rightarrow> Inl (Errorf ''shuffle filter missing element size'')
      | cd # _ \<Rightarrow>
          let elementSize = unat cd
          in if elementSize = 0 \<or> elementSize > length data then Inl (Errorf ''invalid shuffle element size: %d'')
             else let numElements = length data div elementSize
                  in if length data mod elementSize \<noteq> 0
                     then Inl (Errorf ''data size not multiple of element size'')
                     else copy_bytes
                            (concat (map (\<lambda>elemIdx. map (\<lambda>byteIdx.
                               (byteIdx * numElements + elemIdx, elemIdx * elementSize + byteIdx))
                               [0..<elementSize]) [0..<numElements]))
                            data (zeros (length data)))"

section \<open>Fletcher-32\<close>

fun fletcher_loop :: "bytes \<Rightarrow> u32 \<Rightarrow> u32 \<Rightarrow> u32 \<times> u32" where
  "fletcher_loop (b0 # b1 # rest) sum1 sum2 =
     (let word = ucast b0 OR push_bit 8 (ucast b1);
          sum1 = (sum1 + word) mod 65535;
          sum2 = (sum2 + sum1) mod 65535
      in fletcher_loop rest sum1 sum2)"
| "fletcher_loop [b] sum1 sum2 =
     (let word = ucast b;
          sum1 = (sum1 + word) mod 65535;
          sum2 = (sum2 + sum1) mod 65535
      in (sum1, sum2))"
| "fletcher_loop [] sum1 sum2 = (sum1, sum2)"

definition calculateFletcher32 :: "bytes \<Rightarrow> u32" where
  "calculateFletcher32 data =
     (case fletcher_loop data 0 0 of (sum1, sum2) \<Rightarrow> push_bit 16 sum2 OR sum1)"

definition fletcher32_Apply :: "bytes \<Rightarrow> bytes result" where
  "fletcher32_Apply data = Inr (data @ le_put 4 (calculateFletcher32 data))"

definition fletcher32_Remove :: "bytes \<Rightarrow> bytes result" where
  "fletcher32_Remove data =
     (if length data < 4 then Inl (Errorf ''data too short for fletcher32: %d bytes'')
      else let dataLen = length data - 4;
               originalData = take dataLen data;
               storedChecksum = le_get (drop dataLen data) :: u32
           in if calculateFletcher32 originalData \<noteq> storedChecksum
              then Inl (Errorf ''fletcher32 checksum mismatch: stored=%08x, calculated=%08x'')
              else Inr originalData)"

definition applyFletcher32 :: "bytes \<Rightarrow> bytes result" where
  "applyFletcher32 data =
     (if length data < 4 then Inl (Errorf ''data too short for Fletcher32 checksum'')
      else Inr (take (length data - 4) data))"

section \<open>Filters of the writer\<close>

text \<open>The codecs of the Go library that the filters call.\<close>

record codecs =
  gzip_deflate :: "int \<Rightarrow> bytes \<Rightarrow> bytes result"
  gzip_inflate :: "bytes \<Rightarrow> bytes result"
  zlib_inflate :: "bytes \<Rightarrow> bytes result"
  bzip2_inflate :: "bytes \<Rightarrow> bytes result"

text \<open>One constructor per type that implements the \<^verbatim>\<open>Filter\<close> interface.\<close>

datatype FilterImpl =
    GZIPFilter int
  | ShuffleFilter u32
  | Fletcher32Filter
  | BZIP2Filter int
  | LZFFilter
  | SZIPFilter u32 u32 u32 u32

definition NewGZIPFilter :: "int \<Rightarrow> FilterImpl" where
  "NewGZIPFilter level = GZIPFilter (if level < 1 \<or> level > 9 then 6 else level)"

definition NewBZIP2Filter :: "int \<Rightarrow> FilterImpl" where
  "NewBZIP2Filter blockSize = BZIP2Filter (if blockSize < 1 \<or> blockSize > 9 then 9 else blockSize)"

primrec filter_ID :: "FilterImpl \<Rightarrow> u16" where
  "filter_ID (GZIPFilter level) = 1"
| "filter_ID (ShuffleFilter elementSize) = 2"
| "filter_ID Fletcher32Filter = 3"
| "filter_ID (BZIP2Filter blockSize) = 307"
| "filter_ID LZFFilter = 32000"
| "filter_ID (SZIPFilter om ppb bpp pps) = 4"

primrec filter_Name :: "FilterImpl \<Rightarrow> string" where
  "filter_Name (GZIPFilter level) = ''deflate''"
| "filter_Name (ShuffleFilter elementSize) = ''shuffle''"
| "filter_Name Fletcher32Filter = ''fletcher32''"
| "filter_Name (BZIP2Filter blockSize) = ''bzip2''"
| "filter_Name LZFFilter = ''lzf''"
| "filter_Name (SZIPFilter om ppb bpp pps) = ''szip''"

definition gzip_Apply :: "codecs \<Rightarrow> int \<Rightarrow> bytes \<Rightarrow> bytes result" where
  "gzip_Apply lib level data =
     (case gzip_deflate lib level data of
        Inl e \<Rightarrow> Inl (Wrapf ''gzip compression failed: %w'' e)
      | Inr out \<Rightarrow> Inr out)"

definition gzip_Remove :: "codecs \<Rightarrow> bytes \<Rightarrow> bytes result" where
  "gzip_Remove lib data =
     (case gzip_inflate lib data of
        Inl e \<Rightarrow> Inl (Wrapf ''gzip decompression failed: %w'' e)
      | Inr out \<Rightarrow> Inr out)"

definition bzip2_Apply :: "bytes \<Rightarrow> bytes result" where
  "bzip2_Apply data =
     Inl (Errorf ''bzip2 compression not implemented yet (stdlib only supports decompression)'')"

definition bzip2_Remove :: "codecs \<Rightarrow> bytes \<Rightarrow> bytes result" where
  "bzip2_Remove lib data =
     (if length data = 0 then Inr data
      else case bzip2_inflate lib data of
             Inl e \<Rightarrow> Inl (Wrapf ''bzip2 decompression failed: %w'' e)
           | Inr out \<Rightarrow> Inr out)"

definition szip_Apply :: "bytes \<Rightarrow> bytes result" where
  "szip_Apply data = Inl (Errorf ''szip compression not implemented yet (requires libaec library)'')"

definition szip_Remove :: "bytes \<Rightarrow> bytes result" where
  "szip_Remove data = Inl (Errorf ''szip decompression not implemented yet (requires libaec library)'')"

primrec filter_Apply :: "codecs \<Rightarrow> FilterImpl \<Rightarrow> bytes \<Rightarrow> bytes result" where
  "filter_Apply lib (GZIPFilter level) data = gzip_Apply lib level data"
| "filter_Apply lib (ShuffleFilter elementSize) data = shuffle_Apply elementSize data"
| "filter_Apply lib Fletcher32Filter data = fletcher32_Apply data"
| "filter_Apply lib (BZIP2Filter blockSize) data = bzip2_Apply data"
| "filter_Apply lib LZFFilter data = lzf_Apply data"
| "filter_Apply lib (SZIPFilter om ppb bpp pps) data = szip_Apply data"

primrec filter_Remove :: "codecs \<Rightarrow> FilterImpl \<Rightarrow> bytes \<Rightarrow> bytes result" where
  "filter_Remove lib (GZIPFilter level) data = gzip_Remove lib data"
| "filter_Remove lib (ShuffleFilter elementSize) data = shuffle_Remove elementSize data"
| "filter_Remove lib Fletcher32Filter data = fletcher32_Remove data"
| "filter_Remove lib (BZIP2Filter blockSize) data = bzip2_Remove lib data"
| "filter_Remove lib LZFFilter data = lzf_Remove data"
| "filter_Remove lib (SZIPFilter om ppb bpp pps) data = szip_Remove data"

primrec filter_Encode :: "FilterImpl \<Rightarrow> u16 \<times> u32 list" where
  "filter_Encode (GZIPFilter level) = (0, [word_of_int level])"
| "filter_Encode (ShuffleFilter elementSize) = shuffle_Encode elementSize"
| "filter_Encode Fletcher32Filter = (0, [])"
| "filter_Encode (BZIP2Filter blockSize) = (0, [word_of_int blockSize])"
| "filter_Encode LZFFilter = lzf_Encode"
| "filter_Encode (SZIPFilter om ppb bpp pps) = (0, [bpp, om, ppb, pps])"

section \<open>The writer's pipeline\<close>

type_synonym FilterPipeline = "FilterImpl list"

definition NewFilterPipeline :: FilterPipeline where
  "NewFilterPipeline = []"

definition AddFilter :: "FilterImpl \<Rightarrow> FilterPipeline \<Rightarrow> FilterPipeline" where
  "AddFilter f fp = fp @ [f]"

definition AddFilterAtStart :: "FilterImpl \<Rightarrow> FilterPipeline \<Rightarrow> FilterPipeline" where
  "AddFilterAtStart f fp = [f] @ fp"

fun apply_loop :: "('f \<Rightarrow> bytes \<Rightarrow> bytes result) \<Rightarrow> string \<Rightarrow> 'f list \<Rightarrow> bytes \<Rightarrow> bytes result" where
  "apply_loop f msg [] res = Inr res"
| "apply_loop f msg (x # xs) res =
     (case f x res of
        Inl e \<Rightarrow> Inl (wrap msg e)
      | Inr res \<Rightarrow> apply_loop f msg xs res)"

definition pipeline_Apply :: "codecs \<Rightarrow> FilterPipeline \<Rightarrow> bytes \<Rightarrow> bytes result" where
  "pipeline_Apply lib fp data = apply_loop (filter_Apply lib) ''filter %s failed: %w'' fp data"

definition pipeline_Remove :: "codecs \<Rightarrow> FilterPipeline \<Rightarrow> bytes \<Rightarrow> bytes result" where
  "pipeline_Remove lib fp data =
     apply_loop (filter_Remove lib) ''filter %s remove failed: %w'' (rev fp) data"

definition pipeline_IsEmpty :: "FilterPipeline \<Rightarrow> bool" where
  "pipeline_IsEmpty fp \<longleftrightarrow> length fp = 0"

definition pipeline_Count :: "FilterPipeline \<Rightarrow> nat" where
  "pipeline_Count fp = length fp"

text \<open>
  The pipeline message. The name is a string of characters; \<^verbatim>\<open>copy(buf[8:], name)\<close> stores its
  bytes and leaves the padding zero.
\<close>

definition name_bytes :: "string \<Rightarrow> bytes" where
  "name_bytes s = map (\<lambda>c. of_nat (of_char c)) s"

definition encodeFilter :: "FilterImpl \<Rightarrow> bytes" where
  "encodeFilter f =
     (case filter_Encode f of
        (flags, cdValues) \<Rightarrow>
          let name = filter_Name f;
              nameLen = of_nat (length name) :: u16;
              paddedNameLen = (if nameLen > 0 then (nameLen + 7) div 8 * 8 else 0) :: u16
          in le_put 2 (filter_ID f) @ le_put 2 nameLen @ le_put 2 flags
             @ le_put 2 (of_nat (length cdValues) :: u16)
             @ (if nameLen > 0 then name_bytes name @ zeros (unat paddedNameLen - length name) else [])
             @ concat (map (le_put 4) cdValues))"

definition EncodePipelineMessage :: "FilterPipeline \<Rightarrow> bytes result" where
  "EncodePipelineMessage fp =
     (if pipeline_IsEmpty fp then Inl (Errorf ''empty filter pipeline'')
      else Inr ([2, of_nat (length fp)] @ zeros 6 @ concat (map encodeFilter fp)))"

section \<open>The reader's pipeline\<close>

record FilterDesc =
  fd_ID :: u16
  fd_NameLength :: u16
  fd_Flags :: u16
  fd_NumClientData :: u16
  fd_Name :: bytes
  fd_ClientData :: "u32 list"

record FilterPipelineMessage =
  fpm_Version :: byte
  fpm_NumFilters :: byte
  fpm_Filters :: "FilterDesc list"

text \<open>The name is cut at its first null byte; an empty result falls back to the whole field.\<close>

definition filter_name_field :: "bytes \<Rightarrow> bytes" where
  "filter_name_field nameBytes =
     (let cut = (if 0 \<in> set nameBytes then takeWhile (\<lambda>b. b \<noteq> 0) nameBytes else [])
      in if cut = [] then nameBytes else cut)"

definition client_words :: "nat \<Rightarrow> bytes \<Rightarrow> u32 list" where
  "client_words n bs = map (\<lambda>j. le_get (take 4 (drop (4 * j) bs))) [0..<n]"

definition parse_filter :: "byte \<Rightarrow> bytes \<Rightarrow> nat \<Rightarrow> (FilterDesc \<times> nat) result" where
  "parse_filter version data offset =
     (if offset + 8 > length data then Inl (Errorf ''filter pipeline truncated at filter %d'')
      else let fid = le_get (take 2 (drop offset data)) :: u16;
               offset = offset + 2;
               nameLength = (if version = 1 then le_get (take 2 (drop offset data)) else 0) :: u16;
               offset = (if version = 1 then offset + 2 else offset);
               flags = le_get (take 2 (drop offset data)) :: u16;
               offset = offset + 2;
               numClientData = le_get (take 2 (drop offset data)) :: u16;
               offset = offset + 2
           in case (if version = 1 \<and> nameLength > 0
                    then let padded = (if nameLength mod 8 \<noteq> 0 then nameLength + (8 - nameLength mod 8)
                                       else nameLength)
                         in if offset + unat padded > length data
                            then Inl (Errorf ''filter name truncated at filter %d'')
                            else if offset + unat nameLength > length data then Inl slice_panic
                            else Inr (filter_name_field (take (unat nameLength) (drop offset data)),
                                      offset + unat padded)
                    else Inr ([], offset)) of
                Inl e \<Rightarrow> Inl e
              | Inr (name, offset) \<Rightarrow>
                  let dataSize = unat numClientData * 4
                  in if numClientData > 0 \<and> offset + dataSize > length data
                     then Inl (Errorf ''filter client data truncated at filter %d'')
                     else Inr (\<lparr>fd_ID = fid, fd_NameLength = nameLength, fd_Flags = flags,
                                fd_NumClientData = numClientData, fd_Name = name,
                                fd_ClientData = client_words (unat numClientData) (drop offset data)\<rparr>,
                               offset + dataSize
                                 + (if version = 1 \<and> dataSize mod 8 \<noteq> 0 then 8 - dataSize mod 8 else 0)))"

fun parse_filters :: "byte \<Rightarrow> bytes \<Rightarrow> nat \<Rightarrow> nat \<Rightarrow> FilterDesc list result" where
  "parse_filters version data 0 offset = Inr []"
| "parse_filters version data (Suc n) offset =
     (case parse_filter version data offset of
        Inl e \<Rightarrow> Inl e
      | Inr (f, offset) \<Rightarrow>
          (case parse_filters version data n offset of
             Inl e \<Rightarrow> Inl e
           | Inr fs \<Rightarrow> Inr (f # fs)))"

definition ParseFilterPipelineMessage :: "bytes \<Rightarrow> FilterPipelineMessage result" where
  "ParseFilterPipelineMessage data =
     (if length data < 2 then Inl (Errorf ''filter pipeline message too short'')
      else let version = data ! 0; numFilters = data ! 1
           in if version < 1 \<or> version > 2 then Inl (Errorf ''unsupported filter pipeline version: %d'')
              else case parse_filters version data (unat numFilters) (if version = 1 then 8 else 2) of
                     Inl e \<Rightarrow> Inl e
                   | Inr fs \<Rightarrow> Inr \<lparr>fpm_Version = version, fpm_NumFilters = numFilters, fpm_Filters = fs\<rparr>)"

definition applyDeflate :: "codecs \<Rightarrow> bytes \<Rightarrow> bytes result" where
  "applyDeflate lib data =
     (case zlib_inflate lib data of
        Inl e \<Rightarrow> Inl (Wrapf ''zlib decompression failed: %w'' e)
      | Inr out \<Rightarrow> Inr out)"

definition applyBZIP2 :: "codecs \<Rightarrow> bytes \<Rightarrow> bytes result" where
  "applyBZIP2 lib data =
     (case bzip2_inflate lib data of
        Inl e \<Rightarrow> Inl (Wrapf ''bzip2 decompression failed: %w'' e)
      | Inr out \<Rightarrow> Inr out)"

definition applySZIP :: "bytes \<Rightarrow> bytes result" where
  "applySZIP data = Inl (Errorf ''SZIP decompression requires libaec library (not available in pure Go)'')"

text \<open>\<^verbatim>\<open>cd_values[2]\<close> of an LZF filter, the expected size of the chunk, when it is set.\<close>

definition lzf_expected :: "FilterDesc \<Rightarrow> nat option" where
  "lzf_expected f =
     (if length (fd_ClientData f) \<ge> 3 \<and> fd_ClientData f ! 2 > 0
      then Some (unat (fd_ClientData f ! 2)) else None)"

definition applyFilter :: "codecs \<Rightarrow> FilterDesc \<Rightarrow> bytes \<Rightarrow> bytes result" where
  "applyFilter lib f data =
     (if fd_ID f = 1 then applyDeflate lib data
      else if fd_ID f = 2 then applyShuffle data (fd_ClientData f)
      else if fd_ID f = 3 then applyFletcher32 data
      else if fd_ID f = 307 then applyBZIP2 lib data
      else if fd_ID f = 32000
      then (case lzf_expected f of
              Some expectedSize \<Rightarrow> if length data = expectedSize then Inr data else applyLZF data
            | None \<Rightarrow> applyLZF data)
      else if fd_ID f = 4 then applySZIP data
      else Inl (Errorf ''unsupported filter ID: %d''))"

text \<open>
  The loop over the filters, last one first. Like the code, \<^verbatim>\<open>result, err = applyFilter(...)\<close>
  overwrites the data also when the call fails: a failed optional filter leaves the empty slice.
\<close>

fun apply_filters_loop :: "codecs \<Rightarrow> FilterDesc list \<Rightarrow> bytes \<Rightarrow> bytes result" where
  "apply_filters_loop lib [] res = Inr res"
| "apply_filters_loop lib (f # fs) res =
     (case applyFilter lib f res of
        Inl e \<Rightarrow>
          if is_panic e then Inl e
          else if fd_Flags f AND 0x0001 \<noteq> 0 then apply_filters_loop lib fs []
          else Inl (Wrapf ''filter %d (%s) failed: %w'' e)
      | Inr res \<Rightarrow>
          apply_filters_loop lib fs
            (case (if fd_ID f = 32000 then lzf_expected f else None) of
               Some expectedSize \<Rightarrow>
                 if length res < expectedSize then res @ zeros (expectedSize - length res) else res
             | None \<Rightarrow> res))"

definition ApplyFilters :: "codecs \<Rightarrow> FilterPipelineMessage \<Rightarrow> bytes \<Rightarrow> bytes result" where
  "ApplyFilters lib fp data =
     (if length (fpm_Filters fp) = 0 then Inr data
      else apply_filters_loop lib (rev (fpm_Filters fp)) data)"

section \<open>Shuffle is a transposition\<close>

lemma copy_bytes_correct:
  assumes "\<And>s d. (s, d) \<in> set ps \<Longrightarrow> s < length src \<and> d < length dst" "distinct (map snd ps)"
  shows "\<exists>res. copy_bytes ps src dst = Inr res \<and> length res = length dst
           \<and> (\<forall>(s, d) \<in> set ps. res ! d = src ! s) \<and> (\<forall>d. d \<notin> snd ` set ps \<longrightarrow> res ! d = dst ! d)"
  using assms
proof (induction ps src dst rule: copy_bytes.induct)
  case (1 src dst)
  then show ?case by simp
next
  case (2 s d ps src dst)
  have sd: "s < length src" "d < length dst" using 2(2) by auto
  then obtain res where "copy_bytes ps src (dst[d := src ! s]) = Inr res" "length res = length dst"
      "\<forall>(s, d) \<in> set ps. res ! d = src ! s" "\<forall>k. k \<notin> snd ` set ps \<longrightarrow> res ! k = dst[d := src ! s] ! k"
    using 2 by force
  moreover have "d \<notin> snd ` set ps" using 2(3) by auto
  ultimately show ?case using sd by auto
qed

lemma grid_inj:
  fixes b w :: nat
  assumes "b < w" "b' < w" "e * w + b = e' * w + b'" shows "e = e' \<and> b = b'"
proof -
  have "(e * w + b) div w = e" "(e' * w + b') div w = e'" "(e * w + b) mod w = b" "(e' * w + b') mod w = b'"
    using assms(1,2) by simp_all
  with assms(3) show ?thesis by metis
qed

lemma grid_less: "b < w \<Longrightarrow> e < n \<Longrightarrow> e * w + b < n * (w :: nat)"
proof -
  assume "b < w" "e < n"
  then have "e * w + b < Suc e * w" by simp
  also have "\<dots> \<le> n * w" using \<open>e < n\<close> by (intro mult_right_mono) simp_all
  finally show ?thesis .
qed

lemma grid_cover: "k < n * (w :: nat) \<Longrightarrow> \<exists>e b. k = e * w + b \<and> e < n \<and> b < w"
proof (intro exI conjI)
  assume k: "k < n * w"
  then have "0 < w" by (cases w) auto
  show "k = k div w * w + k mod w" by simp
  show "k div w < n" using k by (simp add: less_mult_imp_div_less)
  show "k mod w < w" using \<open>0 < w\<close> by simp
qed

lemma distinct_grid:
  assumes "\<And>b e b' e'. b < w \<Longrightarrow> e < n \<Longrightarrow> b' < w \<Longrightarrow> e' < n \<Longrightarrow> g b e = g b' e' \<Longrightarrow> b = b' \<and> e = (e' :: nat)"
  shows "distinct (concat (map (\<lambda>b. map (\<lambda>e. g b e) [0..<n]) [0..<w :: nat]))"
proof -
  have "concat (map (\<lambda>b. map (\<lambda>e. g b e) [0..<n]) [0..<w]) = map (\<lambda>(b, e). g b e) (List.product [0..<w] [0..<n])"
    by (simp add: product_concat_map map_concat comp_def)
  moreover have "inj_on (\<lambda>(b, e). g b e) (set (List.product [0..<w] [0..<n]))"
    using assms by (auto simp: inj_on_def)
  ultimately show ?thesis by (simp add: distinct_map distinct_product)
qed

text \<open>Copying along a bijection between two layouts of an \<open>n\<close> by \<open>w\<close> grid.\<close>

lemma copy_grid:
  assumes len: "length src = L" and bnd: "\<And>b e. b < w \<Longrightarrow> e < n \<Longrightarrow> f b e < L \<and> g b e < L"
    and inj: "\<And>b e b' e'. b < w \<Longrightarrow> e < n \<Longrightarrow> b' < w \<Longrightarrow> e' < n \<Longrightarrow> g b e = g b' e' \<Longrightarrow> b = b' \<and> e = e'"
  shows "\<exists>res. copy_bytes (concat (map (\<lambda>b. map (\<lambda>e. (f b e, g b e)) [0..<n]) [0..<w])) src (zeros L) = Inr res
           \<and> length res = L \<and> (\<forall>b < w. \<forall>e < n. res ! g b e = src ! f b e)"
proof -
  let ?ps = "concat (map (\<lambda>b. map (\<lambda>e. (f b e, g b e)) [0..<n]) [0..<w])"
  have "map snd ?ps = concat (map (\<lambda>b. map (\<lambda>e. g b e) [0..<n]) [0..<w])"
    by (simp add: map_concat comp_def)
  then have dist: "distinct (map snd ?ps)"
    using distinct_grid [OF inj] by (simp only:)
  have bnds: "s < length src \<and> d < length (zeros L)" if "(s, d) \<in> set ?ps" for s d
    using that bnd len by auto
  from copy_bytes_correct [OF bnds dist] obtain res
    where res: "copy_bytes ?ps src (zeros L) = Inr res" "length res = length (zeros L)"
      "\<forall>(s, d) \<in> set ?ps. res ! d = src ! s"
    by blast
  have "res ! g b e = src ! f b e" if "b < w" "e < n" for b e
  proof -
    have "(f b e, g b e) \<in> set (map (\<lambda>e. (f b e, g b e)) [0..<n])" using that by simp
    then have "(f b e, g b e) \<in> set ?ps" using that(1) by (simp only: set_concat set_map) auto
    then show ?thesis using res(3) by blast
  qed
  with res(1,2) show ?thesis by (simp only: length_replicate) blast
qed

lemma u32_index:
  "e * unat es + b < 2 ^ 32 \<Longrightarrow> unat (of_nat e * es + of_nat b :: u32) = e * unat es + b"
  using unat_of_nat_less [of "e * unat es + b", where 'a = 32] by simp

text \<open>
  The supported inputs of the shuffle filter: a whole number of elements, below 4 GiB.
\<close>

definition shuffle_shape :: "u32 \<Rightarrow> nat \<Rightarrow> bytes \<Rightarrow> bool" where
  "shuffle_shape es n data \<longleftrightarrow> es \<noteq> 0 \<and> 0 < n \<and> length data = n * unat es \<and> length data < 2 ^ 32"

lemma shuffle_shape_facts:
  assumes "shuffle_shape es n data"
  defines "len \<equiv> of_nat (length data) :: u32"
  shows "len \<noteq> 0" "len mod es = 0" "unat (len div es) = n" "unat len = n * unat es" "0 < unat es"
proof -
  have "unat len = length data"
    unfolding len_def by (rule unat_of_nat_less) (use assms(1) in \<open>simp add: shuffle_shape_def\<close>)
  then show len: "unat len = n * unat es" and es: "0 < unat es"
    using assms(1) by (simp_all add: shuffle_shape_def unat_gt_0)
  then show "len \<noteq> 0" using assms(1) by (auto simp: shuffle_shape_def)
  have "unat (len mod es) = 0" using len by (simp add: unat_mod)
  then show "len mod es = 0" by (simp add: unat_eq_zero)
  show "unat (len div es) = n" using len es by (simp add: unat_div)
qed

lemma shuffle_index:
  assumes "shuffle_shape es n data" "b < unat es" "e < n"
  shows "unat (of_nat e * es + of_nat b :: u32) = e * unat es + b"
    and "unat (of_nat b * ((of_nat (length data) :: u32) div es) + of_nat e) = b * n + e"
    and "e * unat es + b < length data" "b * n + e < length data"
proof -
  note f = shuffle_shape_facts [OF assms(1)]
  show lt: "e * unat es + b < length data" "b * n + e < length data"
    using grid_less [OF assms(2,3)] grid_less [OF assms(3,2)] assms(1)
    by (simp_all add: shuffle_shape_def mult.commute)
  have "length data < 2 ^ 32" using assms by (simp add: shuffle_shape_def)
  then show "unat (of_nat e * es + of_nat b :: u32) = e * unat es + b"
      "unat (of_nat b * ((of_nat (length data) :: u32) div es) + of_nat e) = b * n + e"
    using lt u32_index [of e es b] u32_index [of b "of_nat (length data) div es" e] f(3) by simp_all
qed

text \<open>The loops over 32-bit indices run through the natural numbers below the element counts.\<close>

lemma shuffle_Apply_eq:
  assumes sh: "shuffle_shape es n data"
  shows "shuffle_Apply es data =
    copy_bytes (concat (map (\<lambda>b. map (\<lambda>e. (e * unat es + b, b * n + e)) [0..<n]) [0..<unat es]))
      data (zeros (length data))"
proof -
  note f = shuffle_shape_facts [OF sh]
  have len: "unat (of_nat (length data) :: u32) = length data" using f(4) sh by (simp add: shuffle_shape_def)
  have "concat (map (\<lambda>b. map (\<lambda>e. (unat (of_nat e * es + of_nat b),
      unat (of_nat b * ((of_nat (length data) :: u32) div es) + of_nat e))) [0..<n]) [0..<unat es])
    = concat (map (\<lambda>b. map (\<lambda>e. (e * unat es + b, b * n + e)) [0..<n]) [0..<unat es])"
    by (intro arg_cong [where f = concat] map_cong refl) (use shuffle_index [OF sh] in simp)
  then show ?thesis
    using f len by (simp only: shuffle_Apply_def Let_def if_False simp_thms)
      (use sh in \<open>simp add: shuffle_shape_def\<close>)
qed

lemma shuffle_Remove_eq:
  assumes sh: "shuffle_shape es n data"
  shows "shuffle_Remove es data =
    copy_bytes (concat (map (\<lambda>b. map (\<lambda>e. (b * n + e, e * unat es + b)) [0..<n]) [0..<unat es]))
      data (zeros (length data))"
proof -
  note f = shuffle_shape_facts [OF sh]
  have len: "unat (of_nat (length data) :: u32) = length data" using f(4) sh by (simp add: shuffle_shape_def)
  have "concat (map (\<lambda>b. map (\<lambda>e. (unat (of_nat b * ((of_nat (length data) :: u32) div es) + of_nat e),
      unat (of_nat e * es + of_nat b))) [0..<n]) [0..<unat es])
    = concat (map (\<lambda>b. map (\<lambda>e. (b * n + e, e * unat es + b)) [0..<n]) [0..<unat es])"
    by (intro arg_cong [where f = concat] map_cong refl) (use shuffle_index [OF sh] in simp)
  then show ?thesis
    using f len by (simp only: shuffle_Remove_def Let_def if_False simp_thms)
      (use sh in \<open>simp add: shuffle_shape_def\<close>)
qed

lemma shuffle_Apply_nth:
  assumes sh: "shuffle_shape es n data"
  shows "\<exists>res. shuffle_Apply es data = Inr res \<and> length res = length data
     \<and> (\<forall>b < unat es. \<forall>e < n. res ! (b * n + e) = data ! (e * unat es + b))"
  unfolding shuffle_Apply_eq [OF sh]
  by (rule copy_grid) (use shuffle_index(3,4) [OF sh] grid_inj in blast)+

lemma shuffle_Remove_nth:
  assumes sh: "shuffle_shape es n data"
  shows "\<exists>res. shuffle_Remove es data = Inr res \<and> length res = length data
     \<and> (\<forall>b < unat es. \<forall>e < n. res ! (e * unat es + b) = data ! (b * n + e))"
  unfolding shuffle_Remove_eq [OF sh]
  by (rule copy_grid) (use shuffle_index(3,4) [OF sh] grid_inj in blast)+

lemma shuffle_shape_exists:
  assumes "shuffle_Apply es data = Inr enc" "data \<noteq> []" "length data < 2 ^ 32"
  shows "\<exists>n. shuffle_shape es n data"
proof -
  let ?l = "of_nat (length data) :: u32"
  have l: "unat ?l = length data" using assms(3) by (intro unat_of_nat_less) simp
  then have "?l \<noteq> 0" using assms(2) by (metis length_0_conv unat_0)
  then have es: "es \<noteq> 0" "?l mod es = 0"
    using assms(1) by (auto simp: shuffle_Apply_def Let_def split: if_splits)
  then have "length data mod unat es = 0" using l by (metis unat_0 unat_mod)
  then have "length data = length data div unat es * unat es"
    using mult_div_mod_eq [of "unat es" "length data"] by (simp add: mult.commute)
  moreover from this have "0 < length data div unat es" using assms(2) by (metis gr0I length_0_conv mult_0)
  ultimately show ?thesis using es assms(3) unfolding shuffle_shape_def by blast
qed

lemma shuffle_inverse:
  assumes "shuffle_Apply es data = Inr enc" "length data < 2 ^ 32"
  shows "shuffle_Remove es enc = Inr data"
proof (cases "data = []")
  case True
  then show ?thesis using assms by (simp add: shuffle_Apply_def shuffle_Remove_def)
next
  case False
  then obtain n where sh: "shuffle_shape es n data" using shuffle_shape_exists assms by blast
  from shuffle_Apply_nth [OF sh] assms(1)
  have enc: "length enc = length data" "\<forall>b < unat es. \<forall>e < n. enc ! (b * n + e) = data ! (e * unat es + b)"
    by auto
  then have sh': "shuffle_shape es n enc" using sh by (simp add: shuffle_shape_def)
  from shuffle_Remove_nth [OF sh'] obtain res where res: "shuffle_Remove es enc = Inr res"
      "length res = length enc" "\<forall>b < unat es. \<forall>e < n. res ! (e * unat es + b) = enc ! (b * n + e)" by blast
  have "res = data"
  proof (rule nth_equalityI)
    show "length res = length data" using res enc by simp
    fix k assume "k < length res"
    then have "k < n * unat es" using res enc sh by (simp add: shuffle_shape_def)
    then obtain e b where "k = e * unat es + b" "e < n" "b < unat es" using grid_cover by blast
    then show "res ! k = data ! k" using res(3) enc(2) by simp
  qed
  with res show ?thesis by simp
qed

lemma applyShuffle_Remove:
  assumes sh: "shuffle_shape es n data"
  shows "applyShuffle data (es # cds) = shuffle_Remove es data"
proof -
  have w: "0 < unat es" "length data = n * unat es" "0 < n"
    using sh by (simp_all add: shuffle_shape_def unat_gt_0)
  then have div: "length data div unat es = n" "length data mod unat es = 0" "unat es \<le> length data"
    by simp_all
  have "\<exists>res. copy_bytes (concat (map (\<lambda>e. map (\<lambda>b. (b * n + e, e * unat es + b)) [0..<unat es]) [0..<n]))
        data (zeros (length data)) = Inr res
      \<and> length res = length data \<and> (\<forall>e < n. \<forall>b < unat es. res ! (e * unat es + b) = data ! (b * n + e))"
    by (rule copy_grid) (use shuffle_index(3,4) [OF sh] grid_inj in blast)+
  then obtain r1 where r1: "applyShuffle data (es # cds) = Inr r1" "length r1 = length data"
      "\<forall>e < n. \<forall>b < unat es. r1 ! (e * unat es + b) = data ! (b * n + e)"
    using w div by (auto simp: applyShuffle_def Let_def)
  from shuffle_Remove_nth [OF sh] obtain r2 where r2: "shuffle_Remove es data = Inr r2"
      "length r2 = length data" "\<forall>b < unat es. \<forall>e < n. r2 ! (e * unat es + b) = data ! (b * n + e)" by blast
  have "r1 = r2"
  proof (rule nth_equalityI)
    show "length r1 = length r2" using r1 r2 by simp
    fix k assume "k < length r1"
    then have "k < n * unat es" using r1 w by simp
    then obtain e b where "k = e * unat es + b" "e < n" "b < unat es" using grid_cover by blast
    then show "r1 ! k = r2 ! k" using r1(3) r2(3) by simp
  qed
  with r1 r2 show ?thesis by simp
qed

text \<open>
  Shuffle groups the bytes of an array of \<open>n\<close> elements by byte position (byte \<open>b\<close> of element
  \<open>e\<close> goes to position \<open>b * n + e\<close>), and the reader restores the original order: both the writer's
  \<^verbatim>\<open>Remove\<close> and the reader's \<^verbatim>\<open>applyShuffle\<close>, driven by the client data that \<^verbatim>\<open>Encode\<close> stores, invert it.
\<close>

theorem shuffle_roundtrip:
  assumes "es \<noteq> 0" "0 < n" "length data = n * unat es" "length data < 2 ^ 32"
  shows "\<exists>enc. shuffle_Apply es data = Inr enc \<and> length enc = length data
     \<and> (\<forall>b < unat es. \<forall>e < n. enc ! (b * n + e) = data ! (e * unat es + b))
     \<and> shuffle_Remove es enc = Inr data \<and> applyShuffle enc (snd (shuffle_Encode es)) = Inr data"
proof -
  have sh: "shuffle_shape es n data" using assms by (simp add: shuffle_shape_def)
  from shuffle_Apply_nth [OF sh] obtain enc where enc: "shuffle_Apply es data = Inr enc"
      "length enc = length data" "\<forall>b < unat es. \<forall>e < n. enc ! (b * n + e) = data ! (e * unat es + b)"
    by blast
  then have "shuffle_shape es n enc" using sh by (simp add: shuffle_shape_def)
  with enc shuffle_inverse [OF enc(1) assms(4)] applyShuffle_Remove show ?thesis
    by (simp add: shuffle_Encode_def)
qed

theorem shuffle_roundtrip_witness:
  "shuffle_Apply 2 [1, 2, 3, 4, 5, 6] = Inr [1, 3, 5, 2, 4, 6]
   \<and> shuffle_Remove 2 [1, 3, 5, 2, 4, 6] = Inr [1, 2, 3, 4, 5, 6]
   \<and> applyShuffle [1, 3, 5, 2, 4, 6] [2] = Inr [1, 2, 3, 4, 5, 6]"
proof -
  have a: "shuffle_Apply 2 [1, 2, 3, 4, 5, 6] = Inr [1, 3, 5, 2, 4, 6]" by code_simp
  from shuffle_roundtrip [of 2 3 "[1, 2, 3, 4, 5, 6]"] a show ?thesis
    by (simp add: shuffle_Encode_def)
qed

section \<open>Fletcher-32 detects corruption\<close>

text \<open>The first sum is the sum of the 16-bit little-endian words modulo 65535.\<close>

fun words_sum :: "bytes \<Rightarrow> nat" where
  "words_sum (b0 # b1 # rest) = unat b0 + 256 * unat b1 + words_sum rest"
| "words_sum [b] = unat b"
| "words_sum [] = 0"

lemma or_disjoint_word:
  "(ucast (b0 :: byte) OR push_bit 8 (ucast (b1 :: byte)) :: u32) = of_nat (unat b0 + 256 * unat b1)"
proof -
  have "(ucast b0 :: u32) AND push_bit 8 (ucast b1) = 0"
    by (intro bit_word_eqI) (auto simp: bit_simps dest: bit_imp_le_length)
  then have "ucast b0 OR push_bit 8 (ucast b1) = (ucast b0 :: u32) + push_bit 8 (ucast b1)"
    by (rule disjunctive_add_eq_or [symmetric])
  also have "\<dots> = of_nat (unat b0 + 256 * unat b1)"
    by (simp add: push_bit_eq_mult ac_simps)
  finally show ?thesis .
qed

lemma fletcher_step:
  assumes "unat s < 65535" "w < 65536"
  shows "unat ((s + of_nat w :: u32) mod 65535) = (unat s + w) mod 65535"
proof -
  have "unat (of_nat (unat s + w) :: u32) = unat s + w"
    using assms by (intro unat_of_nat_less) simp
  then show ?thesis by (simp add: unat_mod)
qed

lemma fletcher_loop_sum1:
  "unat s1 < 65535 \<Longrightarrow> unat (fst (fletcher_loop data s1 s2)) = (unat s1 + words_sum data) mod 65535"
proof (induction data s1 s2 rule: fletcher_loop.induct)
  case (1 b0 b1 rest s1 s2)
  let ?w = "unat b0 + 256 * unat b1"
  have "?w < 65536" using unat_byte_less [of b0] unat_byte_less [of b1] by linarith
  then have s: "unat ((s1 + of_nat ?w) mod 65535) = (unat s1 + ?w) mod 65535"
    using 1(2) by (rule fletcher_step [rotated])
  have "fletcher_loop (b0 # b1 # rest) s1 s2 =
      fletcher_loop rest ((s1 + of_nat ?w) mod 65535) ((s2 + (s1 + of_nat ?w) mod 65535) mod 65535)"
    by (simp only: fletcher_loop.simps Let_def or_disjoint_word)
  moreover have "unat (fst (fletcher_loop rest ((s1 + of_nat ?w) mod 65535) ((s2 + (s1 + of_nat ?w) mod 65535) mod 65535)))
      = (unat ((s1 + of_nat ?w) mod 65535) + words_sum rest) mod 65535"
    using 1(1) [OF or_disjoint_word [symmetric] refl refl] s by simp
  ultimately show ?case using s by (simp add: mod_simps add.assoc)
next
  case (2 b s1 s2)
  have "unat ((s1 + of_nat (unat b)) mod 65535) = (unat s1 + unat b) mod 65535"
    using 2 unat_byte_less [of b] by (intro fletcher_step) linarith+
  then show ?case by (simp add: Let_def)
next
  case (3 s1 s2)
  then show ?case by simp
qed

lemma checksum_low:
  "unat (take_bit 16 (calculateFletcher32 data)) = words_sum data mod 65535"
proof -
  obtain s1 s2 where s: "fletcher_loop data 0 0 = (s1, s2)" by force
  have s1: "unat s1 = words_sum data mod 65535"
    using fletcher_loop_sum1 [of 0 data 0] s by simp
  then have "take_bit 16 s1 = s1"
    by (intro unat_eqD) (simp add: unsigned_take_bit_eq take_bit_nat_eq_self)
  moreover have "take_bit 16 (push_bit 16 s2 OR s1) = take_bit 16 s1"
    by (intro bit_word_eqI) (auto simp: bit_simps)
  ultimately show ?thesis using s s1 by (simp add: calculateFletcher32_def)
qed

lemma words_sum_update:
  "i < length data \<Longrightarrow>
   words_sum (data[i := b]) + (if even i then 1 else 256) * unat (data ! i)
     = words_sum data + (if even i then 1 else 256) * unat b"
proof (induction data arbitrary: i rule: words_sum.induct)
  case (1 b0 b1 rest)
  consider "i = 0" | "i = 1" | j where "i = Suc (Suc j)" by (metis One_nat_def not0_implies_Suc)
  then show ?case
    using 1 by cases auto
qed auto

lemma checksum_detects_byte:
  assumes i: "i < length data" and b: "b \<noteq> data ! i"
  shows "calculateFletcher32 (data[i := b]) \<noteq> calculateFletcher32 data"
proof
  assume "calculateFletcher32 (data[i := b]) = calculateFletcher32 data"
  then have eq: "words_sum (data[i := b]) mod 65535 = words_sum data mod 65535"
    by (metis checksum_low)
  let ?c = "if even i then 1 else 256 :: nat"
  let ?x = "?c * unat (data ! i)" and ?y = "?c * unat b"
  have "words_sum (data[i := b]) + ?x = words_sum data + ?y" using words_sum_update [OF i] .
  then have "(words_sum data + ?x) mod 65535 = (words_sum data + ?y) mod 65535"
    using eq by (metis mod_add_left_eq)
  then have "?x mod 65535 = ?y mod 65535" by (simp only: nat_mod_eq_iff) auto
  moreover have "?x < 65535" "?y < 65535"
    using unat_byte_le [of b] unat_byte_le [of "data ! i"] by (cases "even i"; simp)+
  ultimately have "unat (data ! i) = unat b" by (cases "even i") simp_all
  with b show False by (auto dest: unat_eqD)
qed

lemma le_get_update_neq:
  assumes "length bs = 4" "i < 4" "b \<noteq> bs ! i"
  shows "(le_get (bs[i := b]) :: u32) \<noteq> le_get bs"
proof
  assume "(le_get (bs[i := b]) :: u32) = le_get bs"
  then have "bs[i := b] = bs"
    using le_put_le_get [of bs, where 'a = 32] le_put_le_get [of "bs[i := b]", where 'a = 32] assms(1)
    by (simp del: le_put_numeral)
  then show False using assms by (metis nth_list_update_eq)
qed

text \<open>
  Fletcher-32: removing the filter returns the data it was applied to, and any change of a single
  byte of the stored chunk, in the data or in the checksum, is reported as an error.
\<close>

theorem fletcher32_detects_corruption:
  "\<exists>enc. fletcher32_Apply data = Inr enc \<and> fletcher32_Remove enc = Inr data
     \<and> (\<forall>i < length enc. \<forall>b. b \<noteq> enc ! i \<longrightarrow>
          fletcher32_Remove (enc[i := b])
            = Inl (Errorf ''fletcher32 checksum mismatch: stored=%08x, calculated=%08x''))"
proof (intro exI conjI allI impI)
  let ?s = "le_put 4 (calculateFletcher32 data)"
  show "fletcher32_Apply data = Inr (data @ ?s)" by (simp only: fletcher32_Apply_def)
  show "fletcher32_Remove (data @ ?s) = Inr data"
    by (simp add: fletcher32_Remove_def Let_def del: le_put_numeral)
  fix i b
  assume i: "i < length (data @ ?s)" and b: "b \<noteq> (data @ ?s) ! i"
  show "fletcher32_Remove ((data @ ?s)[i := b])
      = Inl (Errorf ''fletcher32 checksum mismatch: stored=%08x, calculated=%08x'')"
  proof (cases "i < length data")
    case True
    then have "calculateFletcher32 (data[i := b]) \<noteq> calculateFletcher32 data"
      using b by (intro checksum_detects_byte) (simp_all add: nth_append)
    with True show ?thesis
      by (simp add: fletcher32_Remove_def Let_def list_update_append1 del: le_put_numeral)
  next
    case False
    let ?j = "i - length data"
    have "(le_get (?s[?j := b]) :: u32) \<noteq> le_get ?s"
      using i b False by (intro le_get_update_neq) (simp_all add: nth_append del: le_put_numeral)
    with False show ?thesis
      by (auto simp: fletcher32_Remove_def Let_def list_update_append simp del: le_put_numeral)
  qed
qed

theorem fletcher32_detects_corruption_witness:
  "fletcher32_Apply [1, 2, 3] = Inr [1, 2, 3, 4, 2, 5, 4]
   \<and> fletcher32_Remove [1, 2, 3, 4, 2, 5, 4] = Inr [1, 2, 3]
   \<and> fletcher32_Remove [1, 255, 3, 4, 2, 5, 4]
       = Inl (Errorf ''fletcher32 checksum mismatch: stored=%08x, calculated=%08x'')"
proof -
  have a: "fletcher32_Apply [1, 2, 3] = Inr [1, 2, 3, 4, 2, 5, 4]" by code_simp
  with fletcher32_detects_corruption [of "[1, 2, 3]"]
  have rem: "fletcher32_Remove [1, 2, 3, 4, 2, 5, 4] = Inr [1, 2, 3]"
    and det: "\<forall>i < length [1, 2, 3, 4, 2, 5, 4 :: byte]. \<forall>b. b \<noteq> [1, 2, 3, 4, 2, 5, 4] ! i \<longrightarrow>
        fletcher32_Remove ([1, 2, 3, 4, 2, 5, 4][i := b])
          = Inl (Errorf ''fletcher32 checksum mismatch: stored=%08x, calculated=%08x'')"
    by auto
  from det [rule_format, of 1 255] a rem show ?thesis by simp
qed

section \<open>Families of filters\<close>

text \<open>
  The contract of the \<^verbatim>\<open>Filter\<close> interface: on the data a filter supports, what \<^verbatim>\<open>Apply\<close> returns is turned
  back by \<^verbatim>\<open>Remove\<close>. The data seen by the filters of a pipeline are its \<open>stages\<close>.
\<close>

locale filter_family =
  fixes app :: "'f \<Rightarrow> bytes \<Rightarrow> bytes result"
    and rem :: "'f \<Rightarrow> bytes \<Rightarrow> bytes result"
    and supports :: "'f \<Rightarrow> bytes \<Rightarrow> bool"
  assumes rem_app: "supports f x \<Longrightarrow> app f x = Inr y \<Longrightarrow> rem f y = Inr x"
begin

fun stages_ok :: "'f list \<Rightarrow> bytes \<Rightarrow> bool" where
  "stages_ok [] x = True"
| "stages_ok (f # fs) x \<longleftrightarrow> supports f x \<and> (\<forall>y. app f x = Inr y \<longrightarrow> stages_ok fs y)"

lemma apply_loop_snoc:
  "apply_loop g msg (fs @ [f]) x =
     (case apply_loop g msg fs x of Inl e \<Rightarrow> Inl e | Inr y \<Rightarrow> apply_loop g msg [f] y)"
  by (induction g msg fs x rule: apply_loop.induct) (auto split: sum.splits)

lemma loop_inverse:
  "stages_ok fs x \<Longrightarrow> apply_loop app msg fs x = Inr y \<Longrightarrow> apply_loop rem msg' (rev fs) y = Inr x"
proof (induction fs arbitrary: x)
  case Nil
  then show ?case by simp
next
  case (Cons f fs)
  then obtain z where z: "app f x = Inr z" "apply_loop app msg fs z = Inr y"
    by (auto split: sum.splits)
  with Cons.prems(1) have "stages_ok fs z" "supports f x" by auto
  with Cons.IH z have "apply_loop rem msg' (rev fs) y = Inr z" "rem f z = Inr x"
    using rem_app by auto
  then show ?case by (simp add: apply_loop_snoc)
qed

end

text \<open>
  The writer's filters: shuffle supports what a 32-bit length can count, DEFLATE what the library's
  decoder restores.
\<close>

definition supports :: "codecs \<Rightarrow> FilterImpl \<Rightarrow> bytes \<Rightarrow> bool" where
  "supports lib f x =
     (case f of
        GZIPFilter level \<Rightarrow> (\<forall>y. gzip_deflate lib level x = Inr y \<longrightarrow> gzip_inflate lib y = Inr x)
      | ShuffleFilter es \<Rightarrow> length x < 2 ^ 32
      | _ \<Rightarrow> True)"

lemma filter_inverse: "supports lib f x \<Longrightarrow> filter_Apply lib f x = Inr y \<Longrightarrow> filter_Remove lib f y = Inr x"
proof (cases f)
  case LZFFilter
  then show "filter_Apply lib f x = Inr y \<Longrightarrow> ?thesis"
    using lzf_inverse by simp
next
  case Fletcher32Filter
  then show "filter_Apply lib f x = Inr y \<Longrightarrow> ?thesis"
    by (auto simp: fletcher32_Apply_def fletcher32_Remove_def Let_def simp del: le_put_numeral)
qed (auto simp: supports_def gzip_Apply_def gzip_Remove_def bzip2_Apply_def szip_Apply_def
    intro: shuffle_inverse split: sum.splits)

interpretation hdf5_filters: filter_family "filter_Apply lib" "filter_Remove lib" "supports lib" for lib
  by unfold_locales (rule filter_inverse)

text \<open>The documented behaviour of \<^verbatim>\<open>compress/gzip\<close>: the decoder restores what the encoder wrote.\<close>

definition gzip_lossless :: "codecs \<Rightarrow> bool" where
  "gzip_lossless lib \<longleftrightarrow> (\<forall>level x y. gzip_deflate lib level x = Inr y \<longrightarrow> gzip_inflate lib y = Inr x)"

text \<open>The data each filter of a pipeline is given on the write path.\<close>

fun stage_inputs :: "codecs \<Rightarrow> FilterImpl list \<Rightarrow> bytes \<Rightarrow> bytes list" where
  "stage_inputs lib [] x = []"
| "stage_inputs lib (f # fs) x =
     x # (case filter_Apply lib f x of Inl e \<Rightarrow> [] | Inr y \<Rightarrow> stage_inputs lib fs y)"

lemma stages_ok_small:
  assumes "gzip_lossless lib" "\<forall>z \<in> set (stage_inputs lib fs x). length z < 2 ^ 32"
  shows "hdf5_filters.stages_ok lib fs x"
  using assms(2)
proof (induction fs arbitrary: x)
  case Nil
  then show ?case by simp
next
  case (Cons f fs)
  have "supports lib f x"
    using assms(1) Cons.prems by (auto simp: supports_def gzip_lossless_def split: FilterImpl.splits)
  moreover have "hdf5_filters.stages_ok lib fs y" if "filter_Apply lib f x = Inr y" for y
    using Cons that by auto
  ultimately show ?case by simp
qed

text \<open>
  C3. A filter pipeline of any length and order is lossless: whenever the writer's pipeline accepts a
  chunk, removing the filters in reverse order restores the chunk, provided the DEFLATE library is
  lossless and no stage sees 4 GiB or more.
\<close>

theorem pipeline_roundtrip:
  assumes "gzip_lossless lib" "\<forall>z \<in> set (stage_inputs lib fp data). length z < 2 ^ 32"
    and "pipeline_Apply lib fp data = Inr enc"
  shows "pipeline_Remove lib fp enc = Inr data"
  using hdf5_filters.loop_inverse [OF stages_ok_small [OF assms(1,2)]] assms(3)
  unfolding pipeline_Apply_def pipeline_Remove_def by blast

text \<open>A stand-in for the library: the identity code behind the two magic bytes of a gzip stream.\<close>

definition toy_codecs :: codecs where
  "toy_codecs =
     \<lparr>gzip_deflate = \<lambda>level x. Inr (0x1f # 0x8b # x),
      gzip_inflate = \<lambda>y. Inr (drop 2 y),
      zlib_inflate = \<lambda>y. (case y of
          [] \<Rightarrow> Inl (Errorf ''unexpected EOF'')
        | b # r \<Rightarrow> if b AND 0x0F = 8 then Inr r else Inl (Errorf ''zlib: invalid header'')),
      bzip2_inflate = \<lambda>y. Inl (Errorf ''bzip2 data invalid'')\<rparr>"

lemma small_lengths:
  "map length zs = ns \<Longrightarrow> \<forall>n \<in> set ns. n < 2 ^ 32 \<Longrightarrow> \<forall>z \<in> set zs. length z < 2 ^ 32"
  by auto

theorem pipeline_roundtrip_witness:
  "pipeline_Apply toy_codecs [ShuffleFilter 2, GZIPFilter 6, Fletcher32Filter] [1, 2, 3, 4]
     = Inr [0x1f, 0x8b, 1, 3, 2, 4, 0x22, 0x92, 0x62, 0xAB]
   \<and> pipeline_Remove toy_codecs [ShuffleFilter 2, GZIPFilter 6, Fletcher32Filter]
       [0x1f, 0x8b, 1, 3, 2, 4, 0x22, 0x92, 0x62, 0xAB] = Inr [1, 2, 3, 4]"
proof -
  let ?fp = "[ShuffleFilter 2, GZIPFilter 6, Fletcher32Filter]"
  have lossless: "gzip_lossless toy_codecs" by (auto simp: gzip_lossless_def toy_codecs_def)
  have enc: "pipeline_Apply toy_codecs ?fp [1, 2, 3, 4] = Inr [0x1f, 0x8b, 1, 3, 2, 4, 0x22, 0x92, 0x62, 0xAB]"
    by code_simp
  have "map length (stage_inputs toy_codecs ?fp [1, 2, 3, 4]) = [4, 4, 6]" by code_simp
  then have "\<forall>z \<in> set (stage_inputs toy_codecs ?fp [1, 2, 3, 4]). length z < 2 ^ 32"
    by (rule small_lengths) simp
  from pipeline_roundtrip [OF lossless this enc] enc show ?thesis by blast
qed

section \<open>The reader and the writer\<close>

text \<open>The descriptor of a filter of the writer, with the fields that \<^verbatim>\<open>encodeFilter\<close> stores.\<close>

definition describe :: "FilterImpl \<Rightarrow> FilterDesc" where
  "describe f =
     (case filter_Encode f of
        (flags, cds) \<Rightarrow>
          \<lparr>fd_ID = filter_ID f, fd_NameLength = of_nat (length (filter_Name f)), fd_Flags = flags,
           fd_NumClientData = of_nat (length cds), fd_Name = name_bytes (filter_Name f),
           fd_ClientData = cds\<rparr>)"

definition message_of :: "FilterPipeline \<Rightarrow> FilterPipelineMessage" where
  "message_of fp =
     \<lparr>fpm_Version = 2, fpm_NumFilters = of_nat (length fp), fpm_Filters = map describe fp\<rparr>"

fun native :: "FilterImpl \<Rightarrow> bool" where
  "native (ShuffleFilter es) = True"
| "native Fletcher32Filter = True"
| "native LZFFilter = True"
| "native _ = False"

lemma apply_nonempty:
  assumes "native f" "filter_Apply lib f x = Inr y" "x \<noteq> []" "length x < 2 ^ 32" shows "y \<noteq> []"
proof (cases f)
  case (ShuffleFilter es)
  then obtain n where "shuffle_shape es n x" using shuffle_shape_exists [of es x y] assms by auto
  then show ?thesis using shuffle_Apply_nth assms ShuffleFilter by fastforce
next
  case LZFFilter
  then show ?thesis using lzf_roundtrip_ex [of x] assms by auto
qed (use assms in \<open>auto simp: fletcher32_Apply_def\<close>)

lemma applyFilter_inverse:
  assumes "native f" "filter_Apply lib f x = Inr y" "x \<noteq> []" "length x < 2 ^ 32"
  shows "applyFilter lib (describe f) y = Inr x"
proof (cases f)
  case (ShuffleFilter es)
  then obtain n where sh: "shuffle_shape es n x" using shuffle_shape_exists [of es x y] assms by auto
  then have "shuffle_shape es n y"
    using shuffle_Apply_nth [OF sh] assms ShuffleFilter by (auto simp: shuffle_shape_def)
  then show ?thesis
    using ShuffleFilter assms shuffle_inverse applyShuffle_Remove
    by (simp add: applyFilter_def describe_def shuffle_Encode_def)
next
  case Fletcher32Filter
  then show ?thesis
    using assms by (auto simp: applyFilter_def describe_def fletcher32_Apply_def applyFletcher32_def
        simp del: le_put_numeral)
next
  case LZFFilter
  then show ?thesis
    using assms lzf_inverse
    by (simp add: applyFilter_def describe_def lzf_Encode_def lzf_expected_def applyLZF_eq)
qed (use assms in auto)

lemma no_expected_size: "(if fd_ID (describe f) = 32000 then lzf_expected (describe f) else None) = None"
  by (cases f) (auto simp: describe_def lzf_expected_def lzf_Encode_def shuffle_Encode_def)

lemma apply_filters_loop_append:
  "apply_filters_loop lib (fs @ gs) x =
     (case apply_filters_loop lib fs x of Inl e \<Rightarrow> Inl e | Inr y \<Rightarrow> apply_filters_loop lib gs y)"
  by (induction lib fs x rule: apply_filters_loop.induct) (auto split: sum.splits)

lemma reader_loop_inverse:
  "\<forall>f \<in> set fp. native f \<Longrightarrow> x \<noteq> [] \<Longrightarrow> \<forall>z \<in> set (stage_inputs lib fp x). length z < 2 ^ 32 \<Longrightarrow>
   apply_loop (filter_Apply lib) msg fp x = Inr y \<Longrightarrow>
   apply_filters_loop lib (rev (map describe fp)) y = Inr x"
proof (induction fp arbitrary: x)
  case Nil
  then show ?case by simp
next
  case (Cons f fp)
  then obtain z where z: "filter_Apply lib f x = Inr z" "apply_loop (filter_Apply lib) msg fp z = Inr y"
    by (auto split: sum.splits)
  have "z \<noteq> []" using apply_nonempty [OF _ z(1)] Cons.prems by simp
  then have "apply_filters_loop lib (rev (map describe fp)) y = Inr z"
    using Cons z by auto
  moreover have "applyFilter lib (describe f) z = Inr x"
    using applyFilter_inverse [OF _ z(1)] Cons.prems by simp
  ultimately show ?case
    using no_expected_size [of f] by (simp add: apply_filters_loop_append)
qed

text \<open>
  C5. What the writer's pipeline produces with shuffle, Fletcher-32 and LZF, in any number and order,
  the reader's \<^verbatim>\<open>ApplyFilters\<close> turns back into the original chunk, given the descriptors of the same
  filters.
\<close>

theorem reader_inverts_writer:
  assumes "\<forall>f \<in> set fp. native f" "data \<noteq> []" "\<forall>z \<in> set (stage_inputs lib fp data). length z < 2 ^ 32"
    and "pipeline_Apply lib fp data = Inr enc"
  shows "ApplyFilters lib (message_of fp) enc = Inr data"
proof (cases "fp = []")
  case True
  then show ?thesis using assms(4) by (simp add: ApplyFilters_def message_of_def pipeline_Apply_def)
next
  case False
  then show ?thesis
    using reader_loop_inverse [OF assms(1-3)] assms(4)
    by (simp add: ApplyFilters_def message_of_def pipeline_Apply_def)
qed

theorem reader_inverts_writer_witness:
  "ApplyFilters toy_codecs (message_of [ShuffleFilter 2, LZFFilter, Fletcher32Filter])
     (projr (pipeline_Apply toy_codecs [ShuffleFilter 2, LZFFilter, Fletcher32Filter] [7, 0]))
   = Inr [7, 0]"
proof (rule reader_inverts_writer)
  let ?fp = "[ShuffleFilter 2, LZFFilter, Fletcher32Filter]" and ?d = "[7, 0] :: bytes"
  show "\<forall>f \<in> set ?fp. native f" "?d \<noteq> []" by simp_all
  have "map length (stage_inputs toy_codecs ?fp ?d) = [2, 2, 3]" by code_simp
  then show "\<forall>z \<in> set (stage_inputs toy_codecs ?fp ?d). length z < 2 ^ 32"
    by (rule small_lengths) simp
  show "pipeline_Apply toy_codecs ?fp ?d = Inr (projr (pipeline_Apply toy_codecs ?fp ?d))" by code_simp
qed

lemma apply_filters_loop_unknown:
  assumes "fd_ID f = 0" "fd_Flags f = 0"
  shows "\<exists>e. apply_filters_loop lib (fs @ [f]) x = Inl e"
  using assms by (auto simp: apply_filters_loop_append applyFilter_def split: sum.splits)

lemma parse_reserved_bytes:
  assumes "parse_filter 2 (2 # n # zeros 6 @ rest) 2 = Inr (f, off)"
  shows "fd_ID f = 0 \<and> fd_Flags f = 0"
proof -
  have z: "zeros 6 = [0, 0, 0, 0, 0, 0]" by code_simp
  show ?thesis
    using assms unfolding z by (auto simp: parse_filter_def Let_def split: if_splits)
qed

text \<open>
  The writer and the reader disagree on the pipeline message. \<^verbatim>\<open>EncodePipelineMessage\<close> writes
  version 2 with the six reserved bytes and the name fields of version 1; \<^verbatim>\<open>ParseFilterPipelineMessage\<close>
  expects neither in version 2 and reads the reserved bytes as a mandatory filter with ID 0. So
  whatever filters the writer stores, no chunk can be decoded with the message that was written.
\<close>

theorem written_pipeline_unreadable:
  assumes "EncodePipelineMessage fp = Inr msg" "length fp < 256"
    and "ParseFilterPipelineMessage msg = Inr p"
  shows "\<exists>e. ApplyFilters lib p x = Inl e"
proof -
  have fp: "fp \<noteq> []" and msg: "msg = 2 # of_nat (length fp) # zeros 6 @ concat (map encodeFilter fp)"
    using assms(1) by (auto simp: EncodePipelineMessage_def pipeline_IsEmpty_def split: if_splits)
  have "unat (of_nat (length fp) :: byte) = length fp" using assms(2) by (simp add: unat_of_nat_less)
  then obtain n where n: "unat (of_nat (length fp) :: byte) = Suc n" using fp by (cases fp) auto
  then obtain f off fs where "parse_filter 2 msg 2 = Inr (f, off)" "fpm_Filters p = f # fs"
    using assms(3) by (auto simp: ParseFilterPipelineMessage_def Let_def msg split: if_splits sum.splits)
  moreover from this have "fd_ID f = 0 \<and> fd_Flags f = 0" using parse_reserved_bytes msg by simp
  ultimately show ?thesis
    using apply_filters_loop_unknown [of f lib "rev fs" x] by (simp add: ApplyFilters_def)
qed

theorem written_pipeline_unreadable_witness:
  "\<exists>msg p. EncodePipelineMessage [ShuffleFilter 4] = Inr msg \<and> ParseFilterPipelineMessage msg = Inr p
     \<and> (\<exists>e. ApplyFilters toy_codecs p [1, 2, 3, 4] = Inl e)"
proof -
  have m: "EncodePipelineMessage [ShuffleFilter 4]
      = Inr [2, 1, 0, 0, 0, 0, 0, 0, 2, 0, 7, 0, 0, 0, 1, 0, 115, 104, 117, 102, 102, 108, 101, 0, 4, 0, 0, 0]"
    by code_simp
  have p: "ParseFilterPipelineMessage
      [2, 1, 0, 0, 0, 0, 0, 0, 2, 0, 7, 0, 0, 0, 1, 0, 115, 104, 117, 102, 102, 108, 101, 0, 4, 0, 0, 0]
    = Inr \<lparr>fpm_Version = 2, fpm_NumFilters = 1, fpm_Filters =
        [\<lparr>fd_ID = 0, fd_NameLength = 0, fd_Flags = 0, fd_NumClientData = 0, fd_Name = [], fd_ClientData = []\<rparr>]\<rparr>"
    by code_simp
  from written_pipeline_unreadable [OF m _ p] m p show ?thesis by (simp only: list.size) fastforce
qed

text \<open>
  The formats of the two DEFLATE containers of the Go library: \<^verbatim>\<open>compress/gzip\<close> writes the magic bytes
  \<^verbatim>\<open>1f 8b\<close>, \<^verbatim>\<open>compress/zlib\<close> refuses a stream whose first byte does not name compression method 8.
\<close>

definition gzip_magic :: "codecs \<Rightarrow> bool" where
  "gzip_magic lib \<longleftrightarrow> (\<forall>level x y. gzip_deflate lib level x = Inr y \<longrightarrow> take 2 y = [0x1f, 0x8b])"

definition zlib_checks_method :: "codecs \<Rightarrow> bool" where
  "zlib_checks_method lib \<longleftrightarrow>
     (\<forall>b r. b AND 0x0F \<noteq> 8 \<longrightarrow> zlib_inflate lib (b # r) = Inl (Errorf ''zlib: invalid header''))"

text \<open>
  A chunk compressed with the writer's GZIP filter cannot be read back: the writer produces gzip
  streams and the reader decodes zlib streams, so \<^verbatim>\<open>ApplyFilters\<close> fails on every such chunk, even when
  it is handed the right filter description.
\<close>

theorem gzip_chunk_unreadable:
  assumes "gzip_magic lib" "zlib_checks_method lib"
    and "pipeline_Apply lib [NewGZIPFilter level] data = Inr enc"
  shows "ApplyFilters lib (message_of [NewGZIPFilter level]) enc
    = Inl (Wrapf ''filter %d (%s) failed: %w''
        (Wrapf ''zlib decompression failed: %w'' (Errorf ''zlib: invalid header'')))"
proof -
  obtain lv where lv: "NewGZIPFilter level = GZIPFilter lv" by (simp add: NewGZIPFilter_def)
  then have "gzip_deflate lib lv data = Inr enc"
    using assms(3) by (auto simp: pipeline_Apply_def gzip_Apply_def split: sum.splits)
  then have "take 2 enc = [0x1f, 0x8b]" using assms(1) unfolding gzip_magic_def by blast
  then obtain r where "enc = 0x1f # r" by (cases enc) auto
  then have "zlib_inflate lib enc = Inl (Errorf ''zlib: invalid header'')"
    using assms(2) by (simp add: zlib_checks_method_def)
  then show ?thesis
    by (simp add: lv ApplyFilters_def message_of_def describe_def applyFilter_def applyDeflate_def)
qed

theorem gzip_chunk_unreadable_witness:
  "ApplyFilters toy_codecs (message_of [NewGZIPFilter 6]) [0x1f, 0x8b, 1, 2]
    = Inl (Wrapf ''filter %d (%s) failed: %w''
        (Wrapf ''zlib decompression failed: %w'' (Errorf ''zlib: invalid header'')))"
proof (rule gzip_chunk_unreadable)
  show "gzip_magic toy_codecs" by (auto simp: gzip_magic_def toy_codecs_def)
  show "zlib_checks_method toy_codecs" by (auto simp: zlib_checks_method_def toy_codecs_def)
  show "pipeline_Apply toy_codecs [NewGZIPFilter 6] [1, 2] = Inr [0x1f, 0x8b, 1, 2]"
    by (simp add: pipeline_Apply_def NewGZIPFilter_def gzip_Apply_def toy_codecs_def)
qed

text \<open>
  An optional filter that fails is meant to be skipped. The code overwrites the chunk with the
  result of the failed call before it looks at the error, so the chunk is replaced by an empty one
  and no error is reported.
\<close>

theorem failed_optional_filter_drops_data:
  assumes "applyFilter lib f data = Inl e" "\<not> is_panic e" "fd_Flags f AND 0x0001 \<noteq> 0"
  shows "ApplyFilters lib \<lparr>fpm_Version = v, fpm_NumFilters = 1, fpm_Filters = [f]\<rparr> data = Inr []"
  using assms by (simp add: ApplyFilters_def)

theorem failed_optional_filter_drops_data_witness:
  "ApplyFilters toy_codecs \<lparr>fpm_Version = 1, fpm_NumFilters = 1, fpm_Filters =
     [\<lparr>fd_ID = 5, fd_NameLength = 0, fd_Flags = 1, fd_NumClientData = 0, fd_Name = [], fd_ClientData = []\<rparr>]\<rparr>
     [1, 2, 3] = Inr []"
  by (rule failed_optional_filter_drops_data [where e = "Errorf ''unsupported filter ID: %d''"])
    (simp_all add: applyFilter_def)

end
