(* ===== verification/Superblock.thy ===== *)
theory Superblock
  imports Hdf5_Prelude
begin

text \<open>
  The superblock (\<^verbatim>\<open>internal/core/superblock.go\<close>) and the metadata checksum
  (\<^verbatim>\<open>internal/core/checksum.go\<close>). The checksum is modelled as written, with the inlined mixing
  steps and the fall-through switch, and shown to compute the block-wise reference formulation of
  lookup3. The superblock is modelled as its writer for versions 0, 2 and 3 and its reader, which
  reads 128 bytes into a pooled buffer: the contents that an earlier user left in the buffer are an
  explicit argument. What the writer stores the reader returns, whatever the buffer held.
\<close>

section \<open>Checksum\<close>

definition rot :: "nat \<Rightarrow> u32 \<Rightarrow> u32" where
  "rot k x = push_bit k x OR drop_bit (32 - k) x"

type_synonym jstate = "u32 \<times> u32 \<times> u32"

text \<open>The inlined \<^verbatim>\<open>H5_lookup3_mix\<close> and \<^verbatim>\<open>H5_lookup3_final\<close>, one \<open>let\<close> per assignment.\<close>

definition jenkins_mix :: "jstate \<Rightarrow> jstate" where
  "jenkins_mix s =
     (case s of (a, b, c) \<Rightarrow>
        let a = a - c; a = a XOR rot 4 c; c = c + b;
            b = b - a; b = b XOR rot 6 a; a = a + c;
            c = c - b; c = c XOR rot 8 b; b = b + a;
            a = a - c; a = a XOR rot 16 c; c = c + b;
            b = b - a; b = b XOR rot 19 a; a = a + c;
            c = c - b; c = c XOR rot 4 b; b = b + a
        in (a, b, c))"

definition jenkins_final :: "jstate \<Rightarrow> u32" where
  "jenkins_final s =
     (case s of (a, b, c) \<Rightarrow>
        let c = c XOR b; c = c - rot 14 b;
            a = a XOR c; a = a - rot 11 c;
            b = b XOR a; b = b - rot 25 a;
            c = c XOR b; c = c - rot 16 b;
            a = a XOR c; a = a - rot 4 c;
            b = b XOR a; b = b - rot 14 a;
            c = c XOR b; c = c - rot 24 b
        in c)"

definition word_at :: "bytes \<Rightarrow> nat \<Rightarrow> u32" where
  "word_at data i =
     ucast (data ! i) OR push_bit 8 (ucast (data ! (i + 1)))
       OR push_bit 16 (ucast (data ! (i + 2))) OR push_bit 24 (ucast (data ! (i + 3)))"

function jenkins_loop :: "bytes \<Rightarrow> nat \<Rightarrow> jstate \<Rightarrow> nat \<times> jstate" where
  "jenkins_loop data i s =
     (if i + 12 < length data
      then case s of (a, b, c) \<Rightarrow>
             jenkins_loop data (i + 12)
               (jenkins_mix (a + word_at data i, b + word_at data (i + 4), c + word_at data (i + 8)))
      else (i, s))"
  by pat_completeness auto
termination
  by (relation "measure (\<lambda>(data, i, _). length data - i)") auto

text \<open>The switch falls through from the case of the number of remaining bytes down to case 1.\<close>

definition jenkins_tail :: "bytes \<Rightarrow> nat \<Rightarrow> nat \<Rightarrow> jstate \<Rightarrow> jstate" where
  "jenkins_tail data i remaining s =
     (case s of (a, b, c) \<Rightarrow>
        let c = (if remaining \<ge> 12 then c + push_bit 24 (ucast (data ! (i + 11))) else c);
            c = (if remaining \<ge> 11 then c + push_bit 16 (ucast (data ! (i + 10))) else c);
            c = (if remaining \<ge> 10 then c + push_bit 8 (ucast (data ! (i + 9))) else c);
            c = (if remaining \<ge> 9 then c + ucast (data ! (i + 8)) else c);
            b = (if remaining \<ge> 8 then b + push_bit 24 (ucast (data ! (i + 7))) else b);
            b = (if remaining \<ge> 7 then b + push_bit 16 (ucast (data ! (i + 6))) else b);
            b = (if remaining \<ge> 6 then b + push_bit 8 (ucast (data ! (i + 5))) else b);
            b = (if remaining \<ge> 5 then b + ucast (data ! (i + 4)) else b);
            a = (if remaining \<ge> 4 then a + push_bit 24 (ucast (data ! (i + 3))) else a);
            a = (if remaining \<ge> 3 then a + push_bit 16 (ucast (data ! (i + 2))) else a);
            a = (if remaining \<ge> 2 then a + push_bit 8 (ucast (data ! (i + 1))) else a);
            a = (if remaining \<ge> 1 then a + ucast (data ! i) else a)
        in (a, b, c))"

definition jenkinsLookup3 :: "bytes \<Rightarrow> u32 \<Rightarrow> u32" where
  "jenkinsLookup3 data initval =
     (let a = 0xdeadbeef + of_nat (length data) + initval
      in case jenkins_loop data 0 (a, a, a) of
           (i, s) \<Rightarrow>
             let remaining = length data - i
             in if remaining = 0 then snd (snd s)
                else jenkins_final (jenkins_tail data i remaining s))"

definition JenkinsChecksum :: "bytes \<Rightarrow> u32" where
  "JenkinsChecksum data = jenkinsLookup3 data 0"

section \<open>The superblock\<close>

record Superblock =
  Version :: byte
  OffsetSize :: byte
  LengthSize :: byte
  BaseAddress :: u64
  RootGroup :: u64
  Endianness :: byte_order
  SuperExtension :: u64
  DriverInfo :: u64
  RootBTreeAddr :: u64
  RootHeapAddr :: u64

definition Signature :: bytes where
  "Signature = [0x89, 0x48, 0x44, 0x46, 0x0D, 0x0A, 0x1A, 0x0A]"

definition valid_size :: "byte \<Rightarrow> bool" where
  "valid_size s \<longleftrightarrow> s = 1 \<or> s = 2 \<or> s = 4 \<or> s = 8"

definition sizeCodeMap :: "byte \<Rightarrow> byte option" where
  "sizeCodeMap c =
     (if c = 0 then Some 1 else if c = 1 then Some 2 else if c = 2 then Some 4 else if c = 3 then Some 8
      else None)"

text \<open>Byte order, offset size and length size.\<close>

definition superblock_sizes :: "byte \<Rightarrow> bytes \<Rightarrow> (byte_order \<times> byte \<times> byte) result" where
  "superblock_sizes version buf =
     (if version = 0 then Inr (LittleEndian, buf ! 13, buf ! 14)
      else let endianness = (if buf ! 9 AND 0x01 = 0 then LittleEndian else BigEndian);
               sizesByte = buf ! 10
           in if valid_size sizesByte then Inr (endianness, sizesByte, 8)
              else case sizeCodeMap (sizesByte AND 0x0F) of
                     None \<Rightarrow> Inl (Errorf ''invalid offset size code: %d'')
                   | Some offsetSize \<Rightarrow>
                       (case sizeCodeMap (drop_bit 4 sizesByte AND 0x0F) of
                          None \<Rightarrow> Inl (Errorf ''invalid length size code: %d'')
                        | Some lengthSize \<Rightarrow> Inr (endianness, offsetSize, lengthSize)))"

text \<open>
  \<^verbatim>\<open>readValue\<close>: \<^verbatim>\<open>uint64(endianness.UintN(data))\<close> is the value of the same bytes at 64 bits.
\<close>

definition readValue :: "byte_order \<Rightarrow> bytes \<Rightarrow> nat \<Rightarrow> byte \<Rightarrow> u64 result" where
  "readValue endianness buf offset sz =
     (if offset + unat sz > length buf then Inl (Errorf ''buffer overflow: offset=%d, size=%d'')
      else if valid_size sz then Inr (order_get endianness (take (unat sz) (drop offset buf)))
      else Inl (Errorf ''unsupported size: %d''))"

text \<open>
  \<open>stale\<close> is what the pooled buffer of 128 bytes holds before the read; a file shorter than that
  overwrites only the front of it.
\<close>

definition ReadSuperblock :: "bytes \<Rightarrow> bytes \<Rightarrow> Superblock result" where
  "ReadSuperblock stale file =
     (let n = min 128 (length file);
          buf = take n file @ drop n stale
      in if n < 48 then Inl (Errorf ''file too small to contain a superblock'')
         else if take 8 buf \<noteq> Signature then Inl (Errorf ''invalid HDF5 signature'')
         else let version = buf ! 8
              in if version \<noteq> 0 \<and> version \<noteq> 2 \<and> version \<noteq> 3
                 then Inl (Errorf ''unsupported superblock version: %d (only 0, 2, 3 supported)'')
                 else case superblock_sizes version buf of
                   Inl e \<Rightarrow> Inl e
                 | Inr (endianness, offsetSize, lengthSize) \<Rightarrow>
                   let offsetSize = (if offsetSize = 0 then 8 else offsetSize);
                       lengthSize = (if lengthSize = 0 then 8 else lengthSize);
                       sb = \<lparr>Version = version, OffsetSize = offsetSize, LengthSize = lengthSize, BaseAddress = 0,
                             RootGroup = 0, Endianness = endianness, SuperExtension = 0, DriverInfo = 0,
                             RootBTreeAddr = 0, RootHeapAddr = 0\<rparr>
                   in if \<not> valid_size offsetSize \<or> \<not> valid_size lengthSize
                      then Inl (Errorf ''invalid sizes for version %d: offset=%d, length=%d'')
                      else if version = 0
                      then (case readValue endianness buf 64 offsetSize of
                              Inl e \<Rightarrow> Inl (Wrapf ''root group address read failed'' e)
                            | Inr root \<Rightarrow>
                            case readValue endianness buf 80 offsetSize of
                              Inl e \<Rightarrow> Inl (Wrapf ''b-tree address read failed'' e)
                            | Inr btree \<Rightarrow>
                            case readValue endianness buf 88 offsetSize of
                              Inl e \<Rightarrow> Inl (Wrapf ''heap address read failed'' e)
                            | Inr heap \<Rightarrow>
                                Inr (sb\<lparr>RootGroup := root, RootBTreeAddr := btree, RootHeapAddr := heap\<rparr>))
                      else (case readValue endianness buf 12 offsetSize of
                              Inl e \<Rightarrow> Inl (Wrapf ''base address read failed'' e)
                            | Inr base \<Rightarrow>
                            case readValue endianness buf (12 + unat offsetSize) offsetSize of
                              Inl e \<Rightarrow> Inl (Wrapf ''super extension read failed'' e)
                            | Inr ext \<Rightarrow>
                            case readValue endianness buf (12 + 3 * unat offsetSize) offsetSize of
                              Inl e \<Rightarrow> Inl (Wrapf ''root group address read failed'' e)
                            | Inr root \<Rightarrow>
                                Inr (sb\<lparr>BaseAddress := base, SuperExtension := ext, RootGroup := root\<rparr>)))"

definition superblock_v2 :: "Superblock \<Rightarrow> u64 \<Rightarrow> bytes" where
  "superblock_v2 sb eofAddress =
     (let superExt = (if SuperExtension sb = 0 then 0xFFFFFFFFFFFFFFFF else SuperExtension sb);
          front = Signature @ [Version sb, 8, 8, 0] @ le_put 8 (BaseAddress sb) @ le_put 8 superExt
                  @ le_put 8 eofAddress @ le_put 8 (RootGroup sb)
      in front @ le_put 4 (JenkinsChecksum front))"

definition superblock_v0 :: "Superblock \<Rightarrow> u64 \<Rightarrow> bytes" where
  "superblock_v0 sb eofAddress =
     Signature @ [0, 0, 0, 0, 0, 8, 8, 0] @ le_put 2 (4 :: u16) @ le_put 2 (16 :: u16) @ le_put 4 (0 :: u32)
     @ le_put 8 (BaseAddress sb) @ le_put 8 (0xFFFFFFFFFFFFFFFF :: u64) @ le_put 8 eofAddress
     @ le_put 8 (0xFFFFFFFFFFFFFFFF :: u64) @ le_put 8 (0 :: u64) @ le_put 8 (RootGroup sb)
     @ le_put 4 (1 :: u32) @ le_put 4 (0 :: u32) @ le_put 8 (RootBTreeAddr sb) @ le_put 8 (RootHeapAddr sb)"

definition writeV2 :: "Superblock \<Rightarrow> bytes \<Rightarrow> u64 \<Rightarrow> bytes result" where
  "writeV2 sb file eofAddress =
     (if OffsetSize sb \<noteq> 8 \<or> LengthSize sb \<noteq> 8
      then Inl (Errorf ''only 8-byte offsets and lengths are supported for writing, got offset=%d, length=%d'')
      else case WriteAt file (superblock_v2 sb eofAddress) 0 of
             Inl e \<Rightarrow> Inl (Wrapf ''failed to write superblock: %w'' e)
           | Inr file \<Rightarrow> Inr file)"

definition writeV0 :: "Superblock \<Rightarrow> bytes \<Rightarrow> u64 \<Rightarrow> bytes result" where
  "writeV0 sb file eofAddress =
     (if OffsetSize sb \<noteq> 8 \<or> LengthSize sb \<noteq> 8
      then Inl (Errorf ''only 8-byte offsets and lengths are supported for writing, got offset=%d, length=%d'')
      else case WriteAt file (superblock_v0 sb eofAddress) 0 of
             Inl e \<Rightarrow> Inl (Wrapf ''failed to write superblock v0: %w'' e)
           | Inr file \<Rightarrow> Inr file)"

definition superblock_WriteTo :: "Superblock \<Rightarrow> bytes \<Rightarrow> u64 \<Rightarrow> bytes result" where
  "superblock_WriteTo sb file eofAddress =
     (if Version sb = 0 then writeV0 sb file eofAddress
      else if Version sb = 2 \<or> Version sb = 3 then writeV2 sb file eofAddress
      else Inl (Errorf ''only superblock version 0, 2, and 3 are supported for writing, got version %d''))"

section \<open>The checksum computes lookup3\<close>

text \<open>
  The reference formulation: blocks of three little-endian words are added to the state and mixed;
  the last block, of one to twelve bytes, is padded with zeros and goes through the final mix.
\<close>

definition add_block :: "jstate \<Rightarrow> bytes \<Rightarrow> jstate" where
  "add_block s d =
     (case s of (a, b, c) \<Rightarrow> (a + le_get (take 4 d), b + le_get (take 4 (drop 4 d)), c + le_get (take 4 (drop 8 d))))"

function lookup3 :: "bytes \<Rightarrow> jstate \<Rightarrow> u32" where
  "lookup3 d s =
     (if length d > 12 then lookup3 (drop 12 d) (jenkins_mix (add_block s (take 12 d)))
      else if d = [] then snd (snd s)
      else jenkins_final (add_block s d))"
  by pat_completeness auto
termination
  by (relation "measure (length \<circ> fst)") auto

declare lookup3.simps [simp del] jenkins_loop.simps [simp del]

lemma le_get_Cons_add:
  "(le_get (b # bs) :: u32) = ucast b + push_bit 8 (le_get bs)"
proof -
  have "(ucast b :: u32) AND push_bit 8 (le_get bs) = 0"
    by (intro bit_word_eqI) (auto simp: bit_simps dest: bit_imp_le_length)
  then show ?thesis by (simp add: disjunctive_add_eq_or)
qed

lemma push_bit_add_u32: "push_bit n (x + y :: u32) = push_bit n x + push_bit n y"
  by (simp add: push_bit_eq_mult algebra_simps)

lemma le_get_nth_sum:
  assumes "length ys \<le> 4"
  shows "(le_get ys :: u32) =
      (if length ys \<ge> 4 then push_bit 24 (ucast (ys ! 3)) else 0)
    + (if length ys \<ge> 3 then push_bit 16 (ucast (ys ! 2)) else 0)
    + (if length ys \<ge> 2 then push_bit 8 (ucast (ys ! 1)) else 0)
    + (if length ys \<ge> 1 then ucast (ys ! 0) else 0)"
proof -
  have "length ys = 0 \<or> length ys = Suc 0 \<or> length ys = Suc (Suc 0) \<or> length ys = Suc (Suc (Suc 0))
      \<or> length ys = Suc (Suc (Suc (Suc 0)))" using assms by arith
  then consider "ys = []" | a where "ys = [a]" | a b where "ys = [a, b]"
    | a b c where "ys = [a, b, c]" | a b c d where "ys = [a, b, c, d]"
    by (auto simp: length_Suc_conv)
  then show ?thesis
    by cases (simp_all add: le_get_Cons_add push_bit_add_u32 ac_simps del: le_get.simps(2))
qed

lemma word_at_le_get:
  assumes "i + 4 \<le> length d" shows "word_at d i = le_get (take 4 (drop i d))"
proof -
  have "take 4 (drop i d) = [d ! i, d ! (i + 1), d ! (i + 2), d ! (i + 3)]"
    using assms by (intro nth_equalityI) (auto simp: less_Suc_eq numeral_eq_Suc)
  moreover have "word_at d i = le_get [d ! i, d ! (i + 1), d ! (i + 2), d ! (i + 3)]"
    by (intro bit_word_eqI) (auto simp: word_at_def bit_simps)
  ultimately show ?thesis by simp
qed

lemma jenkins_loop_reference:
  "i \<le> length d \<Longrightarrow>
   (case jenkins_loop d i s of (j, s') \<Rightarrow> lookup3 (drop j d) s' = lookup3 (drop i d) s \<and> j \<le> length d \<and> length d \<le> j + 12)"
proof (induction d i s rule: jenkins_loop.induct)
  case (1 d i s)
  obtain a b c where s: "s = (a, b, c)" by (cases s)
  show ?case
  proof (cases "i + 12 < length d")
    case True
    let ?s = "jenkins_mix (a + word_at d i, b + word_at d (i + 4), c + word_at d (i + 8))"
    have "word_at d (i + k) = le_get (take 4 (drop k (take 12 (drop i d))))" if "k + 4 \<le> 12" for k
      using True that by (simp add: word_at_le_get drop_take min_def add.commute [of k])
    from this [of 0] this [of 4] this [of 8]
    have "(a + word_at d i, b + word_at d (i + 4), c + word_at d (i + 8)) = add_block s (take 12 (drop i d))"
      by (simp add: s add_block_def)
    moreover have "drop 12 (drop i d) = drop (i + 12) d" by (simp add: add.commute [of i])
    moreover have "length (drop i d) > 12" using True by simp
    ultimately have "lookup3 (drop i d) s = lookup3 (drop (i + 12) d) ?s"
      by (subst lookup3.simps) (simp only: if_True)
    then show ?thesis
      using 1(1) [OF True s [symmetric] refl] True by (subst jenkins_loop.simps) (simp add: s)
  next
    case False
    then show ?thesis using 1(2) by (subst jenkins_loop.simps) simp
  qed
qed

lemma jenkins_tail_reference:
  assumes "i \<le> length d" "length d \<le> i + 12"
  shows "jenkins_tail d i (length d - i) s = add_block s (drop i d)"
proof -
  obtain a b c where s: "s = (a, b, c)" by (cases s)
  let ?x = "drop i d"
  note sum = le_get_nth_sum
  have "(le_get (take 4 ?x) :: u32) =
      (if length d - i \<ge> 4 then push_bit 24 (ucast (d ! (i + 3))) else 0)
    + (if length d - i \<ge> 3 then push_bit 16 (ucast (d ! (i + 2))) else 0)
    + (if length d - i \<ge> 2 then push_bit 8 (ucast (d ! (i + 1))) else 0)
    + (if length d - i \<ge> 1 then ucast (d ! i) else 0)"
    using assms by (subst sum) (auto simp: min_def add.commute [of i])
  moreover have "(le_get (take 4 (drop 4 ?x)) :: u32) =
      (if length d - i \<ge> 8 then push_bit 24 (ucast (d ! (i + 7))) else 0)
    + (if length d - i \<ge> 7 then push_bit 16 (ucast (d ! (i + 6))) else 0)
    + (if length d - i \<ge> 6 then push_bit 8 (ucast (d ! (i + 5))) else 0)
    + (if length d - i \<ge> 5 then ucast (d ! (i + 4)) else 0)"
    using assms by (subst sum) (auto simp: min_def add.commute [of i])
  moreover have "(le_get (take 4 (drop 8 ?x)) :: u32) =
      (if length d - i \<ge> 12 then push_bit 24 (ucast (d ! (i + 11))) else 0)
    + (if length d - i \<ge> 11 then push_bit 16 (ucast (d ! (i + 10))) else 0)
    + (if length d - i \<ge> 10 then push_bit 8 (ucast (d ! (i + 9))) else 0)
    + (if length d - i \<ge> 9 then ucast (d ! (i + 8)) else 0)"
    using assms by (subst sum) (auto simp: min_def add.commute [of i])
  ultimately show ?thesis
    by (simp add: s add_block_def jenkins_tail_def Let_def ac_simps)
qed


section \<open>Round trip of the superblock\<close>

lemma length_superblock: "length (superblock_v2 sb eof) = 48" "length (superblock_v0 sb eof) = 96"
  by (simp_all add: superblock_v2_def superblock_v0_def Signature_def Let_def del: le_put_numeral)

text \<open>The buffer after reading a file that starts with \<open>p\<close>.\<close>

lemma read_buffer:
  assumes stale: "length stale = 128" and p: "length p \<le> 128" "p \<noteq> []"
  shows "\<exists>r. take (min 128 (length (overwrite f 0 p))) (overwrite f 0 p)
           @ drop (min 128 (length (overwrite f 0 p))) stale = p @ r
         \<and> length r = 128 - length p \<and> length p \<le> min 128 (length (overwrite f 0 p))"
proof -
  let ?g = "overwrite f 0 p" and ?r = "drop (length p) f"
  let ?n = "min 128 (length ?g)"
  have g: "?g = p @ ?r" using p(2) by (simp add: overwrite_def)
  then have n: "length p \<le> ?n" using p(1) by simp
  then have "take ?n ?g @ drop ?n stale = p @ (take (?n - length p) ?r @ drop ?n stale)"
    by (subst (2) g) simp
  moreover have "length (take (?n - length p) ?r @ drop ?n stale) = 128 - length p"
    using n stale g by auto
  ultimately show ?thesis using n by blast
qed

lemma readValue_8:
  "offset + 8 \<le> length buf \<Longrightarrow> readValue e buf offset 8 = Inr (order_get e (take 8 (drop offset buf)))"
  by (simp add: readValue_def valid_size_def)

text \<open>What of a superblock is kept in a file: the fields its version has.\<close>

definition stored_fields :: "Superblock \<Rightarrow> Superblock" where
  "stored_fields sb =
     (if Version sb = 0 then sb\<lparr>BaseAddress := 0, SuperExtension := 0, DriverInfo := 0\<rparr>
      else sb\<lparr>SuperExtension := (if SuperExtension sb = 0 then 0xFFFFFFFFFFFFFFFF else SuperExtension sb),
              DriverInfo := 0, RootBTreeAddr := 0, RootHeapAddr := 0\<rparr>)"

lemma read_v2:
  assumes "length stale = 128" "Version sb = 2 \<or> Version sb = 3" "OffsetSize sb = 8" "LengthSize sb = 8"
    "Endianness sb = LittleEndian"
  shows "ReadSuperblock stale (overwrite f 0 (superblock_v2 sb eof)) = Inr (stored_fields sb)"
proof -
  let ?p = "superblock_v2 sb eof" and ?f = "overwrite f 0 (superblock_v2 sb eof)"
  let ?n = "min 128 (length ?f)"
  have len: "length ?p = 48" by (rule length_superblock)
  then have "?p \<noteq> []" by auto
  with len obtain r where buf: "take ?n ?f @ drop ?n stale = ?p @ r" and r: "length r = 80" and n: "48 \<le> ?n"
    using read_buffer [OF assms(1), of ?p f] by (elim meta_impE exE conjE) (simp_all only:, simp)
  have p: "take 8 (?p @ r) = Signature" "(?p @ r) ! 8 = Version sb" "(?p @ r) ! 9 = 8" "(?p @ r) ! 10 = 8"
    by (simp_all add: superblock_v2_def Signature_def Let_def del: le_put_numeral)
  have sizes: "superblock_sizes (Version sb) (?p @ r) = Inr (LittleEndian, 8, 8)"
    using p assms(2) by (auto simp: superblock_sizes_def valid_size_def)
  have "readValue LittleEndian (?p @ r) 12 8 = Inr (BaseAddress sb)"
      "readValue LittleEndian (?p @ r) 20 8
         = Inr (if SuperExtension sb = 0 then 0xFFFFFFFFFFFFFFFF else SuperExtension sb)"
      "readValue LittleEndian (?p @ r) 36 8 = Inr (RootGroup sb)"
    by (simp_all add: readValue_8 length_superblock)
      (simp_all add: superblock_v2_def Signature_def Let_def del: le_put_numeral)
  then show ?thesis
    using n p(1) assms(2-) sizes
    unfolding ReadSuperblock_def Let_def buf p
    by (cases sb) (auto simp: valid_size_def stored_fields_def)
qed

lemma read_v0:
  assumes "length stale = 128" "Version sb = 0" "OffsetSize sb = 8" "LengthSize sb = 8"
    "Endianness sb = LittleEndian"
  shows "ReadSuperblock stale (overwrite f 0 (superblock_v0 sb eof)) = Inr (stored_fields sb)"
proof -
  let ?p = "superblock_v0 sb eof" and ?f = "overwrite f 0 (superblock_v0 sb eof)"
  let ?n = "min 128 (length ?f)"
  have len: "length ?p = 96" by (rule length_superblock)
  then have "?p \<noteq> []" by auto
  with len obtain r where buf: "take ?n ?f @ drop ?n stale = ?p @ r" and r: "length r = 32" and n: "96 \<le> ?n"
    using read_buffer [OF assms(1), of ?p f] by (elim meta_impE exE conjE) (simp_all only:, simp)
  have p: "take 8 (?p @ r) = Signature" "(?p @ r) ! 8 = 0" "(?p @ r) ! 13 = 8" "(?p @ r) ! 14 = 8"
    by (simp_all add: superblock_v0_def Signature_def Let_def del: le_put_numeral)
  have sizes: "superblock_sizes 0 (?p @ r) = Inr (LittleEndian, 8, 8)"
    using p by (auto simp: superblock_sizes_def valid_size_def)
  have "readValue LittleEndian (?p @ r) 64 8 = Inr (RootGroup sb)"
      "readValue LittleEndian (?p @ r) 80 8 = Inr (RootBTreeAddr sb)"
      "readValue LittleEndian (?p @ r) 88 8 = Inr (RootHeapAddr sb)"
    by (simp_all add: readValue_8 length_superblock)
      (simp_all add: superblock_v0_def Signature_def Let_def del: le_put_numeral)
  then show ?thesis
    using n p(1) assms(2-) sizes
    unfolding ReadSuperblock_def Let_def buf p
    by (cases sb) (auto simp: valid_size_def stored_fields_def)
qed


definition demo_superblock :: Superblock where
  "demo_superblock =
     \<lparr>Version = 0, OffsetSize = 8, LengthSize = 8, BaseAddress = 0, RootGroup = 96, Endianness = LittleEndian,
      SuperExtension = 0, DriverInfo = 0, RootBTreeAddr = 136, RootHeapAddr = 680\<rparr>"


text \<open>
  The reader accepts a file of at least 48 bytes, but a version 0 superblock has 96: for a
  version 0 file cut off before byte 96 the addresses of the root group come from whatever the
  pooled buffer held, and no error is reported.
\<close>

theorem truncated_superblock_reads_stale:
  "\<exists>file sb1 sb2. length file = 64 \<and> ReadSuperblock (zeros 128) file = Inr sb1
     \<and> ReadSuperblock (replicate 128 7) file = Inr sb2 \<and> RootGroup sb1 \<noteq> RootGroup sb2"
proof -
  let ?f = "take 64 (superblock_v0 demo_superblock 2048)"
  have "length ?f = 64" by (simp add: length_superblock)
  moreover have "map_sum id RootGroup (ReadSuperblock (zeros 128) ?f) = Inr 0" by code_simp
  moreover have "map_sum id RootGroup (ReadSuperblock (replicate 128 7) ?f) = Inr 0x0707070707070707" by code_simp
  ultimately show ?thesis
    by (cases "ReadSuperblock (zeros 128) ?f"; cases "ReadSuperblock (replicate 128 7) ?f") fastforce+
qed

end
