(* ===== verification/Layout.thy ===== *)
theory Layout
  imports Superblock
begin

text \<open>
  The dataspace and data-layout messages of a dataset's object header: their readers
  (\<^verbatim>\<open>internal/core/dataspace.go\<close>, \<^verbatim>\<open>internal/core/datalayout.go\<close>) and their writers (the
  corresponding functions of \<^verbatim>\<open>internal/core/messages_write.go\<close>), with the variable-width integer
  codecs they share. Every message the writers produce is parsed back to the values it was made
  from; the remaining theorems are about malformed messages.
\<close>

section \<open>Variable-width integers\<close>

text \<open>
  \<open>writeUint64 value sz e\<close> are the \<open>sz\<close> bytes the call leaves in a zeroed buffer;
  \<open>readUint64 data sz e\<close> reads them back. Widths other than 1, 2, 4 and 8 are written little-endian
  and read through a padded buffer of eight bytes.
\<close>

definition writeUint64 :: "u64 \<Rightarrow> nat \<Rightarrow> byte_order \<Rightarrow> bytes" where
  "writeUint64 v sz e =
     (if sz = 1 then [ucast v]
      else if sz = 2 \<or> sz = 4 \<or> sz = 8 then order_put e sz v
      else le_put (min sz 8) v @ zeros (sz - 8))"

definition readUint64 :: "bytes \<Rightarrow> nat \<Rightarrow> byte_order \<Rightarrow> u64" where
  "readUint64 data sz e =
     (let sz = (if sz > length data then length data else sz)
      in if sz = 1 then ucast (data ! 0)
         else if sz = 2 \<or> sz = 4 \<or> sz = 8 then order_get e (take sz data)
         else order_get e (take 8 (take sz data) @ zeros (8 - sz)))"

section \<open>Dataspace\<close>

datatype DataspaceType = DataspaceScalar | DataspaceSimple | DataspaceNull

record DataspaceMessage =
  ds_Version :: byte
  ds_Type :: DataspaceType
  ds_Dimensions :: "u64 list"
  ds_MaxDims :: "u64 list"

text \<open>One loop over dimensions; \<open>msg\<close> is the error of a truncated message.\<close>

fun read_dims :: "string \<Rightarrow> bytes \<Rightarrow> nat \<Rightarrow> nat \<Rightarrow> nat \<Rightarrow> (u64 list \<times> nat) result" where
  "read_dims msg data dimSize 0 offset = Inr ([], offset)"
| "read_dims msg data dimSize (Suc n) offset =
     (if offset + dimSize > length data then Inl (Errorf msg)
      else case read_dims msg data dimSize n (offset + dimSize) of
             Inl e \<Rightarrow> Inl e
           | Inr (ds, off) \<Rightarrow> Inr (le_get (take dimSize (drop offset data)) # ds, off))"

definition ParseDataspaceMessage :: "bytes \<Rightarrow> DataspaceMessage result" where
  "ParseDataspaceMessage data =
     (if length data < 2 then Inl (Errorf ''dataspace message too short'')
      else let version = data ! 0
           in if version \<noteq> 1 \<and> version \<noteq> 2 then Inl (Errorf ''unsupported dataspace version: %d'')
              else if length data < 3 then Inl index_panic
              else let dimensionality = data ! 1;
                       hasMaxDims = (data ! 2 AND 0x01 \<noteq> 0);
                       ds = \<lparr>ds_Version = version, ds_Type = DataspaceSimple, ds_Dimensions = [], ds_MaxDims = []\<rparr>
                   in if dimensionality = 0
                      then Inr (ds\<lparr>ds_Type := DataspaceScalar, ds_Dimensions := [1]\<rparr>)
                      else let offset = (if version = 1 then 8 else 4);
                               totalDimsCount = (if hasMaxDims then unat dimensionality * 2 else unat dimensionality);
                               expectedSize4 = offset + totalDimsCount * 4;
                               expectedSize8 = offset + totalDimsCount * 8
                           in if length data < expectedSize4
                              then Inl (Errorf ''dataspace message too short: %d bytes, need %d'')
                              else let dimSize = (if length data \<ge> expectedSize8 then 8 else 4)
                                   in case read_dims ''dataspace message truncated (dimensions)'' data dimSize
                                             (unat dimensionality) offset of
                                        Inl e \<Rightarrow> Inl e
                                      | Inr (dims, offset) \<Rightarrow>
                                          if hasMaxDims
                                          then (case read_dims ''dataspace message truncated (max dims)'' data dimSize
                                                       (unat dimensionality) offset of
                                                  Inl e \<Rightarrow> Inl e
                                                | Inr (maxDims, _) \<Rightarrow>
                                                    Inr (ds\<lparr>ds_Dimensions := dims, ds_MaxDims := maxDims\<rparr>))
                                          else Inr (ds\<lparr>ds_Dimensions := dims\<rparr>))"

definition TotalElements :: "DataspaceMessage \<Rightarrow> u64" where
  "TotalElements ds =
     (case ds_Type ds of
        DataspaceNull \<Rightarrow> 0
      | DataspaceScalar \<Rightarrow> 1
      | DataspaceSimple \<Rightarrow> foldl (*) 1 (ds_Dimensions ds))"

definition IsScalar :: "DataspaceMessage \<Rightarrow> bool" where
  "IsScalar ds \<longleftrightarrow> ds_Type ds = DataspaceScalar"

definition Is1D :: "DataspaceMessage \<Rightarrow> bool" where
  "Is1D ds \<longleftrightarrow> ds_Type ds = DataspaceSimple \<and> length (ds_Dimensions ds) = 1"

definition Is2D :: "DataspaceMessage \<Rightarrow> bool" where
  "Is2D ds \<longleftrightarrow> ds_Type ds = DataspaceSimple \<and> length (ds_Dimensions ds) = 2"

text \<open>
  The writer sizes the buffer from the dimension count truncated to a byte; the stores of the
  dimension loops panic when they run past it.
\<close>

definition EncodeDataspaceMessage :: "u64 list \<Rightarrow> u64 list \<Rightarrow> bytes result" where
  "EncodeDataspaceMessage dims maxDims =
     (if length dims = 0 then Inl (Errorf ''dimensions cannot be empty (use [1] for scalar)'')
      else if length maxDims > 0 \<and> length maxDims \<noteq> length dims
      then Inl (Errorf ''maxDims length %d must match dims length %d'')
      else let dimensionality = of_nat (length dims) :: byte;
               flags = (if length maxDims > 0 then 0x01 else 0) :: byte;
               messageSize = 8 + unat dimensionality * 8 + (if length maxDims > 0 then unat dimensionality * 8 else 0)
           in if 8 + 8 * length dims + 8 * length maxDims > messageSize then Inl slice_panic
              else Inr ([1, dimensionality, flags] @ zeros 5 @ concat (map (le_put 8) dims)
                        @ concat (map (le_put 8) maxDims)))"

section \<open>Data layout\<close>

text \<open>\<^verbatim>\<open>DataLayoutClass\<close> is a byte read from the file; these are its named values.\<close>

type_synonym DataLayoutClass = byte

abbreviation LayoutCompact :: DataLayoutClass where "LayoutCompact \<equiv> 0"
abbreviation LayoutContiguous :: DataLayoutClass where "LayoutContiguous \<equiv> 1"
abbreviation LayoutChunked :: DataLayoutClass where "LayoutChunked \<equiv> 2"

record DataLayoutMessage =
  dl_Version :: byte
  dl_Class :: DataLayoutClass
  dl_DataAddress :: u64
  dl_DataSize :: u64
  dl_CompactData :: bytes
  dl_ChunkSize :: "u64 list"
  dl_ChunkKeySize :: byte

definition determineChunkKeySize :: "byte \<Rightarrow> byte" where
  "determineChunkKeySize superblockVersion = (if superblockVersion \<ge> 4 then 8 else 4)"

fun read_chunk_dims :: "string \<Rightarrow> bytes \<Rightarrow> nat \<Rightarrow> nat \<Rightarrow> nat \<Rightarrow> u64 list result" where
  "read_chunk_dims msg data w 0 offset = Inr []"
| "read_chunk_dims msg data w (Suc n) offset =
     (if offset + w > length data then Inl (Errorf msg)
      else case read_chunk_dims msg data w n (offset + w) of
             Inl e \<Rightarrow> Inl e
           | Inr ds \<Rightarrow> Inr (le_get (take w (drop offset data)) # ds))"

definition parseLayoutV3 :: "bytes \<Rightarrow> Superblock \<Rightarrow> DataLayoutMessage \<Rightarrow> DataLayoutMessage result" where
  "parseLayoutV3 data sb msg =
     (if length data < 2 then Inl (Errorf ''layout v3 message too short'')
      else let msg = msg\<lparr>dl_Class := data ! 1\<rparr>;
               os = unat (OffsetSize sb); ls = unat (LengthSize sb)
           in if dl_Class msg = LayoutCompact
              then (if length data < 4 then Inl (Errorf ''compact layout message too short'')
                    else let sz = le_get (take 2 (drop 2 data)) :: u16
                         in if length data < 4 + unat sz then Inl (Errorf ''compact layout data truncated'')
                            else let stop = unat (4 + sz)
                                 in if stop < 4 then Inl slice_panic
                                    else Inr (msg\<lparr>dl_CompactData := take (stop - 4) (drop 4 data), dl_DataSize := ucast sz\<rparr>))
              else if dl_Class msg = LayoutContiguous
              then (if length data < 2 + os + ls then Inl (Errorf ''contiguous layout message too short'')
                    else Inr (msg\<lparr>dl_DataAddress := readUint64 (drop 2 data) os (Endianness sb),
                                  dl_DataSize := readUint64 (drop (2 + os) data) ls (Endianness sb)\<rparr>))
              else if dl_Class msg = LayoutChunked
              then (if length data < 3 then Inl (Errorf ''chunked layout message too short'')
                    else if 3 + os > length data then Inl (Errorf ''chunked layout address truncated'')
                    else case (if dl_ChunkKeySize msg = 8
                               then read_chunk_dims ''chunked layout dimension %d truncated (64-bit)'' data 8
                                      (unat (data ! 2)) (3 + os)
                               else read_chunk_dims ''chunked layout dimension %d truncated (32-bit)'' data 4
                                      (unat (data ! 2)) (3 + os)) of
                           Inl e \<Rightarrow> Inl e
                         | Inr dims \<Rightarrow>
                             Inr (msg\<lparr>dl_DataAddress := readUint64 (drop 3 data) os (Endianness sb), dl_ChunkSize := dims\<rparr>))
              else Inl (Errorf ''unsupported layout class: %d''))"

definition parseLayoutV4 :: "bytes \<Rightarrow> Superblock \<Rightarrow> DataLayoutMessage \<Rightarrow> DataLayoutMessage result" where
  "parseLayoutV4 data sb msg = parseLayoutV3 data sb msg"

definition ParseDataLayoutMessage :: "bytes \<Rightarrow> Superblock \<Rightarrow> DataLayoutMessage result" where
  "ParseDataLayoutMessage data sb =
     (if length data < 1 then Inl (Errorf ''data layout message too short'')
      else let version = data ! 0
           in if version < 3 \<or> version > 4 then Inl (Errorf ''unsupported data layout version: %d'')
              else let msg = \<lparr>dl_Version = version, dl_Class = 0, dl_DataAddress = 0, dl_DataSize = 0,
                              dl_CompactData = [], dl_ChunkSize = [],
                              dl_ChunkKeySize = determineChunkKeySize (Version sb)\<rparr>
                   in if version = 3 then parseLayoutV3 data sb msg else parseLayoutV4 data sb msg)"

definition IsContiguous :: "DataLayoutMessage \<Rightarrow> bool" where
  "IsContiguous dl \<longleftrightarrow> dl_Class dl = LayoutContiguous"

definition IsCompact :: "DataLayoutMessage \<Rightarrow> bool" where
  "IsCompact dl \<longleftrightarrow> dl_Class dl = LayoutCompact"

definition IsChunked :: "DataLayoutMessage \<Rightarrow> bool" where
  "IsChunked dl \<longleftrightarrow> dl_Class dl = LayoutChunked"

definition encodeContiguousLayout :: "u64 \<Rightarrow> u64 \<Rightarrow> Superblock \<Rightarrow> bytes result" where
  "encodeContiguousLayout dataSize dataAddress sb =
     Inr ([3, LayoutContiguous] @ writeUint64 dataAddress (unat (OffsetSize sb)) (Endianness sb)
          @ writeUint64 dataSize (unat (LengthSize sb)) (Endianness sb))"

definition encodeChunkedLayout :: "u64 list \<Rightarrow> u64 \<Rightarrow> Superblock \<Rightarrow> u32 \<Rightarrow> bytes result" where
  "encodeChunkedLayout ckDims btreeAddress sb elementSize =
     (if length ckDims = 0 then Inl (Errorf ''chunk dimensions cannot be empty'')
      else let dimensionality = length ckDims + 1
           in if dimensionality > 255 then Inl (Errorf ''dimensionality %d exceeds maximum 255'')
              else if list_ex (\<lambda>dim. dim > 0xFFFFFFFF) ckDims
              then Inl (Errorf ''chunk dimension %d (%d) exceeds uint32 maximum'')
              else Inr ([3, LayoutChunked, of_nat dimensionality]
                        @ writeUint64 btreeAddress (unat (OffsetSize sb)) (Endianness sb)
                        @ concat (map (le_put 4) ckDims) @ le_put 4 elementSize))"

definition EncodeLayoutMessage ::
    "DataLayoutClass \<Rightarrow> u64 \<Rightarrow> u64 \<Rightarrow> Superblock \<Rightarrow> u64 list \<Rightarrow> u32 \<Rightarrow> bytes result" where
  "EncodeLayoutMessage layoutClass dataSize dataAddress sb ckDims elementSize =
     (if layoutClass = LayoutContiguous then encodeContiguousLayout dataSize dataAddress sb
      else if layoutClass = LayoutChunked
      then (if length ckDims = 0 then Inl (Errorf ''chunk dimensions required for chunked layout'')
            else encodeChunkedLayout ckDims dataAddress sb elementSize)
      else Inl (Errorf ''unsupported layout class for writing: %d''))"

definition EncodeSymbolTableMessage :: "u64 \<Rightarrow> u64 \<Rightarrow> nat \<Rightarrow> bytes" where
  "EncodeSymbolTableMessage btreeAddr heapAddr offsetSize =
     writeUint64 btreeAddr offsetSize LittleEndian @ writeUint64 heapAddr offsetSize LittleEndian"

section \<open>Round trips\<close>

definition fits_width :: "nat \<Rightarrow> u64 \<Rightarrow> bool" where
  "fits_width sz v \<longleftrightarrow> unat v < 2 ^ (8 * sz)"

lemma fits_width_take_bit: "fits_width sz v \<Longrightarrow> take_bit (8 * sz) v = v"
  by (intro unat_eqD) (simp add: fits_width_def unsigned_take_bit_eq take_bit_nat_eq_self)

lemma length_writeUint64 [simp]: "length (writeUint64 v sz e) = sz"
  by (auto simp: writeUint64_def simp del: le_put_numeral)

lemma readUint64_writeUint64:
  assumes "sz \<in> {1, 2, 4, 8}" "fits_width sz v"
  shows "readUint64 (writeUint64 v sz e @ rest) sz e = v"
proof -
  note f = fits_width_take_bit [OF assms(2)]
  show ?thesis
  proof (cases "sz = 1")
    case True
    then have "ucast (ucast v :: byte) = v" using f le_get_le_put [of 1 v] by simp
    then show ?thesis using True by (simp add: readUint64_def writeUint64_def)
  next
    case False
    then have sz: "sz = 2 \<or> sz = 4 \<or> sz = 8" using assms(1) by simp
    then have "order_get e (take sz (writeUint64 v sz e @ rest)) = v"
      using f False by (simp add: writeUint64_def order_get_order_put del: le_put_numeral order_put.simps)
    moreover have "\<not> sz > length (writeUint64 v sz e @ rest)" by simp
    ultimately show ?thesis
      using sz False unfolding readUint64_def Let_def by (simp only: if_False if_True)
  qed
qed

lemma length_concat_le_put [simp]: "length (concat (map (le_put w) ds)) = w * length ds"
  by (rule length_concat_const) simp

lemma read_dims_concat:
  "read_dims msg (pre @ concat (map (le_put w) ds) @ post) w (length ds) (length pre)
     = Inr (map (take_bit (8 * w)) ds, length pre + w * length ds)"
proof (induction ds arbitrary: pre)
  case Nil
  then show ?case by simp
next
  case (Cons d ds)
  have "read_dims msg ((pre @ le_put w d) @ concat (map (le_put w) ds) @ post) w (length ds) (length (pre @ le_put w d))
      = Inr (map (take_bit (8 * w)) ds, length (pre @ le_put w d) + w * length ds)"
    by (rule Cons.IH)
  then show ?case by (simp add: le_get_le_put)
qed

lemma read_chunk_dims_concat:
  "read_chunk_dims msg (pre @ concat (map (le_put w) ds)) w (length ds) (length pre)
     = Inr (map (take_bit (8 * w)) ds)"
proof (induction ds arbitrary: pre)
  case Nil
  then show ?case by simp
next
  case (Cons d ds)
  have "read_chunk_dims msg ((pre @ le_put w d) @ concat (map (le_put w) ds)) w (length ds) (length (pre @ le_put w d))
      = Inr (map (take_bit (8 * w)) ds)"
    by (rule Cons.IH)
  then show ?case by (simp add: le_get_le_put)
qed

lemma take_bit_64 [simp]: "take_bit 64 (w :: u64) = w"
  by (rule take_bit_word_eq_self) simp

lemma EncodeDataspaceMessage_Inr:
  assumes "dims \<noteq> []" "length dims \<le> 255" "maxDims = [] \<or> length maxDims = length dims"
  shows "EncodeDataspaceMessage dims maxDims =
     Inr ([1, of_nat (length dims), if maxDims \<noteq> [] then 1 else 0] @ zeros 5
          @ concat (map (le_put 8) dims) @ concat (map (le_put 8) maxDims))"
proof -
  have "unat (of_nat (length dims) :: byte) = length dims" using assms(2) by (intro unat_of_nat_less) simp
  then show ?thesis using assms by (auto simp: EncodeDataspaceMessage_def Let_def simp del: le_put_numeral)
qed

lemma ParseDataspaceMessage_encoded:
  assumes "dims \<noteq> []" "length dims \<le> 255" "maxDims = [] \<or> length maxDims = length dims"
  shows "ParseDataspaceMessage ([1, of_nat (length dims), if maxDims \<noteq> [] then 1 else 0] @ zeros 5
          @ concat (map (le_put 8) dims) @ concat (map (le_put 8) maxDims))
       = Inr \<lparr>ds_Version = 1, ds_Type = DataspaceSimple, ds_Dimensions = dims, ds_MaxDims = maxDims\<rparr>"
proof -
  let ?n = "of_nat (length dims) :: byte" and ?fl = "(if maxDims \<noteq> [] then 1 else 0) :: byte"
  let ?h = "[1, ?n, ?fl] @ zeros 5" and ?d = "concat (map (le_put 8) dims)" and ?m = "concat (map (le_put 8) maxDims)"
  have n: "unat ?n = length dims" using assms(2) by (intro unat_of_nat_less) simp
  then have n0: "?n \<noteq> 0" using assms(1) by (metis length_0_conv unat_0)
  have h: "length ?h = 8" by simp
  have r1: "read_dims msg (?h @ ?d @ ?m) 8 (length dims) 8 = Inr (dims, 8 + 8 * length dims)" for msg
    using read_dims_concat [of msg ?h 8 dims ?m] unfolding h by (simp add: map_idI del: le_put_numeral)
  have r2: "read_dims msg (?h @ ?d @ ?m) 8 (length maxDims) (8 + 8 * length dims)
      = Inr (maxDims, 8 + 8 * length dims + 8 * length maxDims)" for msg
    using read_dims_concat [of msg "?h @ ?d" 8 maxDims "[]"] by (simp add: map_idI del: le_put_numeral)
  have get: "(?h @ ?d @ ?m) ! 0 = 1" "(?h @ ?d @ ?m) ! 1 = ?n" "(?h @ ?d @ ?m) ! 2 = ?fl" by simp_all
  have len: "length (?h @ ?d @ ?m) = 8 + 8 * length dims + 8 * length maxDims"
    by (simp del: le_put_numeral)
  have "ParseDataspaceMessage (?h @ ?d @ ?m)
      = Inr \<lparr>ds_Version = 1, ds_Type = DataspaceSimple, ds_Dimensions = dims, ds_MaxDims = maxDims\<rparr>"
    unfolding ParseDataspaceMessage_def Let_def get len n
    using assms n0 r1 r2 by (cases "maxDims = []") (auto simp del: le_put_numeral append.simps)
  then show ?thesis by simp
qed

text \<open>
  C32. A simple dataspace of 1 to 255 dimensions, resizable or not, is parsed back from its message
  exactly.
\<close>

theorem dataspace_roundtrip:
  assumes "dims \<noteq> []" "length dims \<le> 255" "maxDims = [] \<or> length maxDims = length dims"
  shows "\<exists>m. EncodeDataspaceMessage dims maxDims = Inr m \<and> ParseDataspaceMessage m
     = Inr \<lparr>ds_Version = 1, ds_Type = DataspaceSimple, ds_Dimensions = dims, ds_MaxDims = maxDims\<rparr>"
  using EncodeDataspaceMessage_Inr [OF assms] ParseDataspaceMessage_encoded [OF assms] by simp

theorem dataspace_roundtrip_witness:
  "\<exists>m. EncodeDataspaceMessage [10, 20] [100, 18446744073709551615] = Inr m \<and> ParseDataspaceMessage m
     = Inr \<lparr>ds_Version = 1, ds_Type = DataspaceSimple, ds_Dimensions = [10, 20],
            ds_MaxDims = [100, 18446744073709551615]\<rparr>"
  by (rule dataspace_roundtrip) simp_all

definition sizes_ok :: "Superblock \<Rightarrow> bool" where
  "sizes_ok sb \<longleftrightarrow> unat (OffsetSize sb) \<in> {1, 2, 4, 8} \<and> unat (LengthSize sb) \<in> {1, 2, 4, 8}"

lemma ucast_u32_u64_le: "(v :: u64) \<le> 0xFFFFFFFF \<Longrightarrow> take_bit 32 v = v"
  by (intro unat_eqD) (simp add: word_le_nat_alt unsigned_take_bit_eq take_bit_nat_eq_self)

text \<open>
  C33. Contiguous and chunked layout messages are parsed back to what they were made from, for every
  offset and length width the format has: the address and size of a contiguous dataset, the B-tree
  address and the chunk dimensions (with the element size as the extra last one) of a chunked
  dataset.
\<close>

theorem layout_roundtrip:
  assumes "sizes_ok sb" "Version sb < 4" "fits_width (unat (OffsetSize sb)) addr"
    and "cls = LayoutContiguous \<and> fits_width (unat (LengthSize sb)) sz
       \<or> cls = LayoutChunked \<and> dims \<noteq> [] \<and> length dims \<le> 254 \<and> (\<forall>d \<in> set dims. d \<le> 0xFFFFFFFF)"
  shows "\<exists>m dl. EncodeLayoutMessage cls sz addr sb dims es = Inr m \<and> ParseDataLayoutMessage m sb = Inr dl
     \<and> dl_Class dl = cls \<and> dl_DataAddress dl = addr
     \<and> (if cls = LayoutContiguous then dl_DataSize dl = sz else dl_ChunkSize dl = dims @ [ucast es])"
proof -
  let ?os = "unat (OffsetSize sb)" and ?ls = "unat (LengthSize sb)" and ?e = "Endianness sb"
  have addr: "readUint64 (writeUint64 addr ?os ?e @ rest) ?os ?e = addr" for rest
    using assms(1,3) by (intro readUint64_writeUint64) (auto simp: sizes_ok_def)
  show ?thesis
    using assms(4)
  proof (elim disjE conjE)
    assume cls: "cls = LayoutContiguous" and sz: "fits_width ?ls sz"
    have "readUint64 (writeUint64 sz ?ls ?e @ []) ?ls ?e = sz"
      using assms(1) sz by (intro readUint64_writeUint64) (auto simp: sizes_ok_def)
    with addr show ?thesis
      by (simp add: cls EncodeLayoutMessage_def encodeContiguousLayout_def ParseDataLayoutMessage_def
          parseLayoutV3_def Let_def)
  next
    assume cls: "cls = LayoutChunked" and dims: "dims \<noteq> []" "length dims \<le> 254" "\<forall>d \<in> set dims. d \<le> 0xFFFFFFFF"
    let ?n = "of_nat (length dims + 1) :: byte" and ?all = "dims @ [ucast es]"
    let ?h = "[3, LayoutChunked, ?n] @ writeUint64 addr ?os ?e"
    let ?m = "?h @ concat (map (le_put 4) ?all)"
    have es: "le_put 4 (ucast es :: u64) = le_put 4 es" by (rule le_put_ucast_up) simp
    have n: "unat ?n = length ?all" using dims(2) by (subst unat_of_nat_less) simp_all
    have enc: "EncodeLayoutMessage cls sz addr sb dims es = Inr ?m"
      using dims es by (auto simp: cls EncodeLayoutMessage_def encodeChunkedLayout_def list_ex_iff not_less
          simp del: le_put_numeral)
    have "take_bit 32 (ucast es :: u64) = ucast es"
      by (intro bit_word_eqI) (auto simp: bit_simps dest: bit_imp_le_length)
    then have all: "map (take_bit (8 * 4)) ?all = ?all"
      using dims(3) ucast_u32_u64_le by (auto intro!: map_idI)
    have h: "3 + ?os = length ?h" by simp
    have "read_chunk_dims msg ?m 4 (unat ?n) (3 + ?os) = Inr ?all" for msg
      unfolding n h read_chunk_dims_concat all ..
    moreover have "?m ! 0 = 3" "?m ! 1 = LayoutChunked" "?m ! 2 = ?n" "drop 3 ?m = writeUint64 addr ?os ?e @ concat (map (le_put 4) ?all)"
      by (simp_all del: le_put_numeral)
    moreover have "length ?m = 3 + ?os + 4 * length ?all" by (simp del: le_put_numeral)
    moreover have "determineChunkKeySize (Version sb) = 4" using assms(2) by (simp add: determineChunkKeySize_def)
    ultimately have "ParseDataLayoutMessage ?m sb = Inr \<lparr>dl_Version = 3, dl_Class = LayoutChunked, dl_DataAddress = addr,
        dl_DataSize = 0, dl_CompactData = [], dl_ChunkSize = ?all, dl_ChunkKeySize = 4\<rparr>"
      using addr by (simp add: ParseDataLayoutMessage_def parseLayoutV3_def Let_def del: le_put_numeral append.simps nth_Cons_0 drop_append)
    with enc cls show ?thesis by simp
  qed
qed

theorem layout_roundtrip_witness:
  "\<exists>m dl. EncodeLayoutMessage LayoutChunked 0 4096 demo_superblock [10, 20] 8 = Inr m
     \<and> ParseDataLayoutMessage m demo_superblock = Inr dl \<and> dl_Class dl = LayoutChunked
     \<and> dl_DataAddress dl = 4096 \<and> dl_ChunkSize dl = [10, 20, 8]"
  using layout_roundtrip [of demo_superblock 4096 LayoutChunked 0 "[10, 20]" 8]
  by (simp add: sizes_ok_def demo_superblock_def fits_width_def)

text \<open>
  A compact layout message with \<open>n\<close> bytes of data is parsed to these bytes when \<open>n < 65532\<close>. From
  there on the slice bound \<^verbatim>\<open>4+size\<close>, computed in 16 bits, wraps around and the parser panics, although
  the message is complete.
\<close>

theorem compact_layout_parsed_or_panics:
  assumes "length payload < 65536"
  shows "ParseDataLayoutMessage ([3, LayoutCompact] @ le_put 2 (of_nat (length payload) :: u16) @ payload) sb =
     (if length payload < 65532
      then Inr \<lparr>dl_Version = 3, dl_Class = LayoutCompact, dl_DataAddress = 0, dl_DataSize = of_nat (length payload),
                dl_CompactData = payload, dl_ChunkSize = [], dl_ChunkKeySize = determineChunkKeySize (Version sb)\<rparr>
      else Inl slice_panic)"
proof -
  let ?sz = "of_nat (length payload) :: u16"
  let ?m = "[3, LayoutCompact] @ le_put 2 ?sz @ payload"
  have sz: "unat ?sz = length payload" using assms by (intro unat_of_nat_less) simp
  have get: "?m ! 0 = 3" "?m ! 1 = LayoutCompact" "le_get (take 2 (drop 2 ?m)) = ?sz" "drop 4 ?m = payload"
      "length ?m = 4 + length payload"
    by (simp_all del: le_put_numeral)
  have stop: "unat (4 + ?sz) = (4 + length payload) mod 65536"
    using sz by (simp add: unat_word_ariths)
  have u: "(ucast ?sz :: u64) = of_nat (length payload)"
    using sz by (intro unat_eqD) (simp add: unat_of_nat_less assms less_trans [OF assms])
  have "unat (4 + ?sz) = (if length payload < 65532 then 4 + length payload else length payload - 65532)"
    unfolding stop using assms by (auto simp: mod_if)
  then show ?thesis
    unfolding ParseDataLayoutMessage_def parseLayoutV3_def Let_def get
    using sz u assms by (auto simp del: le_put_numeral append.simps simp: get)
qed

theorem compact_layout_parsed_or_panics_witness:
  "ParseDataLayoutMessage ([3, LayoutCompact] @ le_put 2 (0xFFFF :: u16) @ zeros 65535) demo_superblock = Inl slice_panic"
  using compact_layout_parsed_or_panics [of "zeros 65535" demo_superblock] by (simp del: le_put_numeral)

text \<open>
  The dataspace parser checks for two bytes and then reads a third: a message of exactly two
  bytes with a valid version makes it panic. The dataspace writer panics for 256 dimensions, whose
  count does not fit the byte it sizes its buffer from.
\<close>

theorem dataspace_panics:
  "ParseDataspaceMessage [1, n] = Inl index_panic
   \<and> EncodeDataspaceMessage (replicate 256 d) [] = Inl slice_panic"
  by (simp add: ParseDataspaceMessage_def EncodeDataspaceMessage_def Let_def)

end
