(* ===== verification/Datatype.thy ===== *)
theory Datatype
  imports Layout Overflow
begin

text \<open>
  Datatype and attribute messages: the parser of \<^verbatim>\<open>internal/core/datatype.go\<close>, whose treatment of
  compound types is recursive, the encoders of \<^verbatim>\<open>internal/core/messages_write.go\<close>, and the attribute
  message of \<^verbatim>\<open>internal/core/attribute.go\<close>, which embeds a datatype and a dataspace message.
\<close>

section \<open>Datatypes\<close>

text \<open>\<^verbatim>\<open>DatatypeClass\<close> is a number read from the file; these are its named values.\<close>

type_synonym DatatypeClass = byte

abbreviation DatatypeFixed :: DatatypeClass where "DatatypeFixed \<equiv> 0"
abbreviation DatatypeFloat :: DatatypeClass where "DatatypeFloat \<equiv> 1"
abbreviation DatatypeTime :: DatatypeClass where "DatatypeTime \<equiv> 2"
abbreviation DatatypeString :: DatatypeClass where "DatatypeString \<equiv> 3"
abbreviation DatatypeBitfield :: DatatypeClass where "DatatypeBitfield \<equiv> 4"
abbreviation DatatypeOpaque :: DatatypeClass where "DatatypeOpaque \<equiv> 5"
abbreviation DatatypeCompound :: DatatypeClass where "DatatypeCompound \<equiv> 6"
abbreviation DatatypeReference :: DatatypeClass where "DatatypeReference \<equiv> 7"
abbreviation DatatypeEnum :: DatatypeClass where "DatatypeEnum \<equiv> 8"
abbreviation DatatypeVarLen :: DatatypeClass where "DatatypeVarLen \<equiv> 9"
abbreviation DatatypeArray :: DatatypeClass where "DatatypeArray \<equiv> 10"

record DatatypeMessage =
  dt_Class :: DatatypeClass
  dt_Version :: byte
  dt_Size :: u32
  dt_ClassBitField :: u32
  dt_Properties :: bytes

text \<open>
  The parser and the member walk of \<^verbatim>\<open>calculateCompoundPropsLen\<close> call each other. The walk takes
  the number of members still to go, the rest of the properties and the offset reached.
\<close>

function (sequential) ParseDatatypeMessage :: "bytes \<Rightarrow> DatatypeMessage result"
  and compound_members :: "nat \<Rightarrow> bytes \<Rightarrow> nat \<Rightarrow> nat result" where
  "ParseDatatypeMessage data =
     (if length data < 8 then Inl (Errorf ''datatype message too short'')
      else let classAndVersion = le_get (take 4 data) :: u32;
               cls = ucast (classAndVersion AND 0x0F) :: byte;
               version = ucast (drop_bit 4 classAndVersion AND 0x0F) :: byte;
               classBitField = drop_bit 8 classAndVersion AND 0x00FFFFFF;
               sz = le_get (take 4 (drop 4 data)) :: u32;
               rest = length data - 8;
               propsLen =
                 (if cls = DatatypeFixed then 4
                  else if cls = DatatypeFloat then 12
                  else if cls = DatatypeBitfield then 4
                  else if cls = DatatypeTime then 2
                  else if cls = DatatypeCompound \<and> version = 3 \<and> length data \<ge> 12
                  then (case compound_members (unat (le_get (take 4 (drop 8 data)) :: u32)) (drop 12 data) 4 of
                          Inl e \<Rightarrow> rest
                        | Inr n \<Rightarrow> n)
                  else rest);
               propsLen = (if 8 + propsLen > length data then rest else propsLen)
           in Inr \<lparr>dt_Class = cls, dt_Version = version, dt_Size = sz, dt_ClassBitField = classBitField,
                   dt_Properties = take propsLen (drop 8 data)\<rparr>)"
| "compound_members 0 props offset = Inr offset"
| "compound_members (Suc n) props offset =
     (let name = takeWhile (\<lambda>b. b \<noteq> 0) props
      in if length name \<ge> length props then Inl (Errorf ''member %d: name not null-terminated'')
         else let props = drop (length name + 1) props; offset = offset + length name + 1
              in if length props < 4 then Inl (Errorf ''member %d: offset field truncated'')
                 else let props = drop 4 props; offset = offset + 4
                      in if length props < 8 then Inl (Errorf ''member %d: datatype header truncated'')
                         else case ParseDatatypeMessage props of
                                Inl e \<Rightarrow> Inl (Wrapf ''member %d: failed to parse datatype: %w'' e)
                              | Inr dt \<Rightarrow>
                                  let memberDtSize = 8 + length (dt_Properties dt)
                                  in compound_members n (drop memberDtSize props) (offset + memberDtSize))"
  by pat_completeness auto
termination
  by (relation "measure (case_sum length (\<lambda>(n, props, offset). length props))") auto

text \<open>
  \<^verbatim>\<open>calculateCompoundPropsLen\<close> on its own: versions 1 and 2 and short properties are errors, which the
  parser turns into "all remaining bytes".
\<close>

definition calculateCompoundPropsLen :: "bytes \<Rightarrow> byte \<Rightarrow> nat result" where
  "calculateCompoundPropsLen props version =
     (if version \<noteq> 3 then Inl (Errorf ''compound v1/v2 inline size calculation not yet implemented'')
      else if length props < 4 then Inl (Errorf ''compound v3 properties too short for member count'')
      else compound_members (unat (le_get (take 4 props) :: u32)) (drop 4 props) 4)"

definition IsFloat64 :: "DatatypeMessage \<Rightarrow> bool" where
  "IsFloat64 dt \<longleftrightarrow> dt_Class dt = DatatypeFloat \<and> dt_Size dt = 8"

definition IsFloat32 :: "DatatypeMessage \<Rightarrow> bool" where
  "IsFloat32 dt \<longleftrightarrow> dt_Class dt = DatatypeFloat \<and> dt_Size dt = 4"

definition IsInt32 :: "DatatypeMessage \<Rightarrow> bool" where
  "IsInt32 dt \<longleftrightarrow> dt_Class dt = DatatypeFixed \<and> dt_Size dt = 4"

definition IsInt64 :: "DatatypeMessage \<Rightarrow> bool" where
  "IsInt64 dt \<longleftrightarrow> dt_Class dt = DatatypeFixed \<and> dt_Size dt = 8"

definition IsFixedPoint :: "DatatypeMessage \<Rightarrow> bool" where
  "IsFixedPoint dt \<longleftrightarrow> dt_Class dt = DatatypeFixed"

definition IsSignedFixedPoint :: "DatatypeMessage \<Rightarrow> bool" where
  "IsSignedFixedPoint dt \<longleftrightarrow> dt_Class dt = DatatypeFixed \<and> dt_ClassBitField dt AND 0x08 \<noteq> 0"

definition IsString :: "DatatypeMessage \<Rightarrow> bool" where
  "IsString dt \<longleftrightarrow> dt_Class dt = DatatypeString"

definition IsFixedString :: "DatatypeMessage \<Rightarrow> bool" where
  "IsFixedString dt \<longleftrightarrow> dt_Class dt = DatatypeString \<and> dt_Size dt > 0"

definition IsVariableString :: "DatatypeMessage \<Rightarrow> bool" where
  "IsVariableString dt \<longleftrightarrow> dt_Class dt = DatatypeVarLen \<and> dt_ClassBitField dt AND 0x0F = 1"

definition IsCompound :: "DatatypeMessage \<Rightarrow> bool" where
  "IsCompound dt \<longleftrightarrow> dt_Class dt = DatatypeCompound"

definition GetStringPadding :: "DatatypeMessage \<Rightarrow> byte" where
  "GetStringPadding dt = ucast (dt_ClassBitField dt AND 0x0F)"

definition GetByteOrder :: "DatatypeMessage \<Rightarrow> byte_order" where
  "GetByteOrder dt = (if dt_ClassBitField dt AND 0x01 = 0 then LittleEndian else BigEndian)"

definition GetEncodedSize :: "DatatypeMessage \<Rightarrow> nat" where
  "GetEncodedSize dt =
     (if dt_Class dt = DatatypeFixed then 12
      else if dt_Class dt = DatatypeFloat then 20
      else if dt_Class dt = DatatypeBitfield then 12
      else if dt_Class dt = DatatypeTime then 10
      else 8 + length (dt_Properties dt))"

section \<open>Encoding of datatypes\<close>

text \<open>The eight-byte header that every encoder packs the same way.\<close>

definition datatype_header :: "byte \<Rightarrow> byte \<Rightarrow> u32 \<Rightarrow> u32 \<Rightarrow> bytes" where
  "datatype_header cls version classBitField sz =
     le_put 4 (ucast cls OR push_bit 4 (ucast version) OR push_bit 8 classBitField :: u32) @ le_put 4 sz"

definition encodeDatatypeNumeric :: "DatatypeMessage \<Rightarrow> bytes result" where
  "encodeDatatypeNumeric dt =
     (if dt_Size dt \<noteq> 1 \<and> dt_Size dt \<noteq> 2 \<and> dt_Size dt \<noteq> 4 \<and> dt_Size dt \<noteq> 8
      then Inl (Errorf ''invalid numeric datatype size: %d (must be 1, 2, 4, or 8)'')
      else case (if dt_Class dt = DatatypeFloat
                 then (if dt_Size dt = 4
                       then Inr (le_put 2 (0 :: u16) @ le_put 2 (ucast (dt_Size dt * 8) :: u16)
                                 @ [23, 8, 0, 23] @ le_put 4 (127 :: u32))
                       else if dt_Size dt = 8
                       then Inr (le_put 2 (0 :: u16) @ le_put 2 (ucast (dt_Size dt * 8) :: u16)
                                 @ [52, 11, 0, 52] @ le_put 4 (1023 :: u32))
                       else Inl (Errorf ''unsupported float size: %d''))
                 else Inr (le_put 2 (0 :: u16) @ le_put 2 (ucast (dt_Size dt * 8) :: u16))) of
             Inl e \<Rightarrow> Inl e
           | Inr properties \<Rightarrow>
               Inr (datatype_header (dt_Class dt) 1 (dt_ClassBitField dt) (dt_Size dt) @ properties))"

definition encodeDatatypeString :: "DatatypeMessage \<Rightarrow> bytes result" where
  "encodeDatatypeString dt =
     (if dt_Size dt = 0 then Inl (Errorf ''fixed-length strings must have size > 0'')
      else Inr (datatype_header (dt_Class dt) 1 (dt_ClassBitField dt) (dt_Size dt) @ [0]))"

definition encodeDatatypeCompound :: "DatatypeMessage \<Rightarrow> bytes result" where
  "encodeDatatypeCompound dt =
     (if length (dt_Properties dt) = 0 then Inl (Errorf ''compound datatype has no member definitions'')
      else Inr (datatype_header (dt_Class dt) (dt_Version dt) (dt_ClassBitField dt) (dt_Size dt) @ dt_Properties dt))"

definition encodeDatatypeVLen :: "DatatypeMessage \<Rightarrow> bytes result" where
  "encodeDatatypeVLen dt =
     Inr (datatype_header (dt_Class dt) (dt_Version dt) (dt_ClassBitField dt) (dt_Size dt) @ dt_Properties dt)"

definition encodeDatatypeReference :: "DatatypeMessage \<Rightarrow> bytes result" where
  "encodeDatatypeReference dt =
     (if dt_Size dt \<noteq> 8 \<and> dt_Size dt \<noteq> 12
      then Inl (Errorf ''invalid reference datatype size: %d (must be 8 for object ref or 12 for region ref)'')
      else Inr (datatype_header (dt_Class dt) 1 (dt_ClassBitField dt) (dt_Size dt)))"

definition encodeDatatypeOpaque :: "DatatypeMessage \<Rightarrow> bytes result" where
  "encodeDatatypeOpaque dt =
     (if dt_Size dt = 0 then Inl (Errorf ''opaque datatype size cannot be 0'')
      else let tag = dt_Properties dt
           in if tag = [] then Inl (Errorf ''opaque datatype requires non-empty tag'')
              else let paddedLen = (length tag + 7) div 8 * 8
                   in Inr (datatype_header (dt_Class dt) 1 (of_nat paddedLen) (dt_Size dt)
                           @ tag @ zeros (paddedLen - length tag)))"

definition EncodeDatatypeMessage :: "DatatypeMessage \<Rightarrow> bytes result" where
  "EncodeDatatypeMessage dt =
     (if dt_Size dt = 0 then Inl (Errorf ''datatype size cannot be 0'')
      else if dt_Class dt = DatatypeFixed \<or> dt_Class dt = DatatypeFloat then encodeDatatypeNumeric dt
      else if dt_Class dt = DatatypeString then encodeDatatypeString dt
      else if dt_Class dt = DatatypeArray
      then Inl (Errorf ''array datatype encoding requires EncodeArrayDatatypeMessage'')
      else if dt_Class dt = DatatypeEnum
      then Inl (Errorf ''enum datatype encoding requires EncodeEnumDatatypeMessage'')
      else if dt_Class dt = DatatypeReference then encodeDatatypeReference dt
      else if dt_Class dt = DatatypeOpaque then encodeDatatypeOpaque dt
      else if dt_Class dt = DatatypeCompound then encodeDatatypeCompound dt
      else if dt_Class dt = DatatypeVarLen then encodeDatatypeVLen dt
      else Inl (Errorf ''unsupported datatype class for writing: %d''))"

definition EncodeArrayDatatypeMessage :: "bytes \<Rightarrow> u64 list \<Rightarrow> u32 \<Rightarrow> bytes result" where
  "EncodeArrayDatatypeMessage baseType dims arraySize =
     (if length dims = 0 then Inl (Errorf ''array dimensions cannot be empty'')
      else if length dims > 255 then Inl (Errorf ''too many array dimensions: %d (max 255)'')
      else if length baseType = 0 then Inl (Errorf ''base type cannot be empty'')
      else if list_ex (\<lambda>dim. dim > 0xFFFFFFFF) dims then Inl (Errorf ''dimension %d too large (max 2^32-1)'')
      else Inr (datatype_header DatatypeArray 3 0 arraySize @ [of_nat (length dims)]
                @ concat (map (le_put 4) dims) @ baseType))"

text \<open>A name of an enum member: its bytes, the null terminator and padding to a multiple of 8.\<close>

definition enum_name :: "bytes \<Rightarrow> bytes" where
  "enum_name name =
     (let nameLen = length name + 1; paddedNameLen = (nameLen + 7) div 8 * 8
      in name @ [0] @ zeros (paddedNameLen - nameLen))"

definition EncodeEnumDatatypeMessage :: "bytes \<Rightarrow> bytes list \<Rightarrow> bytes \<Rightarrow> u32 \<Rightarrow> bytes result" where
  "EncodeEnumDatatypeMessage baseType names values enumSize =
     (if length names = 0 then Inl (Errorf ''enum must have at least one member'')
      else if length names > 0xFFFF then Inl (Errorf ''too many enum members: %d (max 65535)'')
      else if length baseType = 0 then Inl (Errorf ''base type cannot be empty'')
      else if list_ex (\<lambda>i. i * unat enumSize + unat enumSize > length values) [0..<length names]
      then Inl (Errorf ''not enough value bytes for member %d'')
      else Inr (datatype_header DatatypeEnum 3 (of_nat (length names)) enumSize @ baseType
                @ concat (map (\<lambda>i. enum_name (names ! i)
                    @ take (unat enumSize) (drop (i * unat enumSize) values)) [0..<length names])))"

section \<open>Attributes\<close>

record Attribute =
  at_Name :: bytes
  at_Datatype :: DatatypeMessage
  at_Dataspace :: DataspaceMessage
  at_Data :: bytes

text \<open>
  The buffer is sized from the name length truncated to 16 bits; the later stores panic where they
  would leave it, and a copy that reaches its end is cut off.
\<close>

definition EncodeAttributeMessage :: "bytes \<Rightarrow> DatatypeMessage \<Rightarrow> DataspaceMessage \<Rightarrow> bytes \<Rightarrow> bytes result" where
  "EncodeAttributeMessage name dt ds data =
     (if name = [] then Inl (Errorf ''attribute name cannot be empty'')
      else case EncodeDatatypeMessage dt of
             Inl e \<Rightarrow> Inl (wrap ''encode datatype: %w'' e)
           | Inr datatypeBytes \<Rightarrow>
           case EncodeDataspaceMessage (ds_Dimensions ds) (ds_MaxDims ds) of
             Inl e \<Rightarrow> Inl (wrap ''encode dataspace: %w'' e)
           | Inr dataspaceBytes \<Rightarrow>
               let nameSize = of_nat (length name + 1) :: u16;
                   messageSize = 9 + unat nameSize + length datatypeBytes + length dataspaceBytes + length data
               in if 9 + length name + 1 > messageSize then Inl index_panic
                  else if 9 + length name + 1 + length datatypeBytes > messageSize then Inl slice_panic
                  else if data \<noteq> [] \<and> 9 + length name + 1 + length datatypeBytes + length dataspaceBytes > messageSize
                  then Inl slice_panic
                  else let body = [3, 0] @ le_put 2 nameSize @ le_put 2 (of_nat (length datatypeBytes) :: u16)
                                  @ le_put 2 (of_nat (length dataspaceBytes) :: u16) @ [0]
                                  @ name @ [0] @ datatypeBytes @ dataspaceBytes @ data
                       in Inr (take messageSize body))"

definition alignTo8 :: "u16 \<Rightarrow> nat" where
  "alignTo8 sz = unat ((sz + 7) AND NOT 7)"

definition ParseAttributeMessage :: "bytes \<Rightarrow> byte_order \<Rightarrow> Attribute result" where
  "ParseAttributeMessage data endianness =
     (if length data < 8 then Inl (Errorf ''attribute message too short: %d bytes'')
      else let version = data ! 0;
               nameSize = order_get endianness (take 2 (drop 2 data)) :: u16;
               datatypeSize = order_get endianness (take 2 (drop 4 data)) :: u16;
               dataspaceSize = order_get endianness (take 2 (drop 6 data)) :: u16;
               offset = (if version \<ge> 3 then 9 else 8);
               step = (\<lambda>sz. if version < 3 then alignTo8 sz else unat sz)
           in if offset + unat nameSize > length data
              then Inl (Errorf ''name extends beyond message: offset=%d, nameSize=%d, dataLen=%d'')
              else let name = (if nameSize > 0 then take (unat nameSize - 1) (drop offset data) else []);
                       offset = offset + step nameSize
                   in if offset + unat datatypeSize > length data
                      then Inl (Errorf ''datatype extends beyond message'')
                      else case ParseDatatypeMessage (take (unat datatypeSize) (drop offset data)) of
                             Inl e \<Rightarrow> Inl (Wrapf ''datatype parse failed'' e)
                           | Inr dt \<Rightarrow>
                               let offset = offset + step datatypeSize
                               in if offset + unat dataspaceSize > length data
                                  then Inl (Errorf ''dataspace extends beyond message'')
                                  else case ParseDataspaceMessage (take (unat dataspaceSize) (drop offset data)) of
                                         Inl e \<Rightarrow> Inl (wrap ''dataspace parse failed'' e)
                                       | Inr ds \<Rightarrow>
                                           let offset = offset + step dataspaceSize;
                                               attr = \<lparr>at_Name = name, at_Datatype = dt, at_Dataspace = ds, at_Data = []\<rparr>
                                           in if offset < length data
                                              then (case ValidateBufferSize (of_nat (length data - offset))
                                                           MaxAttributeSize ''attribute data'' of
                                                      Inl e \<Rightarrow> Inl (Wrapf ''invalid attribute size: %w'' e)
                                                    | Inr _ \<Rightarrow> Inr (attr\<lparr>at_Data := drop offset data\<rparr>))
                                              else Inr attr)"

definition EncodeAttributeFromStruct :: "Attribute \<Rightarrow> bytes result" where
  "EncodeAttributeFromStruct attr =
     (if at_Name attr = [] then Inl (Errorf ''attribute name cannot be empty'')
      else EncodeAttributeMessage (at_Name attr) (at_Datatype attr) (at_Dataspace attr) (at_Data attr))"

section \<open>Parsing what was encoded\<close>

declare ParseDatatypeMessage.simps [simp del] compound_members.simps [simp del]

lemma length_datatype_header [simp]: "length (datatype_header c v f s) = 8"
  by (simp add: datatype_header_def del: le_put_numeral)

lemma header_fields:
  assumes "c < 16" "v < 16" "f < 0x1000000"
  defines "w \<equiv> ucast (c :: byte) OR push_bit 4 (ucast (v :: byte)) OR push_bit 8 f :: u32"
  shows "ucast (w AND 0x0F) = c" "ucast (drop_bit 4 w AND 0x0F) = v" "drop_bit 8 w AND 0x00FFFFFF = f"
proof -
  have "take_bit 4 c = c" "take_bit 4 v = v" "take_bit 24 f = f"
    using assms(1-3) by (simp_all add: word_unat_eq_iff word_less_nat_alt unsigned_take_bit_eq take_bit_nat_eq_self)
  then have bits: "bit c n \<Longrightarrow> n < 4" "bit v n \<Longrightarrow> n < 4" "bit f n \<Longrightarrow> n < 24" for n
    by (metis bit_take_bit_iff)+
  have masks: "(0x0F :: u32) = mask 4" "(0x00FFFFFF :: u32) = mask 24"
    by (simp_all add: mask_eq_exp_minus_1)
  show "ucast (w AND 0x0F) = c"
    unfolding w_def masks by (intro bit_word_eqI) (auto simp: bit_simps dest: bits)
  show "ucast (drop_bit 4 w AND 0x0F) = v"
    unfolding w_def masks by (intro bit_word_eqI) (auto simp: bit_simps dest: bits)
  show "drop_bit 8 w AND 0x00FFFFFF = f"
    unfolding w_def masks by (intro bit_word_eqI) (auto simp: bit_simps dest: bits)
qed

text \<open>The length the parser gives the properties of a message with \<open>n\<close> bytes after its header.\<close>

definition props_len :: "DatatypeClass \<Rightarrow> byte \<Rightarrow> bytes \<Rightarrow> nat" where
  "props_len cls version props =
     (if cls = DatatypeFixed then 4 else if cls = DatatypeFloat then 12
      else if cls = DatatypeBitfield then 4 else if cls = DatatypeTime then 2
      else if cls = DatatypeCompound
      then (case calculateCompoundPropsLen props version of Inl e \<Rightarrow> length props | Inr n \<Rightarrow> n)
      else length props)"

lemma parse_header:
  assumes "c < 16" "v < 16" "f < 0x1000000"
  shows "ParseDatatypeMessage (datatype_header c v f s @ props) =
     Inr \<lparr>dt_Class = c, dt_Version = v, dt_Size = s, dt_ClassBitField = f,
          dt_Properties = take (props_len c v props) props\<rparr>"
proof -
  let ?w = "ucast c OR push_bit 4 (ucast v) OR push_bit 8 f :: u32"
  let ?m = "datatype_header c v f s @ props"
  note fields = header_fields [OF assms]
  have get: "le_get (take 4 ?m) = ?w" "le_get (take 4 (drop 4 ?m)) = s"
      "drop 8 ?m = props" "drop 12 ?m = drop 4 props" "length ?m = 8 + length props"
    by (simp_all add: datatype_header_def del: le_put_numeral)
  show ?thesis
    unfolding ParseDatatypeMessage.simps [of ?m] Let_def get fields
    by (auto simp: props_len_def calculateCompoundPropsLen_def split: sum.splits)
qed

lemma and_mask_less: "(w :: u32) AND 0x0F < 16"
proof -
  have "w AND 0x0F \<le> 0x0F" by (rule word_and_le1)
  also have "\<dots> < (16 :: u32)" by simp
  finally show ?thesis .
qed

lemma ucast_nibble_less: "(ucast ((w :: u32) AND 0x0F) :: byte) < 16"
proof -
  have "unat (w AND 0x0F) < 16" using and_mask_less [of w] by (simp add: word_less_nat_alt)
  then have "unat (ucast (w AND 0x0F) :: byte) < 16"
    by (simp add: unsigned_ucast_eq take_bit_nat_eq_self)
  then show ?thesis by (simp add: word_less_nat_alt)
qed


section \<open>Round trips\<close>

definition encodable :: "DatatypeMessage \<Rightarrow> bool" where
  "encodable dt \<longleftrightarrow> dt_Version dt < 16 \<and> dt_ClassBitField dt < 0x1000000
     \<and> (dt_Class dt = DatatypeCompound \<longrightarrow>
          (case calculateCompoundPropsLen (dt_Properties dt) (dt_Version dt) of
             Inl e \<Rightarrow> True | Inr n \<Rightarrow> length (dt_Properties dt) \<le> n))
     \<and> (dt_Class dt = DatatypeOpaque \<longrightarrow> length (dt_Properties dt) < 0xFFFFF0)"

text \<open>What an encoder makes of a datatype: a header and properties that the parser takes whole.\<close>

definition message_shape :: "DatatypeMessage \<Rightarrow> bytes \<Rightarrow> byte \<Rightarrow> u32 \<Rightarrow> bytes \<Rightarrow> bool" where
  "message_shape dt m v f props \<longleftrightarrow>
     m = datatype_header (dt_Class dt) v f (dt_Size dt) @ props \<and> dt_Class dt < 16 \<and> v < 16
     \<and> f < 0x1000000 \<and> length props \<le> props_len (dt_Class dt) v props
     \<and> (dt_Class dt \<noteq> DatatypeOpaque \<longrightarrow> f = dt_ClassBitField dt)
     \<and> EncodeDatatypeMessage \<lparr>dt_Class = dt_Class dt, dt_Version = v, dt_Size = dt_Size dt, dt_ClassBitField = f,
                              dt_Properties = props\<rparr> = Inr m"

lemma pad8: "(n + 7) div 8 * 8 = (m :: nat) \<Longrightarrow> n \<le> m \<and> (m + 7) div 8 * 8 = m \<and> m \<le> n + 7"
  by presburger

lemma opaque_shape:
  assumes "encodeDatatypeOpaque dt = Inr m" "encodable dt" "dt_Class dt = DatatypeOpaque"
  shows "\<exists>v f props. message_shape dt m v f props"
proof -
  let ?n = "length (dt_Properties dt)" and ?p = "(length (dt_Properties dt) + 7) div 8 * 8"
  let ?props = "dt_Properties dt @ zeros (?p - ?n)"
  note p = pad8 [OF refl, of ?n]
  have ok: "dt_Size dt \<noteq> 0" "dt_Properties dt \<noteq> []"
    using assms(1) by (auto simp: encodeDatatypeOpaque_def Let_def split: if_splits)
  have "?n < 0xFFFFF0" using assms(2,3) by (simp add: encodable_def)
  then have "?p < 0x1000000" using p by linarith
  moreover from this have "unat (of_nat ?p :: u32) = ?p" by (intro unat_of_nat_less) simp
  ultimately have f: "(of_nat ?p :: u32) < 0x1000000" by (simp add: word_less_nat_alt)
  have len: "length ?props = ?p" using p by simp
  have "(length ?props + 7) div 8 * 8 = ?p" unfolding len using p by blast
  then have "encodeDatatypeOpaque \<lparr>dt_Class = dt_Class dt, dt_Version = 1, dt_Size = dt_Size dt,
      dt_ClassBitField = of_nat ?p, dt_Properties = ?props\<rparr> = Inr m"
    using assms ok len by (simp add: encodeDatatypeOpaque_def Let_def)
  then have "message_shape dt m 1 (of_nat ?p) ?props"
    unfolding message_shape_def
    using assms ok f by (simp add: EncodeDatatypeMessage_def encodeDatatypeOpaque_def Let_def props_len_def)
  then show ?thesis by blast
qed

lemma numeric_shape:
  assumes "encodeDatatypeNumeric dt = Inr m" "encodable dt" "dt_Class dt = DatatypeFixed \<or> dt_Class dt = DatatypeFloat"
  shows "\<exists>v f props. message_shape dt m v f props"
proof -
  obtain props where m: "m = datatype_header (dt_Class dt) 1 (dt_ClassBitField dt) (dt_Size dt) @ props"
      and len: "length props \<le> props_len (dt_Class dt) 1 props"
    using assms(1,3) by (auto simp: encodeDatatypeNumeric_def props_len_def simp del: le_put_numeral split: if_splits)
  have "encodeDatatypeNumeric \<lparr>dt_Class = dt_Class dt, dt_Version = 1, dt_Size = dt_Size dt,
      dt_ClassBitField = dt_ClassBitField dt, dt_Properties = props\<rparr> = encodeDatatypeNumeric dt"
    by (simp add: encodeDatatypeNumeric_def del: le_put_numeral)
  moreover have "dt_Size dt \<noteq> 0" using assms(1) by (auto simp: encodeDatatypeNumeric_def split: if_splits)
  ultimately have "message_shape dt m 1 (dt_ClassBitField dt) props"
    unfolding message_shape_def using assms m len by (auto simp: EncodeDatatypeMessage_def encodable_def)
  then show ?thesis by blast
qed

lemma other_shape:
  assumes "EncodeDatatypeMessage dt = Inr m" "encodable dt"
    "dt_Class dt \<notin> {DatatypeFixed, DatatypeFloat, DatatypeOpaque}"
  shows "\<exists>v f props. message_shape dt m v f props"
proof -
  note defs = EncodeDatatypeMessage_def encodeDatatypeString_def encodeDatatypeReference_def
    encodeDatatypeCompound_def encodeDatatypeVLen_def
  consider "dt_Class dt = DatatypeString" | "dt_Class dt = DatatypeReference"
    | "dt_Class dt = DatatypeCompound" | "dt_Class dt = DatatypeVarLen"
    using assms(1,3) by (auto simp: EncodeDatatypeMessage_def split: if_splits)
  then show ?thesis
  proof cases
    case 1
    then have "message_shape dt m 1 (dt_ClassBitField dt) [0]"
      using assms by (auto simp: message_shape_def defs encodable_def props_len_def split: if_splits)
    then show ?thesis by blast
  next
    case 2
    then have "message_shape dt m 1 (dt_ClassBitField dt) []"
      using assms by (auto simp: message_shape_def defs encodable_def props_len_def split: if_splits)
    then show ?thesis by blast
  next
    case 3
    then have "message_shape dt m (dt_Version dt) (dt_ClassBitField dt) (dt_Properties dt)"
      using assms by (auto simp: message_shape_def defs encodable_def props_len_def split: if_splits sum.splits)
    then show ?thesis by blast
  next
    case 4
    then have "message_shape dt m (dt_Version dt) (dt_ClassBitField dt) (dt_Properties dt)"
      using assms by (auto simp: message_shape_def defs encodable_def props_len_def split: if_splits)
    then show ?thesis by blast
  qed
qed

lemma EncodeDatatypeMessage_shape:
  assumes "EncodeDatatypeMessage dt = Inr m" "encodable dt"
  shows "\<exists>v f props. message_shape dt m v f props"
proof -
  consider "dt_Class dt = DatatypeOpaque" | "dt_Class dt = DatatypeFixed \<or> dt_Class dt = DatatypeFloat"
    | "dt_Class dt \<notin> {DatatypeFixed, DatatypeFloat, DatatypeOpaque}" by auto
  then show ?thesis
  proof cases
    case 1
    with assms show ?thesis by (intro opaque_shape) (auto simp: EncodeDatatypeMessage_def split: if_splits)
  next
    case 2
    with assms show ?thesis by (intro numeric_shape) (auto simp: EncodeDatatypeMessage_def split: if_splits)
  next
    case 3
    with assms show ?thesis by (intro other_shape) auto
  qed
qed

lemma datatype_parse_encoded:
  assumes "EncodeDatatypeMessage dt = Inr m" "encodable dt"
  shows "\<exists>dt'. ParseDatatypeMessage m = Inr dt' \<and> dt_Class dt' = dt_Class dt \<and> dt_Size dt' = dt_Size dt
     \<and> (dt_Class dt \<noteq> DatatypeOpaque \<longrightarrow> dt_ClassBitField dt' = dt_ClassBitField dt)
     \<and> EncodeDatatypeMessage dt' = Inr m"
proof -
  obtain v f props where "message_shape dt m v f props"
    using EncodeDatatypeMessage_shape [OF assms] by blast
  then show ?thesis
    using parse_header [of "dt_Class dt" v f "dt_Size dt" props] by (auto simp: message_shape_def)
qed


definition int32_type :: DatatypeMessage where
  "int32_type = \<lparr>dt_Class = DatatypeFixed, dt_Version = 1, dt_Size = 4, dt_ClassBitField = 0x08, dt_Properties = []\<rparr>"

lemma int32_encoded: "EncodeDatatypeMessage int32_type = Inr [0x10, 8, 0, 0, 4, 0, 0, 0, 0, 0, 32, 0]"
  by code_simp

lemma int32_encodable: "encodable int32_type"
  by (simp add: encodable_def int32_type_def)


lemma ParseAttributeMessage_v3:
  assumes name: "name \<noteq> []" "length name < 65535" and dtl: "length dtb < 65536" and dsl: "length dsb < 65536"
    and dt: "ParseDatatypeMessage dtb = Inr dt" and ds: "ParseDataspaceMessage dsb = Inr ds"
    and size: "length data \<le> 64 * 1024 * 1024"
  shows "ParseAttributeMessage ([3, 0] @ le_put 2 (of_nat (length name + 1) :: u16) @ le_put 2 (of_nat (length dtb) :: u16)
           @ le_put 2 (of_nat (length dsb) :: u16) @ [0] @ name @ [0] @ dtb @ dsb @ data) LittleEndian
       = Inr \<lparr>at_Name = name, at_Datatype = dt, at_Dataspace = ds, at_Data = data\<rparr>"
proof -
  let ?nl = "of_nat (length name + 1) :: u16" and ?tl = "of_nat (length dtb) :: u16" and ?sl = "of_nat (length dsb) :: u16"
  let ?m = "[3, 0] @ le_put 2 ?nl @ le_put 2 ?tl @ le_put 2 ?sl @ [0] @ name @ [0] @ dtb @ dsb @ data"
  have u: "unat ?nl = length name + 1" "unat ?tl = length dtb" "unat ?sl = length dsb"
    using name dtl dsl by (intro unat_of_nat_less; simp)+
  then have pos: "?nl > 0" by (simp add: word_less_nat_alt)
  have get: "?m ! 0 = 3" "order_get LittleEndian (take 2 (drop 2 ?m)) = ?nl" "order_get LittleEndian (take 2 (drop 4 ?m)) = ?tl"
      "order_get LittleEndian (take 2 (drop 6 ?m)) = ?sl" "drop 9 ?m = name @ [0] @ dtb @ dsb @ data"
      "length ?m = 10 + length name + length dtb + length dsb + length data"
    by (simp_all del: le_put_numeral)
  have dr: "drop (9 + n) ?m = drop n (drop 9 ?m)" for n by (simp only: drop_drop add.commute)
  then have dr: "drop (9 + (length name + 1)) ?m = dtb @ dsb @ data"
      "drop (9 + (length name + 1) + length dtb) ?m = dsb @ data"
      "drop (9 + (length name + 1) + length dtb + length dsb) ?m = data"
    by (simp_all only: add.assoc get(5)) simp_all
  have val: "ValidateBufferSize (of_nat (length data)) MaxAttributeSize ''attribute data'' = Inr ()" if "data \<noteq> []"
  proof -
    have "unat (of_nat (length data) :: u64) = length data"
      using size by (intro unat_of_nat_less) simp
    then have "(of_nat (length data) :: u64) \<noteq> 0" "\<not> of_nat (length data) > MaxAttributeSize"
      using that size by (auto simp: MaxAttributeSize_def word_less_nat_alt)
    then show ?thesis by (simp add: ValidateBufferSize_def)
  qed
  have "ParseAttributeMessage ?m LittleEndian
      = (if data \<noteq> [] then Inr \<lparr>at_Name = name, at_Datatype = dt, at_Dataspace = ds, at_Data = data\<rparr>
         else Inr \<lparr>at_Name = name, at_Datatype = dt, at_Dataspace = ds, at_Data = []\<rparr>)"
    unfolding ParseAttributeMessage_def Let_def get
    using pos u dt ds dr val
    by (simp del: le_put_numeral append.simps drop_append drop_drop add: add.assoc [symmetric])
      (simp del: le_put_numeral)
  then show ?thesis by (simp split: if_splits del: le_put_numeral)
qed



end
