(* ===== verification/Global_Heap.thy ===== *)
theory Global_Heap
  imports Overflow
begin

text \<open>
  Global heap collections, which hold variable-length data: the reader of
  \<^verbatim>\<open>internal/core/globalheap.go\<close> and the writer of \<^verbatim>\<open>global_heap_write.go\<close>. The writer fills a
  collection in memory and encodes it into a buffer of fixed size; every store into the buffer is
  modelled with its bounds check. The reader walks the objects with signed 64-bit offsets read from
  the file, so its loop is given fuel: on collections the writer produced it is shown to terminate
  and to return every object, and one malformed collection is shown to make it run forever.
\<close>

section \<open>Reading\<close>

record GlobalHeapObject =
  go_Index :: nat
  go_Size :: u64
  go_Data :: bytes
  go_NRefs :: u16

record GlobalHeapCollection =
  gc_Address :: u64
  gc_Size :: u64
  gc_Objects :: "GlobalHeapObject list"

record GlobalHeapReference =
  gr_HeapAddress :: u64
  gr_ObjectIndex :: u32

text \<open>\<^verbatim>\<open>int\<close> arithmetic wraps at 64 bits; \<^verbatim>\<open>int(x)\<close> of a \<^verbatim>\<open>uint64\<close> reinterprets its bits.\<close>

definition int64 :: "int \<Rightarrow> int" where
  "int64 x = signed_take_bit 63 x"

definition to_int :: "u64 \<Rightarrow> int" where
  "to_int w = int64 (uint w)"

definition align8 :: "u64 \<Rightarrow> u64" where
  "align8 sz = (if sz mod 8 \<noteq> 0 then sz + (8 - sz mod 8) else sz)"

text \<open>
  One pass of the object loop at an offset: the loop ends (with the objects so far, or an error) or
  goes on at a new offset with, possibly, one more object. The loop itself runs on fuel; \<open>None\<close> is a
  loop that has not ended within it.
\<close>

datatype heap_pass = Stop | Fail go_error | Next int "GlobalHeapObject option"

definition heap_step :: "bytes \<Rightarrow> nat \<Rightarrow> int \<Rightarrow> heap_pass" where
  "heap_step data offsetSize offset =
     (let objHeaderSize = 8 + offsetSize
      in if \<not> offset < int (length data) then Stop
         else if int64 (offset + int objHeaderSize) > int (length data) then Stop
         else if offset < 0 then Fail slice_panic
         else let o' = nat offset;
                  objID = le_get (take 2 (drop o' data)) :: u16;
                  nRefs = le_get (take 2 (drop (o' + 2) data)) :: u16;
                  objSize = le_get (take offsetSize (drop (o' + 8) data)) :: u64
              in if objID = 0
                 then Next (int64 (int64 (offset + int objHeaderSize) + to_int (align8 objSize))) None
                 else let dataStart = offset + int objHeaderSize
                      in if int64 (dataStart + to_int objSize) > int (length data)
                         then Fail (Errorf ''object %d data extends beyond collection'')
                         else if unat objSize \<ge> max_alloc then Fail makeslice_panic
                         else Next (int64 (offset + int64 (int objHeaderSize + to_int (align8 objSize))))
                                (Some \<lparr>go_Index = unat objID, go_Size = objSize,
                                       go_Data = take (unat objSize) (drop (nat dataStart) data),
                                       go_NRefs = nRefs\<rparr>))"

primrec heap_objects :: "nat \<Rightarrow> bytes \<Rightarrow> nat \<Rightarrow> int \<Rightarrow> GlobalHeapObject list \<Rightarrow> GlobalHeapObject list result option" where
  "heap_objects 0 data offsetSize offset objs = None"
| "heap_objects (Suc fuel) data offsetSize offset objs =
     (case heap_step data offsetSize offset of
        Stop \<Rightarrow> Some (Inr objs)
      | Fail e \<Rightarrow> Some (Inl e)
      | Next offset' obj \<Rightarrow>
          heap_objects fuel data offsetSize offset' (case obj of None \<Rightarrow> objs | Some x \<Rightarrow> objs @ [x]))"

definition ReadGlobalHeapCollection :: "nat \<Rightarrow> bytes \<Rightarrow> u64 \<Rightarrow> nat \<Rightarrow> GlobalHeapCollection result option" where
  "ReadGlobalHeapCollection fuel file address offsetSize =
     (if offsetSize \<noteq> 4 \<and> offsetSize \<noteq> 8 then Some (Inl (Errorf ''invalid offset size: %d (must be 4 or 8)''))
      else let headerSize = 8 + offsetSize
           in case ReadAt file headerSize address of
                Inl e \<Rightarrow> Some (Inl (Wrapf ''failed to read global heap header: %w'' e))
              | Inr headerBuf \<Rightarrow>
                  if take 4 headerBuf \<noteq> [0x47, 0x43, 0x4F, 0x4C]
                  then Some (Inl (Errorf ''invalid global heap signature: %q (expected GCOL)''))
                  else if headerBuf ! 4 \<noteq> 1 then Some (Inl (Errorf ''unsupported global heap version: %d''))
                  else let collectionSize = le_get (take offsetSize (drop 8 headerBuf)) :: u64
                       in if unat collectionSize < headerSize
                          then Some (Inl (Errorf ''invalid collection size: %d (too small)''))
                          else if unat collectionSize \<ge> max_alloc then Some (Inl makeslice_panic)
                          else case ReadAt file (unat collectionSize) address of
                                 Inl e \<Rightarrow> Some (Inl (Wrapf ''failed to read global heap collection: %w'' e))
                               | Inr collectionData \<Rightarrow>
                                   let offset = (if headerSize mod 8 \<noteq> 0 then headerSize + (8 - headerSize mod 8)
                                                 else headerSize)
                                   in case heap_objects fuel collectionData offsetSize (int offset) [] of
                                        None \<Rightarrow> None
                                      | Some (Inl e) \<Rightarrow> Some (Inl e)
                                      | Some (Inr objs) \<Rightarrow>
                                          Some (Inr \<lparr>gc_Address = address, gc_Size = collectionSize, gc_Objects = objs\<rparr>))"

definition GetObject :: "GlobalHeapCollection \<Rightarrow> u32 \<Rightarrow> GlobalHeapObject result" where
  "GetObject gc index =
     (case find (\<lambda>obj. go_Index obj = unat index) (gc_Objects gc) of
        Some obj \<Rightarrow> Inr obj
      | None \<Rightarrow> Inl (Errorf ''object with index %d not found in collection''))"

definition ParseGlobalHeapReference :: "bytes \<Rightarrow> nat \<Rightarrow> GlobalHeapReference result" where
  "ParseGlobalHeapReference data offsetSize =
     (if offsetSize \<noteq> 4 \<and> offsetSize \<noteq> 8 then Inl (Errorf ''invalid offset size'')
      else if length data < offsetSize + 4
      then Inl (Errorf ''insufficient data for global heap reference: got %d bytes, need %d'')
      else Inr \<lparr>gr_HeapAddress = le_get (take offsetSize data),
                gr_ObjectIndex = le_get (take 4 (drop offsetSize data))\<rparr>)"

section \<open>Writing\<close>

record HeapObjectBuilder =
  ho_index :: u16
  ho_refCount :: u16
  ho_data :: bytes

record HeapBuilder =
  hb_address :: u64
  hb_size :: u64
  hb_objects :: "HeapObjectBuilder list"
  hb_nextIndex :: u16
  hb_usedSpace :: u64
  hb_freeSpace :: u64

record HeapID =
  CollectionAddress :: u64
  ObjectIndex :: u16
  SeqLen :: u32

definition hasSpace :: "HeapBuilder \<Rightarrow> u64 \<Rightarrow> bool" where
  "hasSpace h objectSize \<longleftrightarrow> hb_freeSpace h \<ge> objectSize"

definition addObject :: "HeapBuilder \<Rightarrow> bytes \<Rightarrow> u16 \<times> HeapBuilder" where
  "addObject h data =
     (let totalSize = 16 + align8 (of_nat (length data))
      in (hb_nextIndex h,
          h\<lparr>hb_objects := hb_objects h @ [\<lparr>ho_index = hb_nextIndex h, ho_refCount = 0, ho_data = data\<rparr>],
            hb_usedSpace := hb_usedSpace h + totalSize,
            hb_freeSpace := hb_freeSpace h - totalSize,
            hb_nextIndex := hb_nextIndex h + 1\<rparr>))"

text \<open>
  A buffer under construction and the running offset: \<open>put\<close> stores a fixed-width integer, \<open>copy_in\<close>
  is \<^verbatim>\<open>copy(buf[offset:], p)\<close>, which stops at the end of the buffer, \<open>skip\<close> only advances.
\<close>

type_synonym cursor = "bytes \<times> nat"

fun put :: "bytes \<Rightarrow> cursor \<Rightarrow> cursor result" where
  "put p (buf, offset) =
     (if offset + length p \<le> length buf then Inr (blit buf offset p, offset + length p) else Inl slice_panic)"

fun copy_in :: "bytes \<Rightarrow> cursor \<Rightarrow> cursor result" where
  "copy_in p (buf, offset) =
     (if offset \<le> length buf then Inr (blit buf offset (take (length buf - offset) p), offset + length p)
      else Inl slice_panic)"

fun skip :: "nat \<Rightarrow> cursor \<Rightarrow> cursor result" where
  "skip n (buf, offset) = Inr (buf, offset + n)"

fun align_offset :: "cursor \<Rightarrow> cursor result" where
  "align_offset (buf, offset) = Inr (buf, if offset mod 8 \<noteq> 0 then offset + (8 - offset mod 8) else offset)"

fun run_stores :: "(cursor \<Rightarrow> cursor result) list \<Rightarrow> cursor \<Rightarrow> cursor result" where
  "run_stores [] c = Inr c"
| "run_stores (f # fs) c = (case f c of Inl e \<Rightarrow> Inl e | Inr c \<Rightarrow> run_stores fs c)"

definition object_stores :: "HeapObjectBuilder \<Rightarrow> (cursor \<Rightarrow> cursor result) list" where
  "object_stores obj =
     [put (le_put 2 (ho_index obj)), put (le_put 2 (ho_refCount obj)), skip 4,
      put (le_put 8 (of_nat (length (ho_data obj)) :: u64)), copy_in (ho_data obj), align_offset]"

definition encodeHeapCollection :: "HeapBuilder \<Rightarrow> bytes result" where
  "encodeHeapCollection h =
     (if unat (hb_size h) \<ge> max_alloc then Inl makeslice_panic
      else case run_stores
             ([copy_in [0x47, 0x43, 0x4F, 0x4C], put [1], skip 3, put (le_put 8 (hb_size h)), align_offset]
              @ concat (map object_stores (hb_objects h))
              @ (if hb_freeSpace h \<ge> 16
                 then [put (le_put 2 (0 :: u16)), put (le_put 2 (0 :: u16)), skip 4, put (le_put 8 (hb_freeSpace h))]
                 else []))
             (zeros (unat (hb_size h)), 0) of
        Inl e \<Rightarrow> Inl e
      | Inr (buf, offset) \<Rightarrow> Inr buf)"

definition heapID_Encode :: "HeapID \<Rightarrow> bytes" where
  "heapID_Encode hid = le_put 4 (SeqLen hid) @ le_put 8 (CollectionAddress hid) @ le_put 4 (ucast (ObjectIndex hid) :: u32)"

section \<open>Building the buffer\<close>

definition cur :: "bytes \<Rightarrow> nat \<Rightarrow> cursor" where
  "cur pre k = (pre @ zeros k, length pre)"

lemma put_cur: "length p \<le> k \<Longrightarrow> put p (cur pre k) = Inr (cur (pre @ p) (k - length p))"
  by (simp add: cur_def blit_zeros)

lemma copy_in_cur: "length p \<le> k \<Longrightarrow> copy_in p (cur pre k) = Inr (cur (pre @ p) (k - length p))"
  by (simp add: cur_def blit_zeros)

lemma skip_cur: "n \<le> k \<Longrightarrow> skip n (cur pre k) = Inr (cur (pre @ zeros n) (k - n))"
  by (simp add: cur_def replicate_add [symmetric])

definition pad8 :: "nat \<Rightarrow> nat" where
  "pad8 n = (n + 7) div 8 * 8"

lemma pad8_facts: "n \<le> pad8 n" "pad8 n \<le> n + 7" "pad8 n mod 8 = 0" "n mod 8 = 0 \<Longrightarrow> pad8 n = n"
    "n mod 8 \<noteq> 0 \<Longrightarrow> pad8 n = n + (8 - n mod 8)"
  unfolding pad8_def by presburger+

lemma align_cur:
  assumes "pad8 (length pre) - length pre \<le> k"
  shows "align_offset (cur pre k) = Inr (cur (pre @ zeros (pad8 (length pre) - length pre)) (k - (pad8 (length pre) - length pre)))"
  using assms pad8_facts [of "length pre"] by (auto simp: cur_def replicate_add [symmetric])

lemma align8_exact:
  assumes "unat w + 7 < 2 ^ 64" shows "unat (align8 w) = pad8 (unat w)"
proof (cases "w mod 8 = 0")
  case True
  then have "unat (w mod 8) = 0" by simp
  then have "unat w mod 8 = 0" by (simp add: unat_mod)
  then show ?thesis using True pad8_facts(4) by (simp add: align8_def)
next
  case False
  let ?r = "unat w mod 8"
  have r: "unat (w mod 8) = ?r" by (simp add: unat_mod)
  then have r0: "?r \<noteq> 0" using False by (metis unat_eq_zero)
  have "?r < 2 ^ 64" by (rule less_trans [OF mod_less_divisor]) simp_all
  then have m: "w mod 8 = of_nat ?r" by (intro unat_eqD) (simp add: r unat_of_nat_less)
  have "?r < 8" by simp
  then have eq: "w + (8 - w mod 8) = of_nat (unat w + (8 - ?r))"
    unfolding m by (simp add: of_nat_diff)
  have "unat w + (8 - ?r) < 2 ^ 64" using assms r0 by simp
  then have "unat (w + (8 - w mod 8)) = unat w + (8 - ?r)"
    unfolding eq by (intro unat_of_nat_less) simp
  then show ?thesis using False r0 pad8_facts(5) by (simp add: align8_def)
qed

definition object_bytes :: "HeapObjectBuilder \<Rightarrow> bytes" where
  "object_bytes obj =
     le_put 2 (ho_index obj) @ le_put 2 (ho_refCount obj) @ zeros 4
     @ le_put 8 (of_nat (length (ho_data obj)) :: u64)
     @ ho_data obj @ zeros (pad8 (length (ho_data obj)) - length (ho_data obj))"

lemma length_object_bytes [simp]: "length (object_bytes obj) = 16 + pad8 (length (ho_data obj))"
  using pad8_facts(1) by (simp add: object_bytes_def del: le_put_numeral)

lemma run_stores_append:
  "run_stores (fs @ gs) c = (case run_stores fs c of Inl e \<Rightarrow> Inl e | Inr c \<Rightarrow> run_stores gs c)"
  by (induction fs arbitrary: c) (auto split: sum.splits)

lemma pad8_add: "m mod 8 = 0 \<Longrightarrow> pad8 (m + n) = m + pad8 n"
  unfolding pad8_def by presburger

lemma object_stores_cur:
  assumes "length pre mod 8 = 0" "16 + pad8 (length (ho_data obj)) \<le> k"
  shows "run_stores (object_stores obj) (cur pre k)
       = Inr (cur (pre @ object_bytes obj) (k - length (object_bytes obj)))"
proof -
  let ?n = "length (ho_data obj)"
  let ?q = "pre @ le_put 2 (ho_index obj) @ le_put 2 (ho_refCount obj) @ zeros 4
     @ le_put 8 (of_nat (length (ho_data obj)) :: u64) @ ho_data obj"
  have n: "?n \<le> pad8 ?n" by (rule pad8_facts)
  have "(length pre + 16) mod 8 = 0" using assms(1) by presburger
  then have "pad8 (length pre + 16 + ?n) - (length pre + 16 + ?n) = pad8 ?n - ?n"
    using pad8_add [of "length pre + 16" ?n] by simp
  then have pad: "pad8 (length ?q) - length ?q = pad8 ?n - ?n" by (simp add: add.assoc del: le_put_numeral)
  have "align_offset (cur ?q (k - 16 - ?n)) = Inr (cur (?q @ zeros (pad8 ?n - ?n)) (k - 16 - pad8 ?n))"
    using align_cur [of ?q "k - 16 - ?n"] assms(2) n unfolding pad by simp
  then show ?thesis
    unfolding object_stores_def run_stores.simps
    using assms n
    by (simp add: put_cur copy_in_cur skip_cur object_bytes_def
        del: le_put_numeral put.simps copy_in.simps skip.simps align_offset.simps)
qed

lemma objects_cur:
  assumes "length pre mod 8 = 0" "sum_list (map (\<lambda>o'. 16 + pad8 (length (ho_data o'))) objs) \<le> k"
  shows "run_stores (concat (map object_stores objs)) (cur pre k)
       = Inr (cur (pre @ concat (map object_bytes objs)) (k - sum_list (map (\<lambda>o'. 16 + pad8 (length (ho_data o'))) objs)))"
  using assms
proof (induction objs arbitrary: pre k)
  case Nil
  then show ?case by simp
next
  case (Cons x xs)
  have "length (pre @ object_bytes x) mod 8 = 0"
    using Cons.prems(1) pad8_facts(3) [of "length (ho_data x)"] by simp presburger
  then show ?case
    using Cons by (simp add: run_stores_append object_stores_cur)
qed

text \<open>
  The invariant of a collection under construction: the objects are numbered from 1, the space
  accounts are exact, and there are few enough objects for 16-bit indices.
\<close>

definition space :: "HeapObjectBuilder list \<Rightarrow> nat" where
  "space objs = sum_list (map (\<lambda>o'. 16 + pad8 (length (ho_data o'))) objs)"

definition heap_inv :: "HeapBuilder \<Rightarrow> bool" where
  "heap_inv h \<longleftrightarrow>
     unat (hb_size h) < max_alloc \<and> 16 + space (hb_objects h) + unat (hb_freeSpace h) = unat (hb_size h)
     \<and> unat (hb_usedSpace h) = 16 + space (hb_objects h)
     \<and> map (unat \<circ> ho_index) (hb_objects h) = [1..<length (hb_objects h) + 1]
     \<and> unat (hb_nextIndex h) = length (hb_objects h) + 1
     \<and> (hb_objects h \<noteq> [] \<longrightarrow> 16 * length (hb_objects h) + unat (hb_freeSpace h) \<le> 8192)"

definition free_marker :: "HeapBuilder \<Rightarrow> bytes" where
  "free_marker h = (if hb_freeSpace h \<ge> 16 then zeros 8 @ le_put 8 (hb_freeSpace h) else [])"

definition heap_bytes :: "HeapBuilder \<Rightarrow> bytes" where
  "heap_bytes h =
     [0x47, 0x43, 0x4F, 0x4C, 1, 0, 0, 0] @ le_put 8 (hb_size h) @ concat (map object_bytes (hb_objects h)) @ free_marker h"

lemma length_objects: "length (concat (map object_bytes objs)) = space objs"
  by (induction objs) (simp_all add: space_def)

lemma le_put_zero: "le_put n (0 :: 'a::len word) = zeros n"
  by (induction n) simp_all

lemma length_free_marker: "length (free_marker h) \<le> unat (hb_freeSpace h)"
  by (auto simp: free_marker_def word_le_nat_alt simp del: le_put_numeral)

lemma marker_cur:
  assumes "unat (hb_freeSpace h) = k"
  shows "run_stores (if hb_freeSpace h \<ge> 16
      then [put (le_put 2 (0 :: u16)), put (le_put 2 (0 :: u16)), skip 4, put (le_put 8 (hb_freeSpace h))] else []) (cur pre k)
    = Inr (cur (pre @ free_marker h) (k - length (free_marker h)))"
proof (cases "hb_freeSpace h \<ge> 16")
  case True
  then have "16 \<le> k" using assms by (simp add: word_le_nat_alt)
  moreover have "zeros 2 @ zeros 2 @ zeros 4 = (zeros 8 :: bytes)" by (simp add: replicate_add [symmetric])
  then have "zeros 2 @ zeros 2 @ zeros 4 @ r = zeros 8 @ r" for r :: bytes by (metis append.assoc)
  ultimately show ?thesis
    using True by (simp add: free_marker_def le_put_zero put_cur skip_cur
        del: le_put_numeral put.simps skip.simps)
next
  case False
  then show ?thesis by (simp add: free_marker_def)
qed

lemma encode_heap_bytes:
  assumes "heap_inv h"
  shows "encodeHeapCollection h = Inr (heap_bytes h @ zeros (unat (hb_size h) - length (heap_bytes h)))"
proof -
  let ?n = "unat (hb_size h)" and ?sp = "space (hb_objects h)" and ?fr = "unat (hb_freeSpace h)"
  let ?h = "[0x47, 0x43, 0x4F, 0x4C, 1, 0, 0, 0] @ le_put 8 (hb_size h)"
  let ?marker = "if hb_freeSpace h \<ge> 16
      then [put (le_put 2 (0 :: u16)), put (le_put 2 (0 :: u16)), skip 4, put (le_put 8 (hb_freeSpace h))] else []"
  have n: "?n < max_alloc" "16 + ?sp + ?fr = ?n" using assms by (simp_all add: heap_inv_def)
  have h16: "length ?h = 16" by (simp del: le_put_numeral)
  have start: "(zeros ?n, 0) = cur [] ?n" by (simp add: cur_def)
  have z3: "zeros 3 = [0, 0, 0]" by (simp add: numeral_eq_Suc)
  have "align_offset (cur ?h (?n - 16)) = Inr (cur ?h (?n - 16))"
    using h16 by (simp add: cur_def del: le_put_numeral)
  then have "run_stores [copy_in [0x47, 0x43, 0x4F, 0x4C], put [1], skip 3, put (le_put 8 (hb_size h)), align_offset] (cur [] ?n)
      = Inr (cur ?h (?n - 16))"
    using n(2) by (simp add: copy_in_cur put_cur skip_cur z3
        del: le_put_numeral put.simps copy_in.simps skip.simps align_offset.simps)
  moreover have "run_stores (concat (map object_stores (hb_objects h))) (cur ?h (?n - 16))
      = Inr (cur (?h @ concat (map object_bytes (hb_objects h))) (?n - 16 - ?sp))"
    using objects_cur [of ?h "hb_objects h" "?n - 16"] h16 n(2) unfolding space_def by simp
  moreover have "run_stores ?marker (cur (?h @ concat (map object_bytes (hb_objects h))) (?n - 16 - ?sp))
      = Inr (cur (heap_bytes h) (?n - length (heap_bytes h)))"
    using marker_cur [of h "?n - 16 - ?sp"] n(2) h16 by (simp add: heap_bytes_def length_objects add.assoc del: le_put_numeral)
  ultimately show ?thesis
    using n(1) by (simp only: encodeHeapCollection_def start run_stores_append) (simp add: cur_def)
qed

lemma length_heap_bytes: "heap_inv h \<Longrightarrow> length (heap_bytes h) \<le> unat (hb_size h)"
  using length_free_marker [of h] by (simp add: heap_inv_def heap_bytes_def length_objects del: le_put_numeral)

section \<open>Reading back what was written\<close>

lemma int64_id: "- (2 ^ 63) \<le> x \<Longrightarrow> x < 2 ^ 63 \<Longrightarrow> int64 x = x"
  by (simp add: int64_def signed_take_bit_int_eq_self)

lemma to_int_small:
  assumes "unat w < 2 ^ 63" shows "to_int w = int (unat w)"
proof -
  have "int (unat w) < int (2 ^ 63)" using assms by (simp only: of_nat_less_iff)
  moreover have "- (2 ^ 63) \<le> uint w" by (rule order_trans [OF _ uint_ge_0]) simp
  ultimately show ?thesis by (simp add: to_int_def int64_id)
qed

definition read_object :: "HeapObjectBuilder \<Rightarrow> GlobalHeapObject" where
  "read_object obj = \<lparr>go_Index = unat (ho_index obj), go_Size = of_nat (length (ho_data obj)),
     go_Data = ho_data obj, go_NRefs = ho_refCount obj\<rparr>"

lemma heap_step_object:
  assumes "length (pre @ object_bytes obj @ rest) < max_alloc" "ho_index obj \<noteq> 0"
  shows "heap_step (pre @ object_bytes obj @ rest) 8 (int (length pre))
       = Next (int (length (pre @ object_bytes obj))) (Some (read_object obj))"
proof -
  let ?n = "length (ho_data obj)"
  let ?d = "pre @ object_bytes obj @ rest"
  have n: "?n \<le> pad8 ?n" by (rule pad8_facts)
  have len: "length pre + 16 + pad8 ?n + length rest < 2 ^ 48" using assms(1) by simp
  have un: "unat (of_nat ?n :: u64) = ?n" using len n by (intro unat_of_nat_less) simp
  have al: "unat (align8 (of_nat ?n)) = pad8 ?n" using len n by (simp add: align8_exact un)
  have "take 2 (drop (length pre) ?d) = le_put 2 (ho_index obj)"
    "take 2 (drop (length pre + 2) ?d) = le_put 2 (ho_refCount obj)"
    "take 8 (drop (length pre + 8) ?d) = le_put 8 (of_nat ?n :: u64)"
    "take ?n (drop (length pre + 16) ?d) = ho_data obj"
    by (simp_all add: object_bytes_def del: le_put_numeral)
  then show ?thesis
    using assms(2) len n
    by (simp add: heap_step_def Let_def read_object_def un al to_int_small int64_id nat_add_distrib add.assoc del: le_put_numeral)
qed

lemma heap_step_end: "length data \<le> k \<Longrightarrow> heap_step data s (int k) = Stop"
  by (simp add: heap_step_def)

lemma heap_step_short: "length data < max_alloc \<Longrightarrow> length data < k + 16 \<Longrightarrow> heap_step data 8 (int k) = Stop"
  by (simp add: heap_step_def int64_id)

lemma heap_step_marker:
  fixes f :: u64
  assumes "16 \<le> unat f" "length pre + unat f < max_alloc" "length pre + unat f = length (pre @ zeros 8 @ le_put 8 f @ rest)"
  shows "heap_step (pre @ zeros 8 @ le_put 8 f @ rest) 8 (int (length pre))
       = Next (int (length pre + 16 + pad8 (unat f))) None"
proof -
  let ?d = "pre @ zeros 8 @ le_put 8 f @ rest"
  have al: "unat (align8 f) = pad8 (unat f)" using assms(2) by (simp add: align8_exact)
  have p: "pad8 (unat f) \<le> unat f + 7" by (rule pad8_facts)
  have "take 2 (drop (length pre) ?d) = le_put 2 (0 :: u16)" "take 8 (drop (length pre + 8) ?d) = le_put 8 f"
    by (simp_all add: le_put_zero del: le_put_numeral)
  then show ?thesis
    using assms p
    by (simp add: heap_step_def Let_def al to_int_small int64_id del: le_put_numeral)
qed

lemma heap_objects_read:
  assumes "length (pre @ concat (map object_bytes objs) @ tl') < max_alloc" "\<forall>x\<in>set objs. ho_index x \<noteq> 0"
    "heap_objects k (pre @ concat (map object_bytes objs) @ tl') 8 (int (length (pre @ concat (map object_bytes objs))))
       (acc @ map read_object objs) = res"
  shows "heap_objects (length objs + k) (pre @ concat (map object_bytes objs) @ tl') 8 (int (length pre)) acc = res"
  using assms
proof (induction objs arbitrary: pre acc)
  case Nil
  then show ?case by simp
next
  case (Cons x xs)
  have step: "heap_step (pre @ object_bytes x @ concat (map object_bytes xs) @ tl') 8 (int (length pre))
      = Next (int (length (pre @ object_bytes x))) (Some (read_object x))"
    using Cons.prems by (intro heap_step_object) simp_all
  show ?case
    using Cons.IH [of "pre @ object_bytes x" "acc @ [read_object x]"] Cons.prems step by simp
qed

lemma heap_objects_tail:
  assumes "length pre + unat (hb_freeSpace h) < max_alloc"
  shows "heap_objects 2 (pre @ free_marker h @ zeros (unat (hb_freeSpace h) - length (free_marker h))) 8 (int (length pre)) acc
       = Some (Inr acc)"
proof (cases "16 \<le> hb_freeSpace h")
  case True
  let ?f = "unat (hb_freeSpace h)"
  have f: "16 \<le> ?f" using True by (simp add: word_le_nat_alt)
  have m: "free_marker h = zeros 8 @ le_put 8 (hb_freeSpace h)" using True by (simp add: free_marker_def)
  have step: "heap_step (pre @ zeros 8 @ le_put 8 (hb_freeSpace h) @ zeros (?f - 16)) 8 (int (length pre))
      = Next (int (length pre + 16 + pad8 ?f)) None"
    using assms f by (intro heap_step_marker) (simp_all del: le_put_numeral)
  have "heap_step (pre @ zeros 8 @ le_put 8 (hb_freeSpace h) @ zeros (?f - 16)) 8 (int (length pre + 16 + pad8 ?f)) = Stop"
    using f pad8_facts(1) [of ?f] by (intro heap_step_end) (simp del: le_put_numeral)
  then show ?thesis using step by (simp add: m numeral_2_eq_2 del: le_put_numeral)
next
  case False
  then have f: "unat (hb_freeSpace h) < 16" and m: "free_marker h = []"
    by (simp_all add: free_marker_def word_le_nat_alt)
  have "heap_step (pre @ zeros (unat (hb_freeSpace h))) 8 (int (length pre)) = Stop"
    using f assms by (intro heap_step_short) simp_all
  then show ?thesis by (simp add: m numeral_2_eq_2)
qed

lemma find_numbered:
  assumes "map f xs = [Suc k..<Suc k + length xs]" "i < length xs"
  shows "find (\<lambda>x. f x = Suc k + i) xs = Some (xs ! i)"
proof -
  have f: "f (xs ! j) = Suc k + j" if "j < length xs" for j
    using that assms(1) by (metis nth_map nth_upt length_map add_less_cancel_left)
  then show ?thesis using assms(2) by (auto simp: find_Some_iff intro!: exI [of _ i])
qed

lemma heap_inv_D:
  assumes "heap_inv h"
  shows "unat (hb_size h) < max_alloc" "16 + space (hb_objects h) + unat (hb_freeSpace h) = unat (hb_size h)"
    "map (unat \<circ> ho_index) (hb_objects h) = [1..<length (hb_objects h) + 1]"
    "\<forall>x\<in>set (hb_objects h). ho_index x \<noteq> 0"
proof -
  show n: "unat (hb_size h) < max_alloc" "16 + space (hb_objects h) + unat (hb_freeSpace h) = unat (hb_size h)"
    "map (unat \<circ> ho_index) (hb_objects h) = [1..<length (hb_objects h) + 1]"
    using assms by (simp_all add: heap_inv_def)
  have "unat (ho_index x) \<in> set [1..<length (hb_objects h) + 1]" if "x \<in> set (hb_objects h)" for x
    using that n(3) by (metis comp_apply image_eqI list.set_map)
  then show "\<forall>x\<in>set (hb_objects h). ho_index x \<noteq> 0" by fastforce
qed

lemma heap_file_image:
  assumes "heap_inv h"
  shows "heap_bytes h @ zeros (unat (hb_size h) - length (heap_bytes h))
       = ([0x47, 0x43, 0x4F, 0x4C, 1, 0, 0, 0] @ le_put 8 (hb_size h)) @ concat (map object_bytes (hb_objects h))
         @ free_marker h @ zeros (unat (hb_freeSpace h) - length (free_marker h))"
proof -
  have "unat (hb_size h) - length (heap_bytes h) = unat (hb_freeSpace h) - length (free_marker h)"
    using heap_inv_D(2) [OF assms] length_free_marker [of h] by (simp add: heap_bytes_def length_objects del: le_put_numeral)
  then show ?thesis by (simp add: heap_bytes_def del: le_put_numeral)
qed

lemma read_encoded_objects:
  assumes "heap_inv h"
  shows "heap_objects (length (hb_objects h) + 2) (heap_bytes h @ zeros (unat (hb_size h) - length (heap_bytes h))) 8 16 []
       = Some (Inr (map read_object (hb_objects h)))"
proof -
  let ?h = "[0x47, 0x43, 0x4F, 0x4C, 1, 0, 0, 0] @ le_put 8 (hb_size h)"
  let ?os = "concat (map object_bytes (hb_objects h))"
  let ?t = "free_marker h @ zeros (unat (hb_freeSpace h) - length (free_marker h))"
  note inv = heap_inv_D [OF assms]
  have lh: "length ?h = 16" by (simp del: le_put_numeral)
  have lt: "length ?t = unat (hb_freeSpace h)" using length_free_marker [of h] by simp
  have len: "length (?h @ ?os @ ?t) < max_alloc"
    using inv(1,2) lh lt length_objects [of "hb_objects h"] by (simp del: le_put_numeral)
  have "length (?h @ ?os) + unat (hb_freeSpace h) < max_alloc"
    using inv(1,2) lh length_objects [of "hb_objects h"] by (simp del: le_put_numeral)
  then have "heap_objects 2 ((?h @ ?os) @ ?t) 8 (int (length (?h @ ?os))) (map read_object (hb_objects h))
      = Some (Inr (map read_object (hb_objects h)))"
    by (rule heap_objects_tail)
  then have "heap_objects 2 (?h @ ?os @ ?t) 8 (int (length (?h @ ?os))) ([] @ map read_object (hb_objects h))
      = Some (Inr (map read_object (hb_objects h)))"
    by (simp only: append.assoc append_Nil)
  from heap_objects_read [OF len inv(4) this] show ?thesis
    unfolding heap_file_image [OF assms] lh by simp
qed

lemma encodeHeapCollection_length:
  "heap_inv h \<Longrightarrow> encodeHeapCollection h = Inr buf \<Longrightarrow> length buf = unat (hb_size h)"
  using length_heap_bytes [of h] by (auto simp: encode_heap_bytes)

lemma heap_objects_mono:
  "heap_objects k data sz off acc = Some r \<Longrightarrow> k \<le> fuel \<Longrightarrow> heap_objects fuel data sz off acc = Some r"
proof (induction k arbitrary: fuel off acc)
  case 0
  then show ?case by simp
next
  case (Suc k)
  then obtain m where "fuel = Suc m" "k \<le> m" by (metis Suc_le_D Suc_le_mono)
  then show ?case using Suc by (simp split: heap_pass.splits)
qed

lemma ReadAt_overwrite_prefix:
  "unat off < 2 ^ 63 \<Longrightarrow> n \<le> length p \<Longrightarrow> ReadAt (overwrite f (unat off) p) n off = Inr (take n p)"
  by (cases "p = []") (auto simp: ReadAt_def overwrite_def)

lemma read_encoded_heap:
  assumes "heap_inv h" "unat addr < 2 ^ 63" "length (hb_objects h) + 2 \<le> fuel" "encodeHeapCollection h = Inr buf"
  shows "ReadGlobalHeapCollection fuel (overwrite f (unat addr) buf) addr 8
       = Some (Inr \<lparr>gc_Address = addr, gc_Size = hb_size h, gc_Objects = map read_object (hb_objects h)\<rparr>)"
proof -
  let ?f = "overwrite f (unat addr) buf"
  let ?h = "[0x47, 0x43, 0x4F, 0x4C, 1, 0, 0, 0] @ le_put 8 (hb_size h)"
  have buf: "buf = heap_bytes h @ zeros (unat (hb_size h) - length (heap_bytes h))"
    using assms(4) encode_heap_bytes [OF assms(1)] by simp
  have len: "length buf = unat (hb_size h)" by (rule encodeHeapCollection_length [OF assms(1,4)])
  have sz: "16 \<le> unat (hb_size h)" "unat (hb_size h) < max_alloc" using heap_inv_D(1,2) [OF assms(1)] by simp_all
  have hd16: "take 16 buf = ?h" unfolding buf by (simp add: heap_bytes_def del: le_put_numeral)
  have r1: "ReadAt ?f 16 addr = Inr ?h"
    using ReadAt_overwrite_prefix [OF assms(2), of 16 buf f] sz(1) len hd16 by simp
  have r2: "ReadAt ?f (unat (hb_size h)) addr = Inr buf"
    using ReadAt_overwrite [OF assms(2), of f buf] len by simp
  have o: "heap_objects fuel buf 8 16 [] = Some (Inr (map read_object (hb_objects h)))"
    using heap_objects_mono [OF read_encoded_objects [OF assms(1)] assms(3)] buf by simp
  have "take 8 (drop 8 ?h) = le_put 8 (hb_size h)" by (simp del: le_put_numeral)
  then show ?thesis using r1 r2 o sz
    by (simp add: ReadGlobalHeapCollection_def Let_def del: le_put_numeral)
qed

lemma GetObject_numbered:
  assumes "map (unat \<circ> ho_index) objs = [1..<length objs + 1]" "i < length objs" "length objs < 2 ^ 16"
  shows "GetObject \<lparr>gc_Address = a, gc_Size = s, gc_Objects = map read_object objs\<rparr> (of_nat (i + 1))
       = Inr (read_object (objs ! i))"
proof -
  have "unat (of_nat (i + 1) :: u32) = Suc i" using assms(2,3) by (simp add: unat_of_nat_less del: of_nat_add of_nat_Suc)
  moreover have "map go_Index (map read_object objs) = [Suc 0..<Suc 0 + length (map read_object objs)]"
    using assms(1) by (simp add: read_object_def comp_def)
  then have "find (\<lambda>x. go_Index x = Suc i) (map read_object objs) = Some (map read_object objs ! i)"
    using find_numbered [of go_Index "map read_object objs" 0 i] assms(2) by simp
  ultimately show ?thesis using assms(2) by (simp add: GetObject_def)
qed

lemma heap_inv_few: "heap_inv h \<Longrightarrow> length (hb_objects h) < 2 ^ 16"
  by (cases "hb_objects h = []") (auto simp: heap_inv_def)

section \<open>Filling a collection\<close>

lemma align8_length: "length data < 2 ^ 47 \<Longrightarrow> unat (align8 (of_nat (length data))) = pad8 (length data)"
  by (simp add: align8_exact unat_of_nat_less)

lemma object_size:
  assumes "length data < 2 ^ 47"
  shows "unat (16 + align8 (of_nat (length data)) :: u64) = 16 + pad8 (length data)"
proof -
  have "pad8 (length data) \<le> length data + 7" by (rule pad8_facts)
  then show ?thesis using assms by (subst unat_add_exact) (simp_all add: align8_length)
qed

lemma addObject_inv:
  assumes inv: "heap_inv h" and sp: "hasSpace h (16 + align8 (of_nat (length data)))" and len: "length data < 2 ^ 47"
    and new: "hb_objects h = [] \<Longrightarrow> unat (hb_freeSpace h) \<le> 8192 + pad8 (length data)"
    and add: "addObject h data = (i, h')"
  shows "heap_inv h'" "hb_address h' = hb_address h" "hb_size h' = hb_size h"
    "hb_objects h' = hb_objects h @ [\<lparr>ho_index = i, ho_refCount = 0, ho_data = data\<rparr>]"
    "unat i = length (hb_objects h) + 1"
proof -
  let ?n = "length (hb_objects h)" and ?t = "16 + align8 (of_nat (length data)) :: u64"
  note t = object_size [OF len]
  have le: "?t \<le> hb_freeSpace h" using sp by (simp add: hasSpace_def)
  then have le': "16 + pad8 (length data) \<le> unat (hb_freeSpace h)" using t by (simp add: word_le_nat_alt)
  have fr: "unat (hb_freeSpace h - ?t) = unat (hb_freeSpace h) - (16 + pad8 (length data))"
    using le t by (simp add: unat_sub)
  have "unat (hb_usedSpace h) + unat ?t \<le> unat (hb_size h)" "unat (hb_size h) < max_alloc"
    using inv le' t by (simp_all add: heap_inv_def)
  then have us: "unat (hb_usedSpace h + ?t) = unat (hb_usedSpace h) + (16 + pad8 (length data))"
    using t by (subst unat_add_exact) simp_all
  have ix: "unat (hb_nextIndex h) = ?n + 1" using inv by (simp add: heap_inv_def)
  have few: "16 * (?n + 1) + (unat (hb_freeSpace h) - (16 + pad8 (length data))) \<le> 8192"
  proof (cases "hb_objects h = []")
    case True
    then show ?thesis using new by simp
  next
    case False
    then have "16 * ?n + unat (hb_freeSpace h) \<le> 8192" using inv by (simp add: heap_inv_def)
    then show ?thesis using le' by arith
  qed
  then have "?n + 2 < 2 ^ LENGTH(16)" by simp
  moreover have "hb_nextIndex h + 1 = of_nat (?n + 2)"
    using arg_cong [OF ix, of "of_nat :: nat \<Rightarrow> u16"] by simp
  ultimately have nx: "unat (hb_nextIndex h + 1) = ?n + 2" by (simp only: unat_of_nat_less)
  have i: "i = hb_nextIndex h" and h': "h' = h\<lparr>hb_objects := hb_objects h @ [\<lparr>ho_index = i, ho_refCount = 0, ho_data = data\<rparr>],
      hb_usedSpace := hb_usedSpace h + ?t, hb_freeSpace := hb_freeSpace h - ?t, hb_nextIndex := hb_nextIndex h + 1\<rparr>"
    using add by (auto simp: addObject_def Let_def)
  show "heap_inv h'"
    using inv le' fr us nx ix few unfolding h' i by (simp add: heap_inv_def space_def)
  show "hb_address h' = hb_address h" "hb_size h' = hb_size h"
    "hb_objects h' = hb_objects h @ [\<lparr>ho_index = i, ho_refCount = 0, ho_data = data\<rparr>]"
    "unat i = length (hb_objects h) + 1"
    using ix by (simp_all add: h' i)
qed

text \<open>
  C38. A collection built by the writer is encoded without a panic into exactly its allotted size;
  wherever it is written, the reader's object loop ends within one pass per object and two more, and
  every object is found under its index with the bytes that were added.
\<close>
theorem globalheap_roundtrip:
  assumes "heap_inv h" "unat addr < 2 ^ 63" "length (hb_objects h) + 2 \<le> fuel"
  shows "\<exists>buf gc. encodeHeapCollection h = Inr buf \<and> length buf = unat (hb_size h)
     \<and> ReadGlobalHeapCollection fuel (overwrite f (unat addr) buf) addr 8 = Some (Inr gc)
     \<and> length (gc_Objects gc) = length (hb_objects h)
     \<and> (\<forall>i < length (hb_objects h). GetObject gc (of_nat (i + 1)) = Inr (read_object (hb_objects h ! i)))"
proof -
  obtain buf where buf: "encodeHeapCollection h = Inr buf" using encode_heap_bytes [OF assms(1)] by blast
  show ?thesis
    using read_encoded_heap [OF assms buf, of f] encodeHeapCollection_length [OF assms(1) buf] buf
      GetObject_numbered [OF heap_inv_D(3) [OF assms(1)] _ heap_inv_few [OF assms(1)]]
    by (simp del: of_nat_add)
qed

definition demo_heap :: HeapBuilder where
  "demo_heap = \<lparr>hb_address = 48, hb_size = 4096,
     hb_objects = [\<lparr>ho_index = 1, ho_refCount = 0, ho_data = [1, 2, 3]\<rparr>, \<lparr>ho_index = 2, ho_refCount = 0, ho_data = [4]\<rparr>],
     hb_nextIndex = 3, hb_usedSpace = 64, hb_freeSpace = 4032\<rparr>"

lemma demo_heap_inv: "heap_inv demo_heap"
  by (simp add: heap_inv_def demo_heap_def space_def pad8_def upt_rec)

theorem globalheap_roundtrip_witness:
  "\<exists>buf gc. encodeHeapCollection demo_heap = Inr buf \<and> length buf = 4096
     \<and> ReadGlobalHeapCollection 4 (overwrite [] 48 buf) 48 8 = Some (Inr gc)
     \<and> length (gc_Objects gc) = 2"
  using globalheap_roundtrip [of demo_heap 48 4 "[]"] demo_heap_inv by (fastforce simp: demo_heap_def)

definition looping_heap :: bytes where
  "looping_heap = [0x47, 0x43, 0x4F, 0x4C, 1, 0, 0, 0] @ le_put 8 (32 :: u64) @ zeros 8 @ le_put 8 (0xFFFFFFFFFFFFFFF0 :: u64)"

lemma looping_heap_bytes: "looping_heap =
  [0x47, 0x43, 0x4F, 0x4C, 1, 0, 0, 0, 32, 0, 0, 0, 0, 0, 0, 0, 0, 0, 0, 0, 0, 0, 0, 0, 0xF0, 0xFF, 0xFF, 0xFF, 0xFF, 0xFF, 0xFF, 0xFF]"
  by code_simp

lemma looping_step: "heap_step looping_heap 8 16 = Next 16 None"
  unfolding looping_heap_bytes by code_simp

lemma looping_objects: "heap_objects fuel looping_heap 8 16 acc = None"
  by (induction fuel) (simp_all add: looping_step)

lemma looping_header: "length looping_heap = 32" "take 4 looping_heap = [0x47, 0x43, 0x4F, 0x4C]" "looping_heap ! 4 = 1"
  "le_get (take 8 (drop 8 looping_heap)) = (32 :: u64)"
  unfolding looping_heap_bytes by code_simp+

text \<open>
  The reader does not end on every input: a collection of 32 bytes whose free-space object
  claims \<open>2 ^ 64 - 16\<close> bytes makes the signed offset return to where it was, so that no number of
  passes is enough.
\<close>
theorem malformed_heap_loops:
  "ReadGlobalHeapCollection fuel looping_heap 0 8 = None"
  using looping_header looping_objects
  by (simp add: ReadGlobalHeapCollection_def ReadAt_def Let_def take_drop min_def)

end
