(* ===== verification/Allocator.thy ===== *)
theory Allocator
  imports Overflow "HOL-Library.Multiset"
begin

text \<open>
  \<^verbatim>\<open>internal/writer/allocator.go\<close>: the space allocator of the file writer. Its state is the list of
  allocated blocks, the list of free blocks sorted by offset and the end of the file. \<^verbatim>\<open>Allocate\<close>
  is best-fit over the free list and falls back to the end of the file; \<^verbatim>\<open>Free\<close> shrinks the
  file when it can, and otherwise inserts into the free list and coalesces with both neighbours.

  The development proves the structural invariant of the state (blocks and free blocks pairwise
  disjoint, free list sorted and fully coalesced, no free block at the end of the file) for every
  operation, the contract a client of the allocator relies on (locale \<open>space_provider\<close>), and the
  accounting of all space below the end of the file in every reachable state.
\<close>

section \<open>State and operations\<close>

record Block =
  Offset :: u64
  Size :: u64

type_synonym AllocatedBlock = Block
type_synonym FreeBlock = Block

record Allocator =
  blocks :: "AllocatedBlock list"
  freeList :: "FreeBlock list"
  nextOffset :: u64

definition NewAllocator :: "u64 \<Rightarrow> Allocator" where
  "NewAllocator initialOffset = \<lparr>blocks = [], freeList = [], nextOffset = initialOffset\<rparr>"

text \<open>The search loop of \<^verbatim>\<open>Allocate\<close>: \<open>best\<close> is \<open>None\<close> for \<^verbatim>\<open>bestIdx == -1\<close>.\<close>

fun best_fit :: "u64 \<Rightarrow> FreeBlock list \<Rightarrow> nat \<Rightarrow> (nat \<times> u64) option \<Rightarrow> (nat \<times> u64) option" where
  "best_fit sz [] i best = best"
| "best_fit sz (fb # fbs) i best =
     best_fit sz fbs (Suc i)
       (if Size fb \<ge> sz \<and> (case best of None \<Rightarrow> True | Some (_, bestSize) \<Rightarrow> Size fb < bestSize)
        then Some (i, Size fb) else best)"

definition Allocate :: "Allocator \<Rightarrow> u64 \<Rightarrow> (u64 \<times> Allocator) result" where
  "Allocate a sz =
     (if sz = 0 then Inl (Errorf ''cannot allocate zero bytes'')
      else case best_fit sz (freeList a) 0 None of
        Some (bestIdx, _) \<Rightarrow>
          (let fb = freeList a ! bestIdx;
               addr = Offset fb;
               fl = (if Size fb = sz then take bestIdx (freeList a) @ drop (Suc bestIdx) (freeList a)
                     else (freeList a)[bestIdx := fb\<lparr>Offset := Offset fb + sz, Size := Size fb - sz\<rparr>])
           in Inr (addr, a\<lparr>freeList := fl, blocks := blocks a @ [\<lparr>Offset = addr, Size = sz\<rparr>]\<rparr>))
      | None \<Rightarrow>
          (let addr = nextOffset a
           in Inr (addr, a\<lparr>blocks := blocks a @ [\<lparr>Offset = addr, Size = sz\<rparr>],
                            nextOffset := addr + sz\<rparr>)))"

definition IsAllocated :: "Allocator \<Rightarrow> u64 \<Rightarrow> u64 \<Rightarrow> bool" where
  "IsAllocated a offset sz =
     (if sz = 0 then False
      else list_ex (\<lambda>block. offset < Offset block + Size block \<and> Offset block < offset + sz) (blocks a))"

definition EndOfFile :: "Allocator \<Rightarrow> u64" where
  "EndOfFile a = nextOffset a"

text \<open>
  \<^verbatim>\<open>sort.Slice\<close> leaves the order of equal offsets open; the blocks of a well-formed allocator have
  distinct offsets, so the sorted copy is unique.
\<close>

definition Blocks :: "Allocator \<Rightarrow> AllocatedBlock list" where
  "Blocks a = sort_key Offset (blocks a)"

fun overlap_scan :: "AllocatedBlock list \<Rightarrow> unit result" where
  "overlap_scan (current # nxt # rest) =
     (if Offset current + Size current > Offset nxt
      then Inl (Errorf ''overlap detected: block at %d (size %d) overlaps block at %d'')
      else overlap_scan (nxt # rest))"
| "overlap_scan _ = Inr ()"

definition ValidateNoOverlaps :: "Allocator \<Rightarrow> unit result" where
  "ValidateNoOverlaps a = overlap_scan (Blocks a)"

text \<open>\<^verbatim>\<open>sort.Search(n, f)\<close>: the binary search of the standard library.\<close>

function sort_search :: "(nat \<Rightarrow> bool) \<Rightarrow> nat \<Rightarrow> nat \<Rightarrow> nat" where
  "sort_search f i j =
     (if i < j
      then (let h = (i + j) div 2 in if \<not> f h then sort_search f (Suc h) j else sort_search f i h)
      else i)"
  by pat_completeness auto
termination
  by (relation "measure (\<lambda>(f, i, j). j - i)") auto

declare sort_search.simps [simp del]

definition coalesce_next :: "nat \<Rightarrow> FreeBlock list \<Rightarrow> FreeBlock list" where
  "coalesce_next i fl =
     (if Suc i < length fl
      then (let nxt = fl ! Suc i; cur = fl ! i
            in if Offset cur + Size cur = Offset nxt
               then take (Suc i) (fl[i := cur\<lparr>Size := Size cur + Size nxt\<rparr>]) @ drop (i + 2) fl
               else fl)
      else fl)"

definition coalesce_prev :: "nat \<Rightarrow> FreeBlock list \<Rightarrow> FreeBlock list" where
  "coalesce_prev i fl =
     (if i > 0
      then (let prev = fl ! (i - 1); cur = fl ! i
            in if Offset prev + Size prev = Offset cur
               then take i (fl[i - 1 := prev\<lparr>Size := Size prev + Size cur\<rparr>]) @ drop (Suc i) fl
               else fl)
      else fl)"

definition addToFreeList :: "Allocator \<Rightarrow> u64 \<Rightarrow> u64 \<Rightarrow> Allocator" where
  "addToFreeList a offset sz =
     (let fl = freeList a;
          insertIdx = sort_search (\<lambda>i. Offset (fl ! i) \<ge> offset) 0 (length fl);
          inserted = take insertIdx fl @ [\<lparr>Offset = offset, Size = sz\<rparr>] @ drop insertIdx fl
      in a\<lparr>freeList := coalesce_prev insertIdx (coalesce_next insertIdx inserted)\<rparr>)"

function shrinkTrailingFreeBlocks :: "Allocator \<Rightarrow> Allocator" where
  "shrinkTrailingFreeBlocks a =
     (if freeList a \<noteq> [] \<and>
         Offset (last (freeList a)) + Size (last (freeList a)) = nextOffset a
      then shrinkTrailingFreeBlocks
             (a\<lparr>nextOffset := Offset (last (freeList a)), freeList := butlast (freeList a)\<rparr>)
      else a)"
  by pat_completeness auto
termination
  by (relation "measure (\<lambda>a. length (freeList a))") auto

declare shrinkTrailingFreeBlocks.simps [simp del]

fun remove_block :: "u64 \<Rightarrow> u64 \<Rightarrow> AllocatedBlock list \<Rightarrow> AllocatedBlock list" where
  "remove_block offset sz [] = []"
| "remove_block offset sz (b # bs) =
     (if Offset b = offset \<and> Size b = sz then bs else b # remove_block offset sz bs)"

definition Free :: "Allocator \<Rightarrow> u64 \<Rightarrow> u64 \<Rightarrow> Allocator result" where
  "Free a offset sz =
     (if sz = 0 then Inl (Errorf ''cannot free zero bytes'')
      else (let a = a\<lparr>blocks := remove_block offset sz (blocks a)\<rparr>
            in if offset + sz = nextOffset a
               then Inr (shrinkTrailingFreeBlocks (a\<lparr>nextOffset := offset\<rparr>))
               else Inr (addToFreeList a offset sz)))"

definition FreeBlocks :: "Allocator \<Rightarrow> FreeBlock list" where
  "FreeBlocks a = freeList a"

section \<open>Regions and the invariant\<close>

definition bend :: "Block \<Rightarrow> nat" where
  "bend b = unat (Offset b) + unat (Size b)"

definition region :: "Block \<Rightarrow> nat set" where
  "region b = {unat (Offset b)..<bend b}"

definition regions :: "Block list \<Rightarrow> nat set" where
  "regions bs = (\<Union>b\<in>set bs. region b)"

definition free_ok :: "nat \<Rightarrow> FreeBlock list \<Rightarrow> bool" where
  "free_ok n fl \<longleftrightarrow>
     (\<forall>b\<in>set fl. Size b \<noteq> 0 \<and> bend b < n) \<and> sorted_wrt (\<lambda>b c. bend b < unat (Offset c)) fl"

definition blocks_ok :: "nat \<Rightarrow> AllocatedBlock list \<Rightarrow> bool" where
  "blocks_ok n bs \<longleftrightarrow>
     (\<forall>b\<in>set bs. Size b \<noteq> 0 \<and> bend b \<le> n) \<and> sorted_wrt (\<lambda>b c. region b \<inter> region c = {}) bs"

definition alloc_inv :: "Allocator \<Rightarrow> bool" where
  "alloc_inv a \<longleftrightarrow>
     free_ok (unat (nextOffset a)) (freeList a) \<and> blocks_ok (unat (nextOffset a)) (blocks a) \<and>
     regions (blocks a) \<inter> regions (freeList a) = {}"

abbreviation used :: "Allocator \<Rightarrow> nat set" where
  "used a \<equiv> regions (blocks a)"

abbreviation unused :: "Allocator \<Rightarrow> nat set" where
  "unused a \<equiv> regions (freeList a)"

lemma regions_simps [simp]:
  "regions [] = {}"
  "regions (b # bs) = region b \<union> regions bs"
  "regions (xs @ ys) = regions xs \<union> regions ys"
  by (auto simp: regions_def)

lemma unat_pos: "(w :: 'a::len word) \<noteq> 0 \<Longrightarrow> 0 < unat w"
  by (simp add: unat_gt_0)

lemma region_nonempty: "Size b \<noteq> 0 \<Longrightarrow> unat (Offset b) \<in> region b \<and> unat (Offset b) < bend b"
  using unat_pos [of "Size b"] by (simp add: region_def bend_def)

lemma region_disjoint_iff:
  "Size b \<noteq> 0 \<Longrightarrow> Size c \<noteq> 0 \<Longrightarrow>
   region b \<inter> region c = {} \<longleftrightarrow> bend b \<le> unat (Offset c) \<or> bend c \<le> unat (Offset b)"
  using region_nonempty [of b] region_nonempty [of c] by (auto simp: region_def)

lemma end_eq_iff:
  "bend b < 2 ^ 64 \<Longrightarrow> Offset b + Size b = w \<longleftrightarrow> bend b = unat w"
  by (auto simp: bend_def unat_add_exact intro: unat_eqD)

lemma unat_end: "bend b < 2 ^ 64 \<Longrightarrow> unat (Offset b + Size b) = bend b"
  by (simp add: bend_def unat_add_exact)

lemma regions_below: "\<forall>b\<in>set bs. bend b \<le> n \<Longrightarrow> regions bs \<subseteq> {0..<n}"
  by (force simp: regions_def region_def)

section \<open>Best fit\<close>

lemma best_fit_some:
  "best_fit sz fl i best = Some (j, s) \<Longrightarrow>
     (best = Some (j, s) \<and> (\<forall>fb\<in>set fl. Size fb \<ge> sz \<longrightarrow> s \<le> Size fb)) \<or>
     (\<exists>k<length fl. j = i + k \<and> s = Size (fl ! k) \<and> sz \<le> s \<and>
        (\<forall>fb\<in>set fl. Size fb \<ge> sz \<longrightarrow> s \<le> Size fb) \<and>
        (case best of None \<Rightarrow> True | Some (_, bs) \<Rightarrow> s < bs))"
proof (induction sz fl i best rule: best_fit.induct)
  case (1 sz i best)
  then show ?case by simp
next
  case (2 sz fb fbs i best)
  let ?new = "Size fb \<ge> sz \<and> (case best of None \<Rightarrow> True | Some (_, bestSize) \<Rightarrow> Size fb < bestSize)"
  show ?case
  proof (cases ?new)
    case True
    with "2.prems" have "best_fit sz fbs (Suc i) (Some (i, Size fb)) = Some (j, s)" by simp
    with "2.IH" True consider
        (this) "j = i" "s = Size fb" "\<forall>fb\<in>set fbs. Size fb \<ge> sz \<longrightarrow> s \<le> Size fb"
      | (later) k where "k < length fbs" "j = Suc i + k" "s = Size (fbs ! k)" "sz \<le> s" "s < Size fb"
          "\<forall>fb\<in>set fbs. Size fb \<ge> sz \<longrightarrow> s \<le> Size fb"
      by auto
    then show ?thesis
    proof cases
      case this
      with True show ?thesis by (intro disjI2 exI [of _ 0]) auto
    next
      case later
      with True show ?thesis
        by (intro disjI2 exI [of _ "Suc k"]) (auto split: option.splits)
    qed
  next
    case False
    with "2.prems" have "best_fit sz fbs (Suc i) best = Some (j, s)" by simp
    with "2.IH" False consider
        (old) "best = Some (j, s)" "\<forall>fb\<in>set fbs. Size fb \<ge> sz \<longrightarrow> s \<le> Size fb"
      | (later) k where "k < length fbs" "j = Suc i + k" "s = Size (fbs ! k)" "sz \<le> s"
          "\<forall>fb\<in>set fbs. Size fb \<ge> sz \<longrightarrow> s \<le> Size fb"
          "case best of None \<Rightarrow> True | Some (_, bs) \<Rightarrow> s < bs"
      by auto
    then show ?thesis
    proof cases
      case old
      with False show ?thesis by auto
    next
      case later
      with False show ?thesis
        by (intro disjI2 exI [of _ "Suc k"]) (auto split: option.splits)
    qed
  qed
qed

lemma best_fit_none:
  "best_fit sz fl i best = None \<longleftrightarrow> best = None \<and> (\<forall>fb\<in>set fl. Size fb < sz)"
  by (induction sz fl i best rule: best_fit.induct) (auto simp: not_le)

lemma best_fit_best:
  assumes "best_fit sz fl 0 None = Some (i, s)"
  shows "i < length fl" "s = Size (fl ! i)" "sz \<le> Size (fl ! i)"
    "\<forall>fb\<in>set fl. Size fb \<ge> sz \<longrightarrow> Size (fl ! i) \<le> Size fb"
  using best_fit_some [OF assms] by auto

section \<open>Taking space from a free block\<close>

definition carve :: "u64 \<Rightarrow> nat \<Rightarrow> FreeBlock list \<Rightarrow> FreeBlock list" where
  "carve sz i fl =
     (if Size (fl ! i) = sz then take i fl @ drop (Suc i) fl
      else fl[i := (fl ! i)\<lparr>Offset := Offset (fl ! i) + sz, Size := Size (fl ! i) - sz\<rparr>])"

lemma unat_shrunk:
  assumes "bend b < 2 ^ 64" "sz \<le> Size b"
  shows "unat (Offset b + sz) = unat (Offset b) + unat sz" "unat (Size b - sz) = unat (Size b) - unat sz"
proof -
  have "unat sz \<le> unat (Size b)" using assms(2) by (simp add: word_le_nat_alt)
  then have "unat (Offset b) + unat sz < 2 ^ 64" using assms(1) by (simp add: bend_def)
  then show "unat (Offset b + sz) = unat (Offset b) + unat sz" by (rule unat_add_exact)
  show "unat (Size b - sz) = unat (Size b) - unat sz" using assms(2) by (rule unat_sub)
qed

lemma carve_ok:
  assumes ok: "free_ok n fl" and i: "i < length fl" and fits: "sz \<le> Size (fl ! i)" and "sz \<noteq> 0"
    and n: "n \<le> 2 ^ 64"
  defines "new \<equiv> \<lparr>Offset = Offset (fl ! i), Size = sz\<rparr>"
  shows "free_ok n (carve sz i fl)"
    "regions fl = region new \<union> regions (carve sz i fl)"
    "region new \<inter> regions (carve sz i fl) = {}"
    "bend new \<le> n"
proof -
  let ?b = "fl ! i" and ?L = "take i fl" and ?R = "drop (Suc i) fl"
  have fl: "fl = ?L @ ?b # ?R" using i by (rule id_take_nth_drop)
  have sorted: "sorted_wrt (\<lambda>b c. bend b < unat (Offset c)) (?L @ ?b # ?R)"
    and small: "\<forall>b\<in>set (?L @ ?b # ?R). Size b \<noteq> 0 \<and> bend b < n"
    using ok fl by (simp_all add: free_ok_def)
  have b: "bend ?b < 2 ^ 64" "Size ?b \<noteq> 0" "bend ?b < n" using small n by auto
  have le: "unat sz \<le> unat (Size ?b)" using fits by (simp add: word_le_nat_alt)
  have below: "\<forall>c\<in>set ?L. bend c < unat (Offset ?b)" and above: "\<forall>c\<in>set ?R. bend ?b < unat (Offset c)"
    using sorted by (auto simp: sorted_wrt_append)
  have apart: "region ?b \<inter> regions (?L @ ?R) = {}"
    using below above by (auto simp: regions_def region_def)
  have bendnew: "bend new = unat (Offset ?b) + unat sz" by (simp add: new_def bend_def)
  then show "bend new \<le> n" using le b by (simp add: bend_def)
  show "free_ok n (carve sz i fl)" "regions fl = region new \<union> regions (carve sz i fl)"
    "region new \<inter> regions (carve sz i fl) = {}"
  proof (atomize(full), cases "Size ?b = sz")
    case True
    have c: "carve sz i fl = ?L @ ?R" using True by (simp add: carve_def)
    have r: "region new = region ?b" using True by (simp add: new_def region_def bend_def)
    have "free_ok n (?L @ ?R)" using sorted small by (auto simp: free_ok_def sorted_wrt_append)
    moreover have "regions fl = region ?b \<union> regions (?L @ ?R)" by (subst fl) auto
    ultimately show "free_ok n (carve sz i fl) \<and> regions fl = region new \<union> regions (carve sz i fl) \<and>
        region new \<inter> regions (carve sz i fl) = {}"
      using apart by (simp add: c r)
  next
    case False
    let ?b' = "?b\<lparr>Offset := Offset ?b + sz, Size := Size ?b - sz\<rparr>"
    have c: "carve sz i fl = ?L @ ?b' # ?R"
      using False i by (simp add: carve_def upd_conv_take_nth_drop)
    note u = unat_shrunk [OF b(1) fits]
    have b'end: "bend ?b' = bend ?b" using u le by (simp add: bend_def)
    have b'nz: "Size ?b - sz \<noteq> 0" using False by simp
    have "free_ok n (?L @ ?b' # ?R)"
      using sorted small b'end b'nz u by (auto simp: free_ok_def sorted_wrt_append)
    moreover have split: "region ?b = region new \<union> region ?b'" "region new \<inter> region ?b' = {}"
      using u le b'end by (auto simp: region_def bendnew new_def) (simp_all add: bend_def)
    moreover have "region new \<inter> regions (?L @ ?R) = {}"
      using apart split(1) by blast
    moreover have "regions fl = region ?b \<union> regions (?L @ ?R)" by (subst fl) auto
    ultimately show "free_ok n (carve sz i fl) \<and> regions fl = region new \<union> regions (carve sz i fl) \<and>
        region new \<inter> regions (carve sz i fl) = {}"
      by (auto simp: c)
  qed
qed

lemma Allocate_cases:
  assumes "Allocate a sz = Inr (addr, a')"
  obtains (reuse) i s where "sz \<noteq> 0" "best_fit sz (freeList a) 0 None = Some (i, s)"
      "addr = Offset (freeList a ! i)"
      "a' = a\<lparr>freeList := carve sz i (freeList a), blocks := blocks a @ [\<lparr>Offset = addr, Size = sz\<rparr>]\<rparr>"
  | (extend) "sz \<noteq> 0" "best_fit sz (freeList a) 0 None = None" "addr = nextOffset a"
      "a' = a\<lparr>blocks := blocks a @ [\<lparr>Offset = addr, Size = sz\<rparr>], nextOffset := addr + sz\<rparr>"
  using assms
  by (cases "best_fit sz (freeList a) 0 None")
    (auto simp: Allocate_def Let_def carve_def split: if_splits)

lemma blocks_ok_snoc:
  "blocks_ok n bs \<Longrightarrow> Size b \<noteq> 0 \<Longrightarrow> bend b \<le> n \<Longrightarrow> regions bs \<inter> region b = {} \<Longrightarrow> blocks_ok n (bs @ [b])"
  by (auto simp: blocks_ok_def sorted_wrt_append regions_def)

lemma blocks_ok_mono: "blocks_ok n bs \<Longrightarrow> n \<le> m \<Longrightarrow> blocks_ok m bs"
  by (auto simp: blocks_ok_def)

lemma free_ok_mono: "free_ok n fl \<Longrightarrow> n \<le> m \<Longrightarrow> free_ok m fl"
  by (auto simp: free_ok_def)

text \<open>What one call of \<^verbatim>\<open>Allocate\<close> does to a well-formed state.\<close>

lemma Allocate_effect:
  assumes inv: "alloc_inv a" and ok: "Allocate a sz = Inr (addr, a')"
    and room: "unat (nextOffset a) + unat sz < 2 ^ 64"
  defines "new \<equiv> \<lparr>Offset = addr, Size = sz\<rparr>"
  shows "alloc_inv a'" "region new \<inter> used a = {}" "blocks a' = blocks a @ [new]"
    "bend new \<le> unat (nextOffset a')" "unat (nextOffset a) \<le> unat (nextOffset a')"
    "used a' \<union> unused a' = used a \<union> unused a \<union> {unat (nextOffset a)..<unat (nextOffset a')}"
proof -
  have "alloc_inv a' \<and> region new \<inter> used a = {} \<and> blocks a' = blocks a @ [new] \<and>
    bend new \<le> unat (nextOffset a') \<and> unat (nextOffset a) \<le> unat (nextOffset a') \<and>
    used a' \<union> unused a' = used a \<union> unused a \<union> {unat (nextOffset a)..<unat (nextOffset a')}"
  using ok
  proof (cases rule: Allocate_cases)
    case (reuse i s)
    note fit = best_fit_best [OF reuse(2)]
    have free: "free_ok (unat (nextOffset a)) (freeList a)" and bl: "blocks_ok (unat (nextOffset a)) (blocks a)"
      and disj: "used a \<inter> unused a = {}" using inv by (simp_all add: alloc_inv_def)
    have "unat (nextOffset a) \<le> 2 ^ 64" using room by simp
    note c = carve_ok [OF free fit(1) fit(3) reuse(1) this, folded reuse(3), folded new_def]
    have d: "region new \<inter> used a = {}" using c(2) disj by auto
    have "blocks_ok (unat (nextOffset a)) (blocks a @ [new])"
      using d c(4) reuse(1) by (intro blocks_ok_snoc [OF bl]) (auto simp: new_def)
    with d show ?thesis
      using c disj reuse(4) by (auto simp: alloc_inv_def new_def [symmetric])
  next
    case extend
    have free: "free_ok (unat (nextOffset a)) (freeList a)" and bl: "blocks_ok (unat (nextOffset a)) (blocks a)"
      and disj: "used a \<inter> unused a = {}" using inv by (simp_all add: alloc_inv_def)
    have a': "blocks a' = blocks a @ [new]" "freeList a' = freeList a"
      using extend by (simp_all add: new_def)
    have nx: "unat (nextOffset a') = unat (nextOffset a) + unat sz"
      using room extend by (simp add: unat_add_exact)
    have new: "region new = {unat (nextOffset a)..<unat (nextOffset a')}" "bend new = unat (nextOffset a')"
      using extend nx by (auto simp: region_def bend_def new_def)
    have "used a \<subseteq> {0..<unat (nextOffset a)}" "unused a \<subseteq> {0..<unat (nextOffset a)}"
      using bl free regions_below by (auto simp: blocks_ok_def free_ok_def less_imp_le)
    then have d: "region new \<inter> used a = {}" "region new \<inter> unused a = {}"
      using new by auto
    have "blocks_ok (unat (nextOffset a')) (blocks a @ [new])"
      using d new extend(1) blocks_ok_mono [OF bl] nx by (intro blocks_ok_snoc) (auto simp: new_def)
    moreover have "free_ok (unat (nextOffset a')) (freeList a)"
      using free nx by (intro free_ok_mono [OF free]) simp
    ultimately show ?thesis
      using d disj nx new a' by (auto simp: alloc_inv_def)
  qed
  then show "alloc_inv a'" "region new \<inter> used a = {}" "blocks a' = blocks a @ [new]"
    "bend new \<le> unat (nextOffset a')" "unat (nextOffset a) \<le> unat (nextOffset a')"
    "used a' \<union> unused a' = used a \<union> unused a \<union> {unat (nextOffset a)..<unat (nextOffset a')}"
    by blast+
qed

section \<open>Returning space: insertion and coalescing\<close>

lemma sort_search_spec:
  assumes "i \<le> j" "\<And>p q. p \<le> q \<Longrightarrow> q < j \<Longrightarrow> f p \<Longrightarrow> f q"
  shows "i \<le> sort_search f i j \<and> sort_search f i j \<le> j \<and>
     (\<forall>k. i \<le> k \<and> k < sort_search f i j \<longrightarrow> \<not> f k) \<and> (\<forall>k. sort_search f i j \<le> k \<and> k < j \<longrightarrow> f k)"
  using assms
proof (induction f i j rule: sort_search.induct)
  case (1 f i j)
  let ?h = "(i + j) div 2"
  show ?case
  proof (cases "i < j")
    case False
    then have "sort_search f i j = i" by (simp add: sort_search.simps [of f i j])
    with False "1.prems"(1) show ?thesis by auto
  next
    case True
    then have h: "i \<le> ?h" "?h < j" by auto
    show ?thesis
    proof (cases "f ?h")
      case True
      let ?r = "sort_search f i ?h"
      have eq: "sort_search f i j = ?r"
        using True \<open>i < j\<close> by (simp add: sort_search.simps [of f i j] Let_def)
      have ih: "i \<le> ?r \<and> ?r \<le> ?h \<and> (\<forall>k. i \<le> k \<and> k < ?r \<longrightarrow> \<not> f k) \<and> (\<forall>k. ?r \<le> k \<and> k < ?h \<longrightarrow> f k)"
        using "1.IH"(2) [OF \<open>i < j\<close> refl] True h "1.prems"(2) by (meson less_trans)
      moreover have "\<forall>k. ?r \<le> k \<and> k < j \<longrightarrow> f k"
        using ih True "1.prems"(2) by (meson not_le_imp_less)
      ultimately show ?thesis using h eq by simp
    next
      case False
      let ?r = "sort_search f (Suc ?h) j"
      have eq: "sort_search f i j = ?r"
        using False \<open>i < j\<close> by (simp add: sort_search.simps [of f i j] Let_def)
      have ih: "Suc ?h \<le> ?r \<and> ?r \<le> j \<and> (\<forall>k. Suc ?h \<le> k \<and> k < ?r \<longrightarrow> \<not> f k) \<and> (\<forall>k. ?r \<le> k \<and> k < j \<longrightarrow> f k)"
        using "1.IH"(1) [OF \<open>i < j\<close> refl] False h "1.prems"(2) by (meson Suc_leI)
      have "\<not> f k" if "k \<le> ?h" for k
        using False h "1.prems"(2) that by blast
      then have "\<forall>k. i \<le> k \<and> k < ?r \<longrightarrow> \<not> f k"
        using ih by (metis not_less_eq_eq)
      with ih h eq show ?thesis by simp
    qed
  qed
qed

lemma coalesce_next_split:
  "coalesce_next (length L) (L @ x # R) =
     (case R of [] \<Rightarrow> L @ [x]
      | r # R' \<Rightarrow> if Offset x + Size x = Offset r then L @ x\<lparr>Size := Size x + Size r\<rparr> # R' else L @ x # R)"
  by (auto simp: coalesce_next_def Let_def nth_append split: list.splits)

lemma coalesce_prev_split:
  "coalesce_prev (length L) (L @ x # R) =
     (if L = [] then x # R
      else if Offset (last L) + Size (last L) = Offset x
      then butlast L @ (last L)\<lparr>Size := Size (last L) + Size x\<rparr> # R else L @ x # R)"
  by (cases L rule: rev_cases) (auto simp: coalesce_prev_def Let_def nth_append list_update_append)

lemma merge_blocks:
  assumes "bend x = unat (Offset y)" "bend y < 2 ^ 64"
  defines "z \<equiv> x\<lparr>Size := Size x + Size y\<rparr>"
  shows "bend z = bend y" "region z = region x \<union> region y" "Size y \<noteq> 0 \<Longrightarrow> Size z \<noteq> 0"
proof -
  have "unat (Size x) + unat (Size y) < 2 ^ 64" using assms by (simp add: bend_def)
  then have u: "unat (Size x + Size y) = unat (Size x) + unat (Size y)" by (rule unat_add_exact)
  then show e: "bend z = bend y" using assms by (simp add: bend_def)
  show "region z = region x \<union> region y"
    using assms(1) e by (auto simp: region_def z_def) (auto simp: bend_def)
  show "Size z \<noteq> 0" if "Size y \<noteq> 0"
  proof
    assume "Size z = 0"
    then have "unat (Size x + Size y) = 0" by (simp add: z_def)
    with u that show False by (simp add: unat_eq_zero)
  qed
qed

lemma insert_coalesce_ok:
  assumes ok: "free_ok n (L @ R)" and x: "Size x \<noteq> 0" "bend x < n" and n: "n \<le> 2 ^ 64"
    and L: "\<forall>b\<in>set L. bend b \<le> unat (Offset x)" and R: "\<forall>c\<in>set R. bend x \<le> unat (Offset c)"
  defines "res \<equiv> coalesce_prev (length L) (coalesce_next (length L) (L @ x # R))"
  shows "free_ok n res \<and> regions res = regions (L @ R) \<union> region x"
proof -
  have sL: "free_ok n L" and sR: "free_ok n R"
    and LR: "\<forall>b\<in>set L. \<forall>c\<in>set R. bend b < unat (Offset c)"
    using ok by (auto simp: free_ok_def sorted_wrt_append)
  obtain y S where nxt: "coalesce_next (length L) (L @ x # R) = L @ y # S"
    and y: "Size y \<noteq> 0" "bend y < n" "Offset y = Offset x" and S: "free_ok n S"
    and yS: "\<forall>c\<in>set S. bend y < unat (Offset c)" and reg: "region y \<union> regions S = region x \<union> regions R"
    and LS: "set S \<subseteq> set R"
  proof (cases R)
    case Nil
    with x show ?thesis by (intro that [of x "[]"]) (auto simp: coalesce_next_split free_ok_def)
  next
    case (Cons r R')
    have r: "Size r \<noteq> 0" "bend r < n" "free_ok n R'" "\<forall>c\<in>set R'. bend r < unat (Offset c)"
      using sR Cons by (auto simp: free_ok_def)
    have xend: "Offset x + Size x = Offset r \<longleftrightarrow> bend x = unat (Offset r)"
      using x n by (intro end_eq_iff) simp
    show ?thesis
    proof (cases "bend x = unat (Offset r)")
      case True
      note m = merge_blocks [OF True] 
      have "bend r < 2 ^ 64" using r n by simp
      from m [OF this] r Cons True xend show ?thesis
        by (intro that [of "x\<lparr>Size := Size x + Size r\<rparr>" R']) (auto simp: coalesce_next_split)
    next
      case False
      then have "bend x < unat (Offset r)" using R Cons by auto
      with r region_nonempty [of r] have "\<forall>c\<in>set R. bend x < unat (Offset c)"
        using Cons by (auto dest: less_trans)
      with False Cons xend x sR show ?thesis
        by (intro that [of x R]) (auto simp: coalesce_next_split)
    qed
  qed
  have Ly: "\<forall>b\<in>set L. bend b \<le> unat (Offset y)" using L y by simp
  have LSlt: "\<forall>b\<in>set L. \<forall>c\<in>set S. bend b < unat (Offset c)" using LR LS by auto
  show ?thesis
  proof (cases L rule: rev_cases)
    case Nil
    with y S yS reg nxt show ?thesis
      by (auto simp: res_def coalesce_prev_split [of "[]", simplified] free_ok_def)
  next
    case (snoc L' p)
    have p: "Size p \<noteq> 0" "bend p < n" "free_ok n L'" "\<forall>b\<in>set L'. bend b < unat (Offset p)"
      using sL snoc by (auto simp: free_ok_def sorted_wrt_append)
    have pend: "Offset p + Size p = Offset y \<longleftrightarrow> bend p = unat (Offset y)"
      using p n by (intro end_eq_iff) simp
    have below: "\<forall>b\<in>set L'. bend b < unat (Offset y)"
      using p(4) region_nonempty [OF p(1)] Ly snoc by (fastforce dest: less_trans)
    show ?thesis
    proof (cases "bend p = unat (Offset y)")
      case True
      let ?m = "p\<lparr>Size := Size p + Size y\<rparr>"
      have "bend y < 2 ^ 64" using y n by simp
      note m = merge_blocks [OF True this]
      have res: "res = L' @ ?m # S"
        unfolding res_def nxt coalesce_prev_split using True pend snoc by simp
      have "free_ok n res"
        unfolding res using p S yS m y LSlt snoc by (auto simp: free_ok_def sorted_wrt_append)
      with m reg snoc show ?thesis by (auto simp: res)
    next
      case False
      have res: "res = L @ y # S"
        unfolding res_def nxt coalesce_prev_split using False pend snoc by simp
      have "\<forall>b\<in>set L. bend b < unat (Offset y)"
        using below False Ly snoc by auto
      then have "free_ok n res"
        unfolding res using sL S yS y LSlt by (auto simp: free_ok_def sorted_wrt_append)
      with reg show ?thesis by (auto simp: res)
    qed
  qed
qed

lemma addToFreeList_ok:
  fixes off :: u64
  assumes ok: "free_ok n (freeList a)" and n: "n \<le> 2 ^ 64" and sz: "sz \<noteq> 0"
  defines "x \<equiv> \<lparr>Offset = off, Size = sz\<rparr>"
  assumes x: "bend x < n" "region x \<inter> unused a = {}"
  shows "free_ok n (freeList (addToFreeList a off sz))"
    "unused (addToFreeList a off sz) = unused a \<union> region x"
proof -
  let ?fl = "freeList a" and ?f = "\<lambda>i. Offset (freeList a ! i) \<ge> off"
  let ?i = "sort_search ?f 0 (length ?fl)"
  have sorted: "sorted_wrt (\<lambda>b c. bend b < unat (Offset c)) ?fl" and nz: "\<forall>b\<in>set ?fl. Size b \<noteq> 0"
    using ok by (simp_all add: free_ok_def)
  have mono: "?f q" if "p \<le> q" "q < length ?fl" "?f p" for p q
  proof (cases "p = q")
    case False
    with that have "bend (?fl ! p) < unat (Offset (?fl ! q))"
      using sorted by (simp add: sorted_wrt_iff_nth_less)
    with that(3) show ?thesis by (simp add: word_le_nat_alt bend_def)
  qed (use that in simp)
  have i: "?i \<le> length ?fl" and low: "\<forall>k<?i. \<not> ?f k" and high: "\<forall>k. ?i \<le> k \<and> k < length ?fl \<longrightarrow> ?f k"
    using sort_search_spec [of 0 "length ?fl" ?f] mono by blast+
  let ?L = "take ?i ?fl" and ?R = "drop ?i ?fl"
  have xnz: "Size x \<noteq> 0" using sz by (simp add: x_def)
  have L: "\<forall>b\<in>set ?L. bend b \<le> unat (Offset x)"
  proof
    fix b assume b: "b \<in> set ?L"
    then obtain k where "k < ?i" "b = ?fl ! k" using i by (auto simp: in_set_conv_nth)
    then have "unat (Offset b) < unat (Offset x)" using low by (auto simp: x_def word_less_nat_alt not_le)
    moreover have "region x \<inter> region b = {}" "Size b \<noteq> 0"
      using b x(2) nz by (auto simp: regions_def dest: in_set_takeD)
    ultimately show "bend b \<le> unat (Offset x)"
      using xnz region_nonempty [OF xnz] by (auto simp: region_disjoint_iff)
  qed
  have R: "\<forall>c\<in>set ?R. bend x \<le> unat (Offset c)"
  proof
    fix c assume c: "c \<in> set ?R"
    then obtain k where k: "k < length ?fl - ?i" "c = ?fl ! (?i + k)" by (auto simp: in_set_conv_nth)
    then have "?f (?i + k)" using high by simp
    then have "unat (Offset x) \<le> unat (Offset c)" using k by (simp add: x_def word_le_nat_alt)
    moreover have "region x \<inter> region c = {}" "Size c \<noteq> 0"
      using c x(2) nz by (auto simp: regions_def dest: in_set_dropD)
    ultimately show "bend x \<le> unat (Offset c)"
      using xnz region_nonempty [of c] by (auto simp: region_disjoint_iff)
  qed
  have len: "length ?L = ?i" using i by simp
  have eq: "freeList (addToFreeList a off sz) = coalesce_prev (length ?L) (coalesce_next (length ?L) (?L @ x # ?R))"
    unfolding len by (simp add: addToFreeList_def Let_def x_def)
  have "free_ok n (?L @ ?R)" and reg: "regions (?L @ ?R) = unused a"
    using ok by (simp_all only: append_take_drop_id)
  from insert_coalesce_ok [OF this(1) xnz x(1) n L R]
  show "free_ok n (freeList (addToFreeList a off sz))" "unused (addToFreeList a off sz) = unused a \<union> region x"
    unfolding eq reg by blast+
qed

lemma shrink_frame: "blocks (shrinkTrailingFreeBlocks a) = blocks a"
  by (induction a rule: shrinkTrailingFreeBlocks.induct) (subst shrinkTrailingFreeBlocks.simps, simp)

text \<open>
  The loop that absorbs trailing free blocks is entered with free blocks that may touch the new end
  of the file; when it stops none does.
\<close>

lemma shrink_ok:
  assumes "\<forall>b\<in>set (freeList a). Size b \<noteq> 0 \<and> bend b \<le> unat (nextOffset a)"
    "sorted_wrt (\<lambda>b c. bend b < unat (Offset c)) (freeList a)"
  defines "s \<equiv> shrinkTrailingFreeBlocks a"
  shows "free_ok (unat (nextOffset s)) (freeList s) \<and> unat (nextOffset s) \<le> unat (nextOffset a) \<and>
    unused s \<union> {unat (nextOffset s)..<unat (nextOffset a)} = unused a \<and> unused s \<subseteq> {0..<unat (nextOffset s)}"
  using assms(1,2) unfolding s_def
proof (induction a rule: shrinkTrailingFreeBlocks.induct)
  case (1 a)
  let ?l = "last (freeList a)"
  have cond: "bend b < 2 ^ 64" if "b \<in> set (freeList a)" for b
    using "1.prems"(1) that by (auto intro: le_less_trans)
  show ?case
  proof (cases "freeList a \<noteq> [] \<and> Offset ?l + Size ?l = nextOffset a")
    case True
    then obtain L l where L: "freeList a = L @ [l]" by (cases "freeList a" rule: rev_cases) auto
    let ?a = "a\<lparr>nextOffset := Offset ?l, freeList := butlast (freeList a)\<rparr>"
    have lend: "bend l = unat (nextOffset a)"
      using True cond [of l] end_eq_iff [of l "nextOffset a"] by (simp add: L)
    have prems: "\<forall>b\<in>set (freeList ?a). Size b \<noteq> 0 \<and> bend b \<le> unat (nextOffset ?a)"
      "sorted_wrt (\<lambda>b c. bend b < unat (Offset c)) (freeList ?a)"
      using "1.prems" by (auto simp: L sorted_wrt_append less_imp_le)
    have eq: "shrinkTrailingFreeBlocks a = shrinkTrailingFreeBlocks ?a"
      using True by (subst shrinkTrailingFreeBlocks.simps) simp
    have reg: "unused a = unused ?a \<union> {unat (Offset l)..<unat (nextOffset a)}"
      by (simp add: L region_def lend)
    have le: "unat (nextOffset ?a) \<le> unat (nextOffset a)" "unat (nextOffset ?a) = unat (Offset l)"
      using lend by (simp_all add: L bend_def)
    from "1.IH" [OF True prems] reg le show ?thesis
      unfolding eq by auto
  next
    case False
    have eq: "shrinkTrailingFreeBlocks a = a"
      using False by (subst shrinkTrailingFreeBlocks.simps) auto
    have strict: "bend b < unat (nextOffset a)" if b: "b \<in> set (freeList a)" for b
    proof -
      from b have ne: "freeList a \<noteq> []" by auto
      with False have "bend ?l \<noteq> unat (nextOffset a)"
        using cond [of ?l] end_eq_iff [of ?l "nextOffset a"] by auto
      then have last: "bend ?l < unat (nextOffset a)" using "1.prems"(1) ne by (simp add: le_neq_implies_less)
      show ?thesis
      proof (cases "b = ?l")
        case False
        obtain L l where L: "freeList a = L @ [l]" using ne by (cases "freeList a" rule: rev_cases) auto
        have "bend b < unat (Offset ?l)"
          using "1.prems"(2) False b by (auto simp: L sorted_wrt_append)
        with last show ?thesis by (simp add: bend_def)
      qed (use last in simp)
    qed
    then show ?thesis
      unfolding eq using "1.prems"(2) "1.prems"(1) regions_below [of "freeList a"]
      by (auto simp: free_ok_def)
  qed
qed

lemma remove_block_subset: "set (remove_block off sz bs) \<subseteq> set bs"
  by (induction off sz bs rule: remove_block.induct) auto

lemma remove_block_ok: "blocks_ok n bs \<Longrightarrow> blocks_ok n (remove_block off sz bs)"
proof (induction off sz bs rule: remove_block.induct)
  case (2 off sz b bs)
  then show ?case using remove_block_subset [of off sz bs] by (auto simp: blocks_ok_def)
qed (simp add: blocks_ok_def)

lemma remove_block_tracked:
  assumes "blocks_ok n bs" "b \<in> set bs"
  shows "regions (remove_block (Offset b) (Size b) bs) \<inter> region b = {} \<and>
     regions bs = region b \<union> regions (remove_block (Offset b) (Size b) bs)"
  using assms
proof (induction bs)
  case Nil
  then show ?case by simp
next
  case (Cons c cs)
  show ?case
  proof (cases "Offset c = Offset b \<and> Size c = Size b")
    case True
    then have "c = b" by simp
    with Cons.prems True show ?thesis by (auto simp: blocks_ok_def regions_def)
  next
    case False
    then have "b \<in> set cs" using Cons.prems by auto
    moreover have "blocks_ok n cs" and "region c \<inter> region b = {}"
      using Cons.prems(1) \<open>b \<in> set cs\<close> by (auto simp: blocks_ok_def)
    ultimately show ?thesis using Cons.IH False by auto
  qed
qed

lemma blocks_ok_lower:
  assumes ok: "blocks_ok n bs" and m: "m \<le> n" and clear: "regions bs \<inter> {m..<n} = {}"
  shows "blocks_ok m bs"
proof -
  have "bend b \<le> m" if b: "b \<in> set bs" for b
  proof (rule ccontr)
    assume "\<not> bend b \<le> m"
    moreover have "Size b \<noteq> 0" "bend b \<le> n" using ok b by (auto simp: blocks_ok_def)
    ultimately have "bend b - 1 \<in> region b" "bend b - 1 \<in> {m..<n}"
      using region_nonempty [of b] by (auto simp: region_def)
    with clear b show False by (auto simp: regions_def)
  qed
  with ok show ?thesis by (auto simp: blocks_ok_def)
qed

text \<open>What one call of \<^verbatim>\<open>Free\<close> does, for any region that nobody else holds.\<close>

lemma Free_effect:
  fixes off :: u64
  assumes inv: "alloc_inv a" and ok: "Free a off sz = Inr a'"
  defines "x \<equiv> \<lparr>Offset = off, Size = sz\<rparr>" and "rest \<equiv> remove_block off sz (blocks a)"
  assumes x: "bend x \<le> unat (nextOffset a)" "region x \<inter> unused a = {}" "region x \<inter> regions rest = {}"
  shows "alloc_inv a'" "blocks a' = rest" "unat (nextOffset a') \<le> unat (nextOffset a)"
    "unused a' \<union> {unat (nextOffset a')..<unat (nextOffset a)} = unused a \<union> region x"
proof -
  let ?n = "unat (nextOffset a)" and ?b = "a\<lparr>blocks := rest\<rparr>"
  have free: "free_ok ?n (freeList a)" and bl: "blocks_ok ?n rest" and sz: "sz \<noteq> 0"
    and disj: "regions rest \<inter> unused a = {}"
    using inv ok remove_block_ok [of ?n "blocks a" off sz] remove_block_subset [of off sz "blocks a"]
    by (auto simp: alloc_inv_def rest_def Free_def regions_def split: if_splits)
  have n: "?n < 2 ^ 64" by simp
  have "bend x < 2 ^ 64" using x(1) n by (rule le_less_trans)
  from end_eq_iff [OF this, of "nextOffset a"] have xend: "off + sz = nextOffset a \<longleftrightarrow> bend x = ?n"
    by (simp add: x_def)
  have "alloc_inv a' \<and> blocks a' = rest \<and> unat (nextOffset a') \<le> ?n \<and>
    unused a' \<union> {unat (nextOffset a')..<?n} = unused a \<union> region x"
  proof (cases "bend x = ?n")
    case True
    let ?c = "?b\<lparr>nextOffset := off\<rparr>"
    have a': "a' = shrinkTrailingFreeBlocks ?c"
      using ok sz True xend by (simp add: Free_def rest_def)
    have reg: "region x = {unat off..<?n}" using True by (simp add: region_def x_def)
    have below: "\<forall>b\<in>set (freeList ?c). Size b \<noteq> 0 \<and> bend b \<le> unat (nextOffset ?c)"
    proof
      fix b assume b: "b \<in> set (freeList ?c)"
      then have nz: "Size b \<noteq> 0" "bend b < ?n" using free by (auto simp: free_ok_def)
      moreover have "region x \<inter> region b = {}" using x(2) b by (auto simp: regions_def)
      ultimately show "Size b \<noteq> 0 \<and> bend b \<le> unat (nextOffset ?c)"
        using sz True region_nonempty [OF nz(1)] by (auto simp: region_disjoint_iff x_def)
    qed
    have "sorted_wrt (\<lambda>b c. bend b < unat (Offset c)) (freeList ?c)"
      using free by (simp add: free_ok_def)
    note s = shrink_ok [OF below this, folded a']
    have off: "unat off \<le> ?n" using x(1) by (simp add: bend_def x_def)
    have blk: "blocks a' = rest" using a' shrink_frame [of ?c] by simp
    have tail: "unused a' \<union> {unat (nextOffset a')..<?n} = unused a \<union> region x"
      using s off by (auto simp: reg)
    have "blocks_ok (unat (nextOffset a')) rest"
    proof (rule blocks_ok_lower [OF bl])
      show "unat (nextOffset a') \<le> ?n" using s off by simp
      show "regions rest \<inter> {unat (nextOffset a')..<?n} = {}"
        using tail disj x(3) by blast
    qed
    with s tail disj x(3) blk off show ?thesis by (auto simp: alloc_inv_def)
  next
    case False
    have a': "a' = addToFreeList ?b off sz"
      using ok sz False xend by (simp add: Free_def rest_def)
    have "bend x < ?n" using x(1) False by simp
    from addToFreeList_ok [of ?n ?b sz off, folded x_def, OF _ less_imp_le [OF n] sz this] free x(2)
    have "free_ok ?n (freeList a')" "unused a' = unused a \<union> region x" by (simp_all add: a')
    with bl disj x(3) show ?thesis by (auto simp: alloc_inv_def a' addToFreeList_def Let_def)
  qed
  then show "alloc_inv a'" "blocks a' = rest" "unat (nextOffset a') \<le> ?n"
    "unused a' \<union> {unat (nextOffset a')..<?n} = unused a \<union> region x" by blast+
qed

section \<open>The overlap scan\<close>

lemma sorted_wrt_perm:
  assumes sym: "\<And>x y. R x y \<Longrightarrow> R y x"
  shows "mset xs = mset ys \<Longrightarrow> sorted_wrt R xs \<Longrightarrow> sorted_wrt R ys"
proof (induction ys arbitrary: xs)
  case Nil
  then show ?case by simp
next
  case (Cons y ys)
  then have "y \<in> set xs" by (metis list.set_intros(1) set_mset_mset)
  then obtain A B where xs: "xs = A @ y # B" by (auto simp: in_set_conv_decomp)
  then have "mset (A @ B) = mset ys" using Cons.prems(1) by simp
  moreover have "sorted_wrt R (A @ B)" and "\<forall>z\<in>set (A @ B). R y z"
    using Cons.prems(2) sym by (auto simp: xs sorted_wrt_append)
  ultimately show ?case using Cons.IH [of "A @ B"] mset_eq_setD [of "A @ B" ys] by simp
qed

lemma overlap_scan_sorted:
  assumes "n < 2 ^ 64"
  shows "sorted (map Offset bs) \<Longrightarrow> blocks_ok n bs \<Longrightarrow> overlap_scan bs = Inr ()"
proof (induction bs rule: overlap_scan.induct)
  case (1 current nxt rest)
  have c: "Size current \<noteq> 0" "Size nxt \<noteq> 0" "bend current < 2 ^ 64" "region current \<inter> region nxt = {}"
    using "1.prems"(2) assms by (auto simp: blocks_ok_def)
  have "unat (Offset current) \<le> unat (Offset nxt)"
    using "1.prems"(1) by (simp add: word_le_nat_alt)
  then have "bend current \<le> unat (Offset nxt)"
    using c region_nonempty [OF c(2)] by (auto simp: region_disjoint_iff)
  then have "\<not> Offset current + Size current > Offset nxt"
    using c(3) by (simp add: word_less_nat_alt unat_end)
  moreover have "overlap_scan (nxt # rest) = Inr ()"
    using "1.IH" calculation "1.prems" by (auto simp: blocks_ok_def)
  ultimately show ?case by simp
qed simp_all

lemma ValidateNoOverlaps_inv:
  assumes "alloc_inv a"
  shows "ValidateNoOverlaps a = Inr ()"
proof -
  have ok: "blocks_ok (unat (nextOffset a)) (blocks a)" using assms by (simp add: alloc_inv_def)
  have "mset (blocks a) = mset (Blocks a)" by (simp add: Blocks_def)
  from sorted_wrt_perm [OF _ this, of "\<lambda>b c. region b \<inter> region c = {}"] ok
  have "sorted_wrt (\<lambda>b c. region b \<inter> region c = {}) (Blocks a)"
    by (simp add: blocks_ok_def Int_commute)
  moreover have "set (Blocks a) = set (blocks a)" by (simp add: Blocks_def)
  ultimately have "blocks_ok (unat (nextOffset a)) (Blocks a)"
    using ok by (simp add: blocks_ok_def)
  moreover have "sorted (map Offset (Blocks a))" by (simp add: Blocks_def)
  moreover have "unat (nextOffset a) < 2 ^ 64" by simp
  ultimately show ?thesis
    unfolding ValidateNoOverlaps_def by (intro overlap_scan_sorted)
qed

section \<open>Runs of the allocator\<close>

text \<open>
  The states a client reaches that allocates (while the file stays below \<open>2 ^ 64\<close> bytes) and frees
  blocks it was given.
\<close>

inductive alloc_run :: "u64 \<Rightarrow> Allocator \<Rightarrow> bool" for init :: u64 where
  start: "alloc_run init (NewAllocator init)"
| allocate: "alloc_run init a \<Longrightarrow> unat (nextOffset a) + unat sz < 2 ^ 64 \<Longrightarrow>
     Allocate a sz = Inr (addr, a') \<Longrightarrow> alloc_run init a'"
| release: "alloc_run init a \<Longrightarrow> b \<in> set (blocks a) \<Longrightarrow>
     Free a (Offset b) (Size b) = Inr a' \<Longrightarrow> alloc_run init a'"

lemma interval_cut:
  "A \<union> {m..<n} = {i..<n} \<Longrightarrow> A \<subseteq> {0..<m} \<Longrightarrow> m \<le> n \<Longrightarrow> A = {i..<m::nat}"
  by (auto simp: set_eq_iff subset_iff)

lemma inv_below: "alloc_inv a \<Longrightarrow> used a \<union> unused a \<subseteq> {0..<unat (nextOffset a)}"
  using regions_below [of "blocks a" "unat (nextOffset a)"]
    regions_below [of "freeList a" "unat (nextOffset a)"]
  by (simp add: alloc_inv_def blocks_ok_def free_ok_def less_imp_le)

lemma alloc_run_inv:
  "alloc_run init a \<Longrightarrow>
   alloc_inv a \<and> unat init \<le> unat (nextOffset a) \<and>
   used a \<union> unused a = {unat init..<unat (nextOffset a)}"
proof (induction rule: alloc_run.induct)
  case start
  then show ?case
    by (simp add: NewAllocator_def alloc_inv_def free_ok_def blocks_ok_def)
next
  case (allocate a sz addr a')
  note e = Allocate_effect [OF _ allocate.hyps(3) allocate.hyps(2)]
  from allocate.IH e show ?case by auto
next
  case (release a b a')
  have inv: "alloc_inv a" and b: "b \<in> set (blocks a)" using release by auto
  have bl: "blocks_ok (unat (nextOffset a)) (blocks a)" using inv by (simp add: alloc_inv_def)
  note t = remove_block_tracked [OF bl b]
  have x: "\<lparr>Offset = Offset b, Size = Size b\<rparr> = b" by simp
  have pre: "bend b \<le> unat (nextOffset a)" "region b \<inter> unused a = {}"
    "region b \<inter> regions (remove_block (Offset b) (Size b) (blocks a)) = {}"
    using inv b bl t by (auto simp: alloc_inv_def blocks_ok_def regions_def)
  note e = Free_effect [OF inv release.hyps(3), unfolded x, OF pre]
  have "unat init \<le> unat (nextOffset a')"
  proof (rule ccontr)
    assume "\<not> unat init \<le> unat (nextOffset a')"
    then have "unat (nextOffset a') \<in> {unat (nextOffset a')..<unat (nextOffset a)}"
      using release.IH by auto
    with e(4) t release.IH have "unat (nextOffset a') \<in> {unat init..<unat (nextOffset a)}" by blast
    with \<open>\<not> unat init \<le> unat (nextOffset a')\<close> show False by simp
  qed
  moreover have "used a' \<union> unused a' = {unat init..<unat (nextOffset a')}"
  proof (rule interval_cut [OF _ _ e(3)])
    have "used a' \<union> (unused a' \<union> {unat (nextOffset a')..<unat (nextOffset a)}) = used a \<union> unused a"
      unfolding e(2) e(4) using t by (simp add: Un_ac)
    then show "used a' \<union> unused a' \<union> {unat (nextOffset a')..<unat (nextOffset a)} = {unat init..<unat (nextOffset a)}"
      using release.IH by (simp add: Un_assoc)
    show "used a' \<union> unused a' \<subseteq> {0..<unat (nextOffset a')}"
      using e(1) by (rule inv_below)
  qed
  ultimately show ?case using e(1) by blast
qed

section \<open>The free list is a canonical form\<close>

lemma free_ok_Cons:
  "free_ok n (f # fs) \<longleftrightarrow>
     Size f \<noteq> 0 \<and> bend f < n \<and> (\<forall>c\<in>set fs. bend f < unat (Offset c)) \<and> free_ok n fs"
  by (auto simp: free_ok_def)

lemma above_head: "free_ok n (f # fs) \<Longrightarrow> p \<in> regions fs \<Longrightarrow> bend f < p"
  by (auto simp: free_ok_Cons regions_def region_def)

lemma tail_regions:
  assumes "free_ok n (f # fs)"
  shows "regions fs = regions (f # fs) - region f"
proof -
  have "p \<notin> region f" if "p \<in> regions fs" for p
    using above_head [OF assms that] by (simp add: region_def)
  then show ?thesis by auto
qed

lemma head_end_le:
  assumes f: "free_ok n (f # fs)" and g: "free_ok n (g # gs)"
    and eq: "regions (f # fs) = regions (g # gs)" and off: "Offset f = Offset g"
  shows "bend g \<le> bend f"
proof (rule ccontr)
  assume "\<not> bend g \<le> bend f"
  then have "bend f \<in> region g"
    using f off by (auto simp: region_def free_ok_Cons bend_def)
  then have "bend f \<in> region f \<union> regions fs" using eq by auto
  then show False using above_head [OF f, of "bend f"] by (auto simp: region_def)
qed

lemma head_offset_le:
  assumes f: "free_ok n (f # fs)" and g: "free_ok n (g # gs)" and eq: "regions (f # fs) = regions (g # gs)"
  shows "unat (Offset f) \<le> unat (Offset g)"
proof -
  have "unat (Offset g) \<in> region f \<union> regions fs"
    using region_nonempty [of g] g eq by (auto simp: free_ok_Cons)
  then show ?thesis
    using above_head [OF f, of "unat (Offset g)"] by (auto simp: region_def bend_def)
qed

lemma free_list_canonical:
  "free_ok n fs \<Longrightarrow> free_ok n gs \<Longrightarrow> regions fs = regions gs \<Longrightarrow> fs = gs"
proof (induction fs arbitrary: gs)
  case Nil
  then show ?case using region_nonempty by (cases gs) (auto simp: free_ok_Cons)
next
  case (Cons f fs)
  then obtain g gs' where gs: "gs = g # gs'"
    using region_nonempty [of f] by (cases gs) (auto simp: free_ok_Cons)
  note g = Cons.prems(2,3) [unfolded gs]
  have off: "Offset f = Offset g"
    using head_offset_le [OF Cons.prems(1) g] head_offset_le [OF g(1) Cons.prems(1) g(2) [symmetric]]
    by (intro unat_eqD) simp
  have e: "bend f = bend g"
    using head_end_le [OF Cons.prems(1) g off] head_end_le [OF g(1) Cons.prems(1) g(2) [symmetric] off [symmetric]]
    by simp
  then have "unat (Size f) = unat (Size g)" using off by (simp add: bend_def)
  then have fg: "f = g" using off by (cases f, cases g) (auto intro: unat_eqD)
  have "regions fs = regions gs'"
    unfolding tail_regions [OF Cons.prems(1)] tail_regions [OF g(1)] using g(2) fg by simp
  with Cons.IH [of gs'] Cons.prems(1) g(1) show ?case by (simp add: gs fg free_ok_Cons)
qed

lemma shrink_noop:
  assumes "free_ok (unat (nextOffset a)) (freeList a)"
  shows "shrinkTrailingFreeBlocks a = a"
proof (cases "freeList a = []")
  case True
  then show ?thesis by (simp add: shrinkTrailingFreeBlocks.simps)
next
  case False
  let ?l = "last (freeList a)"
  have lt: "bend ?l < unat (nextOffset a)" using assms False by (simp add: free_ok_def)
  also have "\<dots> < 2 ^ 64" by simp
  finally have "Offset ?l + Size ?l \<noteq> nextOffset a" using lt by (simp add: end_eq_iff)
  then show ?thesis by (subst shrinkTrailingFreeBlocks.simps) simp
qed

lemma remove_last_block:
  assumes "regions bs \<inter> region b = {}" "Size b \<noteq> 0"
  shows "remove_block (Offset b) (Size b) (bs @ [b]) = bs"
  using assms
proof (induction bs)
  case (Cons c cs)
  have "\<not> (Offset c = Offset b \<and> Size c = Size b)"
    using Cons.prems region_nonempty [of b] by (auto simp: region_def bend_def)
  with Cons show ?case by auto
qed simp

section \<open>The contract of a space provider\<close>

text \<open>
  What the structures of the file format rely on when they ask for space: the extent they get
  overlaps nothing that is in use. \<open>allocate_all\<close> is a client that asks for several extents in a
  row, as the writers of groups, datasets and heaps do.
\<close>

definition extent :: "u64 \<Rightarrow> u64 \<Rightarrow> nat set" where
  "extent addr sz = {unat addr..<unat addr + unat sz}"

fun allocate_all :: "('s \<Rightarrow> u64 \<Rightarrow> (u64 \<times> 's) result) \<Rightarrow> 's \<Rightarrow> u64 list \<Rightarrow> ((u64 \<times> u64) list \<times> 's) result" where
  "allocate_all alloc s [] = Inr ([], s)"
| "allocate_all alloc s (sz # szs) =
     (case alloc s sz of
        Inl e \<Rightarrow> Inl e
      | Inr (addr, s') \<Rightarrow>
          (case allocate_all alloc s' szs of
             Inl e \<Rightarrow> Inl e
           | Inr (xs, s'') \<Rightarrow> Inr ((addr, sz) # xs, s'')))"

locale space_provider =
  fixes invar :: "'s \<Rightarrow> bool"
    and in_use :: "'s \<Rightarrow> nat set"
    and eof :: "'s \<Rightarrow> nat"
    and alloc :: "'s \<Rightarrow> u64 \<Rightarrow> (u64 \<times> 's) result"
  assumes alloc_total: "sz \<noteq> 0 \<Longrightarrow> \<exists>addr s'. alloc s sz = Inr (addr, s')"
    and alloc_law: "invar s \<Longrightarrow> eof s + unat sz < 2 ^ 64 \<Longrightarrow> alloc s sz = Inr (addr, s') \<Longrightarrow>
      invar s' \<and> extent addr sz \<inter> in_use s = {} \<and> in_use s' = in_use s \<union> extent addr sz \<and>
      eof s' \<le> eof s + unat sz"
begin

lemma allocate_all_total:
  "0 \<notin> set szs \<Longrightarrow> \<exists>xs s'. allocate_all alloc s szs = Inr (xs, s') \<and> map snd xs = szs"
proof (induction szs arbitrary: s)
  case (Cons sz szs)
  then obtain addr s' where a: "alloc s sz = Inr (addr, s')" using alloc_total by fastforce
  obtain xs s'' where "allocate_all alloc s' szs = Inr (xs, s'')" "map snd xs = szs"
    using Cons by fastforce
  with a show ?case by simp
qed simp

lemma allocate_all_disjoint:
  "invar s \<Longrightarrow> eof s + sum_list (map unat szs) < 2 ^ 64 \<Longrightarrow> allocate_all alloc s szs = Inr (xs, s') \<Longrightarrow>
   invar s' \<and> in_use s' = in_use s \<union> (\<Union>(addr, sz)\<in>set xs. extent addr sz) \<and>
   (\<forall>(addr, sz)\<in>set xs. extent addr sz \<inter> in_use s = {}) \<and>
   sorted_wrt (\<lambda>(p, m) (q, n). extent p m \<inter> extent q n = {}) xs"
proof (induction szs arbitrary: s xs)
  case Nil
  then show ?case by auto
next
  case (Cons sz szs)
  then obtain addr t ys where a: "alloc s sz = Inr (addr, t)"
    and rest: "allocate_all alloc t szs = Inr (ys, s')" and xs: "xs = (addr, sz) # ys"
    by (auto split: sum.splits prod.splits)
  have step: "invar t \<and> extent addr sz \<inter> in_use s = {} \<and> in_use t = in_use s \<union> extent addr sz \<and>
      eof t \<le> eof s + unat sz"
    using Cons.prems(2) by (intro alloc_law [OF Cons.prems(1) _ a]) simp
  then have "eof t + sum_list (map unat szs) < 2 ^ 64" using Cons.prems(2) by simp
  from Cons.IH [OF _ this rest] step show ?case by (fastforce simp: xs)
qed

end

interpretation hdf5_alloc: space_provider alloc_inv used "\<lambda>a. unat (nextOffset a)" Allocate
proof
  show "\<exists>addr s'. Allocate a sz = Inr (addr, s')" if "sz \<noteq> 0" for a sz
    using that by (auto simp: Allocate_def Let_def split: option.splits)
next
  fix a sz addr a'
  assume inv: "alloc_inv a" and room: "unat (nextOffset a) + unat sz < 2 ^ 64"
    and ok: "Allocate a sz = Inr (addr, a')"
  note e = Allocate_effect [OF inv ok room]
  have "region \<lparr>Offset = addr, Size = sz\<rparr> = extent addr sz"
    by (simp add: region_def bend_def extent_def)
  moreover have "unat (nextOffset a') \<le> unat (nextOffset a) + unat sz"
    using ok room by (cases rule: Allocate_cases) (simp_all add: unat_add_exact)
  ultimately show "alloc_inv a' \<and> extent addr sz \<inter> used a = {} \<and> used a' = used a \<union> extent addr sz \<and>
      unat (nextOffset a') \<le> unat (nextOffset a) + unat sz"
    using e by simp
qed

section \<open>Properties\<close>

text \<open>
  C1. In every state a client reaches by allocating and by freeing blocks it holds, the structural
  invariant holds (allocated and free blocks pairwise disjoint, the free list sorted, fully
  coalesced and clear of the end of the file), the blocks and the free list account for every byte
  between the initial offset and the end of the file, and \<^verbatim>\<open>ValidateNoOverlaps\<close> reports no overlap.
\<close>

theorem alloc_run_sound:
  assumes "alloc_run init a"
  shows "alloc_inv a \<and> used a \<union> unused a = {unat init..<unat (EndOfFile a)} \<and>
     ValidateNoOverlaps a = Inr ()"
  using alloc_run_inv [OF assms] ValidateNoOverlaps_inv [of a] by (simp add: EndOfFile_def)

definition demo_state :: Allocator where
  "demo_state = \<lparr>blocks = [\<lparr>Offset = 64, Size = 32\<rparr>], freeList = [\<lparr>Offset = 48, Size = 16\<rparr>], nextOffset = 96\<rparr>"

lemma demo_run: "alloc_run 48 demo_state"
proof -
  let ?a = "\<lparr>blocks = [\<lparr>Offset = 48, Size = 16\<rparr>], freeList = [], nextOffset = 64 :: u64\<rparr>"
  let ?b = "\<lparr>blocks = [\<lparr>Offset = 48, Size = 16\<rparr>, \<lparr>Offset = 64, Size = 32\<rparr>], freeList = [], nextOffset = 96 :: u64\<rparr>"
  have "alloc_run 48 ?a"
    by (rule alloc_run.allocate [OF alloc_run.start, of 48 16 48])
      (simp_all add: NewAllocator_def Allocate_def)
  then have "alloc_run 48 ?b"
    by (rule alloc_run.allocate [of _ _ 32 64]) (simp_all add: Allocate_def)
  then show ?thesis
    by (rule alloc_run.release [of _ _ "\<lparr>Offset = 48, Size = 16\<rparr>"])
      (simp_all add: demo_state_def Free_def addToFreeList_def Let_def coalesce_next_def
        coalesce_prev_def sort_search.simps)
qed

theorem alloc_run_sound_witness:
  "alloc_run 48 demo_state \<and> alloc_inv demo_state \<and> ValidateNoOverlaps demo_state = Inr ()"
  using demo_run alloc_run_sound [OF demo_run] by blast

text \<open>
  A client that asks a well-formed allocator for several blocks in a row, none of them empty and
  together small enough for the file to stay below \<open>2 ^ 64\<close> bytes, gets one block of each size;
  no block touches space that was in use before, and no two of them overlap.
\<close>

theorem Allocate_sequence_disjoint:
  assumes "alloc_inv a" "0 \<notin> set szs" "unat (nextOffset a) + sum_list (map unat szs) < 2 ^ 64"
  shows "\<exists>xs a'. allocate_all Allocate a szs = Inr (xs, a') \<and> map snd xs = szs \<and> alloc_inv a' \<and>
     (\<forall>(addr, sz)\<in>set xs. extent addr sz \<inter> used a = {}) \<and>
     sorted_wrt (\<lambda>(p, m) (q, n). extent p m \<inter> extent q n = {}) xs"
  using hdf5_alloc.allocate_all_total [OF assms(2), of a]
    hdf5_alloc.allocate_all_disjoint [OF assms(1,3)] by blast

theorem Allocate_sequence_disjoint_witness:
  "alloc_inv demo_state \<and> allocate_all Allocate demo_state [16, 8] = Inr ([(48, 16), (96, 8)],
     \<lparr>blocks = [\<lparr>Offset = 64, Size = 32\<rparr>, \<lparr>Offset = 48, Size = 16\<rparr>, \<lparr>Offset = 96, Size = 8\<rparr>],
      freeList = [], nextOffset = 104\<rparr>) \<and> extent 48 16 \<inter> extent 96 8 = {}"
proof -
  have inv: "alloc_inv demo_state" using alloc_run_inv [OF demo_run] by simp
  have run: "allocate_all Allocate demo_state [16, 8] = Inr ([(48, 16), (96, 8)],
     \<lparr>blocks = [\<lparr>Offset = 64, Size = 32\<rparr>, \<lparr>Offset = 48, Size = 16\<rparr>, \<lparr>Offset = 96, Size = 8\<rparr>],
      freeList = [], nextOffset = 104\<rparr>)"
    by (simp add: demo_state_def Allocate_def)
  from Allocate_sequence_disjoint [OF inv, of "[16, 8]"] run inv show ?thesis
    by (simp add: demo_state_def)
qed



text \<open>
  Freeing a region that lies below the end of the file and that no other block and no free block
  covers keeps the invariant and gives exactly that region back: the free list and the space cut off
  the end of the file together grow by the region, the other blocks are untouched.
\<close>

theorem Free_returns_region:
  assumes "alloc_inv a" "Free a off sz = Inr a'" "unat off + unat sz \<le> unat (nextOffset a)"
    "extent off sz \<inter> unused a = {}" "extent off sz \<inter> regions (remove_block off sz (blocks a)) = {}"
  shows "alloc_inv a' \<and> blocks a' = remove_block off sz (blocks a) \<and>
     unused a' \<union> {unat (nextOffset a')..<unat (nextOffset a)} = unused a \<union> extent off sz"
proof -
  have "extent off sz = region \<lparr>Offset = off, Size = sz\<rparr>"
    by (simp add: extent_def region_def bend_def)
  with Free_effect [OF assms(1,2)] assms(3-5) show ?thesis by (simp add: bend_def)
qed

theorem Free_returns_region_witness:
  "\<exists>a'. Free demo_state 64 32 = Inr a' \<and> alloc_inv a' \<and> blocks a' = [] \<and> nextOffset a' = 48"
proof -
  let ?a' = "\<lparr>blocks = [], freeList = [], nextOffset = 48\<rparr> :: Allocator"
  have run: "Free demo_state 64 32 = Inr ?a'"
    by (simp add: demo_state_def Free_def shrinkTrailingFreeBlocks.simps)
  have inv: "alloc_inv demo_state" using alloc_run_inv [OF demo_run] by simp
  from Free_returns_region [OF inv run] run show ?thesis
    by (auto simp: demo_state_def extent_def regions_def region_def bend_def)
qed

text \<open>
  C39. \<^verbatim>\<open>Free\<close> undoes \<^verbatim>\<open>Allocate\<close>: freeing the block just allocated restores the allocator
  exactly, whether it came from an exact fit, from a split free block (the two parts are coalesced
  again) or from the end of the file (which shrinks back).
\<close>

theorem Allocate_Free_inverse:
  assumes inv: "alloc_inv a" and ok: "Allocate a sz = Inr (addr, a')"
    and room: "unat (nextOffset a) + unat sz < 2 ^ 64"
  shows "Free a' addr sz = Inr a"
proof -
  let ?x = "\<lparr>Offset = addr, Size = sz\<rparr>"
  have free: "free_ok (unat (nextOffset a)) (freeList a)" using inv by (simp add: alloc_inv_def)
  note e = Allocate_effect [OF inv ok room]
  have sz: "sz \<noteq> 0" using ok by (auto simp: Allocate_def)
  have rest: "remove_block addr sz (blocks a @ [?x]) = blocks a"
    using remove_last_block [of "blocks a" ?x] e(2) sz by (simp add: Int_commute)
  from ok show ?thesis
  proof (cases rule: Allocate_cases)
    case (reuse i s)
    note fit = best_fit_best [OF reuse(2)]
    have le: "unat (nextOffset a) \<le> 2 ^ 64" using room by simp
    note c = carve_ok [OF free fit(1,3) sz le, folded reuse(3)]
    let ?b = "a\<lparr>freeList := carve sz i (freeList a)\<rparr>"
    have fb: "freeList a ! i \<in> set (freeList a)" using fit(1) by simp
    have "bend ?x \<le> bend (freeList a ! i)"
      using fit(3) by (simp add: bend_def reuse(3) word_le_nat_alt)
    also have "\<dots> < unat (nextOffset a)" using free fb by (simp add: free_ok_def)
    finally have lt: "bend ?x < unat (nextOffset a)" .
    have x: "region ?x \<inter> unused ?b = {}" using c(3) by simp
    have fok: "free_ok (unat (nextOffset a)) (freeList ?b)" using c(1) by simp
    note add = addToFreeList_ok [OF fok le sz lt x]
    have "unused (addToFreeList ?b addr sz) = unused a" using add(2) c(2) by auto
    then have fl: "freeList (addToFreeList ?b addr sz) = freeList a"
      by (rule free_list_canonical [OF add(1) free])
    have "bend ?x < 2 ^ 64" using lt le by simp
    from end_eq_iff [OF this] lt have ne: "addr + sz \<noteq> nextOffset a" by simp
    have "Free a' addr sz = Inr (addToFreeList ?b addr sz)"
      using sz ne rest by (simp add: Free_def reuse(4))
    also have "addToFreeList ?b addr sz = a" using fl by (simp add: addToFreeList_def Let_def)
    finally show ?thesis .
  next
    case extend
    then show ?thesis using sz rest shrink_noop [OF free] by (simp add: Free_def)
  qed
qed

theorem Allocate_Free_inverse_witness:
  "\<exists>addr a'. Allocate demo_state 8 = Inr (addr, a') \<and> Free a' addr 8 = Inr demo_state"
proof -
  obtain addr a' where ok: "Allocate demo_state 8 = Inr (addr, a')"
    using hdf5_alloc.alloc_total [of 8 demo_state] by auto
  have "alloc_inv demo_state" using alloc_run_inv [OF demo_run] by simp
  from Allocate_Free_inverse [OF this ok] ok show ?thesis by (auto simp: demo_state_def)
qed

text \<open>
  \<^verbatim>\<open>IsAllocated\<close> answers, for a range that does not wrap around, whether the range shares a byte
  with an allocated block.
\<close>

theorem IsAllocated_correct:
  assumes inv: "alloc_inv a" and fits: "unat off + unat sz < 2 ^ 64"
  shows "IsAllocated a off sz \<longleftrightarrow> extent off sz \<inter> used a \<noteq> {}"
proof (cases "sz = 0")
  case True
  then show ?thesis by (simp add: IsAllocated_def extent_def)
next
  case False
  have "off < Offset b + Size b \<and> Offset b < off + sz \<longleftrightarrow> extent off sz \<inter> region b \<noteq> {}"
    if b: "b \<in> set (blocks a)" for b
  proof -
    have nz: "Size b \<noteq> 0" and le: "bend b \<le> unat (nextOffset a)"
      using inv b by (auto simp: alloc_inv_def blocks_ok_def)
    have "bend b < 2 ^ 64" by (rule le_less_trans [OF le]) simp
    then have "off < Offset b + Size b \<and> Offset b < off + sz \<longleftrightarrow>
        unat off < bend b \<and> unat (Offset b) < unat off + unat sz"
      using fits by (simp add: word_less_nat_alt unat_end unat_add_exact)
    also have "\<dots> \<longleftrightarrow> extent off sz \<inter> region b \<noteq> {}"
      using region_disjoint_iff [of "\<lparr>Offset = off, Size = sz\<rparr>" b] nz False
      by (auto simp: extent_def region_def bend_def)
    finally show ?thesis .
  qed
  then show ?thesis using False by (auto simp: IsAllocated_def list_ex_iff regions_def)
qed

theorem IsAllocated_correct_witness:
  "alloc_inv demo_state \<and> IsAllocated demo_state 90 10 \<and> extent 90 10 \<inter> used demo_state \<noteq> {}"
proof -
  have inv: "alloc_inv demo_state" using alloc_run_inv [OF demo_run] by simp
  have "IsAllocated demo_state 90 10" by (simp add: IsAllocated_def demo_state_def)
  with IsAllocated_correct [OF inv, of 90 10] inv show ?thesis by simp
qed

definition double_free :: "Allocator result" where
  "double_free =
     (case Allocate (NewAllocator 48) 16 of Inl e \<Rightarrow> Inl e | Inr (p, a) \<Rightarrow>
      case Allocate a 16 of Inl e \<Rightarrow> Inl e | Inr (q, a) \<Rightarrow>
      case Free a p 16 of Inl e \<Rightarrow> Inl e | Inr a \<Rightarrow>
      case Free a p 16 of Inl e \<Rightarrow> Inl e | Inr a \<Rightarrow> Inr a)"

text \<open>
  \<^verbatim>\<open>Free\<close> does not check that the block is allocated. Freeing the same block twice puts it
  twice on the free list, the next two allocations of its size get the same address, and
  \<^verbatim>\<open>ValidateNoOverlaps\<close> then reports an overlap.
\<close>

theorem double_free_overlaps:
  "\<exists>a a1 a2 addr. double_free = Inr a \<and> Allocate a 16 = Inr (addr, a1) \<and> Allocate a1 16 = Inr (addr, a2) \<and>
     ValidateNoOverlaps a2 \<noteq> Inr ()"
  by (simp add: double_free_def NewAllocator_def Allocate_def Free_def addToFreeList_def Let_def
      coalesce_next_def coalesce_prev_def sort_search.simps ValidateNoOverlaps_def Blocks_def)

end
