(* ===== verification/Heap_Writer.thy ===== *)
theory Heap_Writer
  imports Global_Heap Allocator
begin

text \<open>
  The writer of global heap collections of \<^verbatim>\<open>global_heap_write.go\<close>: it keeps one collection open,
  asks the allocator for the space of a new one when a value does not fit, and writes a collection
  to the file when it is closed or flushed.
\<close>

text \<open>The writer with the parts of its file writer that it uses: the allocator and the file.\<close>

record HeapWriter =
  hw_alloc :: Allocator
  hw_file :: bytes
  hw_currentHeap :: "HeapBuilder option"
  hw_minCollectionSize :: u64

definition newGlobalHeapWriter :: "Allocator \<Rightarrow> bytes \<Rightarrow> HeapWriter" where
  "newGlobalHeapWriter a f =
     \<lparr>hw_alloc = a, hw_file = f, hw_currentHeap = None, hw_minCollectionSize = 4096\<rparr>"

definition createNewHeap :: "HeapWriter \<Rightarrow> u64 \<Rightarrow> HeapWriter result" where
  "createNewHeap ghw minObjectSize =
     (let headerSize = 16;
          neededSize = headerSize + minObjectSize + 16;
          collectionSize = (if neededSize > hw_minCollectionSize ghw then (neededSize + 4095) div 4096 * 4096
                            else hw_minCollectionSize ghw)
      in case Allocate (hw_alloc ghw) collectionSize of
           Inl e \<Rightarrow> Inl (Wrapf ''allocate heap space: %w'' e)
         | Inr (heapAddr, a) \<Rightarrow>
             Inr (ghw\<lparr>hw_alloc := a,
                      hw_currentHeap := Some \<lparr>hb_address = heapAddr, hb_size = collectionSize, hb_objects = [],
                        hb_nextIndex = 1, hb_usedSpace = headerSize, hb_freeSpace = collectionSize - headerSize\<rparr>\<rparr>))"

definition flushCurrentHeap :: "HeapWriter \<Rightarrow> HeapWriter result" where
  "flushCurrentHeap ghw =
     (case hw_currentHeap ghw of
        None \<Rightarrow> Inr ghw
      | Some h \<Rightarrow>
          case encodeHeapCollection h of
            Inl e \<Rightarrow> Inl e
          | Inr heapData \<Rightarrow>
              (case WriteAt (hw_file ghw) heapData (hb_address h) of
                 Inl e \<Rightarrow> Inl (Wrapf ''write heap to file: %w'' e)
               | Inr f \<Rightarrow> Inr (ghw\<lparr>hw_file := f\<rparr>)))"

definition WriteToGlobalHeap :: "HeapWriter \<Rightarrow> bytes \<Rightarrow> (HeapID \<times> HeapWriter) result" where
  "WriteToGlobalHeap ghw data =
     (let totalObjectSize = 16 + align8 (of_nat (length data));
          needsNewHeap = (case hw_currentHeap ghw of None \<Rightarrow> True | Some h \<Rightarrow> \<not> hasSpace h totalObjectSize)
      in case (if needsNewHeap
               then (case flushCurrentHeap ghw of
                       Inl e \<Rightarrow> Inl (wrap ''flush current heap: %w'' e)
                     | Inr ghw \<Rightarrow>
                         (case createNewHeap ghw totalObjectSize of
                            Inl e \<Rightarrow> Inl (wrap ''create new heap: %w'' e)
                          | Inr ghw \<Rightarrow> Inr ghw))
               else Inr ghw) of
           Inl e \<Rightarrow> Inl e
         | Inr ghw \<Rightarrow>
             (case hw_currentHeap ghw of
                None \<Rightarrow> Inl (Panicf ''nil pointer dereference'')
              | Some h \<Rightarrow>
                  let (objIndex, h') = addObject h data
                  in Inr (\<lparr>CollectionAddress = hb_address h', ObjectIndex = objIndex, SeqLen = 0\<rparr>,
                          ghw\<lparr>hw_currentHeap := Some h'\<rparr>)))"

definition heap_Flush :: "HeapWriter \<Rightarrow> HeapWriter result" where
  "heap_Flush ghw = flushCurrentHeap ghw"

lemma round_4096:
  fixes w :: u64
  assumes "unat w + 4095 < 2 ^ 63"
  shows "unat ((w + 4095) div 4096 * 4096) = (unat w + 4095) div 4096 * 4096"
proof -
  have a: "unat (w + 4095) = unat w + 4095" using assms by (subst unat_add_exact) simp_all
  have d: "unat ((w + 4095) div 4096) = (unat w + 4095) div 4096" by (simp add: unat_div a)
  have "(unat w + 4095) div 4096 * 4096 \<le> unat w + 4095" by (rule div_times_less_eq_dividend)
  then have "unat ((w + 4095) div 4096) * unat (4096 :: u64) < 2 ^ 64" using assms d by simp
  then show ?thesis by (simp only: unat_mult_exact d) simp
qed

lemma round_up_ge: "(n :: nat) \<le> (n + 4095) div 4096 * 4096"
proof -
  have "(n + 4095) mod 4096 < 4096" by simp
  then show ?thesis using div_mult_mod_eq [of "n + 4095" 4096] by linarith
qed

section \<open>Collections on disk\<close>

text \<open>\<open>on_disk f h\<close>: the bytes of the collection \<open>h\<close> stand in the file \<open>f\<close> at its address.\<close>

definition on_disk :: "bytes \<Rightarrow> HeapBuilder \<Rightarrow> bool" where
  "on_disk f h \<longleftrightarrow>
     (\<exists>buf. encodeHeapCollection h = Inr buf \<and> unat (hb_address h) + length buf \<le> length f
        \<and> take (length buf) (drop (unat (hb_address h)) f) = buf)"

abbreviation heap_extent :: "HeapBuilder \<Rightarrow> nat set" where
  "heap_extent h \<equiv> extent (hb_address h) (hb_size h)"

lemma overwrite_self:
  assumes "off + length p \<le> length f" "take (length p) (drop off f) = p"
  shows "overwrite f off p = f"
proof -
  have "take off f @ p @ drop (off + length p) f = f"
    using assms by (metis append_take_drop_id drop_drop add.commute)
  then show ?thesis using assms(1) by (simp add: overwrite_def)
qed

lemma on_disk_overwrite:
  "encodeHeapCollection h = Inr buf \<Longrightarrow> buf \<noteq> [] \<Longrightarrow> on_disk (overwrite f (unat (hb_address h)) buf) h"
  by (auto simp: on_disk_def overwrite_def)

lemma on_disk_frame:
  assumes "on_disk f h" "heap_inv h" "length buf = unat (hb_size g)" "heap_extent h \<inter> heap_extent g = {}"
    "0 < unat (hb_size g)"
  shows "on_disk (overwrite f (unat (hb_address g)) buf) h"
proof -
  obtain b where b: "encodeHeapCollection h = Inr b" "unat (hb_address h) + length b \<le> length f"
    "take (length b) (drop (unat (hb_address h)) f) = b"
    using assms(1) by (auto simp: on_disk_def)
  have lb: "length b = unat (hb_size h)" by (rule encodeHeapCollection_length [OF assms(2) b(1)])
  have pos: "0 < unat (hb_size h)" using heap_inv_D(2) [OF assms(2)] by simp
  have "unat (hb_address h) + length b \<le> unat (hb_address g) \<or> unat (hb_address g) + length buf \<le> unat (hb_address h)"
  proof (rule ccontr)
    assume "\<not> ?thesis"
    then have "max (unat (hb_address h)) (unat (hb_address g)) \<in> heap_extent h \<inter> heap_extent g"
      using lb pos assms(3,5) by (auto simp: extent_def)
    then show False using assms(4) by simp
  qed
  then have "take (length b) (drop (unat (hb_address h)) (overwrite f (unat (hb_address g)) buf)) = b"
    using b by (auto simp: take_drop_overwrite_before take_drop_overwrite_after)
  moreover have "length f \<le> length (overwrite f (unat (hb_address g)) buf)"
    using assms(3,5) by (cases "buf = []") simp_all
  ultimately show ?thesis using b unfolding on_disk_def by (meson le_trans)
qed

lemma on_disk_read:
  assumes "on_disk f h" "heap_inv h" "unat (hb_address h) < 2 ^ 63" "length (hb_objects h) + 2 \<le> fuel"
  shows "ReadGlobalHeapCollection fuel f (hb_address h) 8
       = Some (Inr \<lparr>gc_Address = hb_address h, gc_Size = hb_size h, gc_Objects = map read_object (hb_objects h)\<rparr>)"
proof -
  obtain b where b: "encodeHeapCollection h = Inr b" "overwrite f (unat (hb_address h)) b = f"
    using assms(1) overwrite_self by (auto simp: on_disk_def)
  show ?thesis using read_encoded_heap [OF assms(2-4) b(1), of f] b(2) by simp
qed

section \<open>The invariant of the writer\<close>

text \<open>
  \<open>closed\<close> are the collections the writer has already put on disk and moved on from. Every collection,
  closed or open, owns an extent of the allocator; they are pairwise disjoint.
\<close>

fun opened :: "HeapBuilder option \<Rightarrow> HeapBuilder list" where
  "opened None = []"
| "opened (Some h) = [h]"

definition placed :: "Allocator \<Rightarrow> HeapBuilder \<Rightarrow> bool" where
  "placed a h \<longleftrightarrow> heap_inv h \<and> unat (hb_address h) < 2 ^ 63 \<and> heap_extent h \<subseteq> used a"

definition writer_inv :: "HeapBuilder list \<Rightarrow> HeapWriter \<Rightarrow> bool" where
  "writer_inv closed w \<longleftrightarrow>
     alloc_inv (hw_alloc w) \<and> hw_minCollectionSize w = 4096 \<and>
     (\<forall>h\<in>set closed. placed (hw_alloc w) h \<and> on_disk (hw_file w) h) \<and>
     (\<forall>h\<in>set (opened (hw_currentHeap w)). placed (hw_alloc w) h \<and> hb_objects h \<noteq> [] \<and>
        (\<forall>g\<in>set closed. heap_extent g \<inter> heap_extent h = {}))"

definition holds :: "HeapBuilder \<Rightarrow> HeapID \<Rightarrow> bytes \<Rightarrow> bool" where
  "holds h hid data \<longleftrightarrow> CollectionAddress hid = hb_address h \<and>
     (\<exists>i < length (hb_objects h). unat (ObjectIndex hid) = i + 1 \<and> ho_data (hb_objects h ! i) = data)"

lemma heap_inv_512: "heap_inv h \<Longrightarrow> length (hb_objects h) \<le> 512"
  by (cases "hb_objects h = []") (auto simp: heap_inv_def)

lemma holds_read:
  assumes "holds h hid data" "heap_inv h" "unat (hb_address h) < 2 ^ 63" "on_disk f h"
  shows "\<exists>gc obj. ReadGlobalHeapCollection 514 f (CollectionAddress hid) 8 = Some (Inr gc)
     \<and> GetObject gc (ucast (ObjectIndex hid)) = Inr obj \<and> go_Data obj = data"
proof -
  obtain i where i: "CollectionAddress hid = hb_address h" "i < length (hb_objects h)"
    "unat (ObjectIndex hid) = i + 1" "ho_data (hb_objects h ! i) = data"
    using assms(1) by (auto simp: holds_def)
  have few: "length (hb_objects h) + 2 \<le> 514" using heap_inv_512 [OF assms(2)] by simp
  have "ucast (ObjectIndex hid) = (of_nat (i + 1) :: u32)"
    unfolding i(3) [symmetric] by simp
  then show ?thesis
    using on_disk_read [OF assms(4,2,3) few] i(1,4)
      GetObject_numbered [OF heap_inv_D(3) [OF assms(2)] i(2) heap_inv_few [OF assms(2)]]
    by (simp add: read_object_def del: of_nat_add)
qed

lemma flush_effect:
  assumes "writer_inv closed w"
  shows "\<exists>f. flushCurrentHeap w = Inr (w\<lparr>hw_file := f\<rparr>) \<and>
     (\<forall>h\<in>set (closed @ opened (hw_currentHeap w)). on_disk f h)"
proof (cases "hw_currentHeap w")
  case None
  then show ?thesis using assms by (auto simp: flushCurrentHeap_def writer_inv_def intro!: exI [of _ "hw_file w"])
next
  case (Some h)
  then have h: "placed (hw_alloc w) h" "\<forall>g\<in>set closed. heap_extent g \<inter> heap_extent h = {}"
    using assms by (simp_all add: writer_inv_def)
  then have inv: "heap_inv h" "unat (hb_address h) < 2 ^ 63" by (simp_all add: placed_def)
  obtain buf where buf: "encodeHeapCollection h = Inr buf" using encode_heap_bytes [OF inv(1)] by blast
  have len: "length buf = unat (hb_size h)" by (rule encodeHeapCollection_length [OF inv(1) buf])
  have pos: "0 < unat (hb_size h)" using heap_inv_D(2) [OF inv(1)] by simp
  let ?f = "overwrite (hw_file w) (unat (hb_address h)) buf"
  have "flushCurrentHeap w = Inr (w\<lparr>hw_file := ?f\<rparr>)"
    using Some buf inv(2) by (simp add: flushCurrentHeap_def WriteAt_def)
  moreover have "on_disk ?f g" if "g \<in> set closed" for g
    using that assms h(2) len pos by (intro on_disk_frame) (auto simp: writer_inv_def placed_def)
  moreover have "on_disk ?f h" using len pos by (intro on_disk_overwrite [OF buf]) auto
  ultimately show ?thesis using Some by auto
qed

lemma createNewHeap_effect:
  assumes inv: "alloc_inv (hw_alloc w)" "hw_minCollectionSize w = 4096" and len: "length data < 2 ^ 47"
    and room: "unat (nextOffset (hw_alloc w)) + length data + 8192 < 2 ^ 63"
  shows "\<exists>a h. createNewHeap w (16 + align8 (of_nat (length data))) = Inr (w\<lparr>hw_alloc := a, hw_currentHeap := Some h\<rparr>)
     \<and> alloc_inv a \<and> placed a h \<and> hb_objects h = [] \<and> hasSpace h (16 + align8 (of_nat (length data)))
     \<and> unat (hb_freeSpace h) \<le> 8192 + pad8 (length data) \<and> used (hw_alloc w) \<subseteq> used a
     \<and> heap_extent h \<inter> used (hw_alloc w) = {}
     \<and> unat (nextOffset a) \<le> unat (nextOffset (hw_alloc w)) + length data + 8192"
proof -
  let ?t = "16 + align8 (of_nat (length data)) :: u64" and ?p = "pad8 (length data)"
  define n where "n = 16 + ?t + 16"
  define c :: u64 where "c = (if n > 4096 then (n + 4095) div 4096 * 4096 else 4096)"
  have p: "?p \<le> length data + 7" by (rule pad8_facts)
  have t: "unat ?t = 16 + ?p" by (rule object_size [OF len])
  then have "unat (16 + ?t) = 32 + ?p" using p len by (subst unat_add_exact) simp_all
  then have nd: "unat n = 48 + ?p" unfolding n_def using p len by (subst unat_add_exact) simp_all
  have "unat n + 4095 < 2 ^ 63" using nd p len by simp
  from round_4096 [OF this] have rd: "unat ((n + 4095) div 4096 * 4096) = (48 + ?p + 4095) div 4096 * 4096"
    by (simp only: nd)
  have c: "unat c = (if 48 + ?p > 4096 then (48 + ?p + 4095) div 4096 * 4096 else 4096)"
    unfolding c_def using nd rd by (simp add: word_less_nat_alt)
  have "(48 + ?p + 4095) div 4096 * 4096 \<le> 48 + ?p + 4095" by (rule div_times_less_eq_dividend)
  moreover have "48 + ?p \<le> (48 + ?p + 4095) div 4096 * 4096" by (rule round_up_ge)
  ultimately have cb: "48 + ?p \<le> unat c" "unat c \<le> 4143 + ?p" using c by auto
  have c0: "c \<noteq> 0" using cb(1) by auto
  obtain addr a where al: "Allocate (hw_alloc w) c = Inr (addr, a)" using hdf5_alloc.alloc_total [OF c0] by blast
  have law: "alloc_inv a" "extent addr c \<inter> used (hw_alloc w) = {}" "used a = used (hw_alloc w) \<union> extent addr c"
    "unat (nextOffset a) \<le> unat (nextOffset (hw_alloc w)) + unat c"
    using hdf5_alloc.alloc_law [OF inv(1) _ al] room cb p by auto
  have sub: "extent addr c \<subseteq> {0..<unat (nextOffset a)}"
    using law(3) inv_below [OF law(1)] by blast
  have "unat addr \<in> extent addr c" using cb(1) by (simp add: extent_def)
  then have ad: "unat addr < 2 ^ 63" using sub law(4) room cb p by fastforce
  define h where "h = \<lparr>hb_address = addr, hb_size = c, hb_objects = [], hb_nextIndex = 1, hb_usedSpace = 16, hb_freeSpace = c - 16\<rparr>"
  have fr: "unat (c - 16) = unat c - 16" using cb(1) by (subst unat_sub) (simp_all add: word_le_nat_alt)
  have hi: "heap_inv h" using cb p len fr by (simp add: heap_inv_def h_def space_def)
  have "createNewHeap w ?t = Inr (w\<lparr>hw_alloc := a, hw_currentHeap := Some h\<rparr>)"
    unfolding createNewHeap_def Let_def inv(2) n_def [symmetric] c_def [symmetric] using al by (simp add: h_def)
  moreover have "placed a h" using hi ad law(3) by (simp add: placed_def h_def)
  moreover have "hasSpace h ?t" "unat (hb_freeSpace h) \<le> 8192 + ?p"
    using fr cb t by (simp_all add: hasSpace_def h_def word_le_nat_alt)
  ultimately show ?thesis
    using law cb p by (intro exI [of _ a] exI [of _ h]) (auto simp: h_def)
qed

lemma placed_mono: "placed a h \<Longrightarrow> used a \<subseteq> used b \<Longrightarrow> placed b h"
  by (auto simp: placed_def)

lemma holds_append:
  assumes "holds h hid x" "hb_address h' = hb_address h" "hb_objects h' = hb_objects h @ ys"
  shows "holds h' hid x"
  using assms by (auto simp: holds_def nth_append)

lemma room_step:
  assumes "writer_inv closed w" "length data < 2 ^ 47"
    "unat (nextOffset (hw_alloc w)) + length data + 8192 < 2 ^ 63"
  shows "\<exists>hid w' closed'. WriteToGlobalHeap w data = Inr (hid, w') \<and> writer_inv closed' w'
     \<and> (\<exists>h\<in>set (closed' @ opened (hw_currentHeap w')). holds h hid data)
     \<and> (\<forall>h\<in>set (closed @ opened (hw_currentHeap w)). \<exists>h'\<in>set (closed' @ opened (hw_currentHeap w')).
          \<forall>hid x. holds h hid x \<longrightarrow> holds h' hid x)
     \<and> unat (nextOffset (hw_alloc w')) \<le> unat (nextOffset (hw_alloc w)) + length data + 8192"
proof (cases "\<exists>h. hw_currentHeap w = Some h \<and> hasSpace h (16 + align8 (of_nat (length data)))")
  case True
  then obtain h where h: "hw_currentHeap w = Some h" "hasSpace h (16 + align8 (of_nat (length data)))" by blast
  obtain i h' where add: "addObject h data = (i, h')" by fastforce
  have hp: "placed (hw_alloc w) h" "hb_objects h \<noteq> []" "\<forall>g\<in>set closed. heap_extent g \<inter> heap_extent h = {}"
    using assms(1) h(1) by (simp_all add: writer_inv_def)
  note e = addObject_inv [OF _ h(2) assms(2) _ add]
  have e: "heap_inv h'" "hb_address h' = hb_address h" "hb_size h' = hb_size h"
    "hb_objects h' = hb_objects h @ [\<lparr>ho_index = i, ho_refCount = 0, ho_data = data\<rparr>]" "unat i = length (hb_objects h) + 1"
    using e hp(1,2) by (auto simp: placed_def)
  let ?w = "w\<lparr>hw_currentHeap := Some h'\<rparr>" and ?id = "\<lparr>CollectionAddress = hb_address h', ObjectIndex = i, SeqLen = 0\<rparr>"
  have "WriteToGlobalHeap w data = Inr (?id, ?w)" using h add by (simp add: WriteToGlobalHeap_def)
  moreover have "writer_inv closed ?w" using assms(1) hp e by (simp add: writer_inv_def placed_def)
  moreover have "holds h' ?id data" using e by (simp add: holds_def)
  moreover have "\<forall>hid x. holds h hid x \<longrightarrow> holds h' hid x" using holds_append [OF _ e(2,4)] by blast
  ultimately show ?thesis using h(1) by (intro exI [of _ ?id] exI [of _ ?w] exI [of _ closed]) auto
next
  case False
  obtain f where f: "flushCurrentHeap w = Inr (w\<lparr>hw_file := f\<rparr>)"
    "\<forall>h\<in>set (closed @ opened (hw_currentHeap w)). on_disk f h"
    using flush_effect [OF assms(1)] by blast
  let ?w1 = "w\<lparr>hw_file := f\<rparr>" and ?closed = "closed @ opened (hw_currentHeap w)"
  have "alloc_inv (hw_alloc ?w1)" "hw_minCollectionSize ?w1 = 4096" using assms(1) by (simp_all add: writer_inv_def)
  from createNewHeap_effect [OF this assms(2)] assms(3) obtain a h where
    h: "createNewHeap ?w1 (16 + align8 (of_nat (length data))) = Inr (?w1\<lparr>hw_alloc := a, hw_currentHeap := Some h\<rparr>)"
    "alloc_inv a" "placed a h" "hb_objects h = []" "hasSpace h (16 + align8 (of_nat (length data)))"
    "unat (hb_freeSpace h) \<le> 8192 + pad8 (length data)" "used (hw_alloc w) \<subseteq> used a"
    "heap_extent h \<inter> used (hw_alloc w) = {}" "unat (nextOffset a) \<le> unat (nextOffset (hw_alloc w)) + length data + 8192"
    by auto
  obtain i h' where add: "addObject h data = (i, h')" by fastforce
  have hi: "heap_inv h" using h(3) by (simp add: placed_def)
  note e = addObject_inv [OF hi h(5) assms(2) h(6) add]
  let ?w = "?w1\<lparr>hw_alloc := a, hw_currentHeap := Some h'\<rparr>"
  let ?id = "\<lparr>CollectionAddress = hb_address h', ObjectIndex = i, SeqLen = 0\<rparr>"
  have "WriteToGlobalHeap w data = Inr (?id, ?w)"
    using False f(1) h(1) add by (cases "hw_currentHeap w") (simp_all add: WriteToGlobalHeap_def Let_def)
  moreover have old: "placed (hw_alloc w) g" if "g \<in> set ?closed" for g using that assms(1) by (auto simp: writer_inv_def)
  then have "heap_extent g \<inter> heap_extent h' = {}" if "g \<in> set ?closed" for g
    using that h(8) e(2,3) unfolding placed_def by auto
  then have "writer_inv ?closed ?w"
    using assms(1) h(2,3) e f(2) placed_mono [OF old h(7)] by (auto simp: writer_inv_def placed_def)
  moreover have "holds h' ?id data" using e(4,5) h(4) by (simp add: holds_def)
  ultimately show ?thesis using h(9) by (intro exI [of _ ?id] exI [of _ ?w] exI [of _ ?closed]) auto
qed

text \<open>A client that stores a list of values, one after another, as the variable-length datasets do.\<close>

fun write_values :: "HeapWriter \<Rightarrow> bytes list \<Rightarrow> (HeapID list \<times> HeapWriter) result" where
  "write_values w [] = Inr ([], w)"
| "write_values w (d # ds) =
     (case WriteToGlobalHeap w d of
        Inl e \<Rightarrow> Inl e
      | Inr (hid, w) \<Rightarrow>
          (case write_values w ds of Inl e \<Rightarrow> Inl e | Inr (hids, w) \<Rightarrow> Inr (hid # hids, w)))"

lemma write_values_effect:
  assumes "writer_inv closed w" "\<forall>d\<in>set ds. length d < 2 ^ 47"
    "unat (nextOffset (hw_alloc w)) + sum_list (map (\<lambda>d. length d + 8192) ds) < 2 ^ 63"
  shows "\<exists>hids w' closed'. write_values w ds = Inr (hids, w') \<and> writer_inv closed' w' \<and> length hids = length ds
     \<and> (\<forall>i < length ds. \<exists>h\<in>set (closed' @ opened (hw_currentHeap w')). holds h (hids ! i) (ds ! i))
     \<and> (\<forall>h\<in>set (closed @ opened (hw_currentHeap w)). \<exists>h'\<in>set (closed' @ opened (hw_currentHeap w')).
          \<forall>hid x. holds h hid x \<longrightarrow> holds h' hid x)"
  using assms
proof (induction ds arbitrary: w closed)
  case Nil
  then show ?case by auto
next
  case (Cons d ds)
  obtain hid w1 c1 where 1: "WriteToGlobalHeap w d = Inr (hid, w1)" "writer_inv c1 w1"
    "\<exists>h\<in>set (c1 @ opened (hw_currentHeap w1)). holds h hid d"
    "\<forall>h\<in>set (closed @ opened (hw_currentHeap w)). \<exists>h'\<in>set (c1 @ opened (hw_currentHeap w1)).
          \<forall>hid x. holds h hid x \<longrightarrow> holds h' hid x"
    "unat (nextOffset (hw_alloc w1)) \<le> unat (nextOffset (hw_alloc w)) + length d + 8192"
    using room_step [OF Cons.prems(1), of d] Cons.prems(2,3) by auto
  obtain hids w2 c2 where 2: "write_values w1 ds = Inr (hids, w2)" "writer_inv c2 w2" "length hids = length ds"
    "\<forall>i < length ds. \<exists>h\<in>set (c2 @ opened (hw_currentHeap w2)). holds h (hids ! i) (ds ! i)"
    "\<forall>h\<in>set (c1 @ opened (hw_currentHeap w1)). \<exists>h'\<in>set (c2 @ opened (hw_currentHeap w2)).
          \<forall>hid x. holds h hid x \<longrightarrow> holds h' hid x"
    using Cons.IH [OF 1(2)] Cons.prems(2,3) 1(5) by auto
  have "\<exists>h\<in>set (c2 @ opened (hw_currentHeap w2)). holds h hid d" using 1(3) 2(5) by blast
  then have "\<forall>i < length (d # ds). \<exists>h\<in>set (c2 @ opened (hw_currentHeap w2)). holds h ((hid # hids) ! i) ((d # ds) ! i)"
    using 2(4) by (auto simp: nth_Cons split: nat.split)
  moreover have "\<forall>h\<in>set (closed @ opened (hw_currentHeap w)). \<exists>h'\<in>set (c2 @ opened (hw_currentHeap w2)).
          \<forall>hid x. holds h hid x \<longrightarrow> holds h' hid x" using 1(4) 2(5) by meson
  ultimately show ?case
    using 1(1) 2(1-3) by (intro exI [of _ "hid # hids"] exI [of _ w2] exI [of _ c2]) simp
qed

text \<open>
  C7. Values of any lengths are stored one after another through a new global heap writer over a
  well-formed allocator, opening as many collections as they need, and the writer is flushed. No
  step fails, and every value is then read back from the file through the heap id that was returned
  for it, whatever else was written in between: the collection is read to its end and the object
  under the id's index has the value's bytes.
\<close>
theorem stored_values_read_back:
  assumes "alloc_inv a" "\<forall>d\<in>set ds. length d < 2 ^ 47"
    "unat (nextOffset a) + sum_list (map (\<lambda>d. length d + 8192) ds) < 2 ^ 63"
  shows "\<exists>hids w w'. write_values (newGlobalHeapWriter a f) ds = Inr (hids, w) \<and> heap_Flush w = Inr w'
     \<and> length hids = length ds
     \<and> (\<forall>i < length ds. \<exists>gc obj. ReadGlobalHeapCollection 514 (hw_file w') (CollectionAddress (hids ! i)) 8 = Some (Inr gc)
          \<and> GetObject gc (ucast (ObjectIndex (hids ! i))) = Inr obj \<and> go_Data obj = ds ! i)"
proof -
  have "writer_inv [] (newGlobalHeapWriter a f)" using assms(1) by (simp add: writer_inv_def newGlobalHeapWriter_def)
  from write_values_effect [OF this assms(2)] assms(3) obtain hids w closed where
    w: "write_values (newGlobalHeapWriter a f) ds = Inr (hids, w)" "writer_inv closed w" "length hids = length ds"
      "\<forall>i < length ds. \<exists>h\<in>set (closed @ opened (hw_currentHeap w)). holds h (hids ! i) (ds ! i)"
    by (auto simp: newGlobalHeapWriter_def)
  obtain g where g: "flushCurrentHeap w = Inr (w\<lparr>hw_file := g\<rparr>)"
    "\<forall>h\<in>set (closed @ opened (hw_currentHeap w)). on_disk g h" using flush_effect [OF w(2)] by blast
  have "\<exists>gc obj. ReadGlobalHeapCollection 514 g (CollectionAddress (hids ! i)) 8 = Some (Inr gc)
          \<and> GetObject gc (ucast (ObjectIndex (hids ! i))) = Inr obj \<and> go_Data obj = ds ! i" if i: "i < length ds" for i
  proof -
    obtain h where h: "h \<in> set (closed @ opened (hw_currentHeap w))" "holds h (hids ! i) (ds ! i)" using w(4) i by blast
    then have "placed (hw_alloc w) h" "on_disk g h" using w(2) g(2) by (auto simp: writer_inv_def)
    then show ?thesis using holds_read [OF h(2)] by (simp add: placed_def)
  qed
  then show ?thesis using w(1,3) g(1) by (simp add: heap_Flush_def)
qed

theorem stored_values_read_back_witness:
  "\<exists>hids w w'. write_values (newGlobalHeapWriter (NewAllocator 48) []) [[1, 2, 3], []] = Inr (hids, w)
     \<and> heap_Flush w = Inr w' \<and> length hids = 2"
  using stored_values_read_back [of "NewAllocator 48" "[[1, 2, 3], []]" "[]"]
  by (fastforce simp: NewAllocator_def alloc_inv_def free_ok_def blocks_ok_def)

end
