(* ===== verification/Local_Heap.thy ===== *)
theory Local_Heap
  imports Layout
begin

text \<open>
  The local heap of \<^verbatim>\<open>internal/structures/localheap.go\<close>, which stores the link names of symbol-table
  groups as zero-terminated strings: loading and string lookup, building a heap, writing it, and
  reopening a loaded heap for further strings. Offsets handed out by \<^verbatim>\<open>AddString\<close> are stored in symbol
  table entries, so they have to stay valid through all of this.
\<close>

section \<open>Data and operations\<close>

text \<open>\<^verbatim>\<open>Data\<close> is nil in a heap that was created and not loaded.\<close>

record LocalHeap =
  lh_Data :: "bytes option"
  lh_FreeList :: u64
  lh_HeaderSize :: u64
  lh_DataSegmentSize :: u64
  lh_OffsetToHeadFreeList :: u64
  lh_DataSegmentAddress :: u64
  lh_strings :: bytes

definition sized_field :: "byte_order \<Rightarrow> nat \<Rightarrow> bytes \<Rightarrow> nat \<Rightarrow> u64" where
  "sized_field e sz buf pos = (if sz = 2 \<or> sz = 4 \<or> sz = 8 then order_get e (take sz (drop pos buf)) else 0)"

definition LoadLocalHeap :: "bytes \<Rightarrow> u64 \<Rightarrow> Superblock \<Rightarrow> LocalHeap result" where
  "LoadLocalHeap f address sb =
     (let lsz = unat (LengthSize sb);
          osz = unat (OffsetSize sb);
          headerSize = 8 + lsz * 2 + osz
      in case ReadAt f headerSize address of
           Inl e \<Rightarrow> Inl (Wrapf ''local heap header read failed'' e)
         | Inr headerBuf \<Rightarrow>
             if take 4 headerBuf \<noteq> [0x48, 0x45, 0x41, 0x50] then Inl (Errorf ''invalid local heap signature'')
             else let dataSegmentSize = sized_field (Endianness sb) lsz headerBuf 8;
                      dataSegmentAddr = sized_field (Endianness sb) osz headerBuf (8 + lsz + lsz)
                  in if unat dataSegmentSize \<ge> max_alloc then Inl makeslice_panic
                     else case ReadAt f (unat dataSegmentSize) dataSegmentAddr of
                            Inl e \<Rightarrow> Inl (Wrapf ''local heap data read failed'' e)
                          | Inr data \<Rightarrow>
                              Inr \<lparr>lh_Data = Some data, lh_FreeList = 0, lh_HeaderSize = of_nat headerSize,
                                   lh_DataSegmentSize = 0, lh_OffsetToHeadFreeList = 0, lh_DataSegmentAddress = 0,
                                   lh_strings = []\<rparr>)"

text \<open>\<open>data_of\<close> is the slice \<^verbatim>\<open>h.Data\<close>; nil has length 0.\<close>

definition data_of :: "LocalHeap \<Rightarrow> bytes" where
  "data_of h = (case lh_Data h of None \<Rightarrow> [] | Some d \<Rightarrow> d)"

function zero_from :: "bytes \<Rightarrow> nat \<Rightarrow> nat" where
  "zero_from data i = (if i < length data \<and> data ! i \<noteq> 0 then zero_from data (i + 1) else i)"
  by auto
termination by (relation "measure (\<lambda>(data, i). length data - i)") auto

declare zero_from.simps [simp del]

definition GetString :: "LocalHeap \<Rightarrow> u64 \<Rightarrow> bytes result" where
  "GetString h offset =
     (let data = data_of h
      in if unat offset \<ge> length data then Inl (Errorf ''offset beyond heap data'')
         else let end' = zero_from data (unat offset)
              in if end' \<ge> length data then Inl (Errorf ''string not null-terminated'')
                 else Inr (take (end' - unat offset) (drop (unat offset) data)))"

definition NewLocalHeap :: "u64 \<Rightarrow> LocalHeap result" where
  "NewLocalHeap initialSize =
     (let initialSize = (if initialSize < 16 then 16 else initialSize);
          initialSize = (if initialSize mod 8 \<noteq> 0 then (initialSize div 8 + 1) * 8 else initialSize)
      in if unat initialSize \<ge> max_alloc then Inl makeslice_panic
         else Inr \<lparr>lh_Data = None, lh_FreeList = 0, lh_HeaderSize = 0, lh_DataSegmentSize = initialSize,
                   lh_OffsetToHeadFreeList = 1, lh_DataSegmentAddress = 0, lh_strings = [0]\<rparr>)"

definition AddString :: "LocalHeap \<Rightarrow> bytes \<Rightarrow> (u64 \<times> LocalHeap) result" where
  "AddString h s =
     (let currentSize = of_nat (length (lh_strings h)) :: u64
      in if currentSize + of_nat (length s + 1) > lh_DataSegmentSize h then Inl (Errorf ''local heap is full'')
         else Inr (currentSize, h\<lparr>lh_strings := lh_strings h @ s @ [0]\<rparr>))"

definition heap_header :: "LocalHeap \<Rightarrow> bytes" where
  "heap_header h =
     [0x48, 0x45, 0x41, 0x50, 0, 0, 0, 0] @ le_put 8 (lh_DataSegmentSize h) @ le_put 8 (lh_OffsetToHeadFreeList h)
     @ le_put 8 (lh_DataSegmentAddress h)"

definition pad_strings :: "LocalHeap \<Rightarrow> LocalHeap result" where
  "pad_strings h =
     (let len = of_nat (length (lh_strings h)) :: u64
      in if len < lh_DataSegmentSize h
         then if unat (lh_DataSegmentSize h - len) \<ge> max_alloc then Inl makeslice_panic
              else Inr (h\<lparr>lh_strings := lh_strings h @ zeros (unat (lh_DataSegmentSize h - len))\<rparr>)
         else Inr h)"

definition heap_WriteTo :: "LocalHeap \<Rightarrow> bytes \<Rightarrow> u64 \<Rightarrow> (bytes \<times> LocalHeap) result" where
  "heap_WriteTo h f address =
     (case pad_strings (h\<lparr>lh_DataSegmentAddress := address + 32\<rparr>) of
        Inl e \<Rightarrow> Inl e
      | Inr h \<Rightarrow>
          (case WriteAt f (heap_header h) address of
             Inl e \<Rightarrow> Inl (Wrapf ''failed to write local heap header'' e)
           | Inr f \<Rightarrow>
               (case WriteAt f (lh_strings h) (lh_DataSegmentAddress h) of
                  Inl e \<Rightarrow> Inl (Wrapf ''failed to write local heap data'' e)
                | Inr f \<Rightarrow> Inr (f, h))))"

definition heap_Size :: "LocalHeap \<Rightarrow> u64" where
  "heap_Size h = 32 + lh_DataSegmentSize h"

definition CopyStringsFrom :: "LocalHeap \<Rightarrow> LocalHeap \<Rightarrow> LocalHeap result" where
  "CopyStringsFrom h src =
     (if of_nat (length (lh_strings src)) > lh_DataSegmentSize h
      then Inl (Errorf ''source strings exceed new heap capacity'')
      else Inr (h\<lparr>lh_strings := lh_strings src\<rparr>))"

text \<open>The backward scan for the last non-zero byte and, inside it, the forward scan for a terminator.\<close>

fun terminator_from :: "bytes \<Rightarrow> nat \<Rightarrow> nat \<Rightarrow> nat \<Rightarrow> nat" where
  "terminator_from data j 0 used = used"
| "terminator_from data j (Suc n) used = (if data ! j = 0 then j + 1 else terminator_from data (j + 1) n used)"

fun used_size :: "bytes \<Rightarrow> nat \<Rightarrow> nat" where
  "used_size data 0 = 1"
| "used_size data (Suc i) =
     (if data ! i \<noteq> 0 then terminator_from data (i + 1) (length data - (i + 1)) (i + 1) else used_size data i)"

definition PrepareForModification :: "LocalHeap \<Rightarrow> LocalHeap result" where
  "PrepareForModification h =
     (case lh_Data h of
        None \<Rightarrow> Inl (Errorf ''heap has no data to prepare'')
      | Some data \<Rightarrow>
          let usedSize = used_size data (length data)
          in if usedSize > length data then Inl slice_panic
             else Inr (h\<lparr>lh_strings := take usedSize data,
                         lh_DataSegmentSize := if lh_DataSegmentSize h = 0 then of_nat (length data)
                                               else lh_DataSegmentSize h\<rparr>))"

section \<open>Where strings stand\<close>

text \<open>\<open>at buf off s\<close>: the string \<open>s\<close> with its terminator stands in the buffer at the offset.\<close>

definition at :: "bytes \<Rightarrow> nat \<Rightarrow> bytes \<Rightarrow> bool" where
  "at buf off s \<longleftrightarrow> off + length s < length buf \<and> take (length s + 1) (drop off buf) = s @ [0]"

lemma at_append: "at buf off s \<Longrightarrow> at (buf @ z) off s"
  by (auto simp: at_def)

lemma at_new: "at (buf @ s @ [0]) (length buf) s"
  by (simp add: at_def)

lemma at_nth:
  assumes "at buf off s"
  shows "j < length s \<Longrightarrow> buf ! (off + j) = s ! j" "buf ! (off + length s) = 0"
proof -
  have e: "take (length s + 1) (drop off buf) = s @ [0]" and l: "off + length s < length buf"
    using assms by (auto simp: at_def)
  have "(take (length s + 1) (drop off buf)) ! j = buf ! (off + j)" if "j \<le> length s" for j
    using that l by simp
  then show "j < length s \<Longrightarrow> buf ! (off + j) = s ! j" "buf ! (off + length s) = 0"
    unfolding e by (metis less_imp_le nth_append, metis nth_append_length order_refl)
qed

lemma zero_from_at:
  assumes "at buf off s" "0 \<notin> set s" "k \<le> length s"
  shows "zero_from buf (off + k) = off + length s"
  using assms(3)
proof (induction "length s - k" arbitrary: k)
  case 0
  then have "k = length s" by simp
  then show ?case using at_nth(2) [OF assms(1)] by (subst zero_from.simps) simp
next
  case (Suc n)
  then have k: "k < length s" by simp
  then have "s ! k \<noteq> 0" using assms(2) by (metis nth_mem)
  then have "buf ! (off + k) \<noteq> 0" using at_nth(1) [OF assms(1) k] by simp
  moreover have "off + k < length buf" using k assms(1) by (simp add: at_def)
  moreover have "zero_from buf (off + Suc k) = off + length s" using Suc k by (intro Suc.hyps(1)) simp_all
  ultimately show ?case by (subst zero_from.simps) simp
qed

lemma GetString_at:
  assumes "at (data_of h) (unat off) s" "0 \<notin> set s"
  shows "GetString h off = Inr s"
proof -
  have l: "unat off + length s < length (data_of h)" and t: "take (length s + 1) (drop (unat off) (data_of h)) = s @ [0]"
    using assms(1) by (auto simp: at_def)
  have "take (length s) (drop (unat off) (data_of h)) = s"
    using arg_cong [OF t, of "take (length s)"] by simp
  then show ?thesis
    using l zero_from_at [OF assms, of 0] by (simp add: GetString_def Let_def)
qed

section \<open>Building, writing, reopening\<close>

definition heap_ok :: "LocalHeap \<Rightarrow> bool" where
  "heap_ok h \<longleftrightarrow> length (lh_strings h) \<le> unat (lh_DataSegmentSize h) \<and> unat (lh_DataSegmentSize h) < max_alloc
     \<and> at (lh_strings h) 0 []"

lemma NewLocalHeap_ok: "NewLocalHeap n = Inr h \<Longrightarrow> unat (lh_DataSegmentSize h) \<noteq> 0 \<Longrightarrow> heap_ok h"
  by (auto simp: NewLocalHeap_def Let_def heap_ok_def at_def split: if_splits)

lemma AddString_effect:
  assumes "heap_ok h" "AddString h s = Inr (off, h')" "length s < 2 ^ 62"
  shows "heap_ok h'" "unat off = length (lh_strings h)" "h' = h\<lparr>lh_strings := lh_strings h @ s @ [0]\<rparr>"
proof -
  let ?n = "length (lh_strings h)" and ?d = "lh_DataSegmentSize h"
  have n: "?n \<le> unat ?d" "unat ?d < 2 ^ 48" "at (lh_strings h) 0 []" using assms(1) by (simp_all add: heap_ok_def)
  have o: "off = of_nat ?n" and h': "h' = h\<lparr>lh_strings := lh_strings h @ s @ [0]\<rparr>"
    and le: "(of_nat ?n :: u64) + of_nat (length s + 1) \<le> ?d"
    using assms(2) by (auto simp: AddString_def Let_def not_less split: if_splits)
  show "unat off = ?n" unfolding o using n by (intro unat_of_nat_less) simp
  have "(of_nat ?n :: u64) + of_nat (length s + 1) = of_nat (?n + (length s + 1))" by simp
  moreover have "unat (of_nat (?n + (length s + 1)) :: u64) = ?n + (length s + 1)"
    using n assms(3) by (intro unat_of_nat_less) simp
  ultimately have "?n + (length s + 1) \<le> unat ?d" using le unfolding word_le_nat_alt by metis
  then show "heap_ok h'" using n unfolding h' heap_ok_def by (simp add: at_append)
  show "h' = h\<lparr>lh_strings := lh_strings h @ s @ [0]\<rparr>" by (rule h')
qed

lemma AddString_keeps:
  assumes "heap_ok h" "AddString h s = Inr (off, h')" "length s < 2 ^ 62"
  shows "at (lh_strings h') (unat off) s" "at (lh_strings h) o' t \<Longrightarrow> at (lh_strings h') o' t"
  using AddString_effect [OF assms] at_new at_append by simp_all

abbreviation default_sizes :: "Superblock \<Rightarrow> bool" where
  "default_sizes sb \<equiv> OffsetSize sb = 8 \<and> LengthSize sb = 8 \<and> Endianness sb = LittleEndian"

lemma write_load:
  assumes ok: "heap_ok h" and addr: "unat address + 32 + unat (lh_DataSegmentSize h) < 2 ^ 63" and sb: "default_sizes sb"
  shows "\<exists>f' h' heap. heap_WriteTo h f address = Inr (f', h') \<and> LoadLocalHeap f' address sb = Inr heap
     \<and> lh_Data heap = Some (lh_strings h @ zeros (unat (lh_DataSegmentSize h) - length (lh_strings h)))
     \<and> lh_DataSegmentSize heap = 0"
proof -
  let ?d = "lh_DataSegmentSize h" and ?n = "length (lh_strings h)"
  define data where "data = lh_strings h @ zeros (unat ?d - ?n)"
  define h' where "h' = h\<lparr>lh_DataSegmentAddress := address + 32, lh_strings := data\<rparr>"
  have n: "?n \<le> unat ?d" "unat ?d < 2 ^ 48" "0 < ?n" using ok by (auto simp: heap_ok_def at_def)
  have un: "unat (of_nat ?n :: u64) = ?n" using n by (intro unat_of_nat_less) simp
  have a32: "unat (address + 32) = unat address + 32"
    using addr by (simp add: unat_plus_simple [THEN iffD1] word_le_nat_alt unat_add_lem [THEN iffD1])
  have pad: "pad_strings (h\<lparr>lh_DataSegmentAddress := address + 32\<rparr>) = Inr h'"
  proof (cases "(of_nat ?n :: u64) < ?d")
    case True
    then have "unat (?d - of_nat ?n) = unat ?d - ?n" by (simp add: unat_sub un)
    then show ?thesis using True n(2) by (simp add: h'_def data_def pad_strings_def Let_def)
  next
    case False
    then have "?n = unat ?d" using n un by (simp add: word_less_nat_alt)
    then show ?thesis using False by (simp add: h'_def data_def pad_strings_def)
  qed
  let ?f1 = "overwrite f (unat address) (heap_header h')"
  let ?f2 = "overwrite ?f1 (unat (address + 32)) data"
  have hl: "length (heap_header h') = 32" by (simp add: heap_header_def del: le_put_numeral)
  have dl: "length data = unat ?d" using n by (simp add: data_def)
  have w: "heap_WriteTo h f address = Inr (?f2, h')"
    unfolding heap_WriteTo_def pad using addr a32 by (simp add: WriteAt_def h'_def)
  have "length ?f1 \<ge> unat address + 32" using hl by (subst length_overwrite) auto
  then have "take 32 (drop (unat address) ?f2) = take 32 (drop (unat address) ?f1)"
    using a32 by (intro take_drop_overwrite_before) auto
  then have hd: "take 32 (drop (unat address) ?f2) = heap_header h'"
    using take_drop_overwrite [of "heap_header h'" "unat address" f] hl by simp
  have "length ?f2 \<ge> unat address + 32" using hl dl n a32 by (subst length_overwrite) auto
  then have r1: "ReadAt ?f2 32 address = Inr (heap_header h')" using hd addr by (simp add: ReadAt_def)
  have r2: "ReadAt ?f2 (unat ?d) (address + 32) = Inr data"
    using ReadAt_overwrite [of "address + 32" ?f1 data] dl a32 addr by simp
  have "take 4 (heap_header h') = [0x48, 0x45, 0x41, 0x50]" "take 8 (drop 8 (heap_header h')) = le_put 8 ?d"
    "take 8 (drop 24 (heap_header h')) = le_put 8 (address + 32)"
    by (simp_all add: heap_header_def h'_def del: le_put_numeral)
  then have "LoadLocalHeap ?f2 address sb = Inr \<lparr>lh_Data = Some data, lh_FreeList = 0, lh_HeaderSize = 32,
      lh_DataSegmentSize = 0, lh_OffsetToHeadFreeList = 0, lh_DataSegmentAddress = 0, lh_strings = []\<rparr>"
    using r1 r2 sb n(2) by (simp add: LoadLocalHeap_def Let_def sized_field_def del: le_put_numeral)
  then show ?thesis using w by (auto simp: data_def)
qed

lemma terminator_from_ge: "used \<le> terminator_from data j n used \<or> j < terminator_from data j n used"
  by (induction n arbitrary: j) (auto, fastforce)

lemma terminator_from_le: "terminator_from data j n used \<le> max used (j + n)"
proof (induction n arbitrary: j)
  case (Suc n)
  then show ?case using Suc [of "j + 1"] by auto
qed simp

lemma used_size_le: "i \<le> length data \<Longrightarrow> data \<noteq> [] \<Longrightarrow> used_size data i \<le> length data"
proof (induction i)
  case (Suc i)
  then show ?case using terminator_from_le [of data "i + 1" "length data - (i + 1)" "i + 1"] by auto
qed (simp add: Suc_leI)

lemma used_size_pos: "i \<le> length data \<Longrightarrow> 0 < used_size data i"
proof (induction i)
  case (Suc i)
  then show ?case using terminator_from_ge [of "i + 1" data "i + 1" "length data - (i + 1)"] by auto
qed simp

lemma used_size_string:
  assumes "i \<le> length data" "p < i" "p + 1 < length data" "data ! p \<noteq> 0" "data ! (p + 1) = 0"
  shows "p + 2 \<le> used_size data i"
  using assms
proof (induction i)
  case (Suc i)
  show ?case
  proof (cases "p = i")
    case True
    then obtain n where "length data - (i + 1) = Suc n" using Suc.prems(3) by (metis Suc_diff_Suc)
    then show ?thesis using True Suc.prems by simp
  next
    case False
    then show ?thesis
      using Suc terminator_from_ge [of "i + 1" data "i + 1" "length data - (i + 1)"] by auto
  qed
qed simp

lemma PrepareForModification_effect:
  assumes "lh_Data heap = Some data" "lh_DataSegmentSize heap = 0" "at data 0 []" "length data < max_alloc"
  shows "\<exists>h. PrepareForModification heap = Inr h \<and> heap_ok h \<and>
     (\<forall>off s. at data off s \<longrightarrow> s \<noteq> [] \<longrightarrow> 0 \<notin> set s \<longrightarrow> at (lh_strings h) off s)"
proof -
  let ?u = "used_size data (length data)"
  have ne: "data \<noteq> []" using assms(3) by (auto simp: at_def)
  have le: "?u \<le> length data" "0 < ?u" using used_size_le [OF _ ne] used_size_pos by auto
  have un: "unat (of_nat (length data) :: u64) = length data" using assms(4) by (intro unat_of_nat_less) simp
  define h where "h = heap\<lparr>lh_strings := take ?u data, lh_DataSegmentSize := of_nat (length data)\<rparr>"
  have "PrepareForModification heap = Inr h"
    using assms(1,2) le by (simp add: PrepareForModification_def h_def)
  moreover have "at (take ?u data) 0 []"
    using assms(3) le by (cases data; cases ?u) (auto simp: at_def)
  then have "heap_ok h" using un assms(4) by (simp add: heap_ok_def h_def)
  moreover have "at (take ?u data) off s" if s: "at data off s" "s \<noteq> []" "0 \<notin> set s" for off s
  proof -
    obtain n where n: "length s = Suc n" using s(2) by (cases s) auto
    have l: "off + length s < length data" using s(1) by (simp add: at_def)
    have "data ! (off + n) = s ! n" using s n by (intro at_nth(1)) simp_all
    then have "data ! (off + n) \<noteq> 0" using s(3) n by (metis lessI nth_mem)
    moreover have "data ! (off + n + 1) = 0" using at_nth(2) [OF s(1)] n by simp
    ultimately have "off + n + 2 \<le> ?u" using l n by (intro used_size_string) auto
    then have "off + length s < ?u" using n by simp
    then show ?thesis using s(1) le by (auto simp: at_def drop_take min_def)
  qed
  ultimately show ?thesis by (auto simp: h_def)
qed

lemma GetString_D:
  assumes "GetString h off = Inr s"
  shows "at (data_of h) (unat off) s" "0 \<notin> set s"
proof -
  let ?d = "data_of h" and ?o = "unat off"
  have scan: "zero_from ?d i \<ge> i \<and> (\<forall>k. i \<le> k \<longrightarrow> k < zero_from ?d i \<longrightarrow> ?d ! k \<noteq> 0)
      \<and> (zero_from ?d i < length ?d \<longrightarrow> ?d ! zero_from ?d i = 0)" for i
  proof (induction "?d" i rule: zero_from.induct)
    case (1 i)
    show ?case
    proof (cases "i < length ?d \<and> ?d ! i \<noteq> 0")
      case True
      then have z: "zero_from ?d i = zero_from ?d (i + 1)" by (subst zero_from.simps) simp
      have "?d ! k \<noteq> 0" if "i \<le> k" "k < zero_from ?d (i + 1)" for k
        using that 1 [OF True] True by (cases "k = i") auto
      then show ?thesis using 1 [OF True] unfolding z by auto
    next
      case False
      then have "zero_from ?d i = i" by (subst zero_from.simps) auto
      then show ?thesis using False by auto
    qed
  qed
  let ?e = "zero_from ?d ?o"
  have lt: "?e < length ?d" and s: "s = take (?e - ?o) (drop ?o ?d)"
    using assms by (auto simp: GetString_def Let_def split: if_splits)
  have le: "?o \<le> ?e" using scan by blast
  then have len: "length s = ?e - ?o" using lt s by simp
  have "take (length s + 1) (drop ?o ?d) = s @ [?d ! ?e]"
    using le lt s len by (simp add: take_Suc_conv_app_nth)
  then show "at ?d ?o s" using scan [of ?o] lt le len by (simp add: at_def)
  show "0 \<notin> set s" using scan [of ?o] lt le s by (auto simp: in_set_conv_nth)
qed

text \<open>A client that adds several strings.\<close>

fun add_strings :: "LocalHeap \<Rightarrow> bytes list \<Rightarrow> (u64 list \<times> LocalHeap) result" where
  "add_strings h [] = Inr ([], h)"
| "add_strings h (s # ss) =
     (case AddString h s of
        Inl e \<Rightarrow> Inl e
      | Inr (off, h) \<Rightarrow>
          (case add_strings h ss of Inl e \<Rightarrow> Inl e | Inr (offs, h) \<Rightarrow> Inr (off # offs, h)))"

definition link_name :: "bytes \<Rightarrow> bool" where
  "link_name s \<longleftrightarrow> 0 \<notin> set s \<and> length s < 2 ^ 62"

lemma add_strings_effect:
  assumes "heap_ok h" "add_strings h ss = Inr (offs, h')" "list_all link_name ss"
  shows "heap_ok h' \<and> length offs = length ss \<and> lh_DataSegmentSize h' = lh_DataSegmentSize h
     \<and> (\<forall>i < length ss. at (lh_strings h') (unat (offs ! i)) (ss ! i))
     \<and> (\<forall>off s. at (lh_strings h) off s \<longrightarrow> at (lh_strings h') off s)"
  using assms
proof (induction ss arbitrary: h offs)
  case Nil
  then show ?case by simp
next
  case (Cons s ss)
  then obtain off h1 offs1 where 1: "AddString h s = Inr (off, h1)" "add_strings h1 ss = Inr (offs1, h')"
    "offs = off # offs1"
    by (auto split: sum.splits)
  have s: "length s < 2 ^ 62" using Cons.prems(3) by (simp add: link_name_def)
  note e = AddString_effect [OF Cons.prems(1) 1(1) s] AddString_keeps [OF Cons.prems(1) 1(1) s]
  have ih: "heap_ok h' \<and> length offs1 = length ss \<and> lh_DataSegmentSize h' = lh_DataSegmentSize h1
     \<and> (\<forall>i < length ss. at (lh_strings h') (unat (offs1 ! i)) (ss ! i))
     \<and> (\<forall>off s. at (lh_strings h1) off s \<longrightarrow> at (lh_strings h') off s)"
    using Cons.IH [OF e(1) 1(2)] Cons.prems(3) by simp
  then show ?case using e(3,4,5) 1(3) by (auto simp: nth_Cons split: nat.split)
qed

lemma write_load_strings:
  assumes "heap_ok h" "unat address + 32 + unat (lh_DataSegmentSize h) < 2 ^ 63" "default_sizes sb"
  shows "\<exists>f' h' heap. heap_WriteTo h f address = Inr (f', h') \<and> LoadLocalHeap f' address sb = Inr heap
     \<and> (\<forall>off s. at (lh_strings h) (unat off) s \<longrightarrow> 0 \<notin> set s \<longrightarrow> GetString heap off = Inr s)"
proof -
  obtain f' h' heap where w: "heap_WriteTo h f address = Inr (f', h')" "LoadLocalHeap f' address sb = Inr heap"
    "lh_Data heap = Some (lh_strings h @ zeros (unat (lh_DataSegmentSize h) - length (lh_strings h)))"
    using write_load [OF assms] by blast
  have "GetString heap off = Inr s" if "at (lh_strings h) (unat off) s" "0 \<notin> set s" for off s
    using that w(3) by (intro GetString_at) (simp_all add: data_of_def at_append)
  then show ?thesis using w by blast
qed

text \<open>
  C34. Names added to a new local heap are read back: the heap is written at any address below \<open>2 ^ 63\<close>
  and loaded again, the offset \<^verbatim>\<open>AddString\<close> returned for each name gives that name, and offset 0 the
  empty name of the root group.
\<close>
theorem local_heap_roundtrip:
  assumes "NewLocalHeap n = Inr h0" "lh_DataSegmentSize h0 \<noteq> 0" "add_strings h0 ss = Inr (offs, h)"
    "list_all link_name ss" "unat address + 32 + unat (lh_DataSegmentSize h0) < 2 ^ 63" "default_sizes sb"
  shows "\<exists>f' h' heap. heap_WriteTo h f address = Inr (f', h') \<and> LoadLocalHeap f' address sb = Inr heap
     \<and> GetString heap 0 = Inr [] \<and> (\<forall>i < length ss. GetString heap (offs ! i) = Inr (ss ! i))"
proof -
  have "unat (lh_DataSegmentSize h0) \<noteq> 0" using assms(2) by (metis unat_eq_zero)
  then have ok: "heap_ok h0" by (rule NewLocalHeap_ok [OF assms(1)])
  note e = add_strings_effect [OF ok assms(3,4)]
  then have "at (lh_strings h) 0 []" by (simp add: heap_ok_def)
  moreover have "0 \<notin> set (ss ! i)" if "i < length ss" for i
    using that assms(4) by (auto simp: list_all_length link_name_def)
  ultimately show ?thesis using e write_load_strings [of h address sb f] assms(5,6) by fastforce
qed

theorem local_heap_roundtrip_witness:
  "\<exists>h0 offs h f' h' heap. NewLocalHeap 20 = Inr h0 \<and> add_strings h0 [[97, 98], [99]] = Inr (offs, h)
     \<and> heap_WriteTo h [] 64 = Inr (f', h') \<and> LoadLocalHeap f' 64 demo_superblock = Inr heap
     \<and> GetString heap 0 = Inr []"
proof -
  let ?h0 = "\<lparr>lh_Data = None, lh_FreeList = 0, lh_HeaderSize = 0, lh_DataSegmentSize = 24,
                   lh_OffsetToHeadFreeList = 1, lh_DataSegmentAddress = 0, lh_strings = [0]\<rparr>"
  have 1: "NewLocalHeap 20 = Inr ?h0" by (simp add: NewLocalHeap_def Let_def)
  have 2: "add_strings ?h0 [[97, 98], [99]] = Inr ([1, 4], ?h0\<lparr>lh_strings := [0, 97, 98, 0, 99, 0]\<rparr>)" by code_simp
  show ?thesis
    using local_heap_roundtrip [OF 1 _ 2, of 64 demo_superblock "[]"] 1 2
    by (fastforce simp: link_name_def demo_superblock_def)
qed

text \<open>
  C35. A loaded heap that is reopened for modification keeps its names: after any further names are
  added and the heap is written back, every non-empty name that could be read before is read from
  the same offset, and every new name from its own offset.
\<close>
theorem local_heap_reopen:
  assumes "LoadLocalHeap f address sb = Inr heap" "GetString heap 0 = Inr []"
    "unat address + 32 + length (data_of heap) < 2 ^ 63" "default_sizes sb"
  shows "\<exists>h. PrepareForModification heap = Inr h \<and>
     (\<forall>ts offs h'. add_strings h ts = Inr (offs, h') \<longrightarrow> list_all link_name ts \<longrightarrow>
        (\<exists>f' h'' heap'. heap_WriteTo h' f address = Inr (f', h'') \<and> LoadLocalHeap f' address sb = Inr heap'
           \<and> (\<forall>off s. s \<noteq> [] \<longrightarrow> GetString heap off = Inr s \<longrightarrow> GetString heap' off = Inr s)
           \<and> (\<forall>i < length ts. GetString heap' (offs ! i) = Inr (ts ! i))))"
proof -
  obtain data where d: "lh_Data heap = Some data" "lh_DataSegmentSize heap = 0" "length data < max_alloc"
    using assms(1) by (auto simp: LoadLocalHeap_def Let_def ReadAt_def split: sum.splits if_splits)
  have dd: "data_of heap = data" by (simp add: data_of_def d)
  have "at data 0 []" using GetString_D(1) [OF assms(2)] dd by simp
  from PrepareForModification_effect [OF d(1,2) this d(3)] obtain h where
    h: "PrepareForModification heap = Inr h" "heap_ok h"
      "\<forall>off s. at data off s \<longrightarrow> s \<noteq> [] \<longrightarrow> 0 \<notin> set s \<longrightarrow> at (lh_strings h) off s"
    by blast
  have sz: "lh_DataSegmentSize h = of_nat (length data)"
    using h(1) d(1,2) by (auto simp: PrepareForModification_def Let_def split: if_splits)
  have un: "unat (of_nat (length data) :: u64) = length data" using d(3) by (intro unat_of_nat_less) simp
  have "\<exists>f' h'' heap'. heap_WriteTo h' f address = Inr (f', h'') \<and> LoadLocalHeap f' address sb = Inr heap'
           \<and> (\<forall>off s. s \<noteq> [] \<longrightarrow> GetString heap off = Inr s \<longrightarrow> GetString heap' off = Inr s)
           \<and> (\<forall>i < length ts. GetString heap' (offs ! i) = Inr (ts ! i))"
    if t: "add_strings h ts = Inr (offs, h')" "list_all link_name ts" for ts offs h'
  proof -
    note e = add_strings_effect [OF h(2) t]
    have n: "0 \<notin> set (ts ! i)" if "i < length ts" for i
      using that t(2) by (auto simp: list_all_length link_name_def)
    have old: "at (lh_strings h') (unat off) s" if "s \<noteq> []" "GetString heap off = Inr s" for off s
      using e h(3) GetString_D [OF that(2)] that(1) dd by simp
    obtain f' h'' heap' where "heap_WriteTo h' f address = Inr (f', h'')" "LoadLocalHeap f' address sb = Inr heap'"
      "\<forall>off s. at (lh_strings h') (unat off) s \<longrightarrow> 0 \<notin> set s \<longrightarrow> GetString heap' off = Inr s"
      using write_load_strings [of h' address sb f] e assms(3,4) sz un dd by auto
    then show ?thesis using e n old GetString_D(2) by (intro exI conjI) auto
  qed
  then show ?thesis using h(1) by blast
qed

theorem local_heap_reopen_witness:
  "\<exists>f heap h. LoadLocalHeap f 64 demo_superblock = Inr heap \<and> GetString heap 1 = Inr [97, 98]
     \<and> PrepareForModification heap = Inr h"
proof -
  let ?h = "\<lparr>lh_Data = None, lh_FreeList = 0, lh_HeaderSize = 0, lh_DataSegmentSize = 24,
                   lh_OffsetToHeadFreeList = 1, lh_DataSegmentAddress = 0, lh_strings = [0, 97, 98, 0]\<rparr>"
  have "heap_ok ?h" "default_sizes demo_superblock" by (simp_all add: heap_ok_def at_def demo_superblock_def)
  then obtain f heap where l: "LoadLocalHeap f 64 demo_superblock = Inr heap" "lh_Data heap = Some ([0, 97, 98, 0] @ zeros 20)"
    using write_load [of ?h 64 demo_superblock "[]"] by auto
  have d: "data_of heap = [0, 97, 98, 0] @ zeros 20" using l(2) by (simp add: data_of_def)
  have g: "GetString heap 0 = Inr []" "GetString heap 1 = Inr [97, 98]" using d by (auto intro!: GetString_at simp: at_def)
  show ?thesis
    using local_heap_reopen [OF l(1) g(1)] l(1) g(2) d by (fastforce simp: demo_superblock_def)
qed

end
