(* ===== verification/Symbol_Table.thy ===== *)
theory Symbol_Table
  imports Layout
begin

text \<open>
  Symbol table nodes of old-style groups: \<^verbatim>\<open>internal/structures/symboltable.go\<close> (the header and the
  reader of single entries) and \<^verbatim>\<open>symboltable_node.go\<close> (the node reader, building a node, the node
  writer). Two readers of the same bytes are compared, and the node writer with the node reader.
\<close>

section \<open>Data\<close>

record SymbolTable =
  st_Version :: byte
  st_EntryCount :: u16
  st_BTreeAddress :: u64
  st_HeapAddress :: u64

record SymbolTableEntry =
  LinkNameOffset :: u64
  ObjectAddress :: u64
  CacheType :: u32
  Reserved :: u32
  CachedBTreeAddr :: u64
  CachedHeapAddr :: u64
  CachedSoftLinkOffset :: u32

text \<open>\<^verbatim>\<open>cap(stn.Entries)\<close> is part of the state: it is the capacity \<^verbatim>\<open>AddEntry\<close> enforces.\<close>

record SymbolTableNode =
  stn_Version :: byte
  stn_NumSymbols :: u16
  stn_Entries :: "SymbolTableEntry list"
  stn_cap :: nat

definition snod :: bytes where
  "snod = [0x53, 0x4E, 0x4F, 0x44]"

section \<open>The entry reader\<close>

definition ParseSymbolTable :: "bytes \<Rightarrow> u64 \<Rightarrow> Superblock \<Rightarrow> SymbolTable result" where
  "ParseSymbolTable f offset sb =
     (case ReadAt f 24 offset of
        Inl e \<Rightarrow> Inl (Wrapf ''symbol table read failed'' e)
      | Inr buf \<Rightarrow>
          if take 4 buf \<noteq> snod then Inl (Errorf ''invalid symbol table signature'')
          else if buf ! 4 \<noteq> 1 then Inl (Errorf ''unsupported symbol table version: %d'')
          else Inr \<lparr>st_Version = buf ! 4, st_EntryCount = order_get (Endianness sb) (take 2 (drop 6 buf)),
                    st_BTreeAddress = order_get (Endianness sb) (take 8 (drop 8 buf)),
                    st_HeapAddress = order_get (Endianness sb) (take 8 (drop 16 buf))\<rparr>)"

definition IsSoftLink :: "SymbolTableEntry \<Rightarrow> bool" where
  "IsSoftLink e \<longleftrightarrow> CacheType e = 2"

definition parse_entry :: "byte_order \<Rightarrow> bytes \<Rightarrow> SymbolTableEntry" where
  "parse_entry e buf =
     (let cacheType = order_get e (take 4 (drop 16 buf));
          entry = \<lparr>LinkNameOffset = order_get e (take 8 buf), ObjectAddress = order_get e (take 8 (drop 8 buf)),
                   CacheType = cacheType, Reserved = order_get e (take 4 (drop 20 buf)),
                   CachedBTreeAddr = 0, CachedHeapAddr = 0, CachedSoftLinkOffset = 0\<rparr>
      in if cacheType = 1
         then entry\<lparr>CachedBTreeAddr := order_get e (take 8 (drop 24 buf)),
                    CachedHeapAddr := order_get e (take 8 (drop 32 buf))\<rparr>
         else if cacheType = 2 then entry\<lparr>CachedSoftLinkOffset := order_get e (take 4 (drop 24 buf))\<rparr>
         else entry)"

definition ParseSymbolTableEntry :: "bytes \<Rightarrow> u64 \<Rightarrow> Superblock \<Rightarrow> SymbolTableEntry result" where
  "ParseSymbolTableEntry f offset sb =
     (case ReadAt f 40 offset of
        Inl e \<Rightarrow> Inl (Wrapf ''symbol table entry read failed'' e)
      | Inr buf \<Rightarrow> Inr (parse_entry (Endianness sb) buf))"

fun read_entries :: "nat \<Rightarrow> bytes \<Rightarrow> u64 \<Rightarrow> Superblock \<Rightarrow> SymbolTableEntry list result" where
  "read_entries 0 f offset sb = Inr []"
| "read_entries (Suc n) f offset sb =
     (case ParseSymbolTableEntry f offset sb of
        Inl e \<Rightarrow> Inl e
      | Inr entry \<Rightarrow>
          (case read_entries n f (offset + 40) sb of Inl e \<Rightarrow> Inl e | Inr es \<Rightarrow> Inr (entry # es)))"

definition ReadSymbolTableEntries :: "bytes \<Rightarrow> u64 \<Rightarrow> SymbolTable \<Rightarrow> Superblock \<Rightarrow> SymbolTableEntry list result" where
  "ReadSymbolTableEntries f tableAddress table sb =
     (if st_EntryCount table = 0 then Inr []
      else read_entries (unat (st_EntryCount table)) f (tableAddress + 8) sb)"

section \<open>The node reader\<close>

text \<open>
  \<^verbatim>\<open>readAddressFromBytes\<close> on the rest of the buffer; widths that are not 1, 2, 4 or 8 go through a
  zero-padded buffer of eight bytes.
\<close>

definition readAddressFromBytes :: "bytes \<Rightarrow> nat \<Rightarrow> byte_order \<Rightarrow> u64" where
  "readAddressFromBytes data sz e =
     (let sz = (if sz > length data then length data else sz)
      in if sz = 1 then ucast (data ! 0)
         else if sz = 2 \<or> sz = 4 \<or> sz = 8 then order_get e (take sz data)
         else order_get e (take 8 (take sz data) @ zeros (8 - sz)))"

definition node_entry :: "byte_order \<Rightarrow> nat \<Rightarrow> bytes \<Rightarrow> nat \<Rightarrow> SymbolTableEntry result" where
  "node_entry e osz data offset =
     (let cacheType = order_get e (take 4 (drop (offset + 2 * osz) data));
          scratch = offset + 2 * osz + 8;
          entry = \<lparr>LinkNameOffset = readAddressFromBytes (drop offset data) osz e,
                   ObjectAddress = readAddressFromBytes (drop (offset + osz) data) osz e,
                   CacheType = cacheType, Reserved = order_get e (take 4 (drop (offset + 2 * osz + 4) data)),
                   CachedBTreeAddr = 0, CachedHeapAddr = 0, CachedSoftLinkOffset = 0\<rparr>
      in if cacheType = 1
         then if scratch + osz > length data then Inl slice_panic
              else Inr (entry\<lparr>CachedBTreeAddr := readAddressFromBytes (drop scratch data) osz e,
                              CachedHeapAddr := readAddressFromBytes (drop (scratch + osz) data) osz e\<rparr>)
         else Inr entry)"

fun node_entries :: "byte_order \<Rightarrow> nat \<Rightarrow> bytes \<Rightarrow> nat \<Rightarrow> nat \<Rightarrow> SymbolTableEntry list result" where
  "node_entries e osz data offset 0 = Inr []"
| "node_entries e osz data offset (Suc n) =
     (if offset + (2 * osz + 24) > length data then Inl (Errorf ''SNOD data truncated at entry %d'')
      else case node_entry e osz data offset of
             Inl err \<Rightarrow> Inl err
           | Inr entry \<Rightarrow>
               (case node_entries e osz data (offset + (2 * osz + 24)) n of
                  Inl err \<Rightarrow> Inl err
                | Inr es \<Rightarrow> Inr (entry # es)))"

definition ParseSymbolTableNode :: "bytes \<Rightarrow> u64 \<Rightarrow> Superblock \<Rightarrow> SymbolTableNode result" where
  "ParseSymbolTableNode f address sb =
     (case ReadAt f 8 address of
        Inl e \<Rightarrow> Inl (Wrapf ''SNOD header read failed'' e)
      | Inr header \<Rightarrow>
          if take 4 header \<noteq> snod then Inl (Errorf ''invalid SNOD signature: %q'')
          else if header ! 4 \<noteq> 1 then Inl (Errorf ''unsupported SNOD version: %d'')
          else let numSymbols = order_get (Endianness sb) (take 2 (drop 6 header)) :: u16;
                   capacity = (if numSymbols > 8 then unat numSymbols else 8);
                   node = \<lparr>stn_Version = header ! 4, stn_NumSymbols = numSymbols, stn_Entries = [], stn_cap = capacity\<rparr>;
                   osz = unat (OffsetSize sb);
                   dataSize = unat numSymbols * (2 * osz + 24)
               in if numSymbols = 0 then Inr node
                  else case ReadAt f dataSize (address + 8) of
                         Inl e \<Rightarrow> Inl (Wrapf ''SNOD entries read failed'' e)
                       | Inr data \<Rightarrow>
                           (case node_entries (Endianness sb) osz data 0 (unat numSymbols) of
                              Inl e \<Rightarrow> Inl e
                            | Inr es \<Rightarrow> Inr (node\<lparr>stn_Entries := es\<rparr>)))"

section \<open>Building and writing a node\<close>

definition NewSymbolTableNode :: "u16 \<Rightarrow> SymbolTableNode" where
  "NewSymbolTableNode capacity = \<lparr>stn_Version = 1, stn_NumSymbols = 0, stn_Entries = [], stn_cap = unat capacity\<rparr>"

definition AddEntry :: "SymbolTableNode \<Rightarrow> SymbolTableEntry \<Rightarrow> SymbolTableNode result" where
  "AddEntry stn entry =
     (if unat (stn_NumSymbols stn) \<ge> stn_cap stn then Inl (Errorf ''symbol table node is full (%d/%d)'')
      else Inr (stn\<lparr>stn_Entries := stn_Entries stn @ [entry], stn_NumSymbols := stn_NumSymbols stn + 1\<rparr>))"

text \<open>
  \<^verbatim>\<open>writeAddressToBytes\<close> on a buffer that is long enough, as every call of the node writer has it;
  more than eight bytes cannot be sliced from its eight-byte scratch array.
\<close>

definition writeAddressToBytes :: "u64 \<Rightarrow> nat \<Rightarrow> byte_order \<Rightarrow> bytes result" where
  "writeAddressToBytes addr sz e =
     (if sz = 1 then Inr [ucast addr]
      else if sz = 2 \<or> sz = 4 \<or> sz = 8 then Inr (order_put e sz addr)
      else if sz > 8 then Inl slice_panic
      else Inr (take sz (order_put e 8 addr)))"

definition entry_bytes :: "byte_order \<Rightarrow> nat \<Rightarrow> SymbolTableEntry \<Rightarrow> bytes result" where
  "entry_bytes e osz entry =
     (case writeAddressToBytes (LinkNameOffset entry) osz e of
        Inl err \<Rightarrow> Inl err
      | Inr a \<Rightarrow>
          (case writeAddressToBytes (ObjectAddress entry) osz e of
             Inl err \<Rightarrow> Inl err
           | Inr b \<Rightarrow> Inr (a @ b @ order_put e 4 (CacheType entry) @ order_put e 4 (Reserved entry) @ zeros 16)))"

fun write_entries :: "byte_order \<Rightarrow> nat \<Rightarrow> SymbolTableNode \<Rightarrow> nat \<Rightarrow> nat \<Rightarrow> bytes result" where
  "write_entries e osz stn i 0 = Inr []"
| "write_entries e osz stn i (Suc n) =
     (case (if i < unat (stn_NumSymbols stn)
            then if i < length (stn_Entries stn) then entry_bytes e osz (stn_Entries stn ! i) else Inl index_panic
            else Inr (zeros (2 * osz + 24))) of
        Inl err \<Rightarrow> Inl err
      | Inr b \<Rightarrow> (case write_entries e osz stn (i + 1) n of Inl err \<Rightarrow> Inl err | Inr bs \<Rightarrow> Inr (b @ bs)))"

definition node_WriteAt :: "SymbolTableNode \<Rightarrow> bytes \<Rightarrow> u64 \<Rightarrow> byte \<Rightarrow> u16 \<Rightarrow> byte_order \<Rightarrow> bytes result" where
  "node_WriteAt stn f address offsetSize maxEntries e =
     (case write_entries e (unat offsetSize) stn 0 (unat maxEntries) of
        Inl err \<Rightarrow> Inl err
      | Inr entries \<Rightarrow>
          WriteAt f (snod @ [stn_Version stn, 0] @ order_put e 2 (stn_NumSymbols stn) @ entries) address)"

section \<open>The writer against the reader\<close>

lemma readAddress_eq: "readAddressFromBytes = readUint64"
  by (intro ext) (simp only: readAddressFromBytes_def readUint64_def)

lemma writeAddress_eq: "sz \<in> {1, 2, 4, 8} \<Longrightarrow> writeAddressToBytes a sz e = Inr (writeUint64 a sz e)"
  by (auto simp: writeAddressToBytes_def writeUint64_def simp del: order_put.simps le_put_numeral)

lemma order_put_0: "order_put e n (0 :: 'a::len word) = zeros n"
proof -
  have "le_put n (0 :: 'a word) = zeros n" by (induction n) simp_all
  then show ?thesis by (cases e) simp_all
qed

lemma writeUint64_0: "sz \<in> {1, 2, 4, 8} \<Longrightarrow> writeUint64 0 sz e = zeros sz"
  by (auto simp: writeUint64_def order_put_0 simp del: order_put.simps le_put_numeral)

lemma readUint64_zeros:
  assumes "sz \<in> {1, 2, 4, 8}" "sz \<le> n"
  shows "readUint64 (zeros n @ post) sz e = 0"
proof -
  have "zeros n = (zeros sz :: bytes) @ zeros (n - sz)" using assms(2) by (simp add: replicate_add [symmetric])
  then have "zeros n @ post = writeUint64 0 sz e @ zeros (n - sz) @ post" using assms(1) by (simp add: writeUint64_0)
  then show ?thesis using readUint64_writeUint64 [OF assms(1), of 0 e] by (simp add: fits_width_def)
qed

text \<open>What the node writer keeps of an entry: everything but the scratch-pad.\<close>

definition without_scratch :: "SymbolTableEntry \<Rightarrow> SymbolTableEntry" where
  "without_scratch x = x\<lparr>CachedBTreeAddr := 0, CachedHeapAddr := 0, CachedSoftLinkOffset := 0\<rparr>"

definition entry_fits :: "nat \<Rightarrow> SymbolTableEntry \<Rightarrow> bool" where
  "entry_fits sz x \<longleftrightarrow> fits_width sz (LinkNameOffset x) \<and> fits_width sz (ObjectAddress x)"

definition entry_image :: "byte_order \<Rightarrow> nat \<Rightarrow> SymbolTableEntry \<Rightarrow> bytes" where
  "entry_image e sz x = writeUint64 (LinkNameOffset x) sz e @ writeUint64 (ObjectAddress x) sz e
     @ order_put e 4 (CacheType x) @ order_put e 4 (Reserved x) @ zeros 16"

lemma length_entry_image [simp]: "length (entry_image e sz x) = 2 * sz + 24"
  by (simp add: entry_image_def del: order_put.simps)

lemma entry_bytes_image: "sz \<in> {1, 2, 4, 8} \<Longrightarrow> entry_bytes e sz x = Inr (entry_image e sz x)"
  by (simp add: entry_bytes_def writeAddress_eq entry_image_def del: order_put.simps insert_iff)

lemma node_entry_image:
  assumes sz: "sz \<in> {1, 2, 4, 8}" and fits: "entry_fits sz x"
  shows "node_entry e sz (pre @ entry_image e sz x @ post) (length pre) = Inr (without_scratch x)"
proof -
  let ?d = "pre @ entry_image e sz x @ post"
  let ?t = "order_put e 4 (CacheType x) @ order_put e 4 (Reserved x) @ zeros 16 @ post"
  have sz8: "sz \<le> 8" using sz by auto
  have f: "fits_width sz (LinkNameOffset x)" "fits_width sz (ObjectAddress x)" using fits by (simp_all add: entry_fits_def)
  have d0: "drop (length pre) ?d = writeUint64 (LinkNameOffset x) sz e @ writeUint64 (ObjectAddress x) sz e @ ?t"
    by (simp add: entry_image_def del: order_put.simps)
  have d1: "drop (length pre + sz) ?d = writeUint64 (ObjectAddress x) sz e @ ?t"
    by (simp add: entry_image_def del: order_put.simps)
  have d2: "drop (length pre + 2 * sz) ?d = ?t" by (simp add: entry_image_def del: order_put.simps)
  have d3: "drop (length pre + 2 * sz + 4) ?d = order_put e 4 (Reserved x) @ zeros 16 @ post"
    using arg_cong [OF d2, of "drop 4"] by (simp add: add.commute del: order_put.simps)
  have d4: "drop (length pre + 2 * sz + 8) ?d = zeros 16 @ post"
    using arg_cong [OF d3, of "drop 4"] by (simp add: add.commute del: order_put.simps)
  have d5: "drop (length pre + 2 * sz + 8 + sz) ?d = zeros (16 - sz) @ post"
    using arg_cong [OF d4, of "drop sz"] sz8 by (simp add: add.commute)
  have a: "readUint64 (drop (length pre) ?d) sz e = LinkNameOffset x" unfolding d0 by (rule readUint64_writeUint64 [OF sz f(1)])
  have b: "readUint64 (drop (length pre + sz) ?d) sz e = ObjectAddress x" unfolding d1 by (rule readUint64_writeUint64 [OF sz f(2)])
  have c: "readUint64 (drop (length pre + 2 * sz + 8) ?d) sz e = 0" "readUint64 (drop (length pre + 2 * sz + 8 + sz) ?d) sz e = 0"
    unfolding d4 d5 using sz sz8 by (simp_all only: readUint64_zeros)
  have t: "order_get e (take 4 (drop (length pre + 2 * sz) ?d)) = CacheType x"
    "order_get e (take 4 (drop (length pre + 2 * sz + 4) ?d)) = Reserved x"
    unfolding d2 d3 by (simp_all add: order_get_order_put take_bit_word_eq_self del: order_put.simps order_get.simps)
  have l: "\<not> length pre + 2 * sz + 8 + sz > length ?d" using sz8 by simp
  show ?thesis
    unfolding node_entry_def Let_def readAddress_eq a b c t using l by (simp add: without_scratch_def)
qed

lemma node_entries_image:
  assumes "sz \<in> {1, 2, 4, 8}" "list_all (entry_fits sz) xs"
  shows "node_entries e sz (pre @ concat (map (entry_image e sz) xs) @ post) (length pre) (length xs)
       = Inr (map without_scratch xs)"
  using assms(2)
proof (induction xs arbitrary: pre)
  case Nil
  then show ?case by simp
next
  case (Cons x xs)
  have "node_entries e sz ((pre @ entry_image e sz x) @ concat (map (entry_image e sz) xs) @ post)
      (length (pre @ entry_image e sz x)) (length xs) = Inr (map without_scratch xs)"
    using Cons by (intro Cons.IH) simp
  moreover have "node_entry e sz (pre @ entry_image e sz x @ concat (map (entry_image e sz) xs) @ post) (length pre)
      = Inr (without_scratch x)"
    using Cons.prems by (intro node_entry_image [OF assms(1)]) simp
  ultimately show ?case by (simp add: add.assoc)
qed

lemma write_entries_image:
  assumes "sz \<in> {1, 2, 4, 8}" "length (stn_Entries stn) = unat (stn_NumSymbols stn)"
    "i + n = m" "unat (stn_NumSymbols stn) \<le> m" "i \<le> unat (stn_NumSymbols stn)"
  shows "write_entries e sz stn i n = Inr (concat (map (entry_image e sz) (drop i (stn_Entries stn)))
       @ zeros ((m - unat (stn_NumSymbols stn)) * (2 * sz + 24)))"
  using assms(3-5)
proof (induction n arbitrary: i)
  case 0
  then show ?case using assms(2) by simp
next
  case (Suc n)
  show ?case
  proof (cases "i < unat (stn_NumSymbols stn)")
    case True
    then have "write_entries e sz stn (i + 1) n = Inr (concat (map (entry_image e sz) (drop (i + 1) (stn_Entries stn)))
       @ zeros ((m - unat (stn_NumSymbols stn)) * (2 * sz + 24)))"
      using Suc by simp
    moreover have "drop i (stn_Entries stn) = stn_Entries stn ! i # drop (i + 1) (stn_Entries stn)"
      using True assms(2) by (simp add: Cons_nth_drop_Suc)
    ultimately show ?thesis using True assms(2) by (simp add: entry_bytes_image [OF assms(1)])
  next
    case False
    have pad: "write_entries e sz stn j k = Inr (zeros (k * (2 * sz + 24)))" if "unat (stn_NumSymbols stn) \<le> j" for j k
      using that by (induction k arbitrary: j) (simp_all add: replicate_add)
    have i: "i = unat (stn_NumSymbols stn)" "m - unat (stn_NumSymbols stn) = Suc n" using False Suc.prems by simp_all
    then show ?thesis using pad [of i "Suc n"] assms(2) by (simp del: write_entries.simps)
  qed
qed

text \<open>
  C36. A symbol table node of version 1 whose entries fit the file's offset size and the node's fixed
  number of slots is written without an error and read back at the same address with its symbol
  count and all its entries in order. What comes back is the entry without its scratch-pad: the
  cached B-tree and heap addresses and the soft-link offset are written as zeros.
\<close>
theorem symbol_node_roundtrip:
  assumes "unat (OffsetSize sb) \<in> {1, 2, 4, 8}" "stn_Version stn = 1"
    "length (stn_Entries stn) = unat (stn_NumSymbols stn)" "stn_NumSymbols stn \<le> maxEntries"
    "list_all (entry_fits (unat (OffsetSize sb))) (stn_Entries stn)"
    "unat address + 8 < 2 ^ 63"
  shows "\<exists>f' node. node_WriteAt stn f address (OffsetSize sb) maxEntries (Endianness sb) = Inr f'
     \<and> ParseSymbolTableNode f' address sb = Inr node \<and> stn_NumSymbols node = stn_NumSymbols stn
     \<and> stn_Entries node = map without_scratch (stn_Entries stn)"
proof -
  let ?sz = "unat (OffsetSize sb)" and ?e = "Endianness sb" and ?n = "unat (stn_NumSymbols stn)"
  let ?es = "concat (map (entry_image ?e ?sz) (stn_Entries stn))"
  let ?z = "zeros ((unat maxEntries - ?n) * (2 * ?sz + 24)) :: bytes"
  let ?h = "snod @ [1, 0] @ order_put ?e 2 (stn_NumSymbols stn)"
  let ?f = "overwrite f (unat address) (?h @ ?es @ ?z)"
  have les: "length ?es = ?n * (2 * ?sz + 24)"
    using assms(3) length_concat_const [of "stn_Entries stn" "entry_image ?e ?sz" "2 * ?sz + 24"] by (simp add: mult.commute)
  have lh: "length ?h = 8" by (simp add: snod_def del: order_put.simps)
  have "write_entries ?e ?sz stn 0 (unat maxEntries) = Inr (?es @ ?z)"
    using assms(3,4) write_entries_image [OF assms(1), of stn 0 "unat maxEntries" "unat maxEntries" ?e]
    by (simp add: word_le_nat_alt del: insert_iff)
  then have w: "node_WriteAt stn f address (OffsetSize sb) maxEntries ?e = Inr ?f"
    using assms(2,6) by (simp add: node_WriteAt_def WriteAt_def del: order_put.simps)
  have fl: "length ?f \<ge> unat address + length (?h @ ?es @ ?z)" using lh by (subst length_overwrite) auto
  have img: "take (length (?h @ ?es @ ?z)) (drop (unat address) ?f) = ?h @ ?es @ ?z" by (rule take_drop_overwrite)
  have "take 8 (drop (unat address) ?f) = ?h"
    using arg_cong [OF img, of "take 8"] lh by (simp del: order_put.simps)
  then have r1: "ReadAt ?f 8 address = Inr ?h" using fl lh assms(6) by (simp add: ReadAt_def del: order_put.simps)
  have a8: "unat (address + 8) = unat address + 8"
    using assms(6) by (subst unat_add_lem [THEN iffD1]) simp_all
  have "take (length ?es) (drop 8 (take (length (?h @ ?es @ ?z)) (drop (unat address) ?f))) = ?es"
    unfolding img using lh by simp
  then have "take (?n * (2 * ?sz + 24)) (drop (unat address + 8) ?f) = ?es"
    using lh les by (simp add: drop_take add.commute)
  moreover have "unat address + 8 + ?n * (2 * ?sz + 24) \<le> length ?f"
    using fl lh les unfolding length_append by linarith
  ultimately have r2: "ReadAt ?f (?n * (2 * ?sz + 24)) (address + 8) = Inr ?es"
    using a8 assms(6) by (simp add: ReadAt_def del: order_put.simps length_overwrite)
  have ne: "node_entries ?e ?sz ?es 0 ?n = Inr (map without_scratch (stn_Entries stn))"
    using node_entries_image [OF assms(1,5), of ?e "[]" "[]"] assms(3) by simp
  have sym: "order_get ?e (take 2 (drop 6 ?h)) = stn_NumSymbols stn" "take 4 ?h = snod" "?h ! 4 = 1"
    by (simp_all add: snod_def order_get_order_put take_bit_word_eq_self nth_append del: order_put.simps order_get.simps)
  have "stn_NumSymbols stn = 0 \<Longrightarrow> stn_Entries stn = []" using assms(3) by simp
  then have "ParseSymbolTableNode ?f address sb = Inr \<lparr>stn_Version = 1, stn_NumSymbols = stn_NumSymbols stn,
      stn_Entries = map without_scratch (stn_Entries stn), stn_cap = if stn_NumSymbols stn > 8 then ?n else 8\<rparr>"
    unfolding ParseSymbolTableNode_def r1 sum.case sym Let_def r2 ne by simp
  then show ?thesis using w by auto
qed

definition demo_entry :: SymbolTableEntry where
  "demo_entry = \<lparr>LinkNameOffset = 8, ObjectAddress = 96, CacheType = 1, Reserved = 0, CachedBTreeAddr = 136,
     CachedHeapAddr = 680, CachedSoftLinkOffset = 0\<rparr>"

theorem symbol_node_roundtrip_witness:
  "\<exists>f' node. node_WriteAt \<lparr>stn_Version = 1, stn_NumSymbols = 1, stn_Entries = [demo_entry], stn_cap = 8\<rparr> [] 64 8 8 LittleEndian = Inr f'
     \<and> ParseSymbolTableNode f' 64 demo_superblock = Inr node \<and> stn_Entries node = [demo_entry\<lparr>CachedBTreeAddr := 0, CachedHeapAddr := 0\<rparr>]"
  using symbol_node_roundtrip [of demo_superblock "\<lparr>stn_Version = 1, stn_NumSymbols = 1, stn_Entries = [demo_entry], stn_cap = 8\<rparr>" 8 64 "[]"]
  by (fastforce simp: demo_superblock_def demo_entry_def entry_fits_def fits_width_def without_scratch_def)

section \<open>The two readers\<close>

lemma readUint64_8: "8 \<le> length data \<Longrightarrow> readUint64 data 8 e = order_get e (take 8 data)"
  by (simp add: readUint64_def del: order_get.simps)

lemma parse_entry_node:
  assumes "offset + 40 \<le> length data"
  shows "node_entry e 8 data offset = Inr ((parse_entry e (take 40 (drop offset data)))\<lparr>CachedSoftLinkOffset := 0\<rparr>)"
proof -
  have t: "take k (drop j (take 40 (drop offset data))) = take k (drop (offset + j) data)" if "j + k \<le> 40" for j k
    using that by (simp add: drop_take min_def add.commute)
  have t0: "take 8 (take 40 (drop offset data)) = take 8 (drop offset data)" by simp
  have r: "readUint64 (drop (offset + j) data) 8 e = order_get e (take 8 (drop (offset + j) data))" if "j + 8 \<le> 40" for j
    using that assms by (intro readUint64_8) simp
  show ?thesis
    using assms r [of 0] r [of 8] r [of 24] r [of 32] t [of 32 8]
    by (simp add: node_entry_def parse_entry_def Let_def readAddress_eq t t0 add.commute [of offset] del: order_get.simps)
qed

lemma read_entries_node:
  assumes "length f < 2 ^ 63" "unat base + length data \<le> length f" "take (length data) (drop (unat base) f) = data"
    "node_entries (Endianness sb) 8 data offset n = Inr es"
  shows "\<exists>es'. read_entries n f (base + of_nat offset) sb = Inr es' \<and> map (\<lambda>x. x\<lparr>CachedSoftLinkOffset := 0\<rparr>) es' = es"
  using assms(4)
proof (induction n arbitrary: offset es)
  case 0
  then show ?case by simp
next
  case (Suc n)
  then obtain x xs where s: "offset + 40 \<le> length data" "node_entry (Endianness sb) 8 data offset = Inr x"
    "node_entries (Endianness sb) 8 data (offset + 40) n = Inr xs" "es = x # xs"
    by (auto split: if_splits sum.splits)
  let ?b = "take 40 (drop offset data)"
  have u: "unat (base + of_nat offset) = unat base + offset"
  proof -
    have "unat (of_nat offset :: u64) = offset" using s(1) assms(1,2) by (intro unat_of_nat_less) simp
    then show ?thesis using s(1) assms(1,2) by (subst unat_add_lem [THEN iffD1]) simp_all
  qed
  have "?b = take 40 (drop offset (take (length data) (drop (unat base) f)))" using assms(3) by simp
  also have "\<dots> = take 40 (drop (unat base + offset) f)" using s(1) by (simp add: drop_take min_def add.commute)
  finally have "ReadAt f 40 (base + of_nat offset) = Inr ?b"
    using s(1) assms(1,2) u by (simp add: ReadAt_def)
  then have p: "ParseSymbolTableEntry f (base + of_nat offset) sb = Inr (parse_entry (Endianness sb) ?b)"
    by (simp add: ParseSymbolTableEntry_def)
  have "(parse_entry (Endianness sb) ?b)\<lparr>CachedSoftLinkOffset := 0\<rparr> = x" using parse_entry_node [OF s(1)] s(2) by simp
  moreover obtain es' where "read_entries n f (base + of_nat (offset + 40)) sb = Inr es'"
    "map (\<lambda>x. x\<lparr>CachedSoftLinkOffset := 0\<rparr>) es' = xs" using Suc.IH [OF s(3)] by blast
  ultimately show ?case using p s(4) by (simp add: add.assoc)
qed

text \<open>
  C37. In files with 8-byte offsets the two readers of symbol table nodes agree: whatever node the node
  reader returns, the entry reader, given the symbol count, returns the same entries, except that
  only the entry reader fills in the target offset of soft links.
\<close>
theorem symbol_readers_agree:
  assumes "OffsetSize sb = 8" "length f < 2 ^ 63" "ParseSymbolTableNode f address sb = Inr node"
    "st_EntryCount table = stn_NumSymbols node"
  shows "\<exists>es. ReadSymbolTableEntries f address table sb = Inr es
     \<and> map (\<lambda>x. x\<lparr>CachedSoftLinkOffset := 0\<rparr>) es = stn_Entries node"
proof (cases "stn_NumSymbols node = 0")
  case True
  then show ?thesis
    using assms by (auto simp: ParseSymbolTableNode_def ReadSymbolTableEntries_def Let_def split: sum.splits if_splits)
next
  case False
  let ?n = "unat (stn_NumSymbols node)"
  obtain data where d: "ReadAt f (?n * 40) (address + 8) = Inr data"
    "node_entries (Endianness sb) 8 data 0 ?n = Inr (stn_Entries node)"
    using assms(1,3) False by (auto simp: ParseSymbolTableNode_def Let_def split: sum.splits if_splits)
  have "0 < ?n" using False by (metis unat_eq_zero gr0I)
  then have r: "unat (address + 8) + ?n * 40 \<le> length f" "data = take (?n * 40) (drop (unat (address + 8)) f)"
    using d(1) by (auto simp: ReadAt_def split: if_splits)
  have "\<exists>es'. read_entries ?n f (address + 8 + of_nat 0) sb = Inr es' \<and> map (\<lambda>x. x\<lparr>CachedSoftLinkOffset := 0\<rparr>) es' = stn_Entries node"
    using r by (intro read_entries_node [OF assms(2) _ _ d(2)]) auto
  then show ?thesis using False assms(4) by (simp add: ReadSymbolTableEntries_def)
qed

definition demo_node_file :: bytes where
  "demo_node_file = [0x53, 0x4E, 0x4F, 0x44, 1, 0, 1, 0] @ [8, 0, 0, 0, 0, 0, 0, 0] @ replicate 8 0xFF
     @ [2, 0, 0, 0, 0, 0, 0, 0] @ [24, 0, 0, 0, 0, 0, 0, 0, 0, 0, 0, 0, 0, 0, 0, 0]"

theorem symbol_readers_agree_witness:
  "\<exists>node es. ParseSymbolTableNode demo_node_file 0 demo_superblock = Inr node
     \<and> ReadSymbolTableEntries demo_node_file 0 \<lparr>st_Version = 1, st_EntryCount = 1, st_BTreeAddress = 0, st_HeapAddress = 0\<rparr> demo_superblock = Inr es
     \<and> map (\<lambda>x. x\<lparr>CachedSoftLinkOffset := 0\<rparr>) es = stn_Entries node"
proof -
  have len: "length demo_node_file = 48" by (simp add: demo_node_file_def)
  have r: "ReadAt demo_node_file 8 0 = Inr [0x53, 0x4E, 0x4F, 0x44, 1, 0, 1, 0]"
    "ReadAt demo_node_file 40 8 = Inr (drop 8 demo_node_file)"
    using len by (simp_all add: ReadAt_def) (simp_all add: demo_node_file_def)
  have e: "\<exists>es. node_entries LittleEndian 8 (drop 8 demo_node_file) 0 1 = Inr es"
    using len parse_entry_node [of 0 "drop 8 demo_node_file"] by simp
  obtain node where n: "ParseSymbolTableNode demo_node_file 0 demo_superblock = Inr node" "stn_NumSymbols node = 1"
    using r e by (auto simp: ParseSymbolTableNode_def Let_def demo_superblock_def snod_def)
  show ?thesis
    using symbol_readers_agree [of demo_superblock demo_node_file 0 node
        "\<lparr>st_Version = 1, st_EntryCount = 1, st_BTreeAddress = 0, st_HeapAddress = 0\<rparr>"] n len
    by (simp add: demo_superblock_def)
qed

end
