(* ===== verification/File_Writer.thy ===== *)
theory File_Writer
  imports Allocator
begin

text \<open>
  The file writer of \<^verbatim>\<open>internal/writer/writer.go\<close>: an open file together with the allocator of its
  space. The operating system is modelled as far as the code sees it: a file system from names to
  contents, an open file with its contents and whether it may be written. Failures of the device are
  not modelled.
\<close>

section \<open>State and operations\<close>

record FileWriter =
  fw_file :: "(bytes \<times> bool) option"
  fw_allocator :: Allocator

datatype CreateMode = ModeTruncate | ModeExclusive | ModeReadWrite | ModeReadOnly

definition NewFileWriter :: "(string \<rightharpoonup> bytes) \<Rightarrow> string \<Rightarrow> CreateMode \<Rightarrow> u64 \<Rightarrow> FileWriter result" where
  "NewFileWriter fs filename mode initialOffset =
     (case mode of
        ModeTruncate \<Rightarrow> Inr \<lparr>fw_file = Some ([], True), fw_allocator = NewAllocator initialOffset\<rparr>
      | ModeExclusive \<Rightarrow>
          if fs filename \<noteq> None then Inl (Wrapf ''failed to create file: %w'' (Errorf ''file exists''))
          else Inr \<lparr>fw_file = Some ([], True), fw_allocator = NewAllocator initialOffset\<rparr>
      | _ \<Rightarrow> Inl (Errorf ''invalid create mode: %d''))"

definition OpenFileWriter :: "(string \<rightharpoonup> bytes) \<Rightarrow> string \<Rightarrow> CreateMode \<Rightarrow> u64 \<Rightarrow> FileWriter result" where
  "OpenFileWriter fs filename mode initialOffset =
     (if mode \<noteq> ModeReadWrite \<and> mode \<noteq> ModeReadOnly
      then Inl (Errorf ''invalid open mode: %d (use ModeReadWrite or ModeReadOnly)'')
      else case fs filename of
             None \<Rightarrow> Inl (Wrapf ''failed to open file: %w'' (Errorf ''no such file''))
           | Some contents \<Rightarrow>
               let fileSize = of_nat (length contents);
                   allocatorOffset = (if initialOffset > fileSize then initialOffset else fileSize)
               in Inr \<lparr>fw_file = Some (contents, mode = ModeReadWrite), fw_allocator = NewAllocator allocatorOffset\<rparr>)"

definition fw_Allocate :: "FileWriter \<Rightarrow> u64 \<Rightarrow> (u64 \<times> FileWriter) result" where
  "fw_Allocate w sz =
     (case fw_file w of
        None \<Rightarrow> Inl (Errorf ''writer is closed'')
      | Some _ \<Rightarrow>
          (case Allocate (fw_allocator w) sz of
             Inl e \<Rightarrow> Inl e
           | Inr (addr, a) \<Rightarrow> Inr (addr, w\<lparr>fw_allocator := a\<rparr>)))"

definition fw_WriteAt :: "FileWriter \<Rightarrow> bytes \<Rightarrow> u64 \<Rightarrow> FileWriter result" where
  "fw_WriteAt w data offset =
     (case fw_file w of
        None \<Rightarrow> Inl (Errorf ''writer is closed'')
      | Some (f, writable) \<Rightarrow>
          if length data = 0 then Inr w
          else if \<not> writable then Inl (Wrapf ''write at address %d failed: %w'' (Errorf ''bad file descriptor''))
          else (case WriteAt f data offset of
                  Inl e \<Rightarrow> Inl (Wrapf ''write at address %d failed: %w'' e)
                | Inr f' \<Rightarrow> Inr (w\<lparr>fw_file := Some (f', writable)\<rparr>)))"

definition fw_WriteAtAddress :: "FileWriter \<Rightarrow> bytes \<Rightarrow> u64 \<Rightarrow> FileWriter result" where
  "fw_WriteAtAddress w data addr = fw_WriteAt w data addr"

definition fw_ReadAt :: "FileWriter \<Rightarrow> nat \<Rightarrow> u64 \<Rightarrow> bytes result" where
  "fw_ReadAt w n addr =
     (case fw_file w of None \<Rightarrow> Inl (Errorf ''writer is closed'') | Some (f, _) \<Rightarrow> ReadAt f n addr)"

definition fw_EndOfFile :: "FileWriter \<Rightarrow> u64" where
  "fw_EndOfFile w = EndOfFile (fw_allocator w)"

definition fw_Flush :: "FileWriter \<Rightarrow> unit result" where
  "fw_Flush w = (case fw_file w of None \<Rightarrow> Inl (Errorf ''writer is closed'') | Some _ \<Rightarrow> Inr ())"

definition fw_Close :: "FileWriter \<Rightarrow> FileWriter" where
  "fw_Close w = w\<lparr>fw_file := None\<rparr>"

definition WriteAtWithAllocation :: "FileWriter \<Rightarrow> bytes \<Rightarrow> (u64 \<times> FileWriter) result" where
  "WriteAtWithAllocation w data =
     (if length data = 0 then Inl (Errorf ''cannot write empty data'')
      else case fw_Allocate w (of_nat (length data)) of
             Inl e \<Rightarrow> Inl e
           | Inr (addr, w) \<Rightarrow>
               (case fw_WriteAtAddress w data addr of Inl e \<Rightarrow> Inl e | Inr w \<Rightarrow> Inr (addr, w)))"

section \<open>What is stored stays\<close>

text \<open>
  \<open>writer_ok\<close>: the file is open for writing and the allocator well-formed. \<open>stored w addr data\<close>: the
  bytes stand in the file at the address, in space the allocator has given out.
\<close>

definition writer_ok :: "FileWriter \<Rightarrow> bool" where
  "writer_ok w \<longleftrightarrow> (\<exists>f. fw_file w = Some (f, True)) \<and> alloc_inv (fw_allocator w)"

definition contents :: "FileWriter \<Rightarrow> bytes" where
  "contents w = (case fw_file w of None \<Rightarrow> [] | Some (f, _) \<Rightarrow> f)"

definition stored :: "FileWriter \<Rightarrow> u64 \<Rightarrow> bytes \<Rightarrow> bool" where
  "stored w addr data \<longleftrightarrow> unat addr < 2 ^ 63 \<and> unat addr + length data \<le> length (contents w)
     \<and> take (length data) (drop (unat addr) (contents w)) = data
     \<and> {unat addr..<unat addr + length data} \<subseteq> used (fw_allocator w)"

lemma stored_ReadAt: "stored w addr data \<Longrightarrow> ReadAt (contents w) (length data) addr = Inr data"
  by (simp add: stored_def ReadAt_def)

lemma stored_prefix:
  assumes "stored w addr data" "n \<le> length data"
  shows "ReadAt (contents w) n addr = Inr (take n data)"
proof -
  have "take n (drop (unat addr) (contents w)) = take n (take (length data) (drop (unat addr) (contents w)))"
    using assms(2) by (simp add: min_absorb1)
  then have "take n (drop (unat addr) (contents w)) = take n data" using assms(1) by (simp only: stored_def)
  then show ?thesis using assms by (simp add: stored_def ReadAt_def)
qed

lemma allocate_effect:
  assumes "writer_ok w" "sz \<noteq> 0" "unat (nextOffset (fw_allocator w)) + unat sz < 2 ^ 63"
  shows "\<exists>addr a. Allocate (fw_allocator w) sz = Inr (addr, a) \<and> writer_ok (w\<lparr>fw_allocator := a\<rparr>)
     \<and> extent addr sz \<inter> used (fw_allocator w) = {} \<and> extent addr sz \<subseteq> used a \<and> unat addr + unat sz < 2 ^ 63
     \<and> (\<forall>p d. stored w p d \<longrightarrow> stored (w\<lparr>fw_allocator := a\<rparr>) p d)
     \<and> unat (nextOffset a) \<le> unat (nextOffset (fw_allocator w)) + unat sz"
proof -
  let ?a = "fw_allocator w"
  obtain addr a where al: "Allocate ?a sz = Inr (addr, a)" using hdf5_alloc.alloc_total [OF assms(2)] by blast
  have inv: "alloc_inv ?a" using assms(1) by (simp add: writer_ok_def)
  have law: "alloc_inv a" "extent addr sz \<inter> used ?a = {}" "used a = used ?a \<union> extent addr sz"
    "unat (nextOffset a) \<le> unat (nextOffset ?a) + unat sz"
    using hdf5_alloc.alloc_law [OF inv _ al] assms(3) by auto
  have "unat sz \<noteq> 0" using assms(2) by (metis unat_eq_zero)
  then have "unat addr + unat sz - 1 \<in> extent addr sz" by (simp add: extent_def)
  moreover have "extent addr sz \<subseteq> {0..<unat (nextOffset a)}" using law(3) inv_below [OF law(1)] by blast
  ultimately have "unat addr + unat sz - 1 < unat (nextOffset a)" by fastforce
  then have "unat addr + unat sz < 2 ^ 63" using law(4) assms(3) \<open>unat sz \<noteq> 0\<close> by simp
  moreover have "\<forall>p d. stored w p d \<longrightarrow> stored (w\<lparr>fw_allocator := a\<rparr>) p d"
    using law(3) by (auto simp: stored_def contents_def)
  ultimately show ?thesis using al law assms(1) by (auto simp: writer_ok_def)
qed

lemma write_effect:
  assumes "writer_ok w" "data \<noteq> []" "unat addr < 2 ^ 63" "{unat addr..<unat addr + length data} \<subseteq> used (fw_allocator w)"
  shows "\<exists>w'. fw_WriteAtAddress w data addr = Inr w' \<and> writer_ok w' \<and> fw_allocator w' = fw_allocator w
     \<and> stored w' addr data
     \<and> (\<forall>p d. stored w p d \<longrightarrow> d \<noteq> [] \<longrightarrow> {unat p..<unat p + length d} \<inter> {unat addr..<unat addr + length data} = {} \<longrightarrow> stored w' p d)"
proof -
  obtain f where f: "fw_file w = Some (f, True)" "alloc_inv (fw_allocator w)" using assms(1) by (auto simp: writer_ok_def)
  let ?f = "overwrite f (unat addr) data" and ?w = "w\<lparr>fw_file := Some (overwrite f (unat addr) data, True)\<rparr>"
  have w: "fw_WriteAtAddress w data addr = Inr ?w"
    using f(1) assms(2,3) by (simp add: fw_WriteAtAddress_def fw_WriteAt_def WriteAt_def)
  have c: "contents w = f" "contents ?w = ?f" using f(1) by (simp_all add: contents_def)
  have "stored ?w addr data"
    using assms(2-4) by (simp add: stored_def c)
  moreover have "stored ?w p d" if s: "stored w p d" "d \<noteq> []"
    and disj: "{unat p..<unat p + length d} \<inter> {unat addr..<unat addr + length data} = {}" for p d
  proof -
    have "unat p + length d \<le> unat addr \<or> unat addr + length data \<le> unat p"
    proof (rule ccontr)
      assume "\<not> ?thesis"
      then have "max (unat p) (unat addr) \<in> {unat p..<unat p + length d} \<inter> {unat addr..<unat addr + length data}"
        using s(2) assms(2) by auto
      then show False using disj by blast
    qed
    then have "take (length d) (drop (unat p) ?f) = d"
      using s(1) by (auto simp: stored_def c take_drop_overwrite_before take_drop_overwrite_after)
    moreover have "length f \<le> length ?f" using assms(2) by simp
    ultimately show ?thesis using s(1) by (simp add: stored_def c)
  qed
  ultimately show ?thesis using w f by (intro exI [of _ ?w]) (auto simp: writer_ok_def)
qed

text \<open>Allocation and the write into the new block together: the step every structure of the file takes.\<close>

lemma store_effect:
  assumes ok: "writer_ok w" and sz: "length data \<le> unat sz" and ne: "data \<noteq> []"
    and room: "unat (nextOffset (fw_allocator w)) + unat sz < 2 ^ 63"
  shows "\<exists>addr a w'. Allocate (fw_allocator w) sz = Inr (addr, a)
     \<and> fw_WriteAtAddress (w\<lparr>fw_allocator := a\<rparr>) data addr = Inr w' \<and> writer_ok w' \<and> fw_allocator w' = a
     \<and> stored w' addr data \<and> extent addr sz \<subseteq> used a \<and> extent addr sz \<inter> used (fw_allocator w) = {}
     \<and> unat addr + unat sz < 2 ^ 63 \<and> (\<forall>p d. stored w p d \<longrightarrow> d \<noteq> [] \<longrightarrow> stored w' p d)
     \<and> unat (nextOffset a) \<le> unat (nextOffset (fw_allocator w)) + unat sz"
proof -
  have "sz \<noteq> 0" using sz ne by auto
  from allocate_effect [OF ok this room] obtain addr a where
    a: "Allocate (fw_allocator w) sz = Inr (addr, a)" "writer_ok (w\<lparr>fw_allocator := a\<rparr>)"
      "extent addr sz \<inter> used (fw_allocator w) = {}" "extent addr sz \<subseteq> used a" "unat addr + unat sz < 2 ^ 63"
      "\<forall>p d. stored w p d \<longrightarrow> stored (w\<lparr>fw_allocator := a\<rparr>) p d"
      "unat (nextOffset a) \<le> unat (nextOffset (fw_allocator w)) + unat sz"
    by blast
  have sub: "{unat addr..<unat addr + length data} \<subseteq> extent addr sz" using sz by (auto simp: extent_def)
  then have "{unat addr..<unat addr + length data} \<subseteq> used (fw_allocator (w\<lparr>fw_allocator := a\<rparr>))" using a(4) by auto
  from write_effect [OF a(2) ne _ this] a(5) obtain w' where
    w: "fw_WriteAtAddress (w\<lparr>fw_allocator := a\<rparr>) data addr = Inr w'" "writer_ok w'"
      "fw_allocator w' = a" "stored w' addr data"
      "\<forall>p d. stored (w\<lparr>fw_allocator := a\<rparr>) p d \<longrightarrow> d \<noteq> [] \<longrightarrow> {unat p..<unat p + length d} \<inter> {unat addr..<unat addr + length data} = {} \<longrightarrow> stored w' p d"
    by auto
  have "stored w' p d" if "stored w p d" "d \<noteq> []" for p d
  proof -
    have "{unat p..<unat p + length d} \<subseteq> used (fw_allocator w)" using that(1) by (simp add: stored_def)
    then have "{unat p..<unat p + length d} \<inter> {unat addr..<unat addr + length data} = {}" using sub a(3) by blast
    then show ?thesis using w(5) a(6) that by blast
  qed
  then show ?thesis using a w by blast
qed

section \<open>Properties\<close>

fun store_all :: "FileWriter \<Rightarrow> bytes list \<Rightarrow> (u64 list \<times> FileWriter) result" where
  "store_all w [] = Inr ([], w)"
| "store_all w (d # ds) =
     (case WriteAtWithAllocation w d of
        Inl e \<Rightarrow> Inl e
      | Inr (addr, w) \<Rightarrow> (case store_all w ds of Inl e \<Rightarrow> Inl e | Inr (addrs, w) \<Rightarrow> Inr (addr # addrs, w)))"

lemma WriteAtWithAllocation_effect:
  assumes "writer_ok w" "d \<noteq> []" "unat (nextOffset (fw_allocator w)) + length d < 2 ^ 63"
  shows "\<exists>addr w'. WriteAtWithAllocation w d = Inr (addr, w') \<and> writer_ok w' \<and> stored w' addr d
     \<and> (\<forall>p x. stored w p x \<longrightarrow> x \<noteq> [] \<longrightarrow> stored w' p x)
     \<and> unat (nextOffset (fw_allocator w')) \<le> unat (nextOffset (fw_allocator w)) + length d"
proof -
  have u: "unat (of_nat (length d) :: u64) = length d" using assms(3) by (intro unat_of_nat_less) simp
  obtain f where f: "fw_file w = Some (f, True)" using assms(1) by (auto simp: writer_ok_def)
  have le: "length d \<le> unat (of_nat (length d) :: u64)" using u by simp
  have room: "unat (nextOffset (fw_allocator w)) + unat (of_nat (length d) :: u64) < 2 ^ 63" using assms(3) u by simp
  from store_effect [OF assms(1) le assms(2) room] show ?thesis
    using u f assms(2) by (auto simp: WriteAtWithAllocation_def fw_Allocate_def)
qed

text \<open>
  C13. Blobs written one after another with \<^verbatim>\<open>WriteAtWithAllocation\<close>, none empty and together within
  the first \<open>2 ^ 63\<close> bytes, are all written without an error and all read back unchanged from the
  addresses returned: no later write touches an earlier one, whatever the allocator's free list was.
\<close>
theorem stored_blobs_survive:
  assumes "writer_ok w" "[] \<notin> set ds" "unat (fw_EndOfFile w) + sum_list (map length ds) < 2 ^ 63"
  shows "\<exists>addrs w'. store_all w ds = Inr (addrs, w') \<and> length addrs = length ds
     \<and> (\<forall>i < length ds. fw_ReadAt w' (length (ds ! i)) (addrs ! i) = Inr (ds ! i))"
proof -
  have "\<exists>addrs w'. store_all w ds = Inr (addrs, w') \<and> writer_ok w' \<and> length addrs = length ds
     \<and> (\<forall>i < length ds. stored w' (addrs ! i) (ds ! i)) \<and> (\<forall>p x. stored w p x \<longrightarrow> x \<noteq> [] \<longrightarrow> stored w' p x)"
    using assms unfolding fw_EndOfFile_def EndOfFile_def
  proof (induction ds arbitrary: w)
    case Nil
    then show ?case by auto
  next
    case (Cons d ds)
    obtain addr w1 where 1: "WriteAtWithAllocation w d = Inr (addr, w1)" "writer_ok w1" "stored w1 addr d"
      "\<forall>p x. stored w p x \<longrightarrow> x \<noteq> [] \<longrightarrow> stored w1 p x"
      "unat (nextOffset (fw_allocator w1)) \<le> unat (nextOffset (fw_allocator w)) + length d"
      using WriteAtWithAllocation_effect [OF Cons.prems(1), of d] Cons.prems(2,3) by auto
    obtain addrs w2 where 2: "store_all w1 ds = Inr (addrs, w2)" "writer_ok w2" "length addrs = length ds"
      "\<forall>i < length ds. stored w2 (addrs ! i) (ds ! i)" "\<forall>p x. stored w1 p x \<longrightarrow> x \<noteq> [] \<longrightarrow> stored w2 p x"
      using Cons.IH [OF 1(2)] Cons.prems(2,3) 1(5) by auto
    have "stored w2 addr d" using 1(3) 2(5) Cons.prems(2) by auto
    then show ?case using 1 2 by (auto simp: nth_Cons split: nat.split)
  qed
  then obtain addrs w' where w: "store_all w ds = Inr (addrs, w')" "writer_ok w'" "length addrs = length ds"
    "\<forall>i < length ds. stored w' (addrs ! i) (ds ! i)" by blast
  have "fw_ReadAt w' n addr = ReadAt (contents w') n addr" for n addr
    using w(2) by (auto simp: writer_ok_def fw_ReadAt_def contents_def)
  then show ?thesis using w stored_ReadAt by (intro exI [of _ addrs] exI [of _ w']) simp
qed

theorem stored_blobs_survive_witness:
  "\<exists>addrs w'. store_all \<lparr>fw_file = Some ([], True), fw_allocator = NewAllocator 48\<rparr> [[1, 2], [3]] = Inr (addrs, w')
     \<and> length addrs = 2"
  using stored_blobs_survive [of "\<lparr>fw_file = Some ([], True), fw_allocator = NewAllocator 48\<rparr>" "[[1, 2], [3]]"]
  by (fastforce simp: writer_ok_def NewAllocator_def alloc_inv_def free_ok_def blocks_ok_def fw_EndOfFile_def EndOfFile_def)

end
