(* ===== verification/BTree_V2.thy ===== *)
theory BTree_V2
  imports Layout File_Writer
begin

text \<open>
  The version 2 B-tree that indexes the links of dense groups and dense attributes by the hash of
  their name, from \<^verbatim>\<open>internal/structures/btreev2_write.go\<close> and \<^verbatim>\<open>btreev2_rebalance.go\<close>: the name hash,
  insertion, search, update and deletion of records, the node operations kept for trees of more than
  one level, the encoders and readers of header and leaf, and the write and load of the whole tree.
  Slices are modelled by their values; every operation reassigns \<^verbatim>\<open>leaf.Records\<close> where it changes
  \<^verbatim>\<open>records\<close>, so the two fields are kept apart as in the code.
\<close>

section \<open>The name hash\<close>

function hash_loop :: "bytes \<Rightarrow> nat \<Rightarrow> jstate \<Rightarrow> nat \<times> jstate" where
  "hash_loop name i s =
     (if i + 12 \<le> length name
      then case s of (a, b, c) \<Rightarrow>
             hash_loop name (i + 12)
               (jenkins_mix (a + word_at name i, b + word_at name (i + 4), c + word_at name (i + 8)))
      else (i, s))"
  by pat_completeness auto
termination
  by (relation "measure (\<lambda>(name, i, _). length name - i)") auto

declare hash_loop.simps [simp del]

definition jenkinsHash :: "bytes \<Rightarrow> u32" where
  "jenkinsHash name =
     (let a = 0xdeadbeef + of_nat (length name)
      in case hash_loop name 0 (a, a, a) of
           (i, s) \<Rightarrow> jenkins_final (jenkins_tail name i (length name - i) s))"

section \<open>Data\<close>

record BTreeV2Header =
  bh_Signature :: bytes
  bh_Version :: byte
  bh_Type :: byte
  bh_NodeSize :: u32
  bh_RecordSize :: u16
  bh_Depth :: u16
  bh_SplitPercent :: byte
  bh_MergePercent :: byte
  bh_RootNodeAddr :: u64
  bh_NumRecordsRoot :: u16
  bh_TotalRecords :: u64

record LinkNameRecord =
  NameHash :: u32
  rec_HeapID :: bytes

record BTreeV2LeafNode =
  bl_Signature :: bytes
  bl_Version :: byte
  bl_Type :: byte
  bl_Records :: "LinkNameRecord list"

record WritableBTreeV2 =
  bt_header :: BTreeV2Header
  bt_leaf :: BTreeV2LeafNode
  bt_records :: "LinkNameRecord list"
  bt_nodeSize :: u32
  bt_loadedHeaderAddress :: u64
  bt_loadedLeafAddress :: u64

abbreviation bthd :: bytes where
  "bthd \<equiv> [0x42, 0x54, 0x48, 0x44]"

abbreviation btlf :: bytes where
  "btlf \<equiv> [0x42, 0x54, 0x4C, 0x46]"

definition empty_leaf :: BTreeV2LeafNode where
  "empty_leaf = \<lparr>bl_Signature = btlf, bl_Version = 0, bl_Type = 5, bl_Records = []\<rparr>"

definition NewWritableBTreeV2 :: "u32 \<Rightarrow> WritableBTreeV2" where
  "NewWritableBTreeV2 nodeSize =
     (let nodeSize = (if nodeSize = 0 then 4096 else nodeSize)
      in \<lparr>bt_header = \<lparr>bh_Signature = bthd, bh_Version = 0, bh_Type = 5, bh_NodeSize = nodeSize,
            bh_RecordSize = 11, bh_Depth = 0, bh_SplitPercent = 100, bh_MergePercent = 40,
            bh_RootNodeAddr = 0, bh_NumRecordsRoot = 0, bh_TotalRecords = 0\<rparr>,
          bt_leaf = empty_leaf, bt_records = [], bt_nodeSize = nodeSize,
          bt_loadedHeaderAddress = 0, bt_loadedLeafAddress = 0\<rparr>)"

section \<open>Records\<close>

text \<open>\<^verbatim>\<open>int(available / recordSize)\<close> of an unsigned subtraction: node sizes below ten wrap around.\<close>

definition calculateMaxRecords :: "WritableBTreeV2 \<Rightarrow> nat" where
  "calculateMaxRecords bt = unat ((bt_nodeSize bt - 10) div 11)"

definition calculateMinRecords :: "WritableBTreeV2 \<Rightarrow> nat" where
  "calculateMinRecords bt = calculateMaxRecords bt div 2"

fun insertRecordSorted :: "LinkNameRecord list \<Rightarrow> LinkNameRecord \<Rightarrow> LinkNameRecord list" where
  "insertRecordSorted [] r = [r]"
| "insertRecordSorted (x # xs) r = (if NameHash x \<ge> NameHash r then r # x # xs else x # insertRecordSorted xs r)"

definition heap_id7 :: "u64 \<Rightarrow> bytes" where
  "heap_id7 heapID = take 7 (le_put 8 heapID)"

definition InsertRecord :: "WritableBTreeV2 \<Rightarrow> bytes \<Rightarrow> u64 \<Rightarrow> WritableBTreeV2 result" where
  "InsertRecord bt linkName heapID =
     (let record = \<lparr>NameHash = jenkinsHash linkName, rec_HeapID = heap_id7 heapID\<rparr>
      in if length (bt_records bt) \<ge> calculateMaxRecords bt then Inl (Errorf ''b-tree node is full'')
         else let rs = insertRecordSorted (bt_records bt) record
              in Inr (bt\<lparr>bt_records := rs,
                         bt_header := (bt_header bt)\<lparr>bh_TotalRecords := bh_TotalRecords (bt_header bt) + 1,
                                                     bh_NumRecordsRoot := bh_NumRecordsRoot (bt_header bt) + 1\<rparr>,
                         bt_leaf := (bt_leaf bt)\<lparr>bl_Records := rs\<rparr>\<rparr>))"

definition HasKey :: "WritableBTreeV2 \<Rightarrow> bytes \<Rightarrow> bool" where
  "HasKey bt name \<longleftrightarrow> list_ex (\<lambda>record. NameHash record = jenkinsHash name) (bt_records bt)"

definition SearchRecord :: "WritableBTreeV2 \<Rightarrow> bytes \<Rightarrow> bytes option" where
  "SearchRecord bt name =
     map_option (\<lambda>record. rec_HeapID record @ [0])
       (find (\<lambda>record. NameHash record = jenkinsHash name) (bt_records bt))"

fun update_first :: "u32 \<Rightarrow> bytes \<Rightarrow> LinkNameRecord list \<Rightarrow> LinkNameRecord list option" where
  "update_first h hid [] = None"
| "update_first h hid (x # xs) =
     (if NameHash x = h then Some (x\<lparr>rec_HeapID := hid\<rparr> # xs) else map_option ((#) x) (update_first h hid xs))"

definition UpdateRecord :: "WritableBTreeV2 \<Rightarrow> bytes \<Rightarrow> u64 \<Rightarrow> WritableBTreeV2 result" where
  "UpdateRecord bt name newHeapID =
     (case update_first (jenkinsHash name) (heap_id7 newHeapID) (bt_records bt) of
        None \<Rightarrow> Inl (Errorf ''record not found for name: %s'')
      | Some rs \<Rightarrow> Inr (bt\<lparr>bt_records := rs, bt_leaf := (bt_leaf bt)\<lparr>bl_Records := rs\<rparr>\<rparr>))"

fun remove_first :: "u32 \<Rightarrow> LinkNameRecord list \<Rightarrow> LinkNameRecord list option" where
  "remove_first h [] = None"
| "remove_first h (x # xs) = (if NameHash x = h then Some xs else map_option ((#) x) (remove_first h xs))"

definition handleRootDepthDecrease :: "WritableBTreeV2 \<Rightarrow> WritableBTreeV2 result" where
  "handleRootDepthDecrease bt = Inr bt"

definition drop_record :: "WritableBTreeV2 \<Rightarrow> LinkNameRecord list \<Rightarrow> WritableBTreeV2" where
  "drop_record bt rs =
     bt\<lparr>bt_records := rs, bt_leaf := (bt_leaf bt)\<lparr>bl_Records := rs\<rparr>,
        bt_header := (bt_header bt)\<lparr>bh_TotalRecords := bh_TotalRecords (bt_header bt) - 1,
                                    bh_NumRecordsRoot := bh_NumRecordsRoot (bt_header bt) - 1\<rparr>\<rparr>"

definition DeleteRecordWithRebalancing :: "WritableBTreeV2 \<Rightarrow> bytes \<Rightarrow> WritableBTreeV2 result" where
  "DeleteRecordWithRebalancing bt name =
     (case remove_first (jenkinsHash name) (bt_records bt) of
        None \<Rightarrow> Inl (Errorf ''record not found for name: %s'')
      | Some rs \<Rightarrow>
          let bt = drop_record bt rs
          in if bh_NumRecordsRoot (bt_header bt) = 0 \<and> bh_Depth (bt_header bt) > 0
             then handleRootDepthDecrease bt else Inr bt)"

definition DeleteRecord :: "WritableBTreeV2 \<Rightarrow> bytes \<Rightarrow> WritableBTreeV2 result" where
  "DeleteRecord bt name = DeleteRecordWithRebalancing bt name"

definition GetRecords :: "WritableBTreeV2 \<Rightarrow> LinkNameRecord list" where
  "GetRecords bt = bt_records bt"

definition RebalanceAll :: "WritableBTreeV2 \<Rightarrow> WritableBTreeV2 result" where
  "RebalanceAll bt = Inr bt"

text \<open>\<^verbatim>\<open>compareLinkNames\<close> compares byte strings lexicographically, as Go does.\<close>

fun bytes_less :: "bytes \<Rightarrow> bytes \<Rightarrow> bool" where
  "bytes_less a [] = False"
| "bytes_less [] (y # ys) = True"
| "bytes_less (x # xs) (y # ys) = (x < y \<or> x = y \<and> bytes_less xs ys)"

definition compareLinkNames :: "bytes \<Rightarrow> bytes \<Rightarrow> int" where
  "compareLinkNames a b = (if bytes_less a b then -1 else if bytes_less b a then 1 else 0)"

section \<open>Node operations for trees of more than one level\<close>

text \<open>Each returns the two nodes after the call.\<close>

definition mergeNodes :: "WritableBTreeV2 \<Rightarrow> BTreeV2LeafNode \<Rightarrow> BTreeV2LeafNode \<Rightarrow> (BTreeV2LeafNode \<times> BTreeV2LeafNode) result" where
  "mergeNodes bt left right =
     (let mergedRecords = bl_Records left @ bl_Records right
      in if length mergedRecords > calculateMaxRecords bt
         then Inl (Errorf ''cannot merge: combined size %d exceeds max %d'')
         else Inr (left\<lparr>bl_Records := mergedRecords\<rparr>, right\<lparr>bl_Records := []\<rparr>))"

definition redistributeRecords :: "BTreeV2LeafNode \<Rightarrow> BTreeV2LeafNode \<Rightarrow> BTreeV2LeafNode \<times> BTreeV2LeafNode" where
  "redistributeRecords left right =
     (let allRecords = bl_Records left @ bl_Records right;
          leftCount = length allRecords div 2
      in (left\<lparr>bl_Records := take leftCount allRecords\<rparr>, right\<lparr>bl_Records := drop leftCount allRecords\<rparr>))"

definition borrowFromLeft :: "BTreeV2LeafNode \<Rightarrow> BTreeV2LeafNode \<Rightarrow> (BTreeV2LeafNode \<times> BTreeV2LeafNode) result" where
  "borrowFromLeft current left =
     (if bl_Records left = [] then Inl (Errorf ''left sibling has no records to borrow'')
      else Inr (current\<lparr>bl_Records := last (bl_Records left) # bl_Records current\<rparr>,
                left\<lparr>bl_Records := butlast (bl_Records left)\<rparr>))"

definition borrowFromRight :: "BTreeV2LeafNode \<Rightarrow> BTreeV2LeafNode \<Rightarrow> (BTreeV2LeafNode \<times> BTreeV2LeafNode) result" where
  "borrowFromRight current right =
     (case bl_Records right of
        [] \<Rightarrow> Inl (Errorf ''right sibling has no records to borrow'')
      | r # rs \<Rightarrow> Inr (current\<lparr>bl_Records := bl_Records current @ [r]\<rparr>, right\<lparr>bl_Records := rs\<rparr>))"

definition getSiblings :: "BTreeV2LeafNode \<Rightarrow> BTreeV2LeafNode option \<times> BTreeV2LeafNode option" where
  "getSiblings node = (None, None)"

section \<open>On disk\<close>

text \<open>
  The package's own \<^verbatim>\<open>writeUint64\<close> and \<^verbatim>\<open>readUint64\<close>: widths other than 1, 2, 4 and 8 leave the zeroed
  bytes and read as zero.
\<close>

definition put_width :: "u64 \<Rightarrow> nat \<Rightarrow> byte_order \<Rightarrow> bytes" where
  "put_width v sz e =
     (if sz = 1 then [ucast v] else if sz = 2 \<or> sz = 4 \<or> sz = 8 then order_put e sz v else zeros sz)"

definition get_width :: "bytes \<Rightarrow> nat \<Rightarrow> byte_order \<Rightarrow> u64" where
  "get_width buf sz e =
     (if sz = 1 then ucast (buf ! 0) else if sz = 2 \<or> sz = 4 \<or> sz = 8 then order_get e (take sz buf) else 0)"

definition calculateHeaderSize :: "Superblock \<Rightarrow> nat" where
  "calculateHeaderSize sb = 30 + unat (OffsetSize sb)"

definition calculateLeafSize :: "WritableBTreeV2 \<Rightarrow> nat" where
  "calculateLeafSize bt = 10 + length (bl_Records (bt_leaf bt)) * 11"

definition header_fields :: "BTreeV2Header \<Rightarrow> Superblock \<Rightarrow> bytes" where
  "header_fields h sb =
     bh_Signature h @ [bh_Version h, bh_Type h] @ le_put 4 (bh_NodeSize h) @ le_put 2 (bh_RecordSize h)
     @ le_put 2 (bh_Depth h) @ [bh_SplitPercent h, bh_MergePercent h]
     @ put_width (bh_RootNodeAddr h) (unat (OffsetSize sb)) (Endianness sb)
     @ le_put 2 (bh_NumRecordsRoot h) @ le_put 8 (bh_TotalRecords h)"

definition encodeHeader :: "WritableBTreeV2 \<Rightarrow> Superblock \<Rightarrow> bytes" where
  "encodeHeader bt sb =
     (let fields = header_fields (bt_header bt) sb in fields @ le_put 4 (JenkinsChecksum fields))"

definition record_bytes :: "LinkNameRecord \<Rightarrow> bytes" where
  "record_bytes r = le_put 4 (NameHash r) @ rec_HeapID r"

definition leaf_fields :: "BTreeV2LeafNode \<Rightarrow> bytes" where
  "leaf_fields l = bl_Signature l @ [bl_Version l, bl_Type l] @ concat (map record_bytes (bl_Records l))"

definition encodeLeafNode :: "WritableBTreeV2 \<Rightarrow> bytes" where
  "encodeLeafNode bt =
     (let fields = leaf_fields (bt_leaf bt) in fields @ le_put 4 (JenkinsChecksum fields))"

definition btree_WriteToFile :: "WritableBTreeV2 \<Rightarrow> FileWriter \<Rightarrow> Superblock \<Rightarrow> (u64 \<times> WritableBTreeV2 \<times> FileWriter) result" where
  "btree_WriteToFile bt w sb =
     (case Allocate (fw_allocator w) (ucast (bt_nodeSize bt)) of
        Inl e \<Rightarrow> Inl (Wrapf ''failed to allocate leaf node: %w'' e)
      | Inr (leafAddr, a) \<Rightarrow>
          (case fw_WriteAtAddress (w\<lparr>fw_allocator := a\<rparr>) (encodeLeafNode bt) leafAddr of
             Inl e \<Rightarrow> Inl (Wrapf ''failed to write leaf node: %w'' e)
           | Inr w \<Rightarrow>
               (case Allocate (fw_allocator w) (of_nat (calculateHeaderSize sb)) of
                  Inl e \<Rightarrow> Inl (Wrapf ''failed to allocate header: %w'' e)
                | Inr (headerAddr, a) \<Rightarrow>
                    let bt = bt\<lparr>bt_header := (bt_header bt)\<lparr>bh_RootNodeAddr := leafAddr\<rparr>\<rparr>
                    in case fw_WriteAtAddress (w\<lparr>fw_allocator := a\<rparr>) (encodeHeader bt sb) headerAddr of
                         Inl e \<Rightarrow> Inl (Wrapf ''failed to write header: %w'' e)
                       | Inr w \<Rightarrow> Inr (headerAddr, bt, w))))"

definition btree_WriteAt :: "WritableBTreeV2 \<Rightarrow> FileWriter \<Rightarrow> Superblock \<Rightarrow> (WritableBTreeV2 \<times> FileWriter) result" where
  "btree_WriteAt bt w sb =
     (if bt_loadedHeaderAddress bt = 0
      then Inl (Errorf ''cannot use WriteAt: B-tree not loaded from file (use WriteToFile for new B-trees)'')
      else case fw_WriteAtAddress w (encodeLeafNode bt) (bt_loadedLeafAddress bt) of
             Inl e \<Rightarrow> Inl (Wrapf ''failed to write leaf node at 0x%X: %w'' e)
           | Inr w \<Rightarrow>
               let bt = bt\<lparr>bt_header := (bt_header bt)\<lparr>bh_RootNodeAddr := bt_loadedLeafAddress bt\<rparr>\<rparr>
               in case fw_WriteAtAddress w (encodeHeader bt sb) (bt_loadedHeaderAddress bt) of
                    Inl e \<Rightarrow> Inl (Wrapf ''failed to write header at 0x%X: %w'' e)
                  | Inr w \<Rightarrow> Inr (bt, w))"

definition readBTreeV2Header :: "bytes \<Rightarrow> u64 \<Rightarrow> Superblock \<Rightarrow> BTreeV2Header result" where
  "readBTreeV2Header f address sb =
     (let osz = unat (OffsetSize sb); sz = 30 + osz
      in case ReadAt f sz address of
           Inl e \<Rightarrow> Inl (if e = Errorf ''EOF'' then Errorf ''incomplete header read: got %d bytes, want %d''
                         else Wrapf ''failed to read header at 0x%X: %w'' e)
         | Inr buf \<Rightarrow>
             if take 4 buf \<noteq> bthd then Inl (Errorf ''invalid B-tree header signature: got %q, want %q'')
             else if buf ! 4 \<noteq> 0 then Inl (Errorf ''unsupported B-tree version: %d'')
             else if le_get (take 4 (drop (26 + osz) buf)) \<noteq> JenkinsChecksum (take (26 + osz) buf)
             then Inl (Errorf ''b-tree header checksum mismatch: got 0x%X, want 0x%X'')
             else Inr \<lparr>bh_Signature = take 4 buf, bh_Version = buf ! 4, bh_Type = buf ! 5,
                       bh_NodeSize = le_get (take 4 (drop 6 buf)), bh_RecordSize = le_get (take 2 (drop 10 buf)),
                       bh_Depth = le_get (take 2 (drop 12 buf)), bh_SplitPercent = buf ! 14, bh_MergePercent = buf ! 15,
                       bh_RootNodeAddr = get_width (take osz (drop 16 buf)) osz (Endianness sb),
                       bh_NumRecordsRoot = le_get (take 2 (drop (16 + osz) buf)),
                       bh_TotalRecords = le_get (take 8 (drop (18 + osz) buf))\<rparr>)"

fun read_records :: "nat \<Rightarrow> bytes \<Rightarrow> LinkNameRecord list" where
  "read_records 0 buf = []"
| "read_records (Suc n) buf =
     \<lparr>NameHash = le_get (take 4 buf), rec_HeapID = take 7 (drop 4 buf)\<rparr> # read_records n (drop 11 buf)"

definition readBTreeV2LeafNode :: "bytes \<Rightarrow> u64 \<Rightarrow> nat \<Rightarrow> (BTreeV2LeafNode \<times> LinkNameRecord list) result" where
  "readBTreeV2LeafNode f address numRecords =
     (let sz = 10 + numRecords * 11
      in case ReadAt f sz address of
           Inl e \<Rightarrow> Inl (if e = Errorf ''EOF'' then Errorf ''incomplete leaf read: got %d bytes, want %d''
                         else Wrapf ''failed to read leaf at 0x%X: %w'' e)
         | Inr buf \<Rightarrow>
             if take 4 buf \<noteq> btlf then Inl (Errorf ''invalid B-tree leaf signature: got %q, want %q'')
             else if buf ! 4 \<noteq> 0 then Inl (Errorf ''unsupported B-tree leaf version: %d'')
             else let records = read_records numRecords (drop 6 buf);
                      offset = 6 + numRecords * 11
                  in if le_get (take 4 (drop offset buf)) \<noteq> JenkinsChecksum (take offset buf)
                     then Inl (Errorf ''b-tree leaf checksum mismatch: got 0x%X, want 0x%X'')
                     else Inr (\<lparr>bl_Signature = take 4 buf, bl_Version = buf ! 4, bl_Type = buf ! 5,
                                bl_Records = records\<rparr>, records))"

definition LoadFromFile :: "WritableBTreeV2 \<Rightarrow> bytes \<Rightarrow> u64 \<Rightarrow> Superblock \<Rightarrow> WritableBTreeV2 result" where
  "LoadFromFile bt f headerAddr sb =
     (case readBTreeV2Header f headerAddr sb of
        Inl e \<Rightarrow> Inl (Wrapf ''failed to read B-tree header: %w'' e)
      | Inr header \<Rightarrow>
          if bh_Type header \<noteq> 5 then Inl (Errorf ''%w: expected type %d, got %d'')
          else if bh_Depth header \<noteq> 0
          then Inl (Errorf ''only single-leaf B-trees are supported (depth 0), got depth %d'')
          else let bt = bt\<lparr>bt_loadedHeaderAddress := headerAddr, bt_loadedLeafAddress := bh_RootNodeAddr header,
                           bt_header := header, bt_nodeSize := bh_NodeSize header\<rparr>
               in if bh_NumRecordsRoot header > 0
                  then (case readBTreeV2LeafNode f (bh_RootNodeAddr header) (unat (bh_NumRecordsRoot header)) of
                          Inl e \<Rightarrow> Inl (Wrapf ''failed to read leaf node: %w'' e)
                        | Inr (leaf, records) \<Rightarrow> Inr (bt\<lparr>bt_leaf := leaf, bt_records := records\<rparr>))
                  else Inr (bt\<lparr>bt_leaf := empty_leaf, bt_records := []\<rparr>))"

section \<open>The invariant\<close>

abbreviation hashes :: "WritableBTreeV2 \<Rightarrow> u32 list" where
  "hashes bt \<equiv> map NameHash (bt_records bt)"

definition header_ok :: "BTreeV2Header \<Rightarrow> bool" where
  "header_ok h \<longleftrightarrow> bh_Signature h = bthd \<and> bh_Version h = 0 \<and> bh_Type h = 5 \<and> bh_Depth h = 0"

definition leaf_ok :: "BTreeV2LeafNode \<Rightarrow> bool" where
  "leaf_ok l \<longleftrightarrow> bl_Signature l = btlf \<and> bl_Version l = 0 \<and> bl_Type l = 5 \<and> (\<forall>r\<in>set (bl_Records l). length (rec_HeapID r) = 7)"

definition bt_inv :: "WritableBTreeV2 \<Rightarrow> bool" where
  "bt_inv bt \<longleftrightarrow>
     sorted (hashes bt) \<and> bl_Records (bt_leaf bt) = bt_records bt \<and> leaf_ok (bt_leaf bt) \<and> header_ok (bt_header bt)
     \<and> bh_NodeSize (bt_header bt) = bt_nodeSize bt \<and> unat (bh_NumRecordsRoot (bt_header bt)) = length (bt_records bt)
     \<and> unat (bh_TotalRecords (bt_header bt)) = length (bt_records bt)
     \<and> 10 + 11 * length (bt_records bt) \<le> unat (bt_nodeSize bt) \<and> unat (bt_nodeSize bt) < 720906"

lemma max_records: "10 \<le> unat (bt_nodeSize bt) \<Longrightarrow> calculateMaxRecords bt = (unat (bt_nodeSize bt) - 10) div 11"
  unfolding calculateMaxRecords_def unat_div by (subst unat_sub) (simp_all add: word_le_nat_alt)

lemma insertRecordSorted_mset: "mset (insertRecordSorted xs r) = add_mset r (mset xs)"
  by (induction xs) auto

lemma insertRecordSorted_hashes:
  "mset (map NameHash (insertRecordSorted xs r)) = add_mset (NameHash r) (mset (map NameHash xs))"
  by (induction xs) auto

lemma insertRecordSorted_set: "set (insertRecordSorted xs r) = insert r (set xs)"
  using arg_cong [OF insertRecordSorted_mset, of set_mset xs r] by simp

lemma insertRecordSorted_length: "length (insertRecordSorted xs r) = Suc (length xs)"
  using arg_cong [OF insertRecordSorted_mset, of size xs r] by simp

lemma insertRecordSorted_sorted: "sorted (map NameHash xs) \<Longrightarrow> sorted (map NameHash (insertRecordSorted xs r))"
  by (induction xs) (auto simp: insertRecordSorted_set)

lemma unat_Suc_word: "Suc (unat w) < 2 ^ LENGTH('a) \<Longrightarrow> unat (w + 1 :: 'a::len word) = Suc (unat w)"
proof -
  assume a: "Suc (unat w) < 2 ^ LENGTH('a)"
  have "w + 1 = of_nat (Suc (unat w))" by simp
  then show ?thesis using a by (metis unat_of_nat_less)
qed

lemma unat_pred_word: "unat w = Suc n \<Longrightarrow> unat (w - 1 :: 'a::len word) = n"
proof -
  assume a: "unat w = Suc n"
  have "unat w < 2 ^ LENGTH('a)" by (rule unsigned_less)
  then have n: "n < 2 ^ LENGTH('a)" using a by simp
  have "of_nat (unat w) = w" by simp
  then have "w - 1 = of_nat n" unfolding a by (metis add_diff_cancel_left' of_nat_Suc)
  then show ?thesis using n by (metis unat_of_nat_less)
qed

lemma length_heap_id7 [simp]: "length (heap_id7 h) = 7"
  by (simp add: heap_id7_def del: le_put_numeral)

lemma InsertRecord_inv:
  assumes inv: "bt_inv bt" and ins: "InsertRecord bt n h = Inr bt'"
  shows "bt_inv bt'" "bt_records bt' = insertRecordSorted (bt_records bt) \<lparr>NameHash = jenkinsHash n, rec_HeapID = heap_id7 h\<rparr>"
proof -
  let ?l = "length (bt_records bt)"
  have sz: "10 + 11 * ?l \<le> unat (bt_nodeSize bt)" "unat (bt_nodeSize bt) < 720906" using inv by (simp_all add: bt_inv_def)
  then have "calculateMaxRecords bt = (unat (bt_nodeSize bt) - 10) div 11" by (intro max_records) simp
  then have "?l < (unat (bt_nodeSize bt) - 10) div 11" using ins by (auto simp: InsertRecord_def Let_def split: if_splits)
  then have "11 * Suc ?l \<le> unat (bt_nodeSize bt) - 10" by (metis Suc_leI less_eq_div_iff_mult_less_eq mult.commute zero_less_numeral)
  then have room: "10 + 11 * Suc ?l \<le> unat (bt_nodeSize bt)" using sz by simp
  let ?r = "\<lparr>NameHash = jenkinsHash n, rec_HeapID = heap_id7 h\<rparr>"
  let ?rs = "insertRecordSorted (bt_records bt) ?r"
  have bt': "bt' = bt\<lparr>bt_records := ?rs,
      bt_header := (bt_header bt)\<lparr>bh_TotalRecords := bh_TotalRecords (bt_header bt) + 1,
                                  bh_NumRecordsRoot := bh_NumRecordsRoot (bt_header bt) + 1\<rparr>,
      bt_leaf := (bt_leaf bt)\<lparr>bl_Records := ?rs\<rparr>\<rparr>"
    using ins by (auto simp: InsertRecord_def Let_def split: if_splits)
  have c: "unat (bh_NumRecordsRoot (bt_header bt) + 1) = Suc ?l" "unat (bh_TotalRecords (bt_header bt) + 1) = Suc ?l"
    using inv room sz by (simp_all add: bt_inv_def unat_Suc_word)
  show "bt_records bt' = ?rs" by (simp add: bt')
  show "bt_inv bt'"
    using inv room c unfolding bt'
    by (auto simp: bt_inv_def insertRecordSorted_sorted insertRecordSorted_length insertRecordSorted_set leaf_ok_def header_ok_def)
qed

lemma update_first_some:
  "update_first h hid xs = Some ys \<Longrightarrow>
   map NameHash ys = map NameHash xs \<and> (\<forall>y\<in>set ys. y \<in> set xs \<or> rec_HeapID y = hid)"
  by (induction xs arbitrary: ys) (auto split: if_splits)

lemma UpdateRecord_inv:
  assumes "bt_inv bt" "UpdateRecord bt n h = Inr bt'"
  shows "bt_inv bt'"
proof -
  obtain ys where y: "update_first (jenkinsHash n) (heap_id7 h) (bt_records bt) = Some ys"
    "bt' = bt\<lparr>bt_records := ys, bt_leaf := (bt_leaf bt)\<lparr>bl_Records := ys\<rparr>\<rparr>"
    using assms(2) by (auto simp: UpdateRecord_def split: option.splits)
  note u = update_first_some [OF y(1)]
  then have "length ys = length (bt_records bt)" by (metis length_map)
  then show ?thesis using assms(1) u unfolding y(2) by (auto simp: bt_inv_def leaf_ok_def)
qed

lemma remove_first_some:
  "remove_first h xs = Some ys \<Longrightarrow> \<exists>as x bs. xs = as @ x # bs \<and> ys = as @ bs \<and> NameHash x = h \<and> h \<notin> NameHash ` set as"
proof (induction xs arbitrary: ys)
  case (Cons x xs)
  show ?case
  proof (cases "NameHash x = h")
    case True
    then show ?thesis using Cons.prems by (intro exI [of _ "[]"]) auto
  next
    case False
    then obtain zs where z: "remove_first h xs = Some zs" "ys = x # zs" using Cons.prems by auto
    from Cons.IH [OF z(1)] obtain as y bs where "xs = as @ y # bs" "zs = as @ bs" "NameHash y = h" "h \<notin> NameHash ` set as" by blast
    then show ?thesis using z False by (intro exI [of _ "x # as"]) auto
  qed
qed simp

lemma drop_record_inv:
  assumes "bt_inv bt" "remove_first h (bt_records bt) = Some rs"
  shows "bt_inv (drop_record bt rs)"
proof -
  obtain as x bs where s: "bt_records bt = as @ x # bs" "rs = as @ bs" using remove_first_some [OF assms(2)] by blast
  have c: "unat (bh_NumRecordsRoot (bt_header bt) - 1) = length rs" "unat (bh_TotalRecords (bt_header bt) - 1) = length rs"
    using assms(1) s by (simp_all add: bt_inv_def unat_pred_word)
  have "sorted (map NameHash rs)" using assms(1) s by (auto simp: bt_inv_def sorted_append)
  moreover have "\<forall>r\<in>set rs. length (rec_HeapID r) = 7" using assms(1) s by (auto simp: bt_inv_def leaf_ok_def)
  ultimately show ?thesis
    using assms(1) c s by (auto simp: bt_inv_def drop_record_def leaf_ok_def header_ok_def)
qed

lemma DeleteRecord_cases:
  assumes "bt_inv bt" "DeleteRecord bt n = Inr bt'"
  obtains rs where "remove_first (jenkinsHash n) (bt_records bt) = Some rs" "bt' = drop_record bt rs" "bt_inv bt'"
proof -
  obtain rs where rs: "remove_first (jenkinsHash n) (bt_records bt) = Some rs"
    using assms(2) by (auto simp: DeleteRecord_def DeleteRecordWithRebalancing_def split: option.splits)
  then have "bt' = drop_record bt rs"
    using assms(2) by (auto simp: DeleteRecord_def DeleteRecordWithRebalancing_def handleRootDepthDecrease_def Let_def split: if_splits)
  then show thesis using rs drop_record_inv [OF assms(1) rs] that by blast
qed

section \<open>Reachable trees\<close>

inductive bt_run :: "u32 \<Rightarrow> WritableBTreeV2 \<Rightarrow> bool" for nodeSize :: u32 where
  new: "bt_run nodeSize (NewWritableBTreeV2 nodeSize)"
| insert: "bt_run nodeSize bt \<Longrightarrow> InsertRecord bt n h = Inr bt' \<Longrightarrow> bt_run nodeSize bt'"
| update: "bt_run nodeSize bt \<Longrightarrow> UpdateRecord bt n h = Inr bt' \<Longrightarrow> bt_run nodeSize bt'"
| delete: "bt_run nodeSize bt \<Longrightarrow> DeleteRecord bt n = Inr bt' \<Longrightarrow> bt_run nodeSize bt'"

lemma new_inv: "nodeSize = 0 \<or> 10 \<le> nodeSize \<and> nodeSize < 720906 \<Longrightarrow> bt_inv (NewWritableBTreeV2 nodeSize)"
  by (auto simp: bt_inv_def NewWritableBTreeV2_def empty_leaf_def leaf_ok_def header_ok_def Let_def word_le_nat_alt word_less_nat_alt)

lemma bt_run_inv:
  assumes "bt_run nodeSize bt" "nodeSize = 0 \<or> 10 \<le> nodeSize \<and> nodeSize < 720906"
  shows "bt_inv bt"
  using assms(1)
proof (induction rule: bt_run.induct)
  case new
  then show ?case by (rule new_inv [OF assms(2)])
next
  case insert
  then show ?case using InsertRecord_inv by blast
next
  case update
  then show ?case using UpdateRecord_inv by blast
next
  case delete
  then show ?case using DeleteRecord_cases by blast
qed

text \<open>
  C8. Every tree reached from a new one by inserting, updating and deleting records keeps its
  invariants, for node sizes whose record count fits the 16-bit counter: the records are sorted by
  hash, the leaf holds them, both record counts of the header are exact, the encoded leaf fits the
  space reserved for the node, and an insertion fails only when the node cannot hold another record.
\<close>
theorem btree_invariant:
  assumes "bt_run nodeSize bt" "nodeSize = 0 \<or> 10 \<le> nodeSize \<and> nodeSize < 720906"
  shows "sorted (hashes bt) \<and> bl_Records (bt_leaf bt) = bt_records bt
     \<and> unat (bh_NumRecordsRoot (bt_header bt)) = length (bt_records bt)
     \<and> unat (bh_TotalRecords (bt_header bt)) = length (bt_records bt)
     \<and> length (encodeLeafNode bt) \<le> unat (bt_nodeSize bt)
     \<and> ((\<exists>e. InsertRecord bt n h = Inl e) \<longleftrightarrow> unat (bt_nodeSize bt) < 10 + 11 * (length (bt_records bt) + 1))"
proof -
  have inv: "bt_inv bt" by (rule bt_run_inv [OF assms])
  let ?n = "unat (bt_nodeSize bt)" and ?l = "length (bt_records bt)"
  have rec: "\<forall>r\<in>set (bt_records bt). length (record_bytes r) = 11"
    using inv by (auto simp: bt_inv_def leaf_ok_def record_bytes_def simp del: le_put_numeral)
  have "length (concat (map record_bytes (bt_records bt))) = 11 * ?l"
    using rec by (intro length_concat_const) blast
  then have "length (encodeLeafNode bt) = 10 + 11 * ?l"
    using inv by (simp add: encodeLeafNode_def Let_def leaf_fields_def bt_inv_def leaf_ok_def del: le_put_numeral)
  moreover have "calculateMaxRecords bt = (?n - 10) div 11" using inv by (intro max_records) (simp add: bt_inv_def)
  then have "(\<exists>e. InsertRecord bt n h = Inl e) \<longleftrightarrow> (?n - 10) div 11 \<le> ?l" by (auto simp: InsertRecord_def Let_def)
  moreover have "(?n - 10) div 11 \<le> ?l \<longleftrightarrow> ?n - 10 < 11 * (?l + 1)"
    by (metis Suc_eq_plus1 div_less_iff_less_mult less_Suc_eq_le mult.commute zero_less_numeral)
  ultimately show ?thesis using inv by (auto simp: bt_inv_def)
qed

theorem btree_invariant_witness:
  "\<exists>bt. bt_run 64 bt \<and> InsertRecord (NewWritableBTreeV2 64) [97] 5 = Inr bt \<and> length (encodeLeafNode bt) \<le> unat (bt_nodeSize bt)"
proof -
  have "calculateMaxRecords (NewWritableBTreeV2 64) = 4" by (simp add: calculateMaxRecords_def NewWritableBTreeV2_def)
  then obtain bt where b: "InsertRecord (NewWritableBTreeV2 64) [97] 5 = Inr bt"
    by (auto simp: InsertRecord_def NewWritableBTreeV2_def Let_def)
  have "bt_run 64 bt" by (rule bt_run.insert [OF bt_run.new b])
  moreover have "length (encodeLeafNode bt) \<le> unat (bt_nodeSize bt)"
    using btree_invariant [OF \<open>bt_run 64 bt\<close>, of "[]" 0] by simp
  ultimately show ?thesis using b by blast
qed

section \<open>The contract of a name index\<close>

text \<open>
  What the dense storage of links and attributes relies on: a finite map from name keys to heap ids.
  A program over the index is a list of calls; new names are only inserted where they are absent.
\<close>

datatype index_op = Ins bytes u64 | Upd bytes u64 | Del bytes

locale name_index =
  fixes invar :: "'s \<Rightarrow> bool"
    and key :: "bytes \<Rightarrow> 'k"
    and enc :: "u64 \<Rightarrow> bytes"
    and search :: "'s \<Rightarrow> bytes \<Rightarrow> bytes option"
    and ins :: "'s \<Rightarrow> bytes \<Rightarrow> u64 \<Rightarrow> 's result"
    and upd :: "'s \<Rightarrow> bytes \<Rightarrow> u64 \<Rightarrow> 's result"
    and del :: "'s \<Rightarrow> bytes \<Rightarrow> 's result"
  assumes ins_law: "invar s \<Longrightarrow> search s n = None \<Longrightarrow> ins s n h = Inr s' \<Longrightarrow>
      invar s' \<and> search s' m = (if key m = key n then Some (enc h) else search s m)"
    and upd_law: "invar s \<Longrightarrow> upd s n h = Inr s' \<Longrightarrow>
      invar s' \<and> search s n \<noteq> None \<and> search s' m = (if key m = key n then Some (enc h) else search s m)"
    and del_law: "invar s \<Longrightarrow> del s n = Inr s' \<Longrightarrow>
      invar s' \<and> search s n \<noteq> None \<and> search s' m = (if key m = key n then None else search s m)"
    and upd_total: "invar s \<Longrightarrow> search s n \<noteq> None \<Longrightarrow> \<exists>s'. upd s n h = Inr s'"
    and del_total: "invar s \<Longrightarrow> search s n \<noteq> None \<Longrightarrow> \<exists>s'. del s n = Inr s'"
begin

fun exec :: "'s \<Rightarrow> index_op \<Rightarrow> 's result" where
  "exec s (Ins n h) = (if search s n = None then ins s n h else Inl (Errorf ''exists''))"
| "exec s (Upd n h) = upd s n h"
| "exec s (Del n) = del s n"

fun exec_all :: "'s \<Rightarrow> index_op list \<Rightarrow> 's result" where
  "exec_all s [] = Inr s"
| "exec_all s (x # xs) = (case exec s x of Inl e \<Rightarrow> Inl e | Inr s' \<Rightarrow> exec_all s' xs)"

fun spec :: "('k \<Rightarrow> bytes option) \<Rightarrow> index_op \<Rightarrow> 'k \<Rightarrow> bytes option" where
  "spec m (Ins n h) = m(key n := Some (enc h))"
| "spec m (Upd n h) = m(key n := Some (enc h))"
| "spec m (Del n) = m(key n := None)"

lemma exec_refines:
  assumes "invar s" "exec s x = Inr s'" "\<And>n. search s n = m (key n)"
  shows "invar s' \<and> search s' n = spec m x (key n)"
proof (cases x)
  case (Ins k h)
  then have "search s k = None" "ins s k h = Inr s'" using assms(2) by (auto split: if_splits)
  then show ?thesis using ins_law [OF assms(1), of k h s' n] assms(3) Ins by simp
next
  case (Upd k h)
  then show ?thesis using upd_law [OF assms(1), of k h s' n] assms(2,3) by simp
next
  case (Del k)
  then show ?thesis using del_law [OF assms(1), of k s' n] assms(2,3) by simp
qed

lemma exec_all_refines:
  assumes "invar s" "exec_all s xs = Inr s'" "\<And>n. search s n = m (key n)"
  shows "invar s' \<and> search s' n = foldl spec m xs (key n)"
  using assms
proof (induction xs arbitrary: s m)
  case Nil
  then show ?case by simp
next
  case (Cons x xs)
  then obtain t where t: "exec s x = Inr t" "exec_all t xs = Inr s'" by (auto split: sum.splits)
  have "invar t" "\<And>n. search t n = spec m x (key n)" using exec_refines [OF Cons.prems(1) t(1)] Cons.prems(3) by blast+
  from Cons.IH [OF this(1) t(2) this(2)] show ?case by simp
qed

end

definition uniq_inv :: "WritableBTreeV2 \<Rightarrow> bool" where
  "uniq_inv bt \<longleftrightarrow> bt_inv bt \<and> distinct (hashes bt)"

lemma find_insertRecordSorted:
  "NameHash r \<notin> NameHash ` set xs \<Longrightarrow>
   find (\<lambda>x. NameHash x = k) (insertRecordSorted xs r) = (if NameHash r = k then Some r else find (\<lambda>x. NameHash x = k) xs)"
  by (induction xs) auto

lemma find_update_first:
  "update_first h hid xs = Some ys \<Longrightarrow>
   map_option rec_HeapID (find (\<lambda>x. NameHash x = k) ys)
     = (if h = k then Some hid else map_option rec_HeapID (find (\<lambda>x. NameHash x = k) xs))"
  by (induction xs arbitrary: ys) (auto split: if_splits)

lemma find_remove_first:
  "remove_first h xs = Some ys \<Longrightarrow> distinct (map NameHash xs) \<Longrightarrow>
   find (\<lambda>x. NameHash x = k) ys = (if h = k then None else find (\<lambda>x. NameHash x = k) xs)"
  by (induction xs arbitrary: ys) (auto simp: find_None_iff image_iff split: if_splits)

lemma SearchRecord_alt:
  "SearchRecord bt n = map_option (\<lambda>i. i @ [0]) (map_option rec_HeapID (find (\<lambda>x. NameHash x = jenkinsHash n) (bt_records bt)))"
  by (simp add: SearchRecord_def option.map_comp comp_def)

lemma SearchRecord_None: "SearchRecord bt n = None \<longleftrightarrow> jenkinsHash n \<notin> NameHash ` set (bt_records bt)"
  by (auto simp: SearchRecord_def find_None_iff image_iff)

lemma HasKey_iff: "HasKey bt n \<longleftrightarrow> SearchRecord bt n \<noteq> None"
  unfolding HasKey_def SearchRecord_None list_ex_iff image_iff by metis

lemma update_first_None: "update_first h hid xs = None \<longleftrightarrow> h \<notin> NameHash ` set xs"
  by (induction xs) auto

lemma remove_first_None: "remove_first h xs = None \<longleftrightarrow> h \<notin> NameHash ` set xs"
  by (induction xs) auto

interpretation link_index: name_index uniq_inv jenkinsHash "\<lambda>h. heap_id7 h @ [0]" SearchRecord InsertRecord UpdateRecord DeleteRecord
proof
  fix s n h s' m
  assume inv: "uniq_inv s" and none: "SearchRecord s n = None" and ins: "InsertRecord s n h = Inr s'"
  note e = InsertRecord_inv [OF _ ins]
  have fresh: "jenkinsHash n \<notin> NameHash ` set (bt_records s)" using none by (simp add: SearchRecord_None)
  have "distinct (hashes s')"
  proof -
    have "mset (hashes s') = mset (jenkinsHash n # hashes s)"
      using e(2) inv insertRecordSorted_hashes [of "bt_records s" "\<lparr>NameHash = jenkinsHash n, rec_HeapID = heap_id7 h\<rparr>"]
      by (simp add: uniq_inv_def)
    moreover have "distinct (jenkinsHash n # hashes s)" using inv fresh by (simp add: uniq_inv_def)
    ultimately show ?thesis by (metis mset_eq_imp_distinct_iff)
  qed
  then show "uniq_inv s' \<and> SearchRecord s' m = (if jenkinsHash m = jenkinsHash n then Some (heap_id7 h @ [0]) else SearchRecord s m)"
    using inv e fresh by (auto simp: uniq_inv_def SearchRecord_def find_insertRecordSorted)
next
  fix s n h s' m
  assume inv: "uniq_inv s" and upd: "UpdateRecord s n h = Inr s'"
  obtain ys where y: "update_first (jenkinsHash n) (heap_id7 h) (bt_records s) = Some ys" "bt_records s' = ys"
    using upd by (auto simp: UpdateRecord_def split: option.splits)
  have "jenkinsHash n \<in> NameHash ` set (bt_records s)" using y(1) by (metis update_first_None option.distinct(1))
  then have "SearchRecord s n \<noteq> None" by (simp add: SearchRecord_None)
  moreover have "distinct (hashes s')" using inv update_first_some [OF y(1)] y(2) by (simp add: uniq_inv_def)
  ultimately show "uniq_inv s' \<and> SearchRecord s n \<noteq> None \<and>
      SearchRecord s' m = (if jenkinsHash m = jenkinsHash n then Some (heap_id7 h @ [0]) else SearchRecord s m)"
    using inv UpdateRecord_inv [OF _ upd] find_update_first [OF y(1), of "jenkinsHash m"]
    by (simp add: uniq_inv_def SearchRecord_alt y(2) eq_commute [of "jenkinsHash n"])
next
  fix s n s' m
  assume inv: "uniq_inv s" and del: "DeleteRecord s n = Inr s'"
  obtain rs where r: "remove_first (jenkinsHash n) (bt_records s) = Some rs" "s' = drop_record s rs" "bt_inv s'"
    using DeleteRecord_cases [OF _ del] inv by (auto simp: uniq_inv_def)
  have "jenkinsHash n \<in> NameHash ` set (bt_records s)" using r(1) by (metis remove_first_None option.distinct(1))
  then have "SearchRecord s n \<noteq> None" by (simp add: SearchRecord_None)
  moreover have "distinct (hashes s')" using remove_first_some [OF r(1)] inv r(2) by (auto simp: uniq_inv_def drop_record_def)
  ultimately show "uniq_inv s' \<and> SearchRecord s n \<noteq> None \<and>
      SearchRecord s' m = (if jenkinsHash m = jenkinsHash n then None else SearchRecord s m)"
    using inv r find_remove_first [OF r(1), of "jenkinsHash m"]
    by (simp add: uniq_inv_def SearchRecord_def drop_record_def eq_commute [of "jenkinsHash n"])
next
  fix s n h
  assume "uniq_inv s" "SearchRecord s n \<noteq> None"
  then show "\<exists>s'. UpdateRecord s n h = Inr s'"
    using update_first_None [of "jenkinsHash n" "heap_id7 h" "bt_records s"]
    by (cases "update_first (jenkinsHash n) (heap_id7 h) (bt_records s)") (simp_all add: UpdateRecord_def SearchRecord_None)
next
  fix s n
  assume "uniq_inv s" "SearchRecord s n \<noteq> None"
  then show "\<exists>s'. DeleteRecord s n = Inr s'"
    using remove_first_None [of "jenkinsHash n" "bt_records s"]
    by (cases "remove_first (jenkinsHash n) (bt_records s)")
      (simp_all add: DeleteRecord_def DeleteRecordWithRebalancing_def handleRootDepthDecrease_def Let_def SearchRecord_None)
qed



section \<open>Reading back what was written\<close>

lemma length_put_width [simp]: "length (put_width v sz e) = sz"
  by (auto simp: put_width_def simp del: order_put.simps)

lemma get_put_width:
  assumes "sz \<in> {1, 2, 4, 8}" "fits_width sz v"
  shows "get_width (put_width v sz e) sz e = v"
proof -
  have "put_width v sz e = writeUint64 v sz e" using assms(1)
    by (auto simp: put_width_def writeUint64_def simp del: order_put.simps le_put_numeral)
  moreover have "get_width (put_width v sz e) sz e = readUint64 (put_width v sz e) sz e"
    using assms(1) by (auto simp: get_width_def readUint64_def simp del: order_get.simps)
  ultimately show ?thesis using readUint64_writeUint64 [OF assms, of e "[]"] by simp
qed

lemma read_records_concat:
  "\<forall>r\<in>set rs. length (rec_HeapID r) = 7 \<Longrightarrow> read_records (length rs) (concat (map record_bytes rs) @ post) = rs"
  by (induction rs) (simp_all add: record_bytes_def del: le_put_numeral)

lemma length_header_fields:
  "header_ok h \<Longrightarrow> length (header_fields h sb) = 26 + unat (OffsetSize sb)"
  by (simp add: header_ok_def header_fields_def del: le_put_numeral)

lemma readBTreeV2Header_encode:
  assumes h: "header_ok (bt_header bt)" and sz: "unat (OffsetSize sb) \<in> {1, 2, 4, 8}"
    and fits: "fits_width (unat (OffsetSize sb)) (bh_RootNodeAddr (bt_header bt))"
    and read: "ReadAt f (30 + unat (OffsetSize sb)) addr = Inr (encodeHeader bt sb)"
  shows "readBTreeV2Header f addr sb = Inr (bt_header bt)"
proof -
  let ?o = "unat (OffsetSize sb)" and ?h = "bt_header bt" and ?b = "encodeHeader bt sb"
  let ?a = "put_width (bh_RootNodeAddr ?h) ?o (Endianness sb)"
  have b: "?b = bthd @ [0, 5] @ le_put 4 (bh_NodeSize ?h) @ le_put 2 (bh_RecordSize ?h) @ le_put 2 (bh_Depth ?h)
      @ [bh_SplitPercent ?h, bh_MergePercent ?h] @ ?a @ le_put 2 (bh_NumRecordsRoot ?h) @ le_put 8 (bh_TotalRecords ?h)
      @ le_put 4 (JenkinsChecksum (header_fields ?h sb))"
    using h by (simp add: encodeHeader_def Let_def header_fields_def header_ok_def del: le_put_numeral)
  have len: "length (header_fields ?h sb) = 26 + ?o" by (rule length_header_fields [OF h])
  have t: "take (26 + ?o) ?b = header_fields ?h sb" "take 4 (drop (26 + ?o) ?b) = le_put 4 (JenkinsChecksum (header_fields ?h sb))"
    using len by (simp_all add: encodeHeader_def Let_def del: le_put_numeral)
  have f: "take 4 ?b = bthd" "?b ! 4 = 0" "?b ! 5 = 5" "take 4 (drop 6 ?b) = le_put 4 (bh_NodeSize ?h)"
      "take 2 (drop 10 ?b) = le_put 2 (bh_RecordSize ?h)" "take 2 (drop 12 ?b) = le_put 2 (bh_Depth ?h)"
      "?b ! 14 = bh_SplitPercent ?h" "?b ! 15 = bh_MergePercent ?h"
    unfolding b by (simp_all add: nth_append del: le_put_numeral)
  have d: "drop 16 ?b = ?a @ le_put 2 (bh_NumRecordsRoot ?h) @ le_put 8 (bh_TotalRecords ?h)
      @ le_put 4 (JenkinsChecksum (header_fields ?h sb))"
    unfolding b by (simp del: le_put_numeral)
  have d': "drop (16 + ?o) ?b = drop ?o (drop 16 ?b)" "drop (18 + ?o) ?b = drop 2 (drop ?o (drop 16 ?b))"
    by (simp_all add: add.commute)
  have r: "take ?o (drop 16 ?b) = ?a" "take 2 (drop (16 + ?o) ?b) = le_put 2 (bh_NumRecordsRoot ?h)"
      "take 8 (drop (18 + ?o) ?b) = le_put 8 (bh_TotalRecords ?h)"
    unfolding d' d by (simp_all del: le_put_numeral)
  have g: "get_width ?a ?o (Endianness sb) = bh_RootNodeAddr ?h" by (rule get_put_width [OF sz fits])
  show ?thesis
    using h by (simp add: readBTreeV2Header_def Let_def read t f r g header_ok_def del: le_put_numeral)
qed

lemma readBTreeV2LeafNode_encode:
  assumes l: "leaf_ok (bt_leaf bt)" and n: "n = length (bl_Records (bt_leaf bt))"
    and read: "ReadAt f (10 + n * 11) addr = Inr (encodeLeafNode bt)"
  shows "readBTreeV2LeafNode f addr n = Inr (bt_leaf bt, bl_Records (bt_leaf bt))"
proof -
  let ?l = "bt_leaf bt" and ?b = "encodeLeafNode bt"
  have rec: "\<forall>r\<in>set (bl_Records ?l). length (rec_HeapID r) = 7" using l by (simp add: leaf_ok_def)
  then have lr: "length (concat (map record_bytes (bl_Records ?l))) = 11 * n"
    unfolding n by (intro length_concat_const) (simp add: record_bytes_def del: le_put_numeral)
  have b: "?b = btlf @ [0, 5] @ concat (map record_bytes (bl_Records ?l)) @ le_put 4 (JenkinsChecksum (leaf_fields ?l))"
    using l by (simp add: encodeLeafNode_def Let_def leaf_fields_def leaf_ok_def del: le_put_numeral)
  have len: "length (leaf_fields ?l) = 6 + n * 11" using l lr by (simp add: leaf_fields_def leaf_ok_def)
  have t: "take (6 + n * 11) ?b = leaf_fields ?l" "take 4 (drop (6 + n * 11) ?b) = le_put 4 (JenkinsChecksum (leaf_fields ?l))"
    using len by (simp_all add: encodeLeafNode_def Let_def del: le_put_numeral)
  have f: "take 4 ?b = btlf" "?b ! 4 = 0" "?b ! 5 = 5" "read_records n (drop 6 ?b) = bl_Records ?l"
    unfolding b using read_records_concat [OF rec] n by (simp_all add: nth_append del: le_put_numeral)
  have "\<lparr>bl_Signature = btlf, bl_Version = 0, bl_Type = 5, bl_Records = bl_Records ?l\<rparr> = ?l" using l by (simp add: leaf_ok_def)
  then show ?thesis using l by (simp add: readBTreeV2LeafNode_def Let_def read t f del: le_put_numeral)
qed

lemma LoadFromFile_encode:
  assumes inv: "bt_inv bt" and sz: "unat (OffsetSize sb) \<in> {1, 2, 4, 8}"
    and fits: "fits_width (unat (OffsetSize sb)) (bh_RootNodeAddr (bt_header bt))"
    and hdr: "ReadAt f (30 + unat (OffsetSize sb)) addr = Inr (encodeHeader bt sb)"
    and leaf: "ReadAt f (10 + length (bt_records bt) * 11) (bh_RootNodeAddr (bt_header bt)) = Inr (encodeLeafNode bt)"
  shows "LoadFromFile bt0 f addr sb
       = Inr (bt\<lparr>bt_loadedHeaderAddress := addr, bt_loadedLeafAddress := bh_RootNodeAddr (bt_header bt)\<rparr>)"
proof -
  have h: "readBTreeV2Header f addr sb = Inr (bt_header bt)"
    using inv by (intro readBTreeV2Header_encode [OF _ sz fits hdr]) (simp add: bt_inv_def)
  have ok: "header_ok (bt_header bt)" "leaf_ok (bt_leaf bt)" "bl_Records (bt_leaf bt) = bt_records bt"
    "bh_NodeSize (bt_header bt) = bt_nodeSize bt" "unat (bh_NumRecordsRoot (bt_header bt)) = length (bt_records bt)"
    using inv by (simp_all add: bt_inv_def)
  show ?thesis
  proof (cases "bh_NumRecordsRoot (bt_header bt) = 0")
    case True
    then have "bt_records bt = []" using ok(5) by simp
    moreover have "bt_leaf bt = empty_leaf" using ok(2,3) \<open>bt_records bt = []\<close> by (simp add: leaf_ok_def empty_leaf_def)
    ultimately show ?thesis using True h ok by (simp add: LoadFromFile_def header_ok_def Let_def)
  next
    case False
    then have "0 < bh_NumRecordsRoot (bt_header bt)" by (simp add: word_neq_0_conv)
    moreover have "readBTreeV2LeafNode f (bh_RootNodeAddr (bt_header bt)) (unat (bh_NumRecordsRoot (bt_header bt)))
        = Inr (bt_leaf bt, bt_records bt)"
      using readBTreeV2LeafNode_encode [OF ok(2) refl] leaf ok(3,5) by simp
    ultimately show ?thesis using h ok by (simp add: LoadFromFile_def header_ok_def Let_def)
  qed
qed

lemma length_encodeLeafNode: "bt_inv bt \<Longrightarrow> length (encodeLeafNode bt) = 10 + length (bt_records bt) * 11"
proof -
  assume inv: "bt_inv bt"
  then have "\<forall>r\<in>set (bt_records bt). length (record_bytes r) = 11"
    by (auto simp: bt_inv_def leaf_ok_def record_bytes_def simp del: le_put_numeral)
  then have "length (concat (map record_bytes (bt_records bt))) = 11 * length (bt_records bt)"
    by (intro length_concat_const) blast
  then show ?thesis using inv
    by (simp add: encodeLeafNode_def Let_def leaf_fields_def bt_inv_def leaf_ok_def del: le_put_numeral)
qed

lemma length_encodeHeader: "bt_inv bt \<Longrightarrow> length (encodeHeader bt sb) = 30 + unat (OffsetSize sb)"
  by (simp add: encodeHeader_def Let_def length_header_fields bt_inv_def del: le_put_numeral)

lemma bt_inv_root: "bt_inv bt \<Longrightarrow> bt_inv (bt\<lparr>bt_header := (bt_header bt)\<lparr>bh_RootNodeAddr := a\<rparr>\<rparr>)"
  by (simp add: bt_inv_def header_ok_def)

lemma encodeLeafNode_root [simp]: "encodeLeafNode (bt\<lparr>bt_header := h\<rparr>) = encodeLeafNode bt"
  by (simp add: encodeLeafNode_def)

lemma stored_nonempty_read:
  "stored w p d \<Longrightarrow> n = length d \<Longrightarrow> ReadAt (contents w) n p = Inr d"
  using stored_ReadAt by blast

text \<open>Writing a tree: both parts are stored in new space, and nothing stored before is lost.\<close>

lemma btree_WriteToFile_effect:
  assumes "bt_inv bt" "writer_ok w" "OffsetSize sb = 8"
    "unat (fw_EndOfFile w) + unat (bt_nodeSize bt) + 38 < 2 ^ 63"
  obtains la ha a w' where
    "btree_WriteToFile bt w sb = Inr (ha, bt\<lparr>bt_header := (bt_header bt)\<lparr>bh_RootNodeAddr := la\<rparr>\<rparr>, w')"
    "Allocate (fw_allocator w) (ucast (bt_nodeSize bt)) = Inr (la, a)" "Allocate a 38 = Inr (ha, fw_allocator w')" "writer_ok w'"
    "stored w' la (encodeLeafNode bt)" "stored w' ha (encodeHeader (bt\<lparr>bt_header := (bt_header bt)\<lparr>bh_RootNodeAddr := la\<rparr>\<rparr>) sb)"
    "\<And>p d. stored w p d \<Longrightarrow> d \<noteq> [] \<Longrightarrow> stored w' p d"
    "unat (nextOffset a) \<le> unat (fw_EndOfFile w) + unat (bt_nodeSize bt)"
    "unat (fw_EndOfFile w') \<le> unat (fw_EndOfFile w) + unat (bt_nodeSize bt) + 38"
proof -
  let ?n = "ucast (bt_nodeSize bt) :: u64"
  have n: "unat ?n = unat (bt_nodeSize bt)" by simp
  have ll: "length (encodeLeafNode bt) \<le> unat ?n" "encodeLeafNode bt \<noteq> []"
    using length_encodeLeafNode [OF assms(1)] assms(1) n by (auto simp: bt_inv_def)
  from store_effect [OF assms(2) ll] assms(4) n obtain la a w1 where
    1: "Allocate (fw_allocator w) ?n = Inr (la, a)" "fw_WriteAtAddress (w\<lparr>fw_allocator := a\<rparr>) (encodeLeafNode bt) la = Inr w1"
      "writer_ok w1" "fw_allocator w1 = a" "stored w1 la (encodeLeafNode bt)" "\<forall>p d. stored w p d \<longrightarrow> d \<noteq> [] \<longrightarrow> stored w1 p d"
      "unat (nextOffset a) \<le> unat (nextOffset (fw_allocator w)) + unat ?n"
    by (auto simp: fw_EndOfFile_def EndOfFile_def)
  let ?bt = "bt\<lparr>bt_header := (bt_header bt)\<lparr>bh_RootNodeAddr := la\<rparr>\<rparr>"
  have lh: "length (encodeHeader ?bt sb) = 38" using length_encodeHeader [OF bt_inv_root [OF assms(1)], of la sb] assms(3) by simp
  have hs: "of_nat (calculateHeaderSize sb) = (38 :: u64)" using assms(3) by (simp add: calculateHeaderSize_def)
  have "length (encodeHeader ?bt sb) \<le> unat (38 :: u64)" "encodeHeader ?bt sb \<noteq> []" using lh by auto
  from store_effect [OF 1(3) this] assms(4) 1(4,7) n obtain ha a2 w2 where
    2: "Allocate (fw_allocator w1) 38 = Inr (ha, a2)" "fw_WriteAtAddress (w1\<lparr>fw_allocator := a2\<rparr>) (encodeHeader ?bt sb) ha = Inr w2"
      "writer_ok w2" "fw_allocator w2 = a2" "stored w2 ha (encodeHeader ?bt sb)" "\<forall>p d. stored w1 p d \<longrightarrow> d \<noteq> [] \<longrightarrow> stored w2 p d"
      "unat (nextOffset a2) \<le> unat (nextOffset (fw_allocator w1)) + unat (38 :: u64)"
    by (auto simp: fw_EndOfFile_def EndOfFile_def)
  show thesis
  proof (rule that)
    show "btree_WriteToFile bt w sb = Inr (ha, ?bt, w2)" using 1(1,2) 2(1,2) by (simp add: btree_WriteToFile_def hs)
    show "stored w2 la (encodeLeafNode bt)" using 1(5) 2(6) ll(2) by blast
    show "stored w2 p d" if "stored w p d" "d \<noteq> []" for p d using that 1(6) 2(6) by blast
    show "Allocate a 38 = Inr (ha, fw_allocator w2)" using 2(1,4) 1(4) by simp
    show "unat (nextOffset a) \<le> unat (fw_EndOfFile w) + unat (bt_nodeSize bt)" using 1(7) n by (simp add: fw_EndOfFile_def EndOfFile_def)
    show "unat (fw_EndOfFile w2) \<le> unat (fw_EndOfFile w) + unat (bt_nodeSize bt) + 38"
      using 1(4,7) 2(4,7) n by (simp add: fw_EndOfFile_def EndOfFile_def)
  qed (use 1(1) 2(3,5) in simp_all)
qed

text \<open>
  C9. A tree that satisfies the invariant, written to new space of a file, is loaded back from the
  header address returned, with the same records, leaf and header, ready for modification at the
  addresses it was written to; everything stored in the file before is still there.
\<close>
theorem btree_file_roundtrip:
  assumes "bt_inv bt" "writer_ok w" "OffsetSize sb = 8"
    "unat (fw_EndOfFile w) + unat (bt_nodeSize bt) + 38 < 2 ^ 63"
  shows "\<exists>addr bt' w'. btree_WriteToFile bt w sb = Inr (addr, bt', w') \<and> bt_records bt' = bt_records bt
     \<and> LoadFromFile bt0 (contents w') addr sb
         = Inr (bt'\<lparr>bt_loadedHeaderAddress := addr, bt_loadedLeafAddress := bh_RootNodeAddr (bt_header bt')\<rparr>)
     \<and> (\<forall>p d. stored w p d \<longrightarrow> d \<noteq> [] \<longrightarrow> stored w' p d)"
proof -
  from btree_WriteToFile_effect [OF assms] obtain la ha a w' where
    1: "btree_WriteToFile bt w sb = Inr (ha, bt\<lparr>bt_header := (bt_header bt)\<lparr>bh_RootNodeAddr := la\<rparr>\<rparr>, w')"
      "stored w' la (encodeLeafNode bt)" "stored w' ha (encodeHeader (bt\<lparr>bt_header := (bt_header bt)\<lparr>bh_RootNodeAddr := la\<rparr>\<rparr>) sb)"
      "\<And>p d. stored w p d \<Longrightarrow> d \<noteq> [] \<Longrightarrow> stored w' p d" by metis
  let ?bt = "bt\<lparr>bt_header := (bt_header bt)\<lparr>bh_RootNodeAddr := la\<rparr>\<rparr>"
  have inv: "bt_inv ?bt" by (rule bt_inv_root [OF assms(1)])
  have leaf: "ReadAt (contents w') (10 + length (bt_records bt) * 11) la = Inr (encodeLeafNode bt)"
    using 1(2) length_encodeLeafNode [OF assms(1)] by (intro stored_nonempty_read) simp_all
  have hdr: "ReadAt (contents w') 38 ha = Inr (encodeHeader ?bt sb)"
    using 1(3) length_encodeHeader [OF inv, of sb] assms(3) by (intro stored_nonempty_read) simp_all
  then have "LoadFromFile bt0 (contents w') ha sb
      = Inr (?bt\<lparr>bt_loadedHeaderAddress := ha, bt_loadedLeafAddress := bh_RootNodeAddr (bt_header ?bt)\<rparr>)"
    using assms(3) leaf by (intro LoadFromFile_encode [OF inv]) (simp_all add: fits_width_def)
  then show ?thesis using 1(1,4) by (intro exI [of _ ha] exI [of _ ?bt] exI [of _ w'] conjI) simp_all
qed

theorem btree_file_roundtrip_witness:
  "\<exists>addr bt' w'. btree_WriteToFile (NewWritableBTreeV2 64) \<lparr>fw_file = Some ([], True), fw_allocator = NewAllocator 48\<rparr> demo_superblock
     = Inr (addr, bt', w') \<and> bt_records bt' = []"
proof -
  let ?w = "\<lparr>fw_file = Some ([], True), fw_allocator = NewAllocator 48\<rparr>"
  have "writer_ok ?w" by (simp add: writer_ok_def NewAllocator_def alloc_inv_def free_ok_def blocks_ok_def)
  moreover have "bt_inv (NewWritableBTreeV2 64)" by (rule new_inv) simp
  ultimately show ?thesis
    using btree_file_roundtrip [of "NewWritableBTreeV2 64" ?w demo_superblock]
    by (fastforce simp: fw_EndOfFile_def EndOfFile_def NewAllocator_def NewWritableBTreeV2_def demo_superblock_def)
qed

text \<open>
  C10. Read-modify-write: a loaded tree that has been modified within the invariant and is written
  back in place is loaded again with its new records, wherever its header and leaf stand, as long as
  the header lies outside the space reserved for the leaf.
\<close>
theorem btree_rewrite_in_place:
  assumes "bt_inv bt" "fw_file w = Some (f, True)" "OffsetSize sb = 8" "bt_loadedHeaderAddress bt \<noteq> 0"
    "unat (bt_loadedHeaderAddress bt) < 2 ^ 63" "unat (bt_loadedLeafAddress bt) < 2 ^ 63"
    "{unat (bt_loadedHeaderAddress bt)..<unat (bt_loadedHeaderAddress bt) + 38}
       \<inter> {unat (bt_loadedLeafAddress bt)..<unat (bt_loadedLeafAddress bt) + unat (bt_nodeSize bt)} = {}"
  shows "\<exists>bt' w'. btree_WriteAt bt w sb = Inr (bt', w') \<and> bt_records bt' = bt_records bt
     \<and> LoadFromFile bt0 (contents w') (bt_loadedHeaderAddress bt) sb = Inr bt'"
proof -
  let ?ha = "bt_loadedHeaderAddress bt" and ?la = "bt_loadedLeafAddress bt"
  let ?bt = "bt\<lparr>bt_header := (bt_header bt)\<lparr>bh_RootNodeAddr := ?la\<rparr>\<rparr>"
  have inv: "bt_inv ?bt" by (rule bt_inv_root [OF assms(1)])
  let ?leaf = "encodeLeafNode bt" and ?hdr = "encodeHeader ?bt sb"
  have ll: "length ?leaf = 10 + length (bt_records bt) * 11" "length ?leaf \<le> unat (bt_nodeSize bt)"
    using length_encodeLeafNode [OF assms(1)] assms(1) by (auto simp: bt_inv_def)
  have lh: "length ?hdr = 38" using length_encodeHeader [OF inv, of sb] assms(3) by simp
  let ?f1 = "overwrite f (unat ?la) ?leaf" and ?f2 = "overwrite (overwrite f (unat ?la) ?leaf) (unat ?ha) ?hdr"
  have w: "btree_WriteAt bt w sb = Inr (?bt, w\<lparr>fw_file := Some (?f2, True)\<rparr>)"
    using assms(2,4-6) ll lh by (auto simp: btree_WriteAt_def fw_WriteAtAddress_def fw_WriteAt_def WriteAt_def Let_def)
  have apart: "unat ?la + length ?leaf \<le> unat ?ha \<or> unat ?ha + length ?hdr \<le> unat ?la"
  proof (rule ccontr)
    assume "\<not> ?thesis"
    then have "max (unat ?ha) (unat ?la) \<in> {unat ?ha..<unat ?ha + 38} \<inter> {unat ?la..<unat ?la + unat (bt_nodeSize bt)}"
      using lh ll by auto
    then show False using assms(7) by blast
  qed
  have l1: "length ?f1 \<ge> unat ?la + length ?leaf" using ll by (subst length_overwrite) auto
  then have l2: "length ?f2 \<ge> unat ?la + length ?leaf" using lh by (subst length_overwrite) auto
  have "take (length ?leaf) (drop (unat ?la) ?f2) = take (length ?leaf) (drop (unat ?la) ?f1)"
    using apart l1 by (metis take_drop_overwrite_after take_drop_overwrite_before)
  then have leaf: "ReadAt ?f2 (10 + length (bt_records bt) * 11) ?la = Inr ?leaf"
    using take_drop_overwrite [of ?leaf "unat ?la" f] l2 assms(6) ll(1)
    by (simp add: ReadAt_def del: length_overwrite take_drop_overwrite)
  have hdr: "ReadAt ?f2 38 ?ha = Inr ?hdr" using ReadAt_overwrite [OF assms(5), of ?f1 ?hdr] lh by simp
  have "LoadFromFile bt0 ?f2 ?ha sb = Inr (?bt\<lparr>bt_loadedHeaderAddress := ?ha, bt_loadedLeafAddress := bh_RootNodeAddr (bt_header ?bt)\<rparr>)"
    using assms(3) leaf hdr by (intro LoadFromFile_encode [OF inv]) (simp_all add: fits_width_def)
  then show ?thesis using w by (simp add: contents_def)
qed

theorem btree_rewrite_in_place_witness:
  "\<exists>bt' w'. btree_WriteAt (NewWritableBTreeV2 64\<lparr>bt_loadedHeaderAddress := 48, bt_loadedLeafAddress := 100\<rparr>)
     \<lparr>fw_file = Some ([], True), fw_allocator = NewAllocator 48\<rparr> demo_superblock = Inr (bt', w')"
proof -
  let ?bt = "NewWritableBTreeV2 64\<lparr>bt_loadedHeaderAddress := 48, bt_loadedLeafAddress := 100\<rparr>"
  have "bt_inv (NewWritableBTreeV2 64)" by (rule new_inv) simp
  then have "bt_inv ?bt" by (simp add: bt_inv_def)
  then show ?thesis
    using btree_rewrite_in_place [of ?bt "\<lparr>fw_file = Some ([], True), fw_allocator = NewAllocator 48\<rparr>" "[]" demo_superblock]
    by (fastforce simp: NewWritableBTreeV2_def demo_superblock_def)
qed

section \<open>The hash and its collisions\<close>

lemma hash_loop_lookup3:
  "length name mod 12 \<noteq> 0 \<Longrightarrow> i mod 12 = 0 \<Longrightarrow> hash_loop name i s = jenkins_loop name i s"
proof (induction name i s rule: hash_loop.induct)
  case (1 name i s)
  have "i + 12 \<noteq> length name" using 1(2,3) by (metis mod_add_self2)
  then have "i + 12 \<le> length name \<longleftrightarrow> i + 12 < length name" by (simp add: le_less)
  moreover obtain a b c where "s = (a, b, c)" by (cases s)
  ultimately show ?case
    using 1 by (subst hash_loop.simps, subst jenkins_loop.simps) simp
qed

lemma jenkins_loop_stops: "i mod 12 = 0 \<Longrightarrow> length name mod 12 \<noteq> 0 \<Longrightarrow> jenkins_loop name i s = (j, s') \<Longrightarrow> j \<noteq> length name"
proof (induction name i s rule: jenkins_loop.induct)
  case (1 name i s)
  obtain a b c where s: "s = (a, b, c)" by (cases s)
  show ?case
  proof (cases "i + 12 < length name")
    case True
    then show ?thesis using 1 s by (subst (asm) (2) jenkins_loop.simps) simp
  next
    case False
    then have "j = i" using "1.prems"(3) by (subst (asm) jenkins_loop.simps) simp
    then show ?thesis using "1.prems"(1,2) by auto
  qed
qed

text \<open>
  Evaluation of the hash on concrete names: the rounds of \<^verbatim>\<open>final\<close> and \<^verbatim>\<open>mix\<close> one at a time, with the
  intermediate words given.
\<close>

definition final_step :: "nat \<Rightarrow> u32 \<Rightarrow> u32 \<Rightarrow> u32" where
  "final_step k x y = (x XOR y) - rot k y"

definition mix_step :: "nat \<Rightarrow> u32 \<Rightarrow> u32 \<Rightarrow> u32" where
  "mix_step k x y = (x - y) XOR rot k y"

lemma jenkins_final_eval:
  assumes "final_step 14 c b = c1" "final_step 11 a c1 = a1" "final_step 25 b a1 = b1" "final_step 16 c1 b1 = c2"
    "final_step 4 a1 c2 = a2" "final_step 14 b1 a2 = b2" "final_step 24 c2 b2 = c3"
  shows "jenkins_final (a, b, c) = c3"
  unfolding assms [symmetric] by (simp only: jenkins_final_def final_step_def Let_def prod.case)

lemma jenkins_mix_eval:
  assumes "mix_step 4 a c = a1" "c + b = c1" "mix_step 6 b a1 = b1" "a1 + c1 = a2" "mix_step 8 c1 b1 = c2" "b1 + a2 = b2"
    "mix_step 16 a2 c2 = a3" "c2 + b2 = c3" "mix_step 19 b2 a3 = b3" "a3 + c3 = a4" "mix_step 4 c3 b3 = c4" "b3 + a4 = b4"
  shows "jenkins_mix (a, b, c) = (a4, b4, c4)"
  unfolding assms [symmetric] by (simp only: jenkins_mix_def mix_step_def Let_def prod.case)

lemma final_a2387: "jenkins_final (4678807893, 3735928619, 3735928564) = 2495858326"
proof (rule jenkins_final_eval)
  show "final_step 14 3735928564 3735928619 = 2419395124" by (simp add: final_step_def rot_def)
  show "final_step 11 4678807893 2419395124 = 3733214944" by (simp add: final_step_def rot_def)
  show "final_step 25 3735928619 3733214944 = 1047322910" by (simp add: final_step_def rot_def)
  show "final_step 16 2419395124 1047322910 = 3443240126" by (simp add: final_step_def rot_def)
  show "final_step 4 3733214944 3443240126 = 1074081394" by (simp add: final_step_def rot_def)
  show "final_step 14 1047322910 1074081394 = 852311915" by (simp add: final_step_def rot_def)
  show "final_step 24 3443240126 852311915 = 2495858326" by (simp add: final_step_def rot_def)
qed

lemma final_a94338: "jenkins_final (4594989142, 3735942952, 3735928565) = 2495858326"
proof (rule jenkins_final_eval)
  show "final_step 14 3735928565 3735942952 = 2184581682" by (simp add: final_step_def rot_def)
  show "final_step 11 4594989142 2184581682 = 3813037651" by (simp add: final_step_def rot_def)
  show "final_step 25 3735942952 3813037651 = 2519012559" by (simp add: final_step_def rot_def)
  show "final_step 16 2184581682 2519012559 = 4282609880" by (simp add: final_step_def rot_def)
  show "final_step 4 3813037651 4282609880 = 667818236" by (simp add: final_step_def rot_def)
  show "final_step 14 2519012559 667818236 = 732693056" by (simp add: final_step_def rot_def)
  show "final_step 24 4282609880 732693056 = 2495858326" by (simp add: final_step_def rot_def)
qed

lemma final_temperatures: "jenkins_final (5622146159, 5688471904, 5671956848) = 3189588916"
proof (rule jenkins_final_eval)
  show "final_step 14 5671956848 5688471904 = 885254989" by (simp add: final_step_def rot_def)
  show "final_step 11 5622146159 885254989 = 1551787388" by (simp add: final_step_def rot_def)
  show "final_step 25 5688471904 1551787388 = 381179730" by (simp add: final_step_def rot_def)
  show "final_step 16 885254989 381179730 = 3408504167" by (simp add: final_step_def rot_def)
  show "final_step 4 1551787388 3408504167 = 3837618591" by (simp add: final_step_def rot_def)
  show "final_step 14 381179730 3837618591 = 2543666590" by (simp add: final_step_def rot_def)
  show "final_step 24 3408504167 2543666590 = 3189588916" by (simp add: final_step_def rot_def)
qed

lemma mix_temperatures: "jenkins_mix (5622146159, 5688471904, 5671956848) = (302906731, 3391203446, 2383110575)"
proof (rule jenkins_mix_eval)
  show "mix_step 4 5622146159 5671956848 = 3694454266" by (simp add: mix_step_def rot_def)
  show "5671956848 + 5688471904 = (2770494160 :: u32)" by simp
  show "mix_step 6 5688471904 3694454266 = 2078488017" by (simp add: mix_step_def rot_def)
  show "3694454266 + 2770494160 = (2169981130 :: u32)" by simp
  show "mix_step 8 2770494160 2078488017 = 3389717892" by (simp add: mix_step_def rot_def)
  show "2078488017 + 2169981130 = (4248469147 :: u32)" by simp
  show "mix_step 16 2169981130 3389717892 = 1254654284" by (simp add: mix_step_def rot_def)
  show "3389717892 + 4248469147 = (3343219743 :: u32)" by simp
  show "mix_step 19 4248469147 1254654284 = 3088296715" by (simp add: mix_step_def rot_def)
  show "1254654284 + 3343219743 = (302906731 :: u32)" by simp
  show "mix_step 4 3343219743 3088296715 = 2383110575" by (simp add: mix_step_def rot_def)
  show "3088296715 + 302906731 = (3391203446 :: u32)" by simp
qed

lemma final_mixed_temperatures: "jenkins_final (302906731, 3391203446, 2383110575) = 3813170975"
proof (rule jenkins_final_eval)
  show "final_step 14 2383110575 3391203446 = 3658291025" by (simp add: final_step_def rot_def)
  show "final_step 11 302906731 3658291025 = 1598446442" by (simp add: final_step_def rot_def)
  show "final_step 25 3391203446 1598446442 = 3232327270" by (simp add: final_step_def rot_def)
  show "final_step 16 3658291025 3232327270 = 3023941774" by (simp add: final_step_def rot_def)
  show "final_step 4 1598446442 3023941774 = 2812338937" by (simp add: final_step_def rot_def)
  show "final_step 14 3232327270 2812338937 = 776673975" by (simp add: final_step_def rot_def)
  show "final_step 24 3023941774 776673975 = 3813170975" by (simp add: final_step_def rot_def)
qed

abbreviation name_temperatures :: bytes where
  "name_temperatures \<equiv> [116, 101, 109, 112, 101, 114, 97, 116, 117, 114, 101, 115]"

definition name_a2387 :: bytes where "name_a2387 = [97, 50, 51, 56, 55]"

definition name_a94338 :: bytes where "name_a94338 = [97, 57, 52, 51, 51, 56]"

lemma hash_a2387: "jenkinsHash name_a2387 = 2495858326"
  using final_a2387 by (simp add: jenkinsHash_def name_a2387_def hash_loop.simps jenkins_tail_def Let_def)

lemma hash_a94338: "jenkinsHash name_a94338 = 2495858326"
  using final_a94338 by (simp add: jenkinsHash_def name_a94338_def hash_loop.simps jenkins_tail_def Let_def)

lemma hash_temperatures: "jenkinsHash name_temperatures = 3813170975"
  using mix_temperatures final_mixed_temperatures
  by (simp add: jenkinsHash_def hash_loop.simps word_at_def jenkins_tail_def Let_def)

lemma lookup3_temperatures: "jenkinsLookup3 name_temperatures 0 = 3189588916"
  using final_temperatures
  by (simp add: jenkinsLookup3_def jenkins_loop.simps word_at_def jenkins_tail_def Let_def)

text \<open>
  The name hash is the lookup3 checksum of the name for every name whose length is not a multiple
  of twelve. For the twelve-letter name \<^verbatim>\<open>temperatures\<close> it is not: the hash mixes a full last block
  where lookup3 leaves it to the final step.
\<close>
theorem jenkinsHash_lookup3:
  "(length name mod 12 \<noteq> 0 \<longrightarrow> jenkinsHash name = jenkinsLookup3 name 0)
   \<and> jenkinsHash name_temperatures \<noteq> jenkinsLookup3 name_temperatures 0"
proof
  show "length name mod 12 \<noteq> 0 \<longrightarrow> jenkinsHash name = jenkinsLookup3 name 0"
  proof
    assume m: "length name mod 12 \<noteq> 0"
    let ?a = "0xdeadbeef + of_nat (length name) :: u32"
    obtain i s where l: "jenkins_loop name 0 (?a, ?a, ?a) = (i, s)" by (metis surj_pair)
    have "i \<noteq> length name" using jenkins_loop_stops [OF _ m l] by simp
    moreover have "i \<le> length name" using jenkins_loop_reference [of 0 name "(?a, ?a, ?a)"] l by simp
    ultimately show "jenkinsHash name = jenkinsLookup3 name 0"
      using l hash_loop_lookup3 [OF m, of 0 "(?a, ?a, ?a)"] by (simp add: jenkinsHash_def jenkinsLookup3_def Let_def)
  qed
  show "jenkinsHash name_temperatures \<noteq> jenkinsLookup3 name_temperatures 0"
    by (simp add: hash_temperatures lookup3_temperatures)
qed

theorem jenkinsHash_lookup3_witness:
  "length [97 :: byte] mod 12 \<noteq> 0 \<and> jenkinsHash [97] = jenkinsLookup3 [97] 0"
  using jenkinsHash_lookup3 [of "[97]"] by simp

lemma heap_id7_7: "heap_id7 7 = [7, 0, 0, 0, 0, 0, 0]"
  by code_simp

text \<open>
  Records are identified by their hash alone. The names \<^verbatim>\<open>a2387\<close> and \<^verbatim>\<open>a94338\<close> have the same hash, so
  in a tree that holds only the first, the second is found, under the first one's heap id, and
  deleting the second removes the first.
\<close>
theorem colliding_names_conflated:
  "case InsertRecord (NewWritableBTreeV2 4096) name_a2387 7 of
     Inl e \<Rightarrow> False
   | Inr bt \<Rightarrow>
       SearchRecord bt name_a94338 = Some [7, 0, 0, 0, 0, 0, 0, 0]
       \<and> (case DeleteRecord bt name_a94338 of Inl e \<Rightarrow> False | Inr bt' \<Rightarrow> SearchRecord bt' name_a2387 = None)"
proof -
  have "calculateMaxRecords (NewWritableBTreeV2 4096) = 371" by (simp add: calculateMaxRecords_def NewWritableBTreeV2_def)
  then show ?thesis
    by (simp add: InsertRecord_def SearchRecord_def DeleteRecord_def DeleteRecordWithRebalancing_def Let_def
        NewWritableBTreeV2_def drop_record_def hash_a2387 hash_a94338 heap_id7_7)
qed

section \<open>Sibling nodes\<close>

text \<open>
  Merging two siblings, redistributing their records and borrowing from the left or the right
  sibling all keep the records of the two nodes, read from left to right, exactly as they were, so
  nothing is lost and the order by hash is kept; redistribution leaves sizes that differ by at most
  one, and a merge is refused exactly when the result would not fit a node.
\<close>
theorem sibling_operations_keep_records:
  "((\<exists>e. mergeNodes bt l r = Inl e) \<longleftrightarrow> length (bl_Records l) + length (bl_Records r) > calculateMaxRecords bt)
   \<and> (case mergeNodes bt l r of Inl _ \<Rightarrow> True | Inr (l', r') \<Rightarrow> bl_Records l' @ bl_Records r' = bl_Records l @ bl_Records r)
   \<and> (case redistributeRecords l r of (l', r') \<Rightarrow> bl_Records l' @ bl_Records r' = bl_Records l @ bl_Records r
        \<and> length (bl_Records l') \<le> length (bl_Records r') \<and> length (bl_Records r') \<le> length (bl_Records l') + 1)
   \<and> (case borrowFromLeft r l of Inl _ \<Rightarrow> bl_Records l = [] | Inr (r', l') \<Rightarrow> bl_Records l' @ bl_Records r' = bl_Records l @ bl_Records r)
   \<and> (case borrowFromRight l r of Inl _ \<Rightarrow> bl_Records r = [] | Inr (l', r') \<Rightarrow> bl_Records l' @ bl_Records r' = bl_Records l @ bl_Records r)"
proof (intro conjI)
  show "case redistributeRecords l r of (l', r') \<Rightarrow> bl_Records l' @ bl_Records r' = bl_Records l @ bl_Records r
        \<and> length (bl_Records l') \<le> length (bl_Records r') \<and> length (bl_Records r') \<le> length (bl_Records l') + 1"
  proof -
    define xs where "xs = bl_Records l @ bl_Records r"
    show ?thesis unfolding redistributeRecords_def Let_def prod.case xs_def [symmetric] by simp presburger
  qed
qed (auto simp: mergeNodes_def borrowFromLeft_def borrowFromRight_def Let_def append_butlast_last_id [symmetric] split: list.splits)

end
