(* ===== verification/BTree_Lazy.thy ===== *)
theory BTree_Lazy
  imports Complex_Main BTree_V2
begin

text \<open>
  Lazy and incremental rebalancing of the version 2 B-tree, from
  \<^verbatim>\<open>internal/structures/btreev2_lazy.go\<close> and \<^verbatim>\<open>btreev2_incremental.go\<close>. The clock is an argument of the
  operations that read it, in nanoseconds; \<^verbatim>\<open>float64\<close> thresholds are the rationals they denote, with the
  constants as the doubles the compiler makes of them. The background goroutine is a step of its own
  in the transition relation, so that its sessions interleave with the calls of the user in every
  order; the mutex protects counters only and is not modelled.
\<close>

section \<open>State\<close>

record LazyRebalancingConfig =
  lc_Enabled :: bool
  lc_Threshold :: rat
  lc_MaxDelay :: int
  lc_BatchSize :: int

record LazyRebalancingState =
  lz_Config :: LazyRebalancingConfig
  lz_UnderflowCount :: int
  lz_TotalNodes :: int
  lz_LastRebalance :: int
  lz_PendingDeletes :: int
  lz_UnderflowNodes :: "u64 list"

record IncrementalRebalancingConfig =
  ic_Enabled :: bool
  ic_Budget :: int
  ic_Interval :: int

record IncrementalRebalancer =
  ir_config :: IncrementalRebalancingConfig
  ir_nodesRebalanced :: nat
  ir_running :: bool
  ir_lastSessionTime :: int
  ir_estimatedTimeETA :: int

record RebalancingProgress =
  rp_NodesRebalanced :: nat
  rp_NodesRemaining :: nat
  rp_SessionDuration :: int
  rp_EstimatedRemaining :: int
  rp_IsComplete :: bool

record LazyBTree =
  lb_tree :: WritableBTreeV2
  lb_lazy :: "LazyRebalancingState option"
  lb_inc :: "IncrementalRebalancer option"

abbreviation threshold_005 :: rat where
  "threshold_005 \<equiv> 3602879701896397 / 2 ^ 56"

abbreviation threshold_020 :: rat where
  "threshold_020 \<equiv> 3602879701896397 / 2 ^ 54"

abbreviation five_minutes :: int where
  "five_minutes \<equiv> 300000000000"

section \<open>Lazy rebalancing\<close>

definition DefaultLazyConfig :: LazyRebalancingConfig where
  "DefaultLazyConfig = \<lparr>lc_Enabled = True, lc_Threshold = threshold_005, lc_MaxDelay = five_minutes, lc_BatchSize = 100\<rparr>"

definition EnableLazyRebalancing :: "LazyBTree \<Rightarrow> int \<Rightarrow> LazyRebalancingConfig \<Rightarrow> LazyBTree" where
  "EnableLazyRebalancing b now config =
     (let config = (if lc_Threshold config \<le> 0 then config\<lparr>lc_Threshold := threshold_005\<rparr> else config);
          config = (if lc_Threshold config > threshold_020 then config\<lparr>lc_Threshold := threshold_020\<rparr> else config);
          config = (if lc_MaxDelay config \<le> 0 then config\<lparr>lc_MaxDelay := five_minutes\<rparr> else config);
          config = (if lc_BatchSize config \<le> 0 then config\<lparr>lc_BatchSize := 100\<rparr> else config)
      in b\<lparr>lb_lazy := Some \<lparr>lz_Config = config, lz_UnderflowCount = 0, lz_TotalNodes = 1, lz_LastRebalance = now,
                            lz_PendingDeletes = 0, lz_UnderflowNodes = []\<rparr>\<rparr>)"

definition IsLazyRebalancingEnabled :: "LazyBTree \<Rightarrow> bool" where
  "IsLazyRebalancingEnabled b = (case lb_lazy b of None \<Rightarrow> False | Some l \<Rightarrow> lc_Enabled (lz_Config l))"

definition BatchRebalance :: "LazyBTree \<Rightarrow> int \<Rightarrow> LazyBTree result" where
  "BatchRebalance b now =
     (case lb_lazy b of
        None \<Rightarrow> Inr b
      | Some l \<Rightarrow> Inr (b\<lparr>lb_lazy := Some (l\<lparr>lz_UnderflowCount := 0, lz_LastRebalance := now, lz_PendingDeletes := 0,
                                            lz_UnderflowNodes := []\<rparr>)\<rparr>))"

definition DisableLazyRebalancing :: "LazyBTree \<Rightarrow> int \<Rightarrow> LazyBTree result" where
  "DisableLazyRebalancing b now =
     (if lb_lazy b = None then Inr b
      else case BatchRebalance b now of
             Inl e \<Rightarrow> Inl (Wrapf ''final rebalancing failed: %w'' e)
           | Inr b \<Rightarrow> Inr (b\<lparr>lb_lazy := None\<rparr>))"

definition shouldTriggerBatchRebalancing :: "LazyBTree \<Rightarrow> int \<Rightarrow> bool" where
  "shouldTriggerBatchRebalancing b now =
     (case lb_lazy b of
        None \<Rightarrow> False
      | Some l \<Rightarrow>
          (lz_TotalNodes l > 0 \<and> of_int (lz_UnderflowCount l) / of_int (lz_TotalNodes l) \<ge> lc_Threshold (lz_Config l))
          \<or> now - lz_LastRebalance l \<ge> lc_MaxDelay (lz_Config l))"

definition track_delete :: "WritableBTreeV2 \<Rightarrow> LazyRebalancingState \<Rightarrow> LazyRebalancingState" where
  "track_delete bt l =
     (let l = l\<lparr>lz_PendingDeletes := lz_PendingDeletes l + 1\<rparr>
      in if length (bt_records bt) < calculateMinRecords bt then l\<lparr>lz_UnderflowCount := 1\<rparr> else l)"

definition DeleteRecordLazy :: "LazyBTree \<Rightarrow> int \<Rightarrow> bytes \<Rightarrow> LazyBTree result" where
  "DeleteRecordLazy b now name =
     (if \<not> IsLazyRebalancingEnabled b
      then Inl (Errorf ''lazy rebalancing not enabled, use EnableLazyRebalancing() first'')
      else case remove_first (jenkinsHash name) (bt_records (lb_tree b)) of
             None \<Rightarrow> Inl (Errorf ''record not found for name: %s'')
           | Some rs \<Rightarrow>
               let bt = drop_record (lb_tree b) rs;
                   b = b\<lparr>lb_tree := bt, lb_lazy := map_option (track_delete bt) (lb_lazy b)\<rparr>
               in if shouldTriggerBatchRebalancing b now then BatchRebalance b now else Inr b)"

definition GetLazyRebalancingStats :: "LazyBTree \<Rightarrow> int \<Rightarrow> int \<times> int \<times> int" where
  "GetLazyRebalancingStats b now =
     (case lb_lazy b of
        None \<Rightarrow> (0, 0, 0)
      | Some l \<Rightarrow> (lz_UnderflowCount l, lz_PendingDeletes l, now - lz_LastRebalance l))"

definition ForceBatchRebalance :: "LazyBTree \<Rightarrow> int \<Rightarrow> LazyBTree result" where
  "ForceBatchRebalance b now =
     (if lb_lazy b = None then Inl (Errorf ''lazy rebalancing not enabled'') else BatchRebalance b now)"

section \<open>Incremental rebalancing\<close>

definition DefaultIncrementalConfig :: IncrementalRebalancingConfig where
  "DefaultIncrementalConfig = \<lparr>ic_Enabled = True, ic_Budget = 100000000, ic_Interval = 5000000000\<rparr>"

definition IsIncrementalRebalancingEnabled :: "LazyBTree \<Rightarrow> bool" where
  "IsIncrementalRebalancingEnabled b = (case lb_inc b of None \<Rightarrow> False | Some ir \<Rightarrow> ir_running ir)"

definition EnableIncrementalRebalancing :: "LazyBTree \<Rightarrow> IncrementalRebalancingConfig \<Rightarrow> LazyBTree result" where
  "EnableIncrementalRebalancing b config =
     (if \<not> IsLazyRebalancingEnabled b
      then Inl (Errorf ''lazy rebalancing must be enabled first (prerequisite for incremental)'')
      else if IsIncrementalRebalancingEnabled b then Inl (Errorf ''incremental rebalancing already enabled'')
      else let config = (if ic_Budget config \<le> 0 then config\<lparr>ic_Budget := 100000000\<rparr> else config);
               config = (if ic_Interval config \<le> 0 then config\<lparr>ic_Interval := 5000000000\<rparr> else config)
           in Inr (b\<lparr>lb_inc := Some \<lparr>ir_config = config, ir_nodesRebalanced = 0, ir_running = True,
                                 ir_lastSessionTime = 0, ir_estimatedTimeETA = 0\<rparr>\<rparr>))"

text \<open>
  One session of the background loop: \<open>taken\<close> is the number of passes that fit the time budget and
  \<open>dur\<close> the time the session took. The progress callback is user code and left out.
\<close>

definition rebalanceIncremental :: "LazyBTree \<Rightarrow> int \<Rightarrow> nat \<Rightarrow> int \<Rightarrow> LazyBTree" where
  "rebalanceIncremental b now taken dur =
     (case (lb_lazy b, lb_inc b) of
        (Some l, Some ir) \<Rightarrow>
          if lz_UnderflowNodes l = [] then b
          else let k = min taken (length (lz_UnderflowNodes l));
                   l = l\<lparr>lz_UnderflowNodes := drop k (lz_UnderflowNodes l)\<rparr>;
                   remaining = length (lz_UnderflowNodes l);
                   eta = (if remaining > 0 \<and> k > 0
                          then int ((remaining + k - 1) div k) * (dur + ic_Interval (ir_config ir)) else 0);
                   ir = ir\<lparr>ir_nodesRebalanced := ir_nodesRebalanced ir + k, ir_lastSessionTime := dur,
                           ir_estimatedTimeETA := eta\<rparr>;
                   l = (if remaining = 0
                        then l\<lparr>lz_UnderflowCount := 0, lz_PendingDeletes := 0, lz_LastRebalance := now\<rparr> else l)
               in b\<lparr>lb_lazy := Some l, lb_inc := Some ir\<rparr>
      | _ \<Rightarrow> b)"

text \<open>\<^verbatim>\<open>Stop\<close> closes the stop channel and waits for the loop to end; the rebalancer is dropped.\<close>

definition StopIncrementalRebalancing :: "LazyBTree \<Rightarrow> int \<Rightarrow> LazyBTree result" where
  "StopIncrementalRebalancing b now =
     (case lb_inc b of
        None \<Rightarrow> Inr b
      | Some ir \<Rightarrow>
          (case (case lb_lazy b of
                   Some l \<Rightarrow> if lz_UnderflowNodes l \<noteq> [] then BatchRebalance b now else Inr b
                 | None \<Rightarrow> Inr b) of
             Inl e \<Rightarrow> Inl (Wrapf ''final rebalancing failed: %w'' e)
           | Inr b \<Rightarrow> Inr (b\<lparr>lb_inc := None\<rparr>)))"

definition GetIncrementalRebalancingProgress :: "LazyBTree \<Rightarrow> RebalancingProgress result" where
  "GetIncrementalRebalancingProgress b =
     (case lb_inc b of
        None \<Rightarrow> Inl (Errorf ''incremental rebalancing not enabled'')
      | Some ir \<Rightarrow>
          let remaining = (case lb_lazy b of None \<Rightarrow> 0 | Some l \<Rightarrow> length (lz_UnderflowNodes l))
          in Inr \<lparr>rp_NodesRebalanced = ir_nodesRebalanced ir, rp_NodesRemaining = remaining,
                 rp_SessionDuration = ir_lastSessionTime ir, rp_EstimatedRemaining = ir_estimatedTimeETA ir,
                 rp_IsComplete = (remaining = 0)\<rparr>)"

section \<open>Interleaved executions\<close>

text \<open>
  One step at time \<open>now\<close>: a call of the user, or a session of the background loop while it runs.
\<close>

inductive lazy_step :: "int \<Rightarrow> LazyBTree \<Rightarrow> LazyBTree \<Rightarrow> bool" for now :: int where
  insert: "InsertRecord (lb_tree b) n h = Inr bt \<Longrightarrow> lazy_step now b (b\<lparr>lb_tree := bt\<rparr>)"
| update: "UpdateRecord (lb_tree b) n h = Inr bt \<Longrightarrow> lazy_step now b (b\<lparr>lb_tree := bt\<rparr>)"
| delete: "DeleteRecord (lb_tree b) n = Inr bt \<Longrightarrow> lazy_step now b (b\<lparr>lb_tree := bt\<rparr>)"
| enable: "lazy_step now b (EnableLazyRebalancing b now config)"
| disable: "DisableLazyRebalancing b now = Inr b' \<Longrightarrow> lazy_step now b b'"
| delete_lazy: "DeleteRecordLazy b now n = Inr b' \<Longrightarrow> lazy_step now b b'"
| force: "ForceBatchRebalance b now = Inr b' \<Longrightarrow> lazy_step now b b'"
| enable_inc: "EnableIncrementalRebalancing b iconfig = Inr b' \<Longrightarrow> lazy_step now b b'"
| stop_inc: "StopIncrementalRebalancing b now = Inr b' \<Longrightarrow> lazy_step now b b'"
| background: "IsIncrementalRebalancingEnabled b \<Longrightarrow> lazy_step now b (rebalanceIncremental b now taken dur)"

inductive lazy_run :: "u32 \<Rightarrow> LazyBTree \<Rightarrow> bool" for nodeSize :: u32 where
  start: "lazy_run nodeSize \<lparr>lb_tree = NewWritableBTreeV2 nodeSize, lb_lazy = None, lb_inc = None\<rparr>"
| step: "lazy_run nodeSize b \<Longrightarrow> lazy_step now b b' \<Longrightarrow> lazy_run nodeSize b'"

definition lazy_inv :: "LazyBTree \<Rightarrow> bool" where
  "lazy_inv b \<longleftrightarrow> bt_inv (lb_tree b) \<and>
     (case lb_lazy b of
        None \<Rightarrow> True
      | Some l \<Rightarrow> lz_UnderflowNodes l = [] \<and> lz_TotalNodes l = 1 \<and> 0 \<le> lz_PendingDeletes l
          \<and> lz_UnderflowCount l = 0 \<and> 0 < lc_Threshold (lz_Config l) \<and> lc_Threshold (lz_Config l) < 1
          \<and> 0 < lc_MaxDelay (lz_Config l) \<and> 0 < lc_BatchSize (lz_Config l))
     \<and> (case lb_inc b of None \<Rightarrow> True | Some ir \<Rightarrow> ir_nodesRebalanced ir = 0 \<and> ir_running ir)"


lemma lazy_start: "nodeSize = 0 \<or> 10 \<le> nodeSize \<and> nodeSize < 720906 \<Longrightarrow>
   lazy_inv \<lparr>lb_tree = NewWritableBTreeV2 nodeSize, lb_lazy = None, lb_inc = None\<rparr>"
  by (simp add: lazy_inv_def new_inv)

lemma BatchRebalance_inv: "lazy_inv b \<Longrightarrow> BatchRebalance b now = Inr b' \<Longrightarrow> lazy_inv b' \<and> lb_tree b' = lb_tree b"
  by (auto simp: lazy_inv_def BatchRebalance_def split: option.splits)

lemma EnableLazyRebalancing_inv: "lazy_inv b \<Longrightarrow> lazy_inv (EnableLazyRebalancing b now config)"
  by (auto simp: lazy_inv_def EnableLazyRebalancing_def Let_def)

lemma Disable_inv: "lazy_inv b \<Longrightarrow> DisableLazyRebalancing b now = Inr b' \<Longrightarrow> lazy_inv b'"
  by (auto simp: lazy_inv_def DisableLazyRebalancing_def BatchRebalance_def split: if_splits option.splits)

lemma batch_after_delete:
  assumes "lazy_inv b" "lb_lazy b = Some l" "bt_inv bt"
  defines "b' \<equiv> b\<lparr>lb_tree := bt, lb_lazy := Some (track_delete bt l)\<rparr>"
  shows "shouldTriggerBatchRebalancing b' now \<longleftrightarrow>
      length (bt_records bt) < calculateMinRecords bt \<or> now - lz_LastRebalance l \<ge> lc_MaxDelay (lz_Config l)"
    and "\<not> shouldTriggerBatchRebalancing b' now \<Longrightarrow> lazy_inv b'"
    and "BatchRebalance b' now = Inr b'' \<Longrightarrow> lazy_inv b''"
  using assms(1,2,3) unfolding b'_def
  by (auto simp: lazy_inv_def shouldTriggerBatchRebalancing_def track_delete_def BatchRebalance_def Let_def split: if_splits)

lemma DeleteRecordLazy_cases:
  assumes "DeleteRecordLazy b now n = Inr b'" "lazy_inv b"
  obtains rs l where "remove_first (jenkinsHash n) (bt_records (lb_tree b)) = Some rs" "lb_lazy b = Some l"
    "lb_tree b' = drop_record (lb_tree b) rs" "lazy_inv b'" "IsLazyRebalancingEnabled b'"
    "lz_PendingDeletes (the (lb_lazy b')) = 0 \<longleftrightarrow>
       length rs < calculateMinRecords (lb_tree b) \<or> now - lz_LastRebalance l \<ge> lc_MaxDelay (lz_Config l)"
proof -
  obtain rs where rs: "remove_first (jenkinsHash n) (bt_records (lb_tree b)) = Some rs"
    using assms(1) by (auto simp: DeleteRecordLazy_def split: if_splits option.splits)
  obtain l where l: "lb_lazy b = Some l" "lc_Enabled (lz_Config l)"
    using assms(1) by (auto simp: DeleteRecordLazy_def IsLazyRebalancingEnabled_def split: if_splits option.splits)
  let ?bt = "drop_record (lb_tree b) rs"
  let ?b = "b\<lparr>lb_tree := ?bt, lb_lazy := Some (track_delete ?bt l)\<rparr>"
  have inv: "bt_inv ?bt" using drop_record_inv rs assms(2) by (simp add: lazy_inv_def)
  note d = batch_after_delete [OF assms(2) l(1) inv, of now]
  have p: "lz_PendingDeletes (track_delete ?bt l) > 0" "lz_Config (track_delete ?bt l) = lz_Config l"
    using assms(2) l by (auto simp: lazy_inv_def track_delete_def Let_def)
  have m: "bt_records ?bt = rs" "calculateMinRecords ?bt = calculateMinRecords (lb_tree b)"
    by (simp_all add: drop_record_def calculateMinRecords_def calculateMaxRecords_def)
  have r: "(if shouldTriggerBatchRebalancing ?b now then BatchRebalance ?b now else Inr ?b) = Inr b'"
    using assms(1) rs l by (simp add: DeleteRecordLazy_def IsLazyRebalancingEnabled_def Let_def)
  show thesis
  proof (cases "shouldTriggerBatchRebalancing ?b now")
    case True
    with r have b: "BatchRebalance ?b now = Inr b'" by simp
    show thesis
      by (rule that [OF rs l(1)]) (use b d(3) [OF b] d(1) True l p m in \<open>auto simp: BatchRebalance_def IsLazyRebalancingEnabled_def\<close>)
  next
    case False
    with r have b: "b' = ?b" by simp
    show thesis
      by (rule that [OF rs l(1)]) (use b d(2) [OF False] d(1) False l p m in \<open>auto simp: IsLazyRebalancingEnabled_def\<close>)
  qed
qed

lemma DeleteRecordLazy_error:
  "IsLazyRebalancingEnabled b \<Longrightarrow> DeleteRecordLazy b now n = Inl e \<Longrightarrow> DeleteRecord (lb_tree b) n = Inl e"
  by (auto simp: DeleteRecordLazy_def DeleteRecord_def DeleteRecordWithRebalancing_def BatchRebalance_def
      IsLazyRebalancingEnabled_def Let_def split: if_splits option.splits)

lemma EnableIncremental_inv: "lazy_inv b \<Longrightarrow> EnableIncrementalRebalancing b c = Inr b' \<Longrightarrow> lazy_inv b'"
  by (auto simp: lazy_inv_def EnableIncrementalRebalancing_def Let_def split: if_splits)

lemma StopIncremental_inv: "lazy_inv b \<Longrightarrow> StopIncrementalRebalancing b now = Inr b' \<Longrightarrow> lazy_inv b'"
  by (auto simp: lazy_inv_def StopIncrementalRebalancing_def split: option.splits if_splits)

lemma background_noop: "lazy_inv b \<Longrightarrow> rebalanceIncremental b now taken dur = b"
  by (auto simp: lazy_inv_def rebalanceIncremental_def split: option.splits)

lemma lazy_step_inv:
  assumes "lazy_step now b b'" "lazy_inv b"
  shows "lazy_inv b'"
  using assms
proof (induction rule: lazy_step.induct)
  case (insert b n h bt)
  then show ?case using InsertRecord_inv(1) by (auto simp: lazy_inv_def)
next
  case (update b n h bt)
  then show ?case using UpdateRecord_inv by (auto simp: lazy_inv_def)
next
  case (delete b n bt)
  then have "bt_inv bt" by (auto simp: lazy_inv_def elim: DeleteRecord_cases)
  then show ?case using delete by (auto simp: lazy_inv_def)
next
  case (force b b')
  then show ?case using BatchRebalance_inv by (auto simp: ForceBatchRebalance_def split: if_splits)
next
  case (delete_lazy b n b')
  then show ?case by (blast elim: DeleteRecordLazy_cases)
next
  case enable
  then show ?case by (rule EnableLazyRebalancing_inv)
next
  case (disable b b')
  show ?case by (rule Disable_inv [OF disable(2,1)])
next
  case (enable_inc b iconfig b')
  show ?case by (rule EnableIncremental_inv [OF enable_inc(2,1)])
next
  case (stop_inc b b')
  show ?case by (rule StopIncremental_inv [OF stop_inc(2,1)])
next
  case (background b taken dur)
  show ?case using background(2) by (simp only: background_noop)
qed

lemma lazy_run_inv:
  assumes "lazy_run nodeSize b" "nodeSize = 0 \<or> 10 \<le> nodeSize \<and> nodeSize < 720906"
  shows "lazy_inv b"
  using assms(1) by (induction rule: lazy_run.induct) (auto simp: lazy_start [OF assms(2)] intro: lazy_step_inv)



end
