(* ===== verification/Object_Header.thy ===== *)
theory Object_Header
  imports Datatype File_Writer "HOL-Library.Multiset"
begin

text \<open>
  Object headers, the lists of messages that describe every object of a file: the readers of both
  versions with their continuation blocks (\<^verbatim>\<open>internal/core/objectheader.go\<close>,
  \<^verbatim>\<open>objectheader_v1.go\<close>) and the writers (\<^verbatim>\<open>objectheader_write.go\<close>). Pooled buffers are filled by a
  complete read before they are used here, so they are plain byte lists. The loop that follows
  continuation messages may not end; it is a partial function whose value is \<open>None\<close> when it does not.
\<close>

section \<open>Data\<close>

datatype ObjectType = ObjectTypeGroup | ObjectTypeDataset | ObjectTypeDatatype | ObjectTypeUnknown

type_synonym MessageType = u16

abbreviation MsgNil :: MessageType where "MsgNil \<equiv> 0"
abbreviation MsgDataspace :: MessageType where "MsgDataspace \<equiv> 1"
abbreviation MsgLinkInfo :: MessageType where "MsgLinkInfo \<equiv> 2"
abbreviation MsgDatatype :: MessageType where "MsgDatatype \<equiv> 3"
abbreviation MsgLinkMessage :: MessageType where "MsgLinkMessage \<equiv> 6"
abbreviation MsgDataLayout :: MessageType where "MsgDataLayout \<equiv> 8"
abbreviation MsgFilterPipeline :: MessageType where "MsgFilterPipeline \<equiv> 11"
abbreviation MsgAttribute :: MessageType where "MsgAttribute \<equiv> 12"
abbreviation MsgName :: MessageType where "MsgName \<equiv> 13"
abbreviation MsgAttributeInfo :: MessageType where "MsgAttributeInfo \<equiv> 15"
abbreviation MsgContinuation :: MessageType where "MsgContinuation \<equiv> 16"
abbreviation MsgSymbolTable :: MessageType where "MsgSymbolTable \<equiv> 17"
abbreviation MsgRefCount :: MessageType where "MsgRefCount \<equiv> 22"

record HeaderMessage =
  hm_Type :: MessageType
  hm_Offset :: u64
  hm_Data :: bytes
  hm_FromContinuation :: bool

record ObjectHeader =
  oh_Version :: byte
  oh_Flags :: byte
  oh_Type :: ObjectType
  oh_Messages :: "HeaderMessage list"
  oh_Name :: bytes
  oh_Attributes :: "Attribute list"
  oh_ReferenceCount :: u32

record continuationInfo =
  ci_Address :: u64
  ci_Size :: u64

record MessageWriter =
  mw_Type :: MessageType
  mw_Data :: bytes

record ObjectHeaderWriter =
  ohw_Version :: byte
  ohw_Flags :: byte
  ohw_Messages :: "MessageWriter list"
  ohw_RefCount :: u32

section \<open>Reading\<close>

definition determineObjectType :: "HeaderMessage list \<Rightarrow> ObjectType" where
  "determineObjectType messages =
     (case find (\<lambda>m. hm_Type m \<in> {MsgSymbolTable, MsgLinkInfo, MsgLinkMessage, MsgDataspace}) messages of
        Some m \<Rightarrow> if hm_Type m = MsgDataspace then ObjectTypeDataset else ObjectTypeGroup
      | None \<Rightarrow> if list_ex (\<lambda>m. hm_Type m = MsgDatatype) messages then ObjectTypeDatatype else ObjectTypeUnknown)"

text \<open>
  The message loop of \<^verbatim>\<open>parseV2Header\<close>, which \<^verbatim>\<open>parseV2ContinuationBlock\<close> repeats with its own error texts.
  Offsets that a file cannot have are refused by the read, so the loop ends on every input.
\<close>

function parse_v2_messages ::
    "bytes \<Rightarrow> bool \<Rightarrow> bool \<Rightarrow> string \<Rightarrow> string \<Rightarrow> u64 \<Rightarrow> u64 \<Rightarrow> bytes \<Rightarrow> (HeaderMessage list \<times> bytes) result" where
  "parse_v2_messages f isBE tracked hdrErr dataErr current stop name =
     (if \<not> current < stop then Inr ([], name)
      else case ReadAt f 6 current of
             Inl e \<Rightarrow> Inl (Wrapf hdrErr e)
           | Inr headerBuf \<Rightarrow>
               let msgType = ucast (headerBuf ! 0) :: u16;
                   msgSize = order_get (if isBE then BigEndian else LittleEndian) (take 2 (drop 1 headerBuf)) :: u16;
                   msgHeaderSize = (if tracked then 6 else 4) :: u64
               in if msgSize = 0
                  then parse_v2_messages f isBE tracked hdrErr dataErr (current + msgHeaderSize) stop name
                  else case ReadAt f (unat msgSize) (current + msgHeaderSize) of
                         Inl e \<Rightarrow> Inl (Wrapf dataErr e)
                       | Inr data \<Rightarrow>
                           let name = (if msgType = MsgName \<and> length data > 1 then drop 1 data else name)
                           in case parse_v2_messages f isBE tracked hdrErr dataErr
                                     (current + (msgHeaderSize + ucast msgSize)) stop name of
                                Inl e \<Rightarrow> Inl e
                              | Inr (messages, name) \<Rightarrow>
                                  Inr (\<lparr>hm_Type = msgType, hm_Offset = current, hm_Data = data,
                                        hm_FromContinuation = False\<rparr> # messages, name))"
  by pat_completeness (elim Pair_inject, simp only:)

lemma unat_add_small: "unat (a :: u64) < 2 ^ 63 \<Longrightarrow> unat b < 2 ^ 62 \<Longrightarrow> unat (a + b) = unat a + unat b"
  by (rule unat_add_lem [THEN iffD1]) simp

lemma message_step:
  assumes "ReadAt f n cur = Inr buf" "0 < n" "0 < unat step" "unat step < 2 ^ 62"
  shows "length f - unat (cur + step) < length f - unat cur"
proof -
  have "unat cur < 2 ^ 63" "unat cur + n \<le> length f"
    using assms(1,2) by (auto simp: ReadAt_def split: if_splits)
  then show ?thesis using assms unat_add_small [of cur step] by simp
qed

termination parse_v2_messages
proof (relation "measure (\<lambda>(f, _, _, _, _, cur, _, _). length f - unat cur)", goal_cases)
  case 1
  then show ?case by simp
next
  case 2
  show ?case unfolding in_measure prod.case by (rule message_step [OF 2(2)]) (simp_all add: 2(5))
next
  case (3 f isBE tracked hdrErr dataErr cur stop name hb x xa xb data xc)
  have xb: "0 < unat xb" "unat xb \<le> 6" unfolding 3(5) by simp_all
  have "unat (xb + ucast (xa :: u16) :: u64) = unat xb + unat xa"
    using xb by (subst unat_add_small) (simp_all add: less_trans [OF unat_u16_less])
  then have "0 < unat (xb + ucast (xa :: u16) :: u64)" "unat (xb + ucast (xa :: u16) :: u64) < 2 ^ 62"
    using xb add_mono [OF xb(2) less_imp_le [OF unat_u16_less [of xa]]] by auto
  then show ?case unfolding in_measure prod.case by (rule message_step [OF 3(2) zero_less_numeral])
qed

declare parse_v2_messages.simps [simp del]

text \<open>
  A continuation message holds the address and the size of a block. The superblock reader admits the
  sizes 1, 2, 4 and 8 only, for which the sum below does not wrap.
\<close>

definition parseContinuationMessage :: "bytes \<Rightarrow> Superblock \<Rightarrow> continuationInfo result" where
  "parseContinuationMessage data sb =
     (let os = unat (OffsetSize sb); ls = unat (LengthSize sb)
      in if length data < unat (OffsetSize sb + LengthSize sb)
         then Inl (Errorf ''continuation message too small: need %d bytes, got %d'')
         else if os \<notin> {1, 2, 4, 8} then Inl (Errorf ''invalid offset size: %d'')
         else if ls \<notin> {1, 2, 4, 8} then Inl (Errorf ''invalid length size: %d'')
         else let address = order_get (Endianness sb) (take os data);
                  sz = order_get (Endianness sb) (take ls (drop os data))
              in if sz = 0 then Inl (Errorf ''invalid continuation block size: 0'')
                 else Inr \<lparr>ci_Address = address, ci_Size = sz\<rparr>)"

fun findContinuations :: "HeaderMessage list \<Rightarrow> Superblock \<Rightarrow> continuationInfo list" where
  "findContinuations [] sb = []"
| "findContinuations (msg # messages) sb =
     (if hm_Type msg = MsgContinuation \<and> length (hm_Data msg) > 0
      then (case parseContinuationMessage (hm_Data msg) sb of
              Inl _ \<Rightarrow> findContinuations messages sb
            | Inr cont \<Rightarrow> cont # findContinuations messages sb)
      else findContinuations messages sb)"

text \<open>
  The work list of continuation blocks, first in first out, as both header readers keep it;
  \<open>parse_block\<close> is the parser of one block.
\<close>

partial_function (option) follow_continuations ::
    "Superblock \<Rightarrow> string \<Rightarrow> (continuationInfo \<Rightarrow> (HeaderMessage list \<times> bytes) result) \<Rightarrow> continuationInfo list
      \<Rightarrow> HeaderMessage list \<Rightarrow> bytes \<Rightarrow> (HeaderMessage list \<times> bytes) result option" where
  "follow_continuations sb err parse_block continuations messages name =
     (case continuations of
        [] \<Rightarrow> Some (Inr (messages, name))
      | cont # continuations \<Rightarrow>
          (case parse_block cont of
             Inl e \<Rightarrow> Some (Inl (wrap err e))
           | Inr (contMessages, contName) \<Rightarrow>
               follow_continuations sb err parse_block
                 (continuations @ findContinuations contMessages sb)
                 (messages @ map (\<lambda>cm. cm\<lparr>hm_FromContinuation := True\<rparr>) contMessages)
                 (if contName \<noteq> [] \<and> name = [] then contName else name)))"

abbreviation ohdr :: bytes where "ohdr \<equiv> [0x4F, 0x48, 0x44, 0x52]"
abbreviation ochk :: bytes where "ochk \<equiv> [0x4F, 0x43, 0x48, 0x4B]"

definition parseV2ContinuationBlock ::
    "bytes \<Rightarrow> u64 \<Rightarrow> u64 \<Rightarrow> byte \<Rightarrow> bool \<Rightarrow> (HeaderMessage list \<times> bytes) result" where
  "parseV2ContinuationBlock f blockAddr blockSize flags isBE =
     (if blockSize < 8 then Inl (Errorf ''OCHK block too small: %d bytes (minimum 8)'')
      else case ReadAt f 4 blockAddr of
             Inl e \<Rightarrow> Inl (Wrapf ''OCHK signature read failed'' e)
           | Inr sigBuf \<Rightarrow>
               if sigBuf \<noteq> ochk then Inl (Errorf ''invalid OCHK signature: %x'')
               else parse_v2_messages f isBE (flags AND 0x04 \<noteq> 0) ''OCHK message header read failed''
                      ''OCHK message data read failed'' (blockAddr + 4) (blockAddr + blockSize - 4) [])"

definition parseV2Header ::
    "bytes \<Rightarrow> u64 \<Rightarrow> byte \<Rightarrow> Superblock \<Rightarrow> bool \<Rightarrow> (HeaderMessage list \<times> bytes) result option" where
  "parseV2Header f headerAddr flags sb isBE =
     (let current = headerAddr + 6;
          current = (if flags AND 0x20 \<noteq> 0 then current + 16 else current);
          current = (if flags AND 0x10 \<noteq> 0 then current + 4 else current);
          chunkSizeBytes = 2 ^ unat (flags AND 0x03)
      in case ReadAt f chunkSizeBytes current of
           Inl e \<Rightarrow> Some (Inl (Wrapf ''chunk size read failed'' e))
         | Inr sizeBuf \<Rightarrow>
             let chunkSize = order_get (if isBE then BigEndian else LittleEndian) sizeBuf :: u64;
                 current = current + of_nat chunkSizeBytes;
                 stop = current + chunkSize
             in case parse_v2_messages f isBE (flags AND 0x04 \<noteq> 0) ''message header read failed''
                       ''message data read failed'' current stop [] of
                  Inl e \<Rightarrow> Some (Inl e)
                | Inr (messages, name) \<Rightarrow>
                    follow_continuations sb ''V2 continuation block parse failed''
                      (\<lambda>cont. parseV2ContinuationBlock f (ci_Address cont) (ci_Size cont) flags isBE)
                      (findContinuations messages sb) messages name)"

text \<open>Version 1: messages with 8-byte headers, padded to multiples of eight.\<close>

definition null_terminated :: "bytes \<Rightarrow> bytes" where
  "null_terminated = takeWhile (\<lambda>b. b \<noteq> 0)"

definition round8 :: "u64 \<Rightarrow> u64" where
  "round8 n = (if n mod 8 \<noteq> 0 then n + (8 - n mod 8) else n)"

function parse_v1_messages ::
    "bytes \<Rightarrow> Superblock \<Rightarrow> u64 \<Rightarrow> u64 \<Rightarrow> u16 \<Rightarrow> u16 \<Rightarrow> bytes \<Rightarrow> (HeaderMessage list \<times> bytes) result" where
  "parse_v1_messages f sb current stop maxMessages messageCount name =
     (if \<not> current < stop \<or> messageCount \<ge> maxMessages \<or> current + 8 > stop then Inr ([], name)
      else case ReadAt f 8 current of
             Inl e \<Rightarrow> if e = Errorf ''EOF'' then Inr ([], name) else Inl (Wrapf ''message header read failed'' e)
           | Inr hb \<Rightarrow>
               let msgType = order_get (Endianness sb) (take 2 hb) :: u16;
                   msgSize = order_get (Endianness sb) (take 2 (drop 2 hb)) :: u16
               in if msgSize = 0 then parse_v1_messages f sb (current + 8) stop maxMessages messageCount name
                  else if current + 8 + ucast msgSize > stop then Inr ([], name)
                  else case ReadAt f (unat msgSize) (current + 8) of
                         Inl e \<Rightarrow> if e = Errorf ''EOF'' then Inr ([], name) else Inl (Wrapf ''message data read failed'' e)
                       | Inr data \<Rightarrow>
                           let name = (if msgType = MsgName \<and> length data > 0 then null_terminated data else name)
                           in case parse_v1_messages f sb (current + round8 (8 + ucast msgSize)) stop maxMessages
                                     (messageCount + 1) name of
                                Inl e \<Rightarrow> Inl e
                              | Inr (messages, name) \<Rightarrow>
                                  Inr (\<lparr>hm_Type = msgType, hm_Offset = current, hm_Data = data,
                                        hm_FromContinuation = False\<rparr> # messages, name))"
  by pat_completeness (elim Pair_inject, simp only:)

lemma nat_round8_split:
  assumes "r < 8"
  shows "(8 * q + r + 7) div 8 = (if r = 0 then q else q + 1 :: nat)"
  using assms by (intro div_nat_eqI) auto

lemma nat_round8: "m mod 8 \<noteq> 0 \<Longrightarrow> m + (8 - m mod 8) = (m + 7) div 8 * (8 :: nat)" "m mod 8 = 0 \<Longrightarrow> (m + 7) div 8 * 8 = (m :: nat)"
proof -
  have r: "m mod 8 < 8" "8 * (m div 8) + m mod 8 = m" by simp_all
  note s = nat_round8_split [OF r(1), of "m div 8", unfolded r(2)]
  have g: "8 * q + r + (8 - r) = (q + 1) * (8 :: nat)" if "r < 8" for q r using that by simp
  show "m mod 8 \<noteq> 0 \<Longrightarrow> m + (8 - m mod 8) = (m + 7) div 8 * 8"
    using s g [OF r(1), of "m div 8", unfolded r(2)] by simp
  assume "m mod 8 = 0"
  then have "(m + 7) div 8 = m div 8" "8 * (m div 8) = m" using s r(2) by simp_all
  then show "(m + 7) div 8 * 8 = m" by simp
qed

lemma unat_round8:
  assumes "unat n < 2 ^ 62"
  shows "unat (round8 n) = (unat n + 7) div 8 * 8"
proof -
  have m: "unat (n mod 8) = unat n mod 8" by (simp add: unat_mod)
  show ?thesis
  proof (cases "n mod 8 = 0")
    case True
    then have "unat n mod 8 = 0" using m by simp
    then show ?thesis using True by (simp add: round8_def nat_round8)
  next
    case False
    then have nz: "unat n mod 8 \<noteq> 0" using m by (metis unat_eq_zero)
    have le: "n mod 8 \<le> 8" using m by (simp add: word_le_nat_alt)
    have s: "unat (8 - n mod 8) = 8 - unat n mod 8" using le m by (simp add: unat_sub)
    have "unat (n + (8 - n mod 8)) = unat n + (8 - unat n mod 8)"
      using assms s by (subst unat_add_small) simp_all
    then show ?thesis using False nat_round8(1) [OF nz] by (simp add: round8_def)
  qed
qed

termination parse_v1_messages
proof (relation "measure (\<lambda>(f, _, cur, _, _, _, _). length f - unat cur)", goal_cases)
  case 1
  then show ?case by simp
next
  case 2
  show ?case unfolding in_measure prod.case by (rule message_step [OF 2(2)]) simp_all
next
  case (3 f sb cur stop mx cnt name hb x xa data xb)
  have u: "unat (8 + ucast (xa :: u16) :: u64) = 8 + unat xa"
    by (subst unat_add_small) (simp_all add: less_trans [OF unat_u16_less])
  have "unat (round8 (8 + ucast (xa :: u16))) = (8 + unat xa + 7) div 8 * 8"
    using u by (subst unat_round8) (simp_all add: less_trans [OF unat_u16_less])
  then have "0 < unat (round8 (8 + ucast (xa :: u16)))" "unat (round8 (8 + ucast (xa :: u16))) < 2 ^ 62"
    by (simp_all add: div_less_iff_less_mult less_trans [OF unat_u16_less])
  then show ?case unfolding in_measure prod.case by (rule message_step [OF 3(2) zero_less_numeral])
qed

declare parse_v1_messages.simps [simp del]

definition parseV1ContinuationBlock :: "bytes \<Rightarrow> u64 \<Rightarrow> u64 \<Rightarrow> Superblock \<Rightarrow> (HeaderMessage list \<times> bytes) result" where
  "parseV1ContinuationBlock f blockAddr blockSize sb = parse_v1_messages f sb blockAddr (blockAddr + blockSize) 0xFFFF 0 []"

text \<open>
  \<^verbatim>\<open>WrapError("invalid v1 header version", nil)\<close> is a nil error: a block whose first byte is not 1 is
  returned as a header without messages.
\<close>

definition parseV1Header :: "bytes \<Rightarrow> u64 \<Rightarrow> Superblock \<Rightarrow> (HeaderMessage list \<times> bytes \<times> u32) result option" where
  "parseV1Header f headerAddr sb =
     (case ReadAt f 16 headerAddr of
        Inl e \<Rightarrow> Some (Inl (Wrapf ''v1 header read failed'' e))
      | Inr hb \<Rightarrow>
          if hb ! 0 \<noteq> 1 then Some (Inr ([], [], 0))
          else let numMessages = order_get (Endianness sb) (take 2 (drop 2 hb)) :: u16;
                   refCount = order_get (Endianness sb) (take 4 (drop 4 hb)) :: u32;
                   headerSize = order_get (Endianness sb) (take 4 (drop 8 hb)) :: u32;
                   current = headerAddr + 16;
                   stop = headerAddr + 16 + ucast headerSize
               in case parse_v1_messages f sb current stop numMessages 0 [] of
                    Inl e \<Rightarrow> Some (Inl e)
                  | Inr (messages, name) \<Rightarrow>
                      map_option (map_sum id (\<lambda>(messages, name). (messages, name, refCount)))
                        (follow_continuations sb ''continuation block parse failed''
                           (\<lambda>cont. parseV1ContinuationBlock f (ci_Address cont) (ci_Size cont) sb)
                           (findContinuations messages sb) messages name))"

section \<open>Writing\<close>

definition NewMinimalRootGroupHeader :: ObjectHeaderWriter where
  "NewMinimalRootGroupHeader =
     \<lparr>ohw_Version = 2, ohw_Flags = 0,
      ohw_Messages = [\<lparr>mw_Type = MsgLinkInfo,
                       mw_Data = [0, 0] @ le_put 8 (0xFFFFFFFFFFFFFFFF :: u64) @ le_put 8 (0xFFFFFFFFFFFFFFFF :: u64)\<rparr>],
      ohw_RefCount = 0\<rparr>"

text \<open>Sizes are sums of slice lengths, so they are natural numbers here.\<close>

definition sizeV1 :: "ObjectHeaderWriter \<Rightarrow> nat" where
  "sizeV1 ohw = 16 + sum_list (map (\<lambda>m. (8 + length (mw_Data m) + 7) div 8 * 8) (ohw_Messages ohw))"

definition chunkSizeFieldWidth :: "nat \<Rightarrow> nat" where
  "chunkSizeFieldWidth n = (if n \<le> 255 then 1 else if n \<le> 65535 then 2 else if n \<le> 0xFFFFFFFF then 4 else 8)"

definition messages_size :: "MessageWriter list \<Rightarrow> nat" where
  "messages_size ms = sum_list (map (\<lambda>m. 1 + 2 + 1 + length (mw_Data m)) ms)"

definition sizeV2 :: "ObjectHeaderWriter \<Rightarrow> nat" where
  "sizeV2 ohw =
     (let messageDataSize = messages_size (ohw_Messages ohw)
      in 4 + 1 + 1 + chunkSizeFieldWidth messageDataSize + messageDataSize + 4)"

definition ohw_Size :: "ObjectHeaderWriter \<Rightarrow> nat result" where
  "ohw_Size ohw =
     (if ohw_Version ohw = 1 then Inr (sizeV1 ohw)
      else if ohw_Version ohw = 2 then Inr (sizeV2 ohw)
      else Inl (Panicf ''unsupported object header version: %d''))"

definition PadToSize :: "ObjectHeaderWriter \<Rightarrow> nat \<Rightarrow> ObjectHeaderWriter result" where
  "PadToSize ohw minSize =
     (case ohw_Size ohw of
        Inl e \<Rightarrow> Inl e
      | Inr currentSize \<Rightarrow>
          if currentSize \<ge> minSize then Inr ohw
          else let needed = minSize - currentSize;
                   msgOverhead = (if ohw_Version ohw = 1 then 8 else 4);
                   needed = (if needed \<le> msgOverhead then msgOverhead + 1 else needed)
               in Inr (ohw\<lparr>ohw_Messages := ohw_Messages ohw @ [\<lparr>mw_Type = MsgNil, mw_Data = zeros (needed - msgOverhead)\<rparr>]\<rparr>))"

definition writeChunkSize :: "nat \<Rightarrow> nat \<Rightarrow> bytes" where
  "writeChunkSize chunkSize width = le_put width (of_nat chunkSize :: u64)"

definition message_v1 :: "MessageWriter \<Rightarrow> bytes" where
  "message_v1 m =
     (let n = length (mw_Data m)
      in le_put 2 (mw_Type m) @ le_put 2 (of_nat n :: u16) @ [0] @ zeros 3 @ mw_Data m
         @ zeros (if (8 + n) mod 8 \<noteq> 0 then 8 - (8 + n) mod 8 else 0))"

definition header_v1 :: "ObjectHeaderWriter \<Rightarrow> bytes" where
  "header_v1 ohw =
     (let n = length (ohw_Messages ohw)
      in [1, 0] @ le_put 2 (of_nat n :: u16) @ le_put 4 (ohw_RefCount ohw) @ le_put 4 (of_nat (16 + n * 8) :: u32)
         @ zeros 4 @ concat (map message_v1 (ohw_Messages ohw)))"

definition message_v2 :: "MessageWriter \<Rightarrow> bytes" where
  "message_v2 m = [ucast (mw_Type m)] @ le_put 2 (of_nat (length (mw_Data m)) :: u16) @ [0] @ mw_Data m"

definition with_checksum :: "bytes \<Rightarrow> bytes" where
  "with_checksum buf = buf @ le_put 4 (JenkinsChecksum buf)"

definition v2_flags :: "ObjectHeaderWriter \<Rightarrow> byte" where
  "v2_flags ohw =
     (let csWidth = chunkSizeFieldWidth (messages_size (ohw_Messages ohw));
          flagsBits = (if csWidth = 1 then 0 else if csWidth = 2 then 1 else if csWidth = 4 then 2 else 3)
      in (ohw_Flags ohw AND 0xFC) OR flagsBits)"

definition header_v2 :: "ObjectHeaderWriter \<Rightarrow> bytes" where
  "header_v2 ohw =
     (let chunkSize = messages_size (ohw_Messages ohw);
          csWidth = chunkSizeFieldWidth chunkSize
      in with_checksum (ohdr @ [ohw_Version ohw, v2_flags ohw] @ writeChunkSize chunkSize csWidth
                        @ concat (map message_v2 (ohw_Messages ohw))))"

definition writeToV1 :: "ObjectHeaderWriter \<Rightarrow> FileWriter \<Rightarrow> u64 \<Rightarrow> (nat \<times> FileWriter) result" where
  "writeToV1 ohw w address =
     (case fw_WriteAt w (header_v1 ohw) address of
        Inl e \<Rightarrow> Inl (Wrapf ''failed to write object header v1 at address %d: %w'' e)
      | Inr w \<Rightarrow> Inr (sizeV1 ohw, w))"

definition writeToV2 :: "ObjectHeaderWriter \<Rightarrow> FileWriter \<Rightarrow> u64 \<Rightarrow> (nat \<times> FileWriter) result" where
  "writeToV2 ohw w address =
     (case fw_WriteAt w (header_v2 ohw) address of
        Inl e \<Rightarrow> Inl (Wrapf ''failed to write object header v2 at address %d: %w'' e)
      | Inr w \<Rightarrow> Inr (sizeV2 ohw, w))"

definition ohw_WriteTo :: "ObjectHeaderWriter \<Rightarrow> FileWriter \<Rightarrow> u64 \<Rightarrow> (nat \<times> FileWriter) result" where
  "ohw_WriteTo ohw w address =
     (if ohw_Version ohw = 1 then writeToV1 ohw w address
      else if ohw_Version ohw = 2 then writeToV2 ohw w address
      else Inl (Errorf ''unsupported object header version: %d''))"

definition AddMessageToObjectHeader :: "ObjectHeader \<Rightarrow> MessageType \<Rightarrow> bytes \<Rightarrow> ObjectHeader result" where
  "AddMessageToObjectHeader oh msgType msgData =
     (if oh_Version oh \<noteq> 2
      then Inl (Errorf ''only object header version 2 is supported for modification, got version %d'')
      else Inr (oh\<lparr>oh_Messages := oh_Messages oh
                    @ [\<lparr>hm_Type = msgType, hm_Offset = 0, hm_Data = msgData, hm_FromContinuation = False\<rparr>]\<rparr>))"

definition as_writer :: "ObjectHeader \<Rightarrow> ObjectHeaderWriter" where
  "as_writer oh =
     \<lparr>ohw_Version = oh_Version oh, ohw_Flags = oh_Flags oh,
      ohw_Messages = map (\<lambda>m. \<lparr>mw_Type = hm_Type m, mw_Data = hm_Data m\<rparr>) (oh_Messages oh), ohw_RefCount = 0\<rparr>"

definition WriteObjectHeader :: "FileWriter \<Rightarrow> u64 \<Rightarrow> ObjectHeader \<Rightarrow> FileWriter result" where
  "WriteObjectHeader w addr oh =
     (if oh_Version oh \<noteq> 2 then Inl (Errorf ''only object header version 2 is supported for writing, got version %d'')
      else case ohw_WriteTo (as_writer oh) w addr of
             Inl e \<Rightarrow> Inl (Wrapf ''failed to write object header at address %d: %w'' e)
           | Inr (_, w) \<Rightarrow> Inr w)"

definition ObjectHeaderSizeFromParsed :: "ObjectHeader \<Rightarrow> nat" where
  "ObjectHeaderSizeFromParsed oh =
     (if oh_Version oh \<noteq> 1 \<and> oh_Version oh \<noteq> 2 then 0
      else case ohw_Size (as_writer oh) of Inl _ \<Rightarrow> 0 | Inr n \<Rightarrow> n)"

definition continuation_field :: "u64 \<Rightarrow> nat \<Rightarrow> bytes" where
  "continuation_field v sz = (if sz = 2 \<or> sz = 4 \<or> sz = 8 then le_put sz v else ucast v # zeros (sz - 1))"

text \<open>For the sizes the superblock admits; a size of zero would panic.\<close>

definition EncodeContinuationMessage :: "u64 \<Rightarrow> u64 \<Rightarrow> Superblock \<Rightarrow> bytes" where
  "EncodeContinuationMessage ochkAddr ochkSize sb =
     continuation_field ochkAddr (unat (OffsetSize sb)) @ continuation_field ochkSize (unat (LengthSize sb))"

definition ContinuationChunkSizeV2 :: "MessageWriter list \<Rightarrow> nat" where
  "ContinuationChunkSizeV2 messages = 4 + messages_size messages + 4"

definition chunk_v2 :: "MessageWriter list \<Rightarrow> bytes" where
  "chunk_v2 messages = with_checksum (ochk @ concat (map message_v2 messages))"

definition WriteContinuationChunkV2 :: "FileWriter \<Rightarrow> u64 \<Rightarrow> MessageWriter list \<Rightarrow> (nat \<times> FileWriter) result" where
  "WriteContinuationChunkV2 w address messages =
     (case fw_WriteAt w (chunk_v2 messages) address of
        Inl e \<Rightarrow> Inl (Wrapf ''failed to write OCHK continuation block at address %d: %w'' e)
      | Inr w \<Rightarrow> Inr (4 + messages_size messages + 4, w))"

definition IncrementReferenceCount :: "ObjectHeader \<Rightarrow> u32 \<times> ObjectHeader" where
  "IncrementReferenceCount oh = (let n = oh_ReferenceCount oh + 1 in (n, oh\<lparr>oh_ReferenceCount := n\<rparr>))"

definition DecrementReferenceCount :: "ObjectHeader \<Rightarrow> u32 \<times> ObjectHeader" where
  "DecrementReferenceCount oh =
     (let n = (if oh_ReferenceCount oh > 0 then oh_ReferenceCount oh - 1 else 0) in (n, oh\<lparr>oh_ReferenceCount := n\<rparr>))"

definition GetReferenceCount :: "ObjectHeader \<Rightarrow> u32" where
  "GetReferenceCount oh = oh_ReferenceCount oh"

section \<open>What the writer writes\<close>

lemma length_message_v2 [simp]: "length (message_v2 m) = 4 + length (mw_Data m)"
  by (simp add: message_v2_def del: le_put_numeral)

lemma length_messages_v2 [simp]: "length (concat (map message_v2 ms)) = messages_size ms"
  by (induction ms) (simp_all add: messages_size_def)

lemma length_message_v1: "length (message_v1 m) = (8 + length (mw_Data m) + 7) div 8 * 8"
  using nat_round8 [of "8 + length (mw_Data m)"] by (auto simp: message_v1_def Let_def simp del: le_put_numeral)

lemma length_with_checksum [simp]: "length (with_checksum b) = length b + 4"
  by (simp add: with_checksum_def del: le_put_numeral)

lemma length_header_v1: "length (header_v1 ohw) = sizeV1 ohw"
proof -
  have "length (concat (map message_v1 ms)) = sum_list (map (\<lambda>m. (8 + length (mw_Data m) + 7) div 8 * 8) ms)" for ms
    by (induction ms) (simp_all add: length_message_v1)
  then show ?thesis by (simp add: header_v1_def sizeV1_def Let_def del: le_put_numeral)
qed

lemma length_header_v2: "length (header_v2 ohw) = sizeV2 ohw"
  by (simp add: header_v2_def sizeV2_def writeChunkSize_def Let_def del: le_put_numeral)

lemma length_chunk_v2: "length (chunk_v2 ms) = ContinuationChunkSizeV2 ms"
  by (simp add: chunk_v2_def ContinuationChunkSizeV2_def)


text \<open>\<open>holds_at f p bs\<close>: the file has the bytes at offset \<open>p\<close>.\<close>

definition holds_at :: "bytes \<Rightarrow> nat \<Rightarrow> bytes \<Rightarrow> bool" where
  "holds_at f p bs \<longleftrightarrow> p + length bs \<le> length f \<and> take (length bs) (drop p f) = bs"

lemma holds_at_append: "holds_at f p (xs @ ys) \<longleftrightarrow> holds_at f p xs \<and> holds_at f (p + length xs) ys"
proof
  assume h: "holds_at f p (xs @ ys)"
  then have t: "take (length xs + length ys) (drop p f) = xs @ ys" by (simp add: holds_at_def)
  have "take (length xs) (drop p f) = take (length xs) (take (length xs + length ys) (drop p f))" by simp
  then have 1: "take (length xs) (drop p f) = xs" unfolding t by simp
  have "take (length ys) (drop (length xs) (drop p f)) = drop (length xs) (take (length xs + length ys) (drop p f))"
    by (simp add: drop_take)
  then have 2: "take (length ys) (drop (length xs) (drop p f)) = ys" unfolding t by simp
  show "holds_at f p xs \<and> holds_at f (p + length xs) ys" using 1 2 h by (simp add: holds_at_def add.commute)
next
  assume h: "holds_at f p xs \<and> holds_at f (p + length xs) ys"
  have "take (length xs + length ys) (drop p f) = take (length xs) (drop p f) @ take (length ys) (drop (length xs) (drop p f))"
    by (rule take_add)
  then show "holds_at f p (xs @ ys)" using h by (simp add: holds_at_def add.commute)
qed

lemma ReadAt_holds: "holds_at f p bs \<Longrightarrow> unat a = p \<Longrightarrow> p < 2 ^ 63 \<Longrightarrow> n = length bs \<Longrightarrow> ReadAt f n a = Inr bs"
  by (simp add: ReadAt_def holds_at_def)

lemma stored_holds: "stored w a d \<Longrightarrow> holds_at (contents w) (unat a) d"
  by (simp add: stored_def holds_at_def)

text \<open>A message the format can hold: its type is a byte, its length fits 16 bits.\<close>

definition message_ok :: "MessageWriter \<Rightarrow> bool" where
  "message_ok m \<longleftrightarrow> mw_Type m < 256 \<and> length (mw_Data m) < 65536"

abbreviation wire :: "MessageWriter \<Rightarrow> MessageType \<times> bytes" where
  "wire m \<equiv> (mw_Type m, mw_Data m)"

abbreviation parsed :: "HeaderMessage \<Rightarrow> MessageType \<times> bytes" where
  "parsed m \<equiv> (hm_Type m, hm_Data m)"

abbreviation nonempty :: "MessageWriter list \<Rightarrow> MessageWriter list" where
  "nonempty ms \<equiv> filter (\<lambda>m. mw_Data m \<noteq> []) ms"

lemma byte_type: "(t :: u16) < 256 \<Longrightarrow> ucast (ucast t :: byte) = t"
  by (intro unat_eqD) (simp add: word_less_nat_alt unsigned_ucast_eq unsigned_take_bit_eq take_bit_nat_eq_self)

lemma parse_v2_written:
  assumes "\<forall>m\<in>set ms. message_ok m" "holds_at f p (concat (map message_v2 ms) @ tail)" "4 \<le> length tail"
    "p + messages_size ms < 2 ^ 63" "unat cur = p" "unat stop = p + messages_size ms"
  shows "\<exists>hs nm. parse_v2_messages f False False he de cur stop name = Inr (hs, nm)
     \<and> map parsed hs = map wire (nonempty ms) \<and> (\<forall>h\<in>set hs. \<not> hm_FromContinuation h)"
  using assms
proof (induction ms arbitrary: p cur name)
  case Nil
  then have "\<not> cur < stop" by (simp add: word_less_nat_alt messages_size_def)
  then show ?case by (simp add: parse_v2_messages.simps)
next
  case (Cons m ms)
  let ?n = "length (mw_Data m)" and ?rest = "concat (map message_v2 ms) @ tail"
  have ok: "mw_Type m < 256" "?n < 65536" using Cons.prems(1) by (auto simp: message_ok_def)
  have ms: "messages_size (m # ms) = 4 + ?n + messages_size ms" by (simp add: messages_size_def)
  have lt: "cur < stop" using Cons.prems(5,6) ms by (simp add: word_less_nat_alt)
  let ?sz = "of_nat ?n :: u16" and ?hd = "ucast (mw_Type m) # le_put 2 (of_nat ?n :: u16) @ [0 :: byte]"
  have usz: "unat ?sz = ?n" using ok by (intro unat_of_nat_less) simp
  have hold: "holds_at f p (?hd @ mw_Data m @ ?rest)" using Cons.prems(2) by (simp add: message_v2_def [of m] del: le_put_numeral)
  have lhd: "length ?hd = 4" by (simp del: le_put_numeral)
  have lrest: "4 \<le> length ?rest" using Cons.prems(3) by simp
  let ?b = "drop 2 (mw_Data m @ ?rest)"
  have b: "?hd @ mw_Data m @ ?rest = (?hd @ take 2 (mw_Data m @ ?rest)) @ ?b" "length (take 2 (mw_Data m @ ?rest)) = 2"
    using lrest by (simp_all only: append.assoc append_take_drop_id length_take length_append)
  have h6: "holds_at f p (?hd @ take 2 (mw_Data m @ ?rest))"
    using hold unfolding b(1) holds_at_append [of f p "?hd @ take 2 (mw_Data m @ ?rest)" ?b] by (rule conjunct1)
  have l6: "6 = length (?hd @ take 2 (mw_Data m @ ?rest))" using b(2) lhd by (simp only: length_append)
  define hb where "hb = ?hd @ take 2 (mw_Data m @ ?rest)"
  have r6: "ReadAt f 6 cur = Inr hb" unfolding hb_def
    by (rule ReadAt_holds [OF h6 Cons.prems(5) _ l6]) (use Cons.prems(4) in simp)
  have nx: "holds_at f (p + 4 + ?n) ?rest" "holds_at f (p + 4) (mw_Data m)"
    using hold unfolding holds_at_append [of f p ?hd] holds_at_append [of f _ "mw_Data m"] lhd by simp_all
  have u4: "unat (cur + 4) = p + 4" using Cons.prems(4,5) ms by (subst unat_add_small) simp_all
  have un: "unat (cur + (4 + ucast ?sz)) = p + 4 + ?n"
  proof -
    have "unat (4 + ucast ?sz :: u64) = 4 + ?n" using usz ok by (subst unat_add_small) simp_all
    then show ?thesis using Cons.prems(4,5) ms ok by (subst unat_add_small) simp_all
  qed
  have fields: "ucast (hb ! 0) = mw_Type m" "order_get LittleEndian (take 2 (drop 1 hb)) = ?sz"
    unfolding hb_def using byte_type [OF ok(1)] by (simp_all del: le_put_numeral)
  have IH: "\<exists>hs nm. parse_v2_messages f False False he de c stop nm0 = Inr (hs, nm)
     \<and> map parsed hs = map wire (nonempty ms) \<and> (\<forall>h\<in>set hs. \<not> hm_FromContinuation h)" if "unat c = p + 4 + ?n" for c nm0
    using Cons.prems ms that nx(1) by (intro Cons.IH [where p = "p + 4 + ?n"]) simp_all
  show ?case
  proof (cases "?n = 0")
    case True
    then have "?sz = 0" by simp
    then show ?thesis
      using IH [of "cur + 4" name] u4 True
      by (simp add: parse_v2_messages.simps [of f _ _ _ _ cur] lt r6 fields [unfolded One_nat_def] Let_def del: order_get.simps le_put_numeral)
  next
    case False
    then have nz: "?sz \<noteq> 0" "mw_Data m \<noteq> []" using usz by auto
    have rd: "ReadAt f (unat ?sz) (cur + 4) = Inr (mw_Data m)"
      using nx(2) u4 Cons.prems(4) ms usz by (intro ReadAt_holds [where p = "p + 4"]) simp_all
    show ?thesis
      using IH [OF un, of "if mw_Type m = MsgName \<and> 1 < ?n then drop 1 (mw_Data m) else name"] nz
      by (auto simp: parse_v2_messages.simps [of f _ _ _ _ cur] lt r6 fields [unfolded One_nat_def] rd Let_def simp del: order_get.simps le_put_numeral)
  qed
qed


lemma v2_flags_bits:
  fixes F b :: byte
  assumes "F AND 0x34 = 0" "b \<in> {0, 1, 2, 3}"
  shows "((F AND 0xFC) OR b) AND 0x20 = 0" "((F AND 0xFC) OR b) AND 0x10 = 0" "((F AND 0xFC) OR b) AND 0x04 = 0"
    "((F AND 0xFC) OR b) AND 0x03 = b"
proof -
  have F: "F AND 0x20 = 0" "F AND 0x10 = 0" "F AND 0x04 = 0"
    using arg_cong [OF assms(1), of "\<lambda>x. x AND 0x20"] arg_cong [OF assms(1), of "\<lambda>x. x AND 0x10"]
      arg_cong [OF assms(1), of "\<lambda>x. x AND 0x04"] by (simp_all add: and.assoc)
  have d: "((F AND 0xFC) OR b) AND m = (F AND (0xFC AND m)) OR (b AND m)" for m
    by (simp add: bit.conj_disj_distrib2 and.assoc)
  show "((F AND 0xFC) OR b) AND 0x20 = 0" "((F AND 0xFC) OR b) AND 0x10 = 0" "((F AND 0xFC) OR b) AND 0x04 = 0"
    "((F AND 0xFC) OR b) AND 0x03 = b"
    unfolding d using F assms(2) by auto
qed

lemma v2_flags_cases:
  assumes "ohw_Flags ohw AND 0x34 = 0"
  shows "v2_flags ohw AND 0x20 = 0" "v2_flags ohw AND 0x10 = 0" "v2_flags ohw AND 0x04 = 0"
    "2 ^ unat (v2_flags ohw AND 0x03) = chunkSizeFieldWidth (messages_size (ohw_Messages ohw))"
  using v2_flags_bits [OF assms] by (auto simp: v2_flags_def chunkSizeFieldWidth_def Let_def)

lemma chunkSize_field:
  assumes "n < 2 ^ 63"
  shows "order_get LittleEndian (writeChunkSize n (chunkSizeFieldWidth n)) = (of_nat n :: u64)"
proof -
  have "n < 2 ^ (8 * chunkSizeFieldWidth n)" using assms by (auto simp: chunkSizeFieldWidth_def)
  then have "fits_width (chunkSizeFieldWidth n) (of_nat n)" using assms by (simp add: fits_width_def unat_of_nat_less)
  then show ?thesis using fits_width_take_bit by (simp add: writeChunkSize_def le_get_le_put)
qed

lemma message_type_lt_16: "findContinuations hs sb = findContinuations (filter (\<lambda>h. hm_Type h = MsgContinuation) hs) sb"
  by (induction hs) (auto split: sum.split)

text \<open>The main chunk: everything up to the continuations.\<close>

lemma parseV2Header_main:
  assumes ok: "\<forall>m\<in>set (ohw_Messages ohw). message_ok m" and fl: "ohw_Flags ohw AND 0x34 = 0"
    and held: "holds_at f (unat addr) (header_v2 ohw)" and room: "unat addr + sizeV2 ohw < 2 ^ 63"
  shows "\<exists>hs nm. parseV2Header f addr (v2_flags ohw) sb False
       = follow_continuations sb ''V2 continuation block parse failed''
           (\<lambda>cont. parseV2ContinuationBlock f (ci_Address cont) (ci_Size cont) (v2_flags ohw) False)
           (findContinuations hs sb) hs nm
     \<and> map parsed hs = map wire (nonempty (ohw_Messages ohw)) \<and> (\<forall>h\<in>set hs. \<not> hm_FromContinuation h)"
proof -
  let ?n = "messages_size (ohw_Messages ohw)" and ?p = "unat addr"
  let ?w = "chunkSizeFieldWidth ?n"
  let ?sz = "writeChunkSize ?n ?w" and ?ms = "concat (map message_v2 (ohw_Messages ohw))"
  let ?pre = "ohdr @ [ohw_Version ohw, v2_flags ohw]"
  note fb = v2_flags_cases [OF fl]
  obtain ck where ck: "header_v2 ohw = ?pre @ ?sz @ ?ms @ ck" "length ck = 4"
    by (simp add: header_v2_def with_checksum_def Let_def del: le_put_numeral)
  have w8: "?w \<le> 8" by (simp add: chunkSizeFieldWidth_def)
  have sz: "sizeV2 ohw = 6 + ?w + ?n + 4" by (simp add: sizeV2_def Let_def)
  have lsz: "length ?sz = ?w" by (simp add: writeChunkSize_def)
  have lpre: "length ?pre = 6" by simp
  have h: "holds_at f (?p + 6) ?sz" "holds_at f (?p + 6 + ?w) (?ms @ ck)"
    using held unfolding ck(1) holds_at_append [of f _ ?pre] holds_at_append [of f _ ?sz] lsz lpre by simp_all
  have u6: "unat (addr + 6) = ?p + 6" using room sz by (subst unat_add_small) simp_all
  have uw: "unat (of_nat ?w :: u64) = ?w" using w8 by (intro unat_of_nat_less) simp
  have u6w: "unat (addr + 6 + of_nat ?w) = ?p + 6 + ?w" using room sz uw u6 w8 by (subst unat_add_small) simp_all
  have un: "unat (of_nat ?n :: u64) = ?n" using room sz by (intro unat_of_nat_less) simp
  have us: "unat (addr + 6 + of_nat ?w + of_nat ?n) = ?p + 6 + ?w + ?n"
    using room sz un u6w by (intro unat_add_lem [THEN iffD1, THEN trans]) simp_all
  have r: "ReadAt f ?w (addr + 6) = Inr ?sz" 
  proof (rule ReadAt_holds [OF h(1) u6 _ lsz [symmetric]])
    show "?p + 6 < 2 ^ 63" using room sz by linarith
  qed
  have cs: "order_get LittleEndian ?sz = (of_nat ?n :: u64)" using room sz by (intro chunkSize_field) simp
  have "\<exists>hs nm. parse_v2_messages f False False ''message header read failed'' ''message data read failed''
       (addr + 6 + of_nat ?w) (addr + 6 + of_nat ?w + of_nat ?n) [] = Inr (hs, nm)
     \<and> map parsed hs = map wire (nonempty (ohw_Messages ohw)) \<and> (\<forall>h\<in>set hs. \<not> hm_FromContinuation h)"
    using ok h(2) ck(2) room sz u6w us by (intro parse_v2_written [where p = "?p + 6 + ?w" and tail = ck]) simp_all
  then obtain hs nm where hs: "parse_v2_messages f False False ''message header read failed'' ''message data read failed''
       (addr + 6 + of_nat ?w) (addr + 6 + of_nat ?w + of_nat ?n) [] = Inr (hs, nm)"
     "map parsed hs = map wire (nonempty (ohw_Messages ohw))" "\<forall>h\<in>set hs. \<not> hm_FromContinuation h" by blast
  show ?thesis
    by (rule exI [of _ hs], rule exI [of _ nm]) (simp add: parseV2Header_def Let_def fb r cs hs del: order_get.simps)
qed

lemma parseV2ContinuationBlock_written:
  assumes ok: "\<forall>m\<in>set ms. message_ok m" and fl: "flags AND 0x04 = 0"
    and held: "holds_at f (unat addr) (chunk_v2 ms)" and room: "unat addr + ContinuationChunkSizeV2 ms < 2 ^ 63"
  shows "\<exists>hs nm. parseV2ContinuationBlock f addr (of_nat (ContinuationChunkSizeV2 ms)) flags False = Inr (hs, nm)
     \<and> map parsed hs = map wire (nonempty ms)"
proof -
  let ?n = "messages_size ms" and ?p = "unat addr" and ?ms = "concat (map message_v2 ms)"
  obtain ck where ck: "chunk_v2 ms = ochk @ ?ms @ ck" "length ck = 4"
    by (simp add: chunk_v2_def with_checksum_def del: le_put_numeral)
  have lo: "length ochk = 4" by simp
  have h: "holds_at f ?p ochk" "holds_at f (?p + 4) (?ms @ ck)"
    using held unfolding ck(1) holds_at_append [of f _ ochk] lo by simp_all
  have sz: "ContinuationChunkSizeV2 ms = ?n + 8" by (simp add: ContinuationChunkSizeV2_def)
  have u: "unat (of_nat (?n + 8) :: u64) = ?n + 8" using room sz by (intro unat_of_nat_less) simp
  have big: "\<not> (of_nat (?n + 8) :: u64) < 8" unfolding word_less_nat_alt u by simp
  have u4: "unat (addr + 4) = ?p + 4" using room sz by (subst unat_add_small) simp_all
  have "unat (addr + of_nat (?n + 8)) = ?p + (?n + 8)"
    using room sz u by (intro unat_add_lem [THEN iffD1, THEN trans]) simp_all
  then have us: "unat (addr + of_nat (?n + 8) - 4) = ?p + 4 + ?n"
    by (subst unat_sub) (simp_all add: word_le_nat_alt)
  have r: "ReadAt f 4 addr = Inr ochk" using room by (intro ReadAt_holds [OF h(1) refl]) simp_all
  have "\<exists>hs nm. parse_v2_messages f False False ''OCHK message header read failed'' ''OCHK message data read failed''
       (addr + 4) (addr + of_nat (?n + 8) - 4) [] = Inr (hs, nm) \<and> map parsed hs = map wire (nonempty ms)
       \<and> (\<forall>h\<in>set hs. \<not> hm_FromContinuation h)"
    using ok h(2) ck(2) room sz u4 us by (intro parse_v2_written [where p = "?p + 4" and tail = ck]) simp_all
  then show ?thesis
    using big r fl sz by (auto simp: parseV2ContinuationBlock_def)
qed

lemma continuation_roundtrip:
  assumes "sizes_ok sb" "Endianness sb = LittleEndian" "fits_width (unat (OffsetSize sb)) a"
    "fits_width (unat (LengthSize sb)) n" "n \<noteq> 0"
  shows "parseContinuationMessage (EncodeContinuationMessage a n sb) sb = Inr \<lparr>ci_Address = a, ci_Size = n\<rparr>"
    "length (EncodeContinuationMessage a n sb) = unat (OffsetSize sb) + unat (LengthSize sb)"
proof -
  have f: "length (continuation_field v k) = k" "fits_width k v \<Longrightarrow> le_get (continuation_field v k) = v"
    if "k \<in> {1, 2, 4, 8}" for v k
  proof -
    have c: "continuation_field v k = le_put k v" using that by (auto simp: continuation_field_def)
    show "length (continuation_field v k) = k" by (simp add: c)
    show "fits_width k v \<Longrightarrow> le_get (continuation_field v k) = v" by (simp add: c le_get_le_put fits_width_take_bit)
  qed
  let ?os = "unat (OffsetSize sb)" and ?ls = "unat (LengthSize sb)"
  have k: "?os \<in> {1, 2, 4, 8}" "?ls \<in> {1, 2, 4, 8}" using assms(1) by (auto simp: sizes_ok_def)
  have s: "unat (OffsetSize sb + LengthSize sb) = ?os + ?ls"
    using k by (intro unat_add_lem [THEN iffD1]) auto
  show l: "length (EncodeContinuationMessage a n sb) = ?os + ?ls" using k by (simp add: EncodeContinuationMessage_def f)
  show "parseContinuationMessage (EncodeContinuationMessage a n sb) sb = Inr \<lparr>ci_Address = a, ci_Size = n\<rparr>"
    unfolding parseContinuationMessage_def Let_def l s using k assms(2-)
    by (simp add: EncodeContinuationMessage_def f del: insert_iff)
qed

lemma findContinuations_append: "findContinuations (xs @ ys) sb = findContinuations xs sb @ findContinuations ys sb"
  by (induction xs) (auto split: sum.split)

lemma findContinuations_none:
  assumes "map parsed hs = map wire ms" "\<forall>m\<in>set ms. mw_Type m \<noteq> MsgContinuation"
  shows "findContinuations hs sb = []"
proof -
  have "\<forall>h\<in>set hs. hm_Type h \<noteq> MsgContinuation"
  proof
    fix h assume "h \<in> set hs"
    then have "parsed h \<in> set (map wire ms)" unfolding assms(1) [symmetric] by auto
    then show "hm_Type h \<noteq> MsgContinuation" using assms(2) by auto
  qed
  then show ?thesis by (induction hs) auto
qed

text \<open>A header whose messages fit its main chunk, read back.\<close>

lemma parseV2Header_plain:
  assumes "\<forall>m\<in>set (ohw_Messages ohw). message_ok m \<and> mw_Type m \<noteq> MsgContinuation" "ohw_Flags ohw AND 0x34 = 0"
    "holds_at f (unat addr) (header_v2 ohw)" "unat addr + sizeV2 ohw < 2 ^ 63"
  shows "\<exists>hs nm. parseV2Header f addr (v2_flags ohw) sb False = Some (Inr (hs, nm))
     \<and> map parsed hs = map wire (nonempty (ohw_Messages ohw)) \<and> (\<forall>h\<in>set hs. \<not> hm_FromContinuation h)"
proof -
  from assms(1) have ok: "\<forall>m\<in>set (ohw_Messages ohw). message_ok m" by blast
  from parseV2Header_main [OF ok assms(2-4), of sb] obtain hs nm where hs:
    "parseV2Header f addr (v2_flags ohw) sb False
       = follow_continuations sb ''V2 continuation block parse failed''
           (\<lambda>cont. parseV2ContinuationBlock f (ci_Address cont) (ci_Size cont) (v2_flags ohw) False)
           (findContinuations hs sb) hs nm"
    "map parsed hs = map wire (nonempty (ohw_Messages ohw))" "\<forall>h\<in>set hs. \<not> hm_FromContinuation h" by blast
  have "findContinuations hs sb = []" using hs(2) assms(1) by (intro findContinuations_none) auto
  with hs show ?thesis by (simp add: follow_continuations.simps)
qed

text \<open>A header that continues in a second block, read back.\<close>

lemma parseV2Header_continued:
  assumes ok: "\<forall>m\<in>set ms \<union> set cs. message_ok m \<and> mw_Type m \<noteq> MsgContinuation"
    and sb: "sizes_ok sb" "Endianness sb = LittleEndian" "fits_width (unat (OffsetSize sb)) caddr"
      "fits_width (unat (LengthSize sb)) (of_nat (ContinuationChunkSizeV2 cs))"
    and ohw: "ohw_Messages ohw = ms @ [\<lparr>mw_Type = MsgContinuation,
        mw_Data = EncodeContinuationMessage caddr (of_nat (ContinuationChunkSizeV2 cs)) sb\<rparr>]" "ohw_Flags ohw AND 0x34 = 0"
    and held: "holds_at f (unat addr) (header_v2 ohw)" "unat addr + sizeV2 ohw < 2 ^ 63"
      "holds_at f (unat caddr) (chunk_v2 cs)" "unat caddr + ContinuationChunkSizeV2 cs < 2 ^ 63"
  shows "\<exists>hs nm. parseV2Header f addr (v2_flags ohw) sb False = Some (Inr (hs, nm))
     \<and> map (\<lambda>h. (parsed h, hm_FromContinuation h)) hs
       = map (\<lambda>m. (wire m, False)) (nonempty (ohw_Messages ohw)) @ map (\<lambda>m. (wire m, True)) (nonempty cs)"
proof -
  let ?n = "of_nat (ContinuationChunkSizeV2 cs) :: u64"
  let ?c = "\<lparr>mw_Type = MsgContinuation, mw_Data = EncodeContinuationMessage caddr ?n sb\<rparr>"
  have un: "unat ?n = ContinuationChunkSizeV2 cs" using held(4) by (intro unat_of_nat_less) simp
  then have "?n \<noteq> 0" by (auto simp: ContinuationChunkSizeV2_def)
  note c = continuation_roundtrip [OF sb this]
  have lc: "0 < length (mw_Data ?c)" "length (mw_Data ?c) < 65536" using c(2) sb(1) by (auto simp: sizes_ok_def)
  have ok': "\<forall>m\<in>set (ohw_Messages ohw). message_ok m" using ok lc unfolding ohw(1) by (auto simp: message_ok_def)
  from parseV2Header_main [OF ok' ohw(2) held(1,2), of sb] obtain hs nm where hs:
    "parseV2Header f addr (v2_flags ohw) sb False
       = follow_continuations sb ''V2 continuation block parse failed''
           (\<lambda>cont. parseV2ContinuationBlock f (ci_Address cont) (ci_Size cont) (v2_flags ohw) False)
           (findContinuations hs sb) hs nm"
    "map parsed hs = map wire (nonempty (ohw_Messages ohw))" "\<forall>h\<in>set hs. \<not> hm_FromContinuation h" by blast
  have "map parsed hs = map wire (nonempty ms) @ [wire ?c]" using hs(2) lc(1) unfolding ohw(1) by simp
  then obtain h1 h where h: "hs = h1 @ [h]" "map parsed h1 = map wire (nonempty ms)" "parsed h = wire ?c"
    by (auto simp: map_eq_append_conv)
  have "findContinuations h1 sb = []" using h(2) ok by (intro findContinuations_none) auto
  then have fc: "findContinuations hs sb = [\<lparr>ci_Address = caddr, ci_Size = ?n\<rparr>]"
    using h(3) c(1) lc(1) by (auto simp: h(1) findContinuations_append)
  obtain ks km where ks: "parseV2ContinuationBlock f caddr ?n (v2_flags ohw) False = Inr (ks, km)"
    "map parsed ks = map wire (nonempty cs)"
    using parseV2ContinuationBlock_written [OF _ v2_flags_cases(3) [OF ohw(2)] held(3,4)] ok by blast
  have fk: "findContinuations ks sb = []" using ks(2) ok by (intro findContinuations_none) auto
  have all: "map (\<lambda>h. (parsed h, hm_FromContinuation h)) (hs @ map (\<lambda>cm. cm\<lparr>hm_FromContinuation := True\<rparr>) ks)
       = map (\<lambda>m. (wire m, False)) (nonempty (ohw_Messages ohw)) @ map (\<lambda>m. (wire m, True)) (nonempty cs)"
  proof -
    have "map (\<lambda>h. (parsed h, hm_FromContinuation h)) hs = map (\<lambda>x. (x, False)) (map parsed hs)" using hs(3) by simp
    moreover have "map (\<lambda>h. (parsed h, hm_FromContinuation h)) (map (\<lambda>cm. cm\<lparr>hm_FromContinuation := True\<rparr>) ks)
      = map (\<lambda>x. (x, True)) (map parsed ks)" by simp
    ultimately show ?thesis unfolding hs(2) ks(2) by simp
  qed
  have "\<exists>nm'. parseV2Header f addr (v2_flags ohw) sb False = Some (Inr (hs @ map (\<lambda>cm. cm\<lparr>hm_FromContinuation := True\<rparr>) ks, nm'))"
    using fk by (simp add: hs(1) fc follow_continuations.simps [of _ _ _ "_ # _"] follow_continuations.simps [of _ _ _ "[]"] ks(1))
  with all show ?thesis by blast
qed

text \<open>
  A block that continues in itself: whatever has been read so far, the work list never becomes empty.
\<close>

lemma follow_self:
  assumes "parse_block c = Inr (ks, km)" "findContinuations ks sb = [c]"
  shows "follow_continuations sb err parse_block [c] hs nm = None"
proof -
  have "\<not> (conts = [c] \<and> pb = parse_block \<and> s = sb)"
    if some: "follow_continuations s e pb conts hs nm = Some r" for s e pb conts hs nm r
  proof (rule follow_continuations.raw_induct [where P = "\<lambda>s e pb conts hs nm r. \<not> (conts = [c] \<and> pb = parse_block \<and> s = sb)", OF _ some])
    fix follow s e pb conts hs nm r
    assume IH: "\<And>s e pb conts hs nm r. follow s e pb conts hs nm = Some r \<Longrightarrow> \<not> (conts = [c] \<and> pb = parse_block \<and> s = sb)"
      and body: "(case conts of [] \<Rightarrow> Some (Inr (hs, nm))
         | cont # continuations \<Rightarrow> (case pb cont of Inl ea \<Rightarrow> Some (Inl (wrap e ea))
             | Inr (cms, cn) \<Rightarrow> follow s e pb (continuations @ findContinuations cms s)
                 (hs @ map (\<lambda>cm. cm\<lparr>hm_FromContinuation := True\<rparr>) cms) (if cn \<noteq> [] \<and> nm = [] then cn else nm))) = Some r"
    show "\<not> (conts = [c] \<and> pb = parse_block \<and> s = sb)"
    proof
      assume e: "conts = [c] \<and> pb = parse_block \<and> s = sb"
      then have "follow s e pb [c] (hs @ map (\<lambda>cm. cm\<lparr>hm_FromContinuation := True\<rparr>) ks) (if km \<noteq> [] \<and> nm = [] then km else nm) = Some r"
        using body assms by simp
      then show False using IH e by blast
    qed
  qed
  then have "follow_continuations sb err parse_block [c] hs nm \<noteq> Some r" for r by blast
  then show ?thesis by (metis option.exhaust)
qed

lemma parseV2Header_cyclic:
  fixes caddr :: u64 and sb :: Superblock
  defines "c \<equiv> \<lparr>mw_Type = MsgContinuation, mw_Data = EncodeContinuationMessage caddr (of_nat (12 + (unat (OffsetSize sb) + unat (LengthSize sb)))) sb\<rparr>"
  assumes ok: "\<forall>m\<in>set ms. message_ok m \<and> mw_Type m \<noteq> MsgContinuation"
    and sb: "sizes_ok sb" "Endianness sb = LittleEndian" "fits_width (unat (OffsetSize sb)) caddr"
    and ohw: "ohw_Messages ohw = ms @ [c]" "ohw_Flags ohw AND 0x34 = 0"
    and held: "holds_at f (unat addr) (header_v2 ohw)" "unat addr + sizeV2 ohw < 2 ^ 63"
      "holds_at f (unat caddr) (chunk_v2 [c])" "unat caddr + 28 < 2 ^ 63"
  shows "parseV2Header f addr (v2_flags ohw) sb False = None"
proof -
  let ?k = "unat (OffsetSize sb) + unat (LengthSize sb)"
  let ?n = "of_nat (12 + ?k) :: u64"
  have k: "0 < ?k" "?k \<le> 16" using sb(1) by (auto simp: sizes_ok_def)
  have uk: "unat (of_nat ?k :: u64) = ?k" using k by (intro unat_of_nat_less) simp
  have un: "unat ?n = 12 + ?k" using k by (intro unat_of_nat_less) simp
  then have "?n \<noteq> 0" by (metis add_is_0 unat_0 zero_neq_numeral)
  moreover have "fits_width (unat (LengthSize sb)) ?n" unfolding fits_width_def un using k sb(1)
    by (auto simp: sizes_ok_def)
  ultimately have cr: "parseContinuationMessage (mw_Data c) sb = Inr \<lparr>ci_Address = caddr, ci_Size = ?n\<rparr>"
    "length (mw_Data c) = ?k"
    using continuation_roundtrip [OF sb] by (simp_all add: c_def)
  have cok: "message_ok c" "mw_Data c \<noteq> []" "mw_Type c = MsgContinuation"
    using cr(2) k by (auto simp: message_ok_def c_def)
  have csz: "ContinuationChunkSizeV2 [c] = 12 + ?k" using cr(2) by (simp add: ContinuationChunkSizeV2_def messages_size_def)
  have ok': "\<forall>m\<in>set (ohw_Messages ohw). message_ok m" using ok cok unfolding ohw(1) by auto
  have one: "findContinuations (h1 @ [h]) sb = [\<lparr>ci_Address = caddr, ci_Size = ?n\<rparr>]"
    if "map parsed h1 = map wire (nonempty ns)" "\<forall>m\<in>set ns. mw_Type m \<noteq> MsgContinuation" "parsed h = wire c" for h1 h ns
  proof -
    have "findContinuations h1 sb = []" using that(2) by (intro findContinuations_none [OF that(1)]) auto
    then show ?thesis using that(3) cr(1) cok(2,3) by (auto simp: findContinuations_append)
  qed
  from parseV2Header_main [OF ok' ohw(2) held(1,2), of sb] obtain hs nm where hs:
    "parseV2Header f addr (v2_flags ohw) sb False
       = follow_continuations sb ''V2 continuation block parse failed''
           (\<lambda>cont. parseV2ContinuationBlock f (ci_Address cont) (ci_Size cont) (v2_flags ohw) False)
           (findContinuations hs sb) hs nm"
    "map parsed hs = map wire (nonempty (ohw_Messages ohw))" by blast
  have "map parsed hs = map wire (nonempty ms) @ [wire c]" using hs(2) cok(2) unfolding ohw(1) by simp
  then obtain h1 h where "hs = h1 @ [h]" "map parsed h1 = map wire (nonempty ms)" "parsed h = wire c"
    by (auto simp: map_eq_append_conv)
  then have fc: "findContinuations hs sb = [\<lparr>ci_Address = caddr, ci_Size = ?n\<rparr>]" using one ok by blast
  obtain ks km where ks: "parseV2ContinuationBlock f caddr ?n (v2_flags ohw) False = Inr (ks, km)"
    "map parsed ks = map wire (nonempty [c])"
    using parseV2ContinuationBlock_written [OF _ v2_flags_cases(3) [OF ohw(2)] held(3)] held(4) k cok(1) unfolding csz by auto
  then obtain g where "ks = [] @ [g]" "parsed g = wire c" using cok(2) by auto
  then have "findContinuations ks sb = [\<lparr>ci_Address = caddr, ci_Size = ?n\<rparr>]" using one [of "[]" "[]" g] by simp
  then show ?thesis unfolding hs(1) fc using ks(1) by (intro follow_self) simp_all
qed

section \<open>Version 1\<close>

lemma message_v1_split:
  "\<exists>pad. message_v1 m = (le_put 2 (mw_Type m) @ le_put 2 (of_nat (length (mw_Data m)) :: u16) @ zeros 4) @ mw_Data m @ pad
     \<and> 8 + length (mw_Data m) + length pad = length (message_v1 m)"
proof -
  let ?h = "le_put 2 (mw_Type m) @ le_put 2 (of_nat (length (mw_Data m)) :: u16) @ zeros 4"
  define pad :: bytes where "pad = zeros (if (8 + length (mw_Data m)) mod 8 \<noteq> 0 then 8 - (8 + length (mw_Data m)) mod 8 else 0)"
  have z: "[0] @ zeros 3 = zeros 4" by (simp add: eval_nat_numeral)
  have p: "message_v1 m = ?h @ mw_Data m @ pad"
    unfolding message_v1_def Let_def pad_def z [symmetric] append.assoc ..
  then have "length (message_v1 m) = 8 + length (mw_Data m) + length pad" by (simp del: le_put_numeral)
  with p show ?thesis by (intro exI [of _ pad]) simp
qed

lemma parse_v1_written:
  assumes "\<forall>m\<in>set ms. mw_Data m \<noteq> [] \<and> length (mw_Data m) < 65536" "Endianness sb = LittleEndian"
    "holds_at f p (concat (map message_v1 ms))" "p + length (concat (map message_v1 ms)) \<le> unat stop" "unat stop < 2 ^ 63"
    "unat cur = p" "unat cnt + length ms = unat mx"
  shows "\<exists>hs nm. parse_v1_messages f sb cur stop mx cnt name = Inr (hs, nm) \<and> map parsed hs = map wire ms"
  using assms
proof (induction ms arbitrary: p cur cnt name)
  case Nil
  then have "cnt \<ge> mx" by (simp add: word_le_nat_alt)
  then show ?case by (simp add: parse_v1_messages.simps)
next
  case (Cons m ms)
  let ?n = "length (mw_Data m)" and ?rest = "concat (map message_v1 ms)"
  let ?sz = "of_nat ?n :: u16"
  let ?hd = "le_put 2 (mw_Type m) @ le_put 2 ?sz @ zeros 4"
  obtain pad where pad: "message_v1 m = ?hd @ mw_Data m @ pad" "8 + ?n + length pad = length (message_v1 m)"
    using message_v1_split by blast
  have n: "0 < ?n" "?n < 65536" using Cons.prems(1) by auto
  have usz: "unat ?sz = ?n" using n by (intro unat_of_nat_less) simp
  have nz: "?sz \<noteq> 0" using usz n by (metis less_irrefl unat_0)
  have lhd: "length ?hd = 8" by (simp del: le_put_numeral)
  have hold: "holds_at f p (?hd @ mw_Data m @ pad @ ?rest)" using Cons.prems(3) by (simp add: pad(1) del: le_put_numeral)
  have tot: "length (concat (map message_v1 (m # ms))) = length (message_v1 m) + length ?rest" by simp
  have h: "holds_at f p ?hd" "holds_at f (p + 8) (mw_Data m)" "holds_at f (p + (8 + ?n + length pad)) ?rest"
    using hold unfolding holds_at_append [of f p ?hd] holds_at_append [of f _ "mw_Data m"] holds_at_append [of f _ pad] lhd
    by (simp_all add: add.assoc)
  define hb where "hb = ?hd"
  have lhb: "8 = length hb" unfolding hb_def by (simp del: le_put_numeral)
  have bound: "p + (8 + ?n + length pad) \<le> unat stop" using Cons.prems(4) tot pad(2) by linarith
  have r8: "ReadAt f 8 cur = Inr hb"
    by (rule ReadAt_holds [OF h(1) [folded hb_def] Cons.prems(6) _ lhb]) (use bound Cons.prems(5) in linarith)
  have u8: "unat (cur + 8) = p + 8" using Cons.prems(5,6) bound by (subst unat_add_small) simp_all
  have us: "unat (8 + ucast ?sz :: u64) = 8 + ?n" using usz n by (subst unat_add_small) simp_all
  have u8n: "unat (cur + 8 + ucast ?sz) = p + 8 + ?n"
    using u8 usz n Cons.prems(5) bound by (subst unat_add_small) simp_all
  have rd: "ReadAt f (unat ?sz) (cur + 8) = Inr (mw_Data m)"
    by (rule ReadAt_holds [OF h(2) u8 _ usz]) (use bound Cons.prems(5) in linarith)
  have ur: "unat (round8 (8 + ucast ?sz)) = length (message_v1 m)"
    using us n by (subst unat_round8) (simp_all add: length_message_v1)
  have un: "unat (cur + round8 (8 + ucast ?sz)) = p + (8 + ?n + length pad)"
    using ur pad(2) Cons.prems(5,6) bound n by (subst unat_add_small) (simp_all add: length_message_v1)
  have ok: "cur < stop" "\<not> cnt \<ge> mx" "\<not> cur + 8 > stop" "\<not> cur + 8 + ucast ?sz > stop"
    using Cons.prems(6,7) bound u8 u8n by (simp_all add: word_less_nat_alt word_le_nat_alt)
  have fields: "order_get LittleEndian (take 2 hb) = mw_Type m" "order_get LittleEndian (take 2 (drop 2 hb)) = ?sz"
    unfolding hb_def by (simp_all del: le_put_numeral)
  have "unat cnt + 1 \<le> unat mx" using Cons.prems(7) by simp
  then have "unat cnt + 1 < 65536" by (rule le_less_trans [OF _ unat_u16_less])
  then have uc: "unat (cnt + 1) = unat cnt + 1" by (intro unat_add_lem [THEN iffD1, THEN trans]) simp_all
  have "\<exists>hs nm. parse_v1_messages f sb (cur + round8 (8 + ucast ?sz)) stop mx (cnt + 1) nm0 = Inr (hs, nm)
      \<and> map parsed hs = map wire ms" for nm0
    using Cons.prems h(3) tot pad(2) un uc
    by (intro Cons.IH [where p = "p + (8 + ?n + length pad)"]) (simp_all add: add.assoc)
  then obtain hs nm where "parse_v1_messages f sb (cur + round8 (8 + ucast ?sz)) stop mx (cnt + 1)
      (if mw_Type m = MsgName \<and> 0 < ?n then null_terminated (mw_Data m) else name) = Inr (hs, nm)"
      "map parsed hs = map wire ms" by blast
  then show ?case
    using ok nz by (simp add: parse_v1_messages.simps [of f sb cur] r8 fields Cons.prems(2) rd Let_def del: order_get.simps le_put_numeral)
qed

text \<open>
  The writer stores \<open>16 + 8 n\<close> as the header size, the reader takes it for the size of the messages: a
  header is complete for the reader when its messages, padded, fit that many bytes.
\<close>

lemma parseV1Header_written:
  assumes ok: "\<forall>m\<in>set (ohw_Messages ohw). mw_Data m \<noteq> [] \<and> length (mw_Data m) < 65536 \<and> mw_Type m \<noteq> MsgContinuation"
    and sb: "Endianness sb = LittleEndian" and cnt: "length (ohw_Messages ohw) < 65536"
    and fit: "sizeV1 ohw \<le> 32 + 8 * length (ohw_Messages ohw)"
    and held: "holds_at f (unat addr) (header_v1 ohw)" "unat addr + 32 + 8 * length (ohw_Messages ohw) < 2 ^ 63"
  shows "\<exists>hs nm. parseV1Header f addr sb = Some (Inr (hs, nm, ohw_RefCount ohw)) \<and> map parsed hs = map wire (ohw_Messages ohw)"
proof -
  let ?ms = "ohw_Messages ohw" and ?p = "unat addr"
  let ?n = "length ?ms"
  define hb where "hb = [1, 0] @ le_put 2 (of_nat ?n :: u16) @ le_put 4 (ohw_RefCount ohw) @ le_put 4 (of_nat (16 + ?n * 8) :: u32) @ zeros 4"
  have hd: "header_v1 ohw = hb @ concat (map message_v1 ?ms)" by (simp add: header_v1_def hb_def Let_def del: le_put_numeral)
  have lhb: "length hb = 16" by (simp add: hb_def del: le_put_numeral)
  have h: "holds_at f ?p hb" "holds_at f (?p + 16) (concat (map message_v1 ?ms))"
    using held(1) unfolding hd holds_at_append [of f _ hb] lhb by simp_all
  have lm: "length (concat (map message_v1 ?ms)) + 16 = sizeV1 ohw" using length_header_v1 [of ohw] unfolding hd by (simp add: lhb)
  have r: "ReadAt f 16 addr = Inr hb" by (rule ReadAt_holds [OF h(1) refl _ lhb [symmetric]]) (use held(2) in linarith)
  have fields: "hb ! 0 = 1" "order_get LittleEndian (take 2 (drop 2 hb)) = (of_nat ?n :: u16)"
    "order_get LittleEndian (take 4 (drop 4 hb)) = ohw_RefCount ohw"
    "order_get LittleEndian (take 4 (drop 8 hb)) = (of_nat (16 + ?n * 8) :: u32)"
    unfolding hb_def by (simp_all del: le_put_numeral of_nat_add of_nat_mult)
  have un: "unat (of_nat ?n :: u16) = ?n" using cnt by (intro unat_of_nat_less) simp
  have us: "unat (ucast (of_nat (16 + ?n * 8) :: u32) :: u64) = 16 + 8 * ?n"
    using cnt by (subst unat_ucast_up) (simp_all del: of_nat_add of_nat_mult add: unat_of_nat_less)
  have u16: "unat (addr + 16) = ?p + 16" using held(2) by (subst unat_add_small) simp_all
  define stop :: u64 where "stop = addr + 16 + ucast (of_nat (16 + ?n * 8) :: u32)"
  have ust: "unat stop = ?p + 32 + 8 * ?n"
    unfolding stop_def using held(2) us u16 cnt by (subst unat_add_small) simp_all
  have "\<exists>hs nm. parse_v1_messages f sb (addr + 16) stop (of_nat ?n) 0 [] = Inr (hs, nm) \<and> map parsed hs = map wire ?ms"
    using ok sb h(2) fit lm ust held(2) u16 un by (intro parse_v1_written [where p = "?p + 16"]) simp_all
  then obtain hs nm where hs: "parse_v1_messages f sb (addr + 16) stop (of_nat ?n) 0 [] = Inr (hs, nm)" "map parsed hs = map wire ?ms"
    by blast
  have "findContinuations hs sb = []" using ok by (intro findContinuations_none [OF hs(2)]) blast
  then have "parseV1Header f addr sb = Some (Inr (hs, nm, ohw_RefCount ohw))"
    unfolding parseV1Header_def using sb hs(1)
    by (simp add: r fields Let_def stop_def [symmetric] follow_continuations.simps del: order_get.simps of_nat_add of_nat_mult)
  with hs(2) show ?thesis by blast
qed

section \<open>Properties\<close>

lemma overwrite_holds: "xs \<noteq> [] \<Longrightarrow> holds_at (overwrite f p xs) p xs"
  by (simp add: holds_at_def)

lemma overwrite_keeps_holds:
  assumes "holds_at f p xs" "xs \<noteq> []" "ys \<noteq> []" "p + length xs \<le> q \<or> q + length ys \<le> p"
  shows "holds_at (overwrite f q ys) p xs"
  using assms by (auto simp: holds_at_def take_drop_overwrite_before take_drop_overwrite_after)

lemma fw_WriteAt_open:
  "fw_file w = Some (f, True) \<Longrightarrow> d \<noteq> [] \<Longrightarrow> unat a < 2 ^ 63 \<Longrightarrow>
   fw_WriteAt w d a = Inr (w\<lparr>fw_file := Some (overwrite f (unat a) d, True)\<rparr>)"
  by (simp add: fw_WriteAt_def WriteAt_def)

lemma header_v2_nonempty: "header_v2 ohw \<noteq> []" "chunk_v2 ms \<noteq> []"
  by (simp_all add: header_v2_def chunk_v2_def with_checksum_def Let_def)



abbreviation sb8 :: Superblock where
  "sb8 \<equiv> \<lparr>Version = 2, OffsetSize = 8, LengthSize = 8, BaseAddress = 0, RootGroup = 48, Endianness = LittleEndian,
     SuperExtension = 0, DriverInfo = 0, RootBTreeAddr = 0, RootHeapAddr = 0\<rparr>"


text \<open>
  Each round takes the first block off the work list and appends the blocks it refers to. When these
  are of smaller rank, the multiset of ranks decreases, so the list becomes empty.
\<close>

lemma follow_ends:
  assumes "\<And>c ks km c'. parse_block c = Inr (ks, km) \<Longrightarrow> c' \<in> set (findContinuations ks sb) \<Longrightarrow> rank c' < (rank c :: nat)"
  shows "\<exists>r. follow_continuations sb err parse_block cs hs nm = Some r"
proof (induction "image_mset rank (mset cs)" arbitrary: cs hs nm rule: wf_induct_rule [OF wf_mult [OF wf_less_than]])
  case (1 cs)
  show ?case
  proof (cases cs)
    case Nil
    then show ?thesis by (simp add: follow_continuations.simps)
  next
    case (Cons c cs')
    show ?thesis
    proof (cases "parse_block c")
      case (Inl e)
      then show ?thesis by (simp add: follow_continuations.simps Cons)
    next
      case (Inr p)
      obtain ks km where p: "p = (ks, km)" by force
      let ?new = "findContinuations ks sb"
      have "(image_mset rank (mset cs') + image_mset rank (mset ?new), image_mset rank (mset cs') + {#rank c#}) \<in> mult less_than"
        using assms [OF Inr [unfolded p]] by (intro one_step_implies_mult) auto
      then have "(image_mset rank (mset (cs' @ ?new)), image_mset rank (mset cs)) \<in> mult less_than" by (simp add: Cons)
      then have "\<exists>r. follow_continuations sb err parse_block (cs' @ ?new) hs' nm' = Some r" for hs' nm' by (rule 1)
      then show ?thesis by (simp add: follow_continuations.simps [of sb err parse_block "c # cs'"] Cons Inr p)
    qed
  qed
qed

lemma returns_Let: "(\<And>x. \<exists>r. g x = Some r) \<Longrightarrow> \<exists>r. Let t g = Some r"
  by simp

lemma returns_case_sum:
  "(\<And>e. \<exists>r. a e = Some r) \<Longrightarrow> (\<And>x. \<exists>r. b x = Some r) \<Longrightarrow> \<exists>r. (case s of Inl e \<Rightarrow> a e | Inr x \<Rightarrow> b x) = Some r"
  by (cases s) auto

lemma returns_case_prod: "(\<And>x y. \<exists>r. g x y = Some r) \<Longrightarrow> \<exists>r. (case p of (x, y) \<Rightarrow> g x y) = Some r"
  by (cases p) auto



text \<open>
  C17. Without that the reader need not return: a header followed by a block whose only message continues
  in that same block. Every write succeeds, and \<^verbatim>\<open>parseV2Header\<close> never ends on the file.
\<close>
theorem cyclic_continuation_never_ends:
  assumes "ohw = \<lparr>ohw_Version = 2, ohw_Flags = 0, ohw_Messages = [c], ohw_RefCount = 1\<rparr>"
    and "c = \<lparr>mw_Type = MsgContinuation, mw_Data = EncodeContinuationMessage caddr 28 sb8\<rparr>"
    and "fw_file w = Some (f, True)" "unat addr + 31 \<le> unat caddr" "unat caddr + 28 < 2 ^ 63"
  shows "\<exists>k w1 n w2. WriteContinuationChunkV2 w caddr [c] = Inr (k, w1) \<and> ohw_WriteTo ohw w1 addr = Inr (n, w2)
     \<and> parseV2Header (contents w2) addr (v2_flags ohw) sb8 False = None"
proof -
  let ?f1 = "overwrite f (unat caddr) (chunk_v2 [c])"
  let ?f2 = "overwrite ?f1 (unat addr) (header_v2 ohw)"
  let ?w1 = "w\<lparr>fw_file := Some (?f1, True)\<rparr>"
  have l: "length (EncodeContinuationMessage caddr 28 sb8) = 16"
    by (simp add: EncodeContinuationMessage_def continuation_field_def)
  have sz: "sizeV2 ohw = 31" "ContinuationChunkSizeV2 [c] = 28"
    unfolding assms(1,2) by (simp_all add: sizeV2_def messages_size_def chunkSizeFieldWidth_def ContinuationChunkSizeV2_def l Let_def)
  have w1: "WriteContinuationChunkV2 w caddr [c] = Inr (4 + messages_size [c] + 4, ?w1)"
    using fw_WriteAt_open [OF assms(3) header_v2_nonempty(2)] assms(5) by (simp add: WriteContinuationChunkV2_def)
  have w2: "ohw_WriteTo ohw ?w1 addr = Inr (sizeV2 ohw, w\<lparr>fw_file := Some (?f2, True)\<rparr>)"
    using fw_WriteAt_open [of ?w1 ?f1 "header_v2 ohw" addr] header_v2_nonempty(1) assms(4,5) by (simp add: ohw_WriteTo_def writeToV2_def assms(1))
  have h: "holds_at ?f2 (unat addr) (header_v2 ohw)" "holds_at ?f2 (unat caddr) (chunk_v2 [c])"
    using overwrite_holds overwrite_keeps_holds header_v2_nonempty assms(4)
    by (simp_all add: length_header_v2 length_chunk_v2 sz)
  have k: "12 + (unat (OffsetSize sb8) + unat (LengthSize sb8)) = 28" by simp
  have c: "c = \<lparr>mw_Type = MsgContinuation, mw_Data = EncodeContinuationMessage caddr
      (of_nat (12 + (unat (OffsetSize sb8) + unat (LengthSize sb8)))) sb8\<rparr>" unfolding k by (simp add: assms(2))
  have "parseV2Header ?f2 addr (v2_flags ohw) sb8 False = None"
    by (rule parseV2Header_cyclic [where ms = "[]" and caddr = caddr, folded c])
      (use assms h sz in \<open>simp_all add: sizes_ok_def fits_width_def\<close>)
  moreover have "contents (w\<lparr>fw_file := Some (?f2, True)\<rparr>) = ?f2" by (simp add: contents_def)
  ultimately show ?thesis using w1 w2 by auto
qed

theorem cyclic_continuation_never_ends_witness:
  "\<exists>k w1 n w2. WriteContinuationChunkV2 \<lparr>fw_file = Some ([], True), fw_allocator = NewAllocator 48\<rparr> 100
         [\<lparr>mw_Type = MsgContinuation, mw_Data = EncodeContinuationMessage 100 28 sb8\<rparr>] = Inr (k, w1)
     \<and> ohw_WriteTo \<lparr>ohw_Version = 2, ohw_Flags = 0, ohw_Messages =
         [\<lparr>mw_Type = MsgContinuation, mw_Data = EncodeContinuationMessage 100 28 sb8\<rparr>], ohw_RefCount = 1\<rparr> w1 48 = Inr (n, w2)"
  using cyclic_continuation_never_ends [OF refl refl, of "\<lparr>fw_file = Some ([], True), fw_allocator = NewAllocator 48\<rparr>" "[]" 48 100] by auto

text \<open>
  A version 1 header, whose messages each hold a few bytes, written with \<^verbatim>\<open>WriteTo\<close> and read with
  \<^verbatim>\<open>parseV1Header\<close>: messages and reference count are as written, if the padded messages take at most eight
  bytes each and sixteen more. The writer counts no more than that in the size it stores.
\<close>
theorem v1_header_roundtrip:
  assumes "fw_file w = Some (f, True)" "ohw_Version ohw = 1" "Endianness sb = LittleEndian"
    and "\<forall>m\<in>set (ohw_Messages ohw). mw_Data m \<noteq> [] \<and> length (mw_Data m) < 65536 \<and> mw_Type m \<noteq> MsgContinuation"
    and "length (ohw_Messages ohw) < 65536" "sizeV1 ohw \<le> 32 + 8 * length (ohw_Messages ohw)"
    and "unat addr + 32 + 8 * length (ohw_Messages ohw) < 2 ^ 63"
  shows "\<exists>n w' hs nm. ohw_WriteTo ohw w addr = Inr (n, w') \<and> parseV1Header (contents w') addr sb = Some (Inr (hs, nm, ohw_RefCount ohw))
     \<and> map parsed hs = map wire (ohw_Messages ohw)"
proof -
  let ?f = "overwrite f (unat addr) (header_v1 ohw)"
  have ne: "header_v1 ohw \<noteq> []" by (simp add: header_v1_def Let_def)
  have w: "ohw_WriteTo ohw w addr = Inr (sizeV1 ohw, w\<lparr>fw_file := Some (?f, True)\<rparr>)"
    using fw_WriteAt_open [OF assms(1) ne] assms(2,7) by (simp add: ohw_WriteTo_def writeToV1_def)
  have c: "contents (w\<lparr>fw_file := Some (?f, True)\<rparr>) = ?f" by (simp add: contents_def)
  from parseV1Header_written [OF assms(4,3,5,6) overwrite_holds [OF ne] assms(7)]
  obtain hs nm where "parseV1Header (contents (w\<lparr>fw_file := Some (?f, True)\<rparr>)) addr sb = Some (Inr (hs, nm, ohw_RefCount ohw))"
    "map parsed hs = map wire (ohw_Messages ohw)" unfolding c by blast
  with w show ?thesis by blast
qed

theorem v1_header_roundtrip_witness:
  "\<exists>n w' hs nm. ohw_WriteTo \<lparr>ohw_Version = 1, ohw_Flags = 0, ohw_Messages = [\<lparr>mw_Type = MsgSymbolTable, mw_Data = [1, 2, 3, 4, 5, 6, 7, 8]\<rparr>], ohw_RefCount = 1\<rparr>
        \<lparr>fw_file = Some ([], True), fw_allocator = NewAllocator 48\<rparr> 96 = Inr (n, w')
     \<and> parseV1Header (contents w') 96 sb8 = Some (Inr (hs, nm, 1)) \<and> map parsed hs = [(MsgSymbolTable, [1, 2, 3, 4, 5, 6, 7, 8])]"
  using v1_header_roundtrip [of "\<lparr>fw_file = Some ([], True), fw_allocator = NewAllocator 48\<rparr>" "[]"
    "\<lparr>ohw_Version = 1, ohw_Flags = 0, ohw_Messages = [\<lparr>mw_Type = MsgSymbolTable, mw_Data = [1, 2, 3, 4, 5, 6, 7, 8]\<rparr>], ohw_RefCount = 1\<rparr>" sb8 96]
  by (simp add: sizeV1_def)

text \<open>
  A version 1 header with one message of more than 16 bytes of data is written without an error, and
  the reader stops before the message: the header reads back empty, also without an error.
\<close>
theorem v1_header_loses_messages:
  assumes "fw_file w = Some (f, True)" "Endianness sb = LittleEndian" "unat addr + 2 ^ 17 < 2 ^ 63"
    and "ohw = \<lparr>ohw_Version = 1, ohw_Flags = fl, ohw_Messages = [m], ohw_RefCount = rc\<rparr>"
    and "16 < length (mw_Data m)" "length (mw_Data m) < 65536"
  shows "\<exists>n w'. ohw_WriteTo ohw w addr = Inr (n, w') \<and> parseV1Header (contents w') addr sb = Some (Inr ([], [], rc))"
proof -
  let ?f = "overwrite f (unat addr) (header_v1 ohw)" and ?n = "of_nat (length (mw_Data m)) :: u16"
  have ne: "header_v1 ohw \<noteq> []" by (simp add: header_v1_def Let_def)
  have w: "ohw_WriteTo ohw w addr = Inr (sizeV1 ohw, w\<lparr>fw_file := Some (?f, True)\<rparr>)"
    using fw_WriteAt_open [OF assms(1) ne] assms(3,4) by (simp add: ohw_WriteTo_def writeToV1_def)
  define hb where "hb = [1, 0] @ le_put 2 (1 :: u16) @ le_put 4 rc @ le_put 4 (24 :: u32) @ zeros 4"
  define mb where "mb = le_put 2 (mw_Type m) @ le_put 2 ?n @ zeros 4"
  obtain pad where pad: "message_v1 m = mb @ mw_Data m @ pad" unfolding mb_def using message_v1_split by blast
  have hd: "header_v1 ohw = hb @ mb @ mw_Data m @ pad" by (simp add: header_v1_def hb_def Let_def assms(4) pad del: le_put_numeral)
  have l: "length hb = 16" "length mb = 8" by (simp_all add: hb_def mb_def del: le_put_numeral)
  have h: "holds_at ?f (unat addr) hb" "holds_at ?f (unat addr + 16) mb"
    using overwrite_holds [OF ne, of f "unat addr"] unfolding hd holds_at_append [of _ _ hb] holds_at_append [of _ _ mb] l by simp_all
  have u: "unat (addr + 16) = unat addr + 16" "unat (addr + 40) = unat addr + 40" "unat (addr + 24) = unat addr + 24"
    using assms(3) by (subst unat_add_small; simp)+
  have un: "unat ?n = length (mw_Data m)" using assms(6) by (intro unat_of_nat_less) simp
  then have "unat (addr + 24 + ucast ?n) = unat addr + 24 + length (mw_Data m)"
    using assms(3,6) u by (subst unat_add_small) simp_all
  then have past: "addr + 24 + ucast ?n > addr + 40" using u assms(5) by (simp add: word_less_nat_alt)
  have ok: "addr + 16 < addr + 40" "\<not> addr + 24 > addr + 40" using u by (simp_all add: word_less_nat_alt)
  have nz: "?n \<noteq> 0" using un assms(5) by auto
  have r: "ReadAt ?f 16 addr = Inr hb" "ReadAt ?f 8 (addr + 16) = Inr mb"
    using assms(3) by (auto intro!: ReadAt_holds [OF h(1)] ReadAt_holds [OF h(2)] simp: l u)
  have fields: "hb ! 0 = 1" "order_get LittleEndian (take 2 (drop 2 hb)) = (1 :: u16)" "order_get LittleEndian (take 4 (drop 4 hb)) = rc"
    "order_get LittleEndian (take 4 (drop 8 hb)) = (24 :: u32)" "order_get LittleEndian (take 2 (drop 2 mb)) = ?n"
    by (simp_all add: hb_def mb_def del: le_put_numeral)
  have "parse_v1_messages ?f sb (addr + 16) (addr + 40) 1 0 [] = Inr ([], [])"
    using ok nz past by (simp add: parse_v1_messages.simps r fields assms(2) Let_def add.assoc del: order_get.simps)
  then have "parseV1Header ?f addr sb = Some (Inr ([], [], rc))"
    unfolding parseV1Header_def by (simp add: r fields assms(2) Let_def follow_continuations.simps add.assoc del: order_get.simps)
  then show ?thesis using w by (auto simp: contents_def)
qed

theorem v1_header_loses_messages_witness:
  "\<exists>n w'. ohw_WriteTo \<lparr>ohw_Version = 1, ohw_Flags = 0, ohw_Messages = [\<lparr>mw_Type = MsgDataspace, mw_Data = replicate 24 7\<rparr>], ohw_RefCount = 1\<rparr>
        \<lparr>fw_file = Some ([], True), fw_allocator = NewAllocator 48\<rparr> 96 = Inr (n, w')
     \<and> parseV1Header (contents w') 96 sb8 = Some (Inr ([], [], 1))"
  by (rule v1_header_loses_messages [of _ "[]" sb8 96 _ 0 "\<lparr>mw_Type = MsgDataspace, mw_Data = replicate 24 7\<rparr>" 1]) simp_all

end
