(* ===== verification/Fractal_Heap.thy ===== *)
theory Fractal_Heap
  imports Layout File_Writer "HOL-Library.AList"
begin

text \<open>
  The writable fractal heap of \<^verbatim>\<open>internal/structures/fractalheap_write.go\<close> as it is in memory: objects are
  appended to a direct block and named by heap ids that hold their offset and length; a heap that
  outgrows its block gets an indirect root block (\<^verbatim>\<open>fractalheap_indirect.go\<close>) and further direct blocks.
  The on-disk format and the readers are in the theory \<^verbatim>\<open>Fractal_Heap_File\<close>.

  Go maps are visited in an order the runtime chooses: operations that range over the map of child
  blocks take that order as the function \<open>visit\<close> on the list of keys. The child at the offset of the
  first block is the same object as \<^verbatim>\<open>fh.DirectBlock\<close>, so a change of one is a change of the other.
\<close>

section \<open>Variable-width integers\<close>

definition put_var :: "u64 \<Rightarrow> nat \<Rightarrow> byte_order \<Rightarrow> bytes" where
  "put_var v sz e =
     (let b = le_put (min sz 8) v @ zeros (sz - 8) in case e of LittleEndian \<Rightarrow> b | BigEndian \<Rightarrow> rev b)"

definition readUint :: "bytes \<Rightarrow> nat \<Rightarrow> byte_order \<Rightarrow> u64" where
  "readUint data sz e = (if length data < sz then 0 else order_get e (take (min sz 8) data))"

function count_bits :: "u64 \<Rightarrow> nat" where
  "count_bits v = (if v > 0 then 1 + count_bits (drop_bit 1 v) else 0)"
  by auto
termination
proof (relation "measure unat")
  fix v :: u64 assume "v > 0"
  then have "0 < unat v" by (simp add: word_less_nat_alt)
  then show "(drop_bit 1 v, v) \<in> measure unat"
    by (simp add: drop_bit_eq_div unat_div)
qed simp

declare count_bits.simps [simp del]

definition computeOffsetSize :: "u64 \<Rightarrow> byte" where
  "computeOffsetSize value = (if value = 0 then 1 else of_nat ((count_bits value + 7) div 8))"

section \<open>Data\<close>

record WritableHeapHeader =
  wh_Version :: byte
  wh_HeapIDLength :: u16
  wh_IOFiltersLength :: u16
  wh_Flags :: byte
  wh_MaxManagedObjectSize :: u32
  wh_NextHugeObjectID :: u64
  wh_HugeObjectBTreeAddr :: u64
  wh_FreeSpace :: u64
  wh_FreeSectionAddress :: u64
  wh_ManagedSpaceSize :: u64
  wh_AllocatedManagedSpace :: u64
  wh_ManagedSpaceOffset :: u64
  wh_NumManagedObjects :: u64
  wh_SizeHugeObjects :: u64
  wh_NumHugeObjects :: u64
  wh_SizeTinyObjects :: u64
  wh_NumTinyObjects :: u64
  wh_TableWidth :: u16
  wh_StartingBlockSize :: u64
  wh_MaxDirectBlockSize :: u64
  wh_MaxHeapSize :: u16
  wh_StartingNumRows :: u16
  wh_RootBlockAddress :: u64
  wh_CurrentNumRows :: u16
  wh_HeapOffsetSize :: byte
  wh_HeapLengthSize :: byte

record WritableDirectBlock =
  db_Version :: byte
  db_HeapHeaderAddress :: u64
  db_BlockOffset :: u64
  db_Size :: u64
  db_Objects :: bytes
  db_FreeOffset :: u64
  db_ChecksumEnabled :: bool

record WritableIndirectBlockHeader =
  wi_Version :: byte
  wi_HeapHeaderAddr :: u64
  wi_BlockOffset :: u64
  wi_NumRows :: u16
  wi_TableWidth :: u16
  wi_MaxDirectRows :: u16
  wi_ChecksumEnabled :: bool

record WritableIndirectBlock =
  ib_Header :: WritableIndirectBlockHeader
  ib_ChildAddresses :: "u64 list"
  ib_loadedAddress :: u64

record WritableFractalHeap =
  fh_Header :: WritableHeapHeader
  fh_DirectBlock :: WritableDirectBlock
  fh_RootIndirectBlock :: "WritableIndirectBlock option"
  fh_MaxDirectBlockSize :: u64
  fh_DirectBlocks :: "(u64 \<times> WritableDirectBlock) list"
  fh_loadedHeaderAddress :: u64
  fh_loadedDirectBlockAddress :: u64

abbreviation ErrHeapFull :: go_error where "ErrHeapFull \<equiv> Errorf ''fractal heap is full''"
abbreviation ErrObjectTooLarge :: go_error where "ErrObjectTooLarge \<equiv> Errorf ''object size exceeds maximum managed size''"
abbreviation ErrEmptyObject :: go_error where "ErrEmptyObject \<equiv> Errorf ''cannot insert empty object''"
abbreviation ErrInvalidObjectID :: go_error where "ErrInvalidObjectID \<equiv> Errorf ''invalid object ID''"
abbreviation ErrObjectNotFound :: go_error where "ErrObjectNotFound \<equiv> Errorf ''object not found in heap''"

definition NewWritableFractalHeap :: "u64 \<Rightarrow> WritableFractalHeap" where
  "NewWritableFractalHeap blockSize =
     (let header = \<lparr>wh_Version = 0, wh_HeapIDLength = 8, wh_IOFiltersLength = 0, wh_Flags = 0,
            wh_MaxManagedObjectSize = 65536, wh_NextHugeObjectID = 0, wh_HugeObjectBTreeAddr = 0,
            wh_FreeSpace = blockSize, wh_FreeSectionAddress = 0, wh_ManagedSpaceSize = blockSize,
            wh_AllocatedManagedSpace = blockSize, wh_ManagedSpaceOffset = 0, wh_NumManagedObjects = 0,
            wh_SizeHugeObjects = 0, wh_NumHugeObjects = 0, wh_SizeTinyObjects = 0, wh_NumTinyObjects = 0,
            wh_TableWidth = 2, wh_StartingBlockSize = blockSize, wh_MaxDirectBlockSize = blockSize,
            wh_MaxHeapSize = 16, wh_StartingNumRows = 0, wh_RootBlockAddress = 0, wh_CurrentNumRows = 0,
            wh_HeapOffsetSize = ucast (((16 :: u16) + 7) div 8), wh_HeapLengthSize = computeOffsetSize 65536\<rparr>
      in \<lparr>fh_Header = header,
          fh_DirectBlock = \<lparr>db_Version = 0, db_HeapHeaderAddress = 0, db_BlockOffset = 0, db_Size = blockSize,
            db_Objects = [], db_FreeOffset = 0, db_ChecksumEnabled = False\<rparr>,
          fh_RootIndirectBlock = None, fh_MaxDirectBlockSize = blockSize, fh_DirectBlocks = [],
          fh_loadedHeaderAddress = 0, fh_loadedDirectBlockAddress = 0\<rparr>)"

section \<open>Indirect blocks\<close>

definition NewWritableIndirectBlock :: "u64 \<Rightarrow> u64 \<Rightarrow> u16 \<Rightarrow> u16 \<Rightarrow> u16 \<Rightarrow> WritableIndirectBlock" where
  "NewWritableIndirectBlock heapHeaderAddr blockOffset numRows tableWidth maxDirectRows =
     \<lparr>ib_Header = \<lparr>wi_Version = 0, wi_HeapHeaderAddr = heapHeaderAddr, wi_BlockOffset = blockOffset, wi_NumRows = numRows,
                   wi_TableWidth = tableWidth, wi_MaxDirectRows = maxDirectRows, wi_ChecksumEnabled = False\<rparr>,
      ib_ChildAddresses = replicate (unat numRows * unat tableWidth) 0, ib_loadedAddress = 0\<rparr>"

definition SetChildAddress :: "WritableIndirectBlock \<Rightarrow> int \<Rightarrow> u64 \<Rightarrow> WritableIndirectBlock result" where
  "SetChildAddress wb entryIndex address =
     (if entryIndex < 0 \<or> entryIndex \<ge> int (length (ib_ChildAddresses wb))
      then Inl (Errorf ''invalid entry index %d (valid range: 0-%d)'')
      else Inr (wb\<lparr>ib_ChildAddresses := (ib_ChildAddresses wb)[nat entryIndex := address]\<rparr>))"

definition GetChildAddress :: "WritableIndirectBlock \<Rightarrow> int \<Rightarrow> u64 result" where
  "GetChildAddress wb entryIndex =
     (if entryIndex < 0 \<or> entryIndex \<ge> int (length (ib_ChildAddresses wb))
      then Inl (Errorf ''invalid entry index %d (valid range: 0-%d)'')
      else Inr (ib_ChildAddresses wb ! nat entryIndex))"

definition CalculateEntryIndex :: "WritableIndirectBlock \<Rightarrow> u16 \<Rightarrow> u16 \<Rightarrow> int" where
  "CalculateEntryIndex wb row col = uint row * uint (wi_TableWidth (ib_Header wb)) + uint col"

definition put_block :: "u64 \<Rightarrow> WritableDirectBlock \<Rightarrow> WritableFractalHeap \<Rightarrow> WritableFractalHeap" where
  "put_block k b fh =
     fh\<lparr>fh_DirectBlocks := AList.update k b (fh_DirectBlocks fh),
        fh_DirectBlock := (if k = db_BlockOffset (fh_DirectBlock fh) then b else fh_DirectBlock fh)\<rparr>"

definition transitionToIndirectRoot :: "WritableFractalHeap \<Rightarrow> WritableFractalHeap result" where
  "transitionToIndirectRoot fh =
     (if fh_RootIndirectBlock fh \<noteq> None then Inl (Errorf ''heap already has indirect root'')
      else let numRows = 1;
               ib = NewWritableIndirectBlock 0 0 numRows (wh_TableWidth (fh_Header fh)) numRows
           in case SetChildAddress ib (CalculateEntryIndex ib 0 0) 0 of
                Inl e \<Rightarrow> Inl (Wrapf ''failed to set first child address: %w'' e)
              | Inr ib \<Rightarrow>
                  Inr (fh\<lparr>fh_DirectBlocks := AList.update (db_BlockOffset (fh_DirectBlock fh)) (fh_DirectBlock fh) (fh_DirectBlocks fh),
                          fh_RootIndirectBlock := Some ib,
                          fh_Header := (fh_Header fh)\<lparr>wh_CurrentNumRows := numRows\<rparr>\<rparr>))"

definition needsTransition :: "WritableFractalHeap \<Rightarrow> u64 \<Rightarrow> bool" where
  "needsTransition fh objectSize \<longleftrightarrow>
     fh_RootIndirectBlock fh = None \<and> \<not> db_FreeOffset (fh_DirectBlock fh) + objectSize \<le> db_Size (fh_DirectBlock fh)"

section \<open>Objects\<close>

text \<open>Offsets and lengths are stored in the widths of the heap header, after a flag byte; the rest of the id is zero.\<close>

definition encodeHeapID :: "WritableHeapHeader \<Rightarrow> u64 \<Rightarrow> u64 \<Rightarrow> bytes result" where
  "encodeHeapID h offset len =
     (let n = unat (wh_HeapIDLength h); osz = unat (wh_HeapOffsetSize h); lsz = unat (wh_HeapLengthSize h)
      in if n < 1 + osz + lsz then Inl index_panic
         else Inr ([0] @ put_var offset osz LittleEndian @ put_var len lsz LittleEndian @ zeros (n - (1 + osz + lsz))))"

text \<open>The append both insertion routines end with.\<close>

definition append_object :: "WritableDirectBlock \<Rightarrow> bytes \<Rightarrow> WritableDirectBlock result" where
  "append_object b data =
     (let objectOffset = db_FreeOffset b;
          neededLen = unat (objectOffset + of_nat (length data));
          objs = db_Objects b @ zeros (neededLen - length (db_Objects b))
      in if unat objectOffset > length objs then Inl slice_panic
         else Inr (b\<lparr>db_Objects := blit objs (unat objectOffset) (take (length objs - unat objectOffset) data),
                     db_FreeOffset := objectOffset + of_nat (length data)\<rparr>))"

definition count_object :: "WritableHeapHeader \<Rightarrow> u64 \<Rightarrow> WritableHeapHeader" where
  "count_object h dataSize =
     h\<lparr>wh_ManagedSpaceOffset := wh_ManagedSpaceOffset h + dataSize, wh_NumManagedObjects := wh_NumManagedObjects h + 1,
       wh_FreeSpace := wh_FreeSpace h - dataSize\<rparr>"

definition insertViaDirect :: "WritableFractalHeap \<Rightarrow> bytes \<Rightarrow> (bytes \<times> WritableFractalHeap) result" where
  "insertViaDirect fh data =
     (let dataSize = of_nat (length data); b = fh_DirectBlock fh
      in if db_FreeOffset b + dataSize > db_Size b then Inl (Wrapf ''%w: need %d bytes, have %d free'' ErrHeapFull)
         else case append_object b data of
                Inl e \<Rightarrow> Inl e
              | Inr b' \<Rightarrow>
                  (case encodeHeapID (fh_Header fh) (db_FreeOffset b) dataSize of
                     Inl e \<Rightarrow> Inl e
                   | Inr heapID \<Rightarrow> Inr (heapID, fh\<lparr>fh_DirectBlock := b', fh_Header := count_object (fh_Header fh) dataSize\<rparr>)))"

text \<open>
  The first visited child with room, or a new child. A heap whose root block has no entry left for
  the new child reports that it is full, after the child has been added to the map and counted.
\<close>

definition new_child :: "WritableFractalHeap \<Rightarrow> WritableDirectBlock" where
  "new_child fh =
     \<lparr>db_Version = 0, db_HeapHeaderAddress = 0, db_BlockOffset = wh_ManagedSpaceSize (fh_Header fh),
      db_Size = fh_MaxDirectBlockSize fh, db_Objects = [], db_FreeOffset = 0, db_ChecksumEnabled = False\<rparr>"

definition add_child :: "WritableFractalHeap \<Rightarrow> WritableFractalHeap" where
  "add_child fh =
     (let h = fh_Header fh; m = fh_MaxDirectBlockSize fh
      in (put_block (wh_ManagedSpaceSize h) (new_child fh) fh)
           \<lparr>fh_Header := h\<lparr>wh_ManagedSpaceSize := wh_ManagedSpaceSize h + m,
                          wh_AllocatedManagedSpace := wh_AllocatedManagedSpace h + m,
                          wh_FreeSpace := wh_FreeSpace h + m\<rparr>\<rparr>)"

definition insertViaIndirect :: "(u64 list \<Rightarrow> u64 list) \<Rightarrow> WritableFractalHeap \<Rightarrow> bytes \<Rightarrow> bytes result \<times> WritableFractalHeap" where
  "insertViaIndirect visit fh data =
     (let dataSize = of_nat (length data);
          fits = (\<lambda>k. case map_of (fh_DirectBlocks fh) k of
                        None \<Rightarrow> False | Some b \<Rightarrow> db_FreeOffset b + dataSize \<le> db_Size b);
          (place, fh) =
            (case find fits (visit (map fst (fh_DirectBlocks fh))) of
               Some k \<Rightarrow> (Inr k, fh)
             | None \<Rightarrow>
                 let k = wh_ManagedSpaceSize (fh_Header fh);
                     fh = add_child fh;
                     numExistingBlocks = length (fh_DirectBlocks fh) - 1
                 in case fh_RootIndirectBlock fh of
                      None \<Rightarrow> (Inl (Panicf ''nil pointer dereference''), fh)
                    | Some ib \<Rightarrow>
                        if numExistingBlocks \<ge> length (ib_ChildAddresses ib)
                        then (Inl (Wrapf ''%w: indirect block full (need to grow)'' ErrHeapFull), fh)
                        else (case SetChildAddress ib (int numExistingBlocks) 0 of
                                Inl e \<Rightarrow> (Inl (Wrapf ''failed to set child address: %w'' e), fh)
                              | Inr ib \<Rightarrow> (Inr k, fh\<lparr>fh_RootIndirectBlock := Some ib\<rparr>)))
      in case place of
           Inl e \<Rightarrow> (Inl e, fh)
         | Inr k \<Rightarrow>
             (case map_of (fh_DirectBlocks fh) k of
                None \<Rightarrow> (Inl (Panicf ''nil pointer dereference''), fh)
              | Some b \<Rightarrow>
                  (case append_object b data of
                     Inl e \<Rightarrow> (Inl e, fh)
                   | Inr b' \<Rightarrow>
                       let fh = (put_block k b' fh)\<lparr>fh_Header := count_object (fh_Header fh) dataSize\<rparr>
                       in (encodeHeapID (fh_Header fh) (k + db_FreeOffset b) dataSize, fh))))"

definition fh_InsertObject :: "(u64 list \<Rightarrow> u64 list) \<Rightarrow> WritableFractalHeap \<Rightarrow> bytes \<Rightarrow> bytes result \<times> WritableFractalHeap" where
  "fh_InsertObject visit fh data =
     (if length data = 0 then (Inl ErrEmptyObject, fh)
      else let dataSize = of_nat (length data) :: u64
           in if dataSize > ucast (wh_MaxManagedObjectSize (fh_Header fh))
              then (Inl (Wrapf ''%w: object size %d exceeds max %d'' ErrObjectTooLarge), fh)
              else case (if needsTransition fh dataSize then transitionToIndirectRoot fh else Inr fh) of
                     Inl e \<Rightarrow> (Inl (Wrapf ''failed to transition to indirect root: %w'' e), fh)
                   | Inr fh \<Rightarrow>
                       if fh_RootIndirectBlock fh \<noteq> None then insertViaIndirect visit fh data
                       else (case insertViaDirect fh data of
                               Inl e \<Rightarrow> (Inl e, fh)
                             | Inr (heapID, fh') \<Rightarrow> (Inr heapID, fh')))"

text \<open>The decoding of heap ids, common to the three operations below.\<close>

definition decode_id :: "WritableHeapHeader \<Rightarrow> bytes \<Rightarrow> (u64 \<times> u64) result" where
  "decode_id h heapID =
     (if length heapID < 1 then Inl ErrInvalidObjectID
      else let flags = heapID ! 0; osz = unat (wh_HeapOffsetSize h); lsz = unat (wh_HeapLengthSize h)
           in if drop_bit 6 (flags AND 0xC0) \<noteq> 0 then Inl (Wrapf ''%w: unsupported version %d'' ErrInvalidObjectID)
              else if flags AND 0x30 \<noteq> 0 then Inl (Wrapf ''%w: only managed objects supported'' ErrInvalidObjectID)
              else if length heapID \<noteq> unat (wh_HeapIDLength h) then Inl (Wrapf ''%w: wrong size'' ErrInvalidObjectID)
              else if 1 + osz + lsz > length heapID then Inl slice_panic
              else Inr (readUint (take osz (drop 1 heapID)) osz LittleEndian,
                        readUint (take lsz (drop (1 + osz) heapID)) lsz LittleEndian))"

definition slice_object :: "bytes \<Rightarrow> u64 \<Rightarrow> u64 \<Rightarrow> bytes result" where
  "slice_object objs offset len =
     (if offset \<ge> of_nat (length objs) then Inl (Wrapf ''%w: offset %d >= used space %d'' ErrObjectNotFound)
      else if offset + len > of_nat (length objs) then Inl (Wrapf ''%w: object extends beyond used space'' ErrObjectNotFound)
      else if unat len \<ge> max_alloc then Inl makeslice_panic
      else Inr (take (unat len) (drop (unat offset) objs)))"

definition getObjectFromDirect :: "WritableFractalHeap \<Rightarrow> u64 \<Rightarrow> u64 \<Rightarrow> bytes result" where
  "getObjectFromDirect fh offset len = slice_object (db_Objects (fh_DirectBlock fh)) offset len"

definition getObjectFromIndirect :: "(u64 list \<Rightarrow> u64 list) \<Rightarrow> WritableFractalHeap \<Rightarrow> u64 \<Rightarrow> u64 \<Rightarrow> bytes result" where
  "getObjectFromIndirect visit fh globalOffset len =
     (let inside = (\<lambda>k. case map_of (fh_DirectBlocks fh) k of
                          None \<Rightarrow> False | Some b \<Rightarrow> globalOffset \<ge> k \<and> globalOffset < k + db_Size b)
      in case find inside (visit (map fst (fh_DirectBlocks fh))) of
           None \<Rightarrow> Inl (Wrapf ''%w: global offset %d not found in any block'' ErrObjectNotFound)
         | Some k \<Rightarrow>
             (case map_of (fh_DirectBlocks fh) k of
                None \<Rightarrow> Inl ErrObjectNotFound
              | Some b \<Rightarrow> slice_object (db_Objects b) (globalOffset - k) len))"

definition fh_GetObject :: "(u64 list \<Rightarrow> u64 list) \<Rightarrow> WritableFractalHeap \<Rightarrow> bytes \<Rightarrow> bytes result" where
  "fh_GetObject visit fh heapID =
     (case decode_id (fh_Header fh) heapID of
        Inl e \<Rightarrow> Inl e
      | Inr (globalOffset, len) \<Rightarrow>
          if fh_RootIndirectBlock fh \<noteq> None then getObjectFromIndirect visit fh globalOffset len
          else getObjectFromDirect fh globalOffset len)"

text \<open>Writes into \<^verbatim>\<open>fh.DirectBlock.Objects\<close>; the map entry of that block is the same object.\<close>

definition set_objects :: "bytes \<Rightarrow> WritableFractalHeap \<Rightarrow> WritableFractalHeap" where
  "set_objects objs fh =
     (let b = (fh_DirectBlock fh)\<lparr>db_Objects := objs\<rparr>
      in fh\<lparr>fh_DirectBlock := b,
            fh_DirectBlocks := (if map_of (fh_DirectBlocks fh) (db_BlockOffset b) = None then fh_DirectBlocks fh
                                else AList.update (db_BlockOffset b) b (fh_DirectBlocks fh))\<rparr>)"

definition OverwriteObject :: "WritableFractalHeap \<Rightarrow> bytes \<Rightarrow> bytes \<Rightarrow> WritableFractalHeap result" where
  "OverwriteObject fh heapID newData =
     (case decode_id (fh_Header fh) heapID of
        Inl e \<Rightarrow> Inl e
      | Inr (offset, len) \<Rightarrow>
          let objs = db_Objects (fh_DirectBlock fh)
          in if of_nat (length newData) \<noteq> len
             then Inl (Errorf ''size mismatch: old=%d, new=%d (use delete+insert for different sizes)'')
             else if offset \<ge> of_nat (length objs) then Inl (Wrapf ''%w: offset %d >= used space %d'' ErrObjectNotFound)
             else if offset + len > of_nat (length objs) then Inl (Wrapf ''%w: object extends beyond used space'' ErrObjectNotFound)
             else Inr (set_objects (blit objs (unat offset) newData) fh))"

definition DeleteObject :: "WritableFractalHeap \<Rightarrow> bytes \<Rightarrow> WritableFractalHeap result" where
  "DeleteObject fh heapID =
     (case decode_id (fh_Header fh) heapID of
        Inl e \<Rightarrow> Inl e
      | Inr (offset, len) \<Rightarrow>
          let objs = db_Objects (fh_DirectBlock fh); h = fh_Header fh
          in if offset \<ge> of_nat (length objs) then Inl (Wrapf ''%w: offset %d >= used space'' ErrObjectNotFound)
             else if offset + len > of_nat (length objs) then Inl (Wrapf ''%w: object extends beyond used space'' ErrObjectNotFound)
             else Inr ((set_objects (blit objs (unat offset) (zeros (unat (offset + len) - unat offset))) fh)
                         \<lparr>fh_Header := h\<lparr>wh_NumManagedObjects := wh_NumManagedObjects h - 1, wh_FreeSpace := wh_FreeSpace h + len\<rparr>\<rparr>))"


section \<open>The heap as a store of objects\<close>

text \<open>
  The interface \<^verbatim>\<open>HeapWriter\<close> of \<^verbatim>\<open>internal/core/attribute_modify.go\<close> as a contract. \<open>inv s L\<close>: the
  store is well-formed and \<open>L\<close> are the ids of the objects in it; \<open>room s n\<close>: it can take another \<open>n\<close>
  bytes. Every operation leaves the objects it is not about as they are.
\<close>

locale object_store =
  fixes inv :: "'s \<Rightarrow> bytes set \<Rightarrow> bool"
    and room :: "'s \<Rightarrow> nat \<Rightarrow> bool"
    and get :: "'s \<Rightarrow> bytes \<Rightarrow> bytes result"
    and ins :: "'s \<Rightarrow> bytes \<Rightarrow> (bytes \<times> 's) result"
    and ovw :: "'s \<Rightarrow> bytes \<Rightarrow> bytes \<Rightarrow> 's result"
    and del :: "'s \<Rightarrow> bytes \<Rightarrow> 's result"
  assumes room_mono: "room s n \<Longrightarrow> k \<le> n \<Longrightarrow> room s k"
    and get_total: "inv s L \<Longrightarrow> i \<in> L \<Longrightarrow> \<exists>d. d \<noteq> [] \<and> get s i = Inr d"
    and ins_law: "inv s L \<Longrightarrow> d \<noteq> [] \<Longrightarrow> room s (length d) \<Longrightarrow>
      \<exists>i s'. ins s d = Inr (i, s') \<and> length i = 8 \<and> i ! 7 = 0 \<and> i \<notin> L \<and> inv s' (insert i L) \<and> get s' i = Inr d
        \<and> (\<forall>j\<in>L. get s' j = get s j) \<and> (\<forall>n. room s (length d + n) \<longrightarrow> room s' n)"
    and ovw_law: "inv s L \<Longrightarrow> i \<in> L \<Longrightarrow> get s i = Inr d \<Longrightarrow> length d' = length d \<Longrightarrow>
      \<exists>s'. ovw s i d' = Inr s' \<and> inv s' L \<and> get s' i = Inr d' \<and> (\<forall>j\<in>L - {i}. get s' j = get s j) \<and> (\<forall>n. room s n \<longrightarrow> room s' n)"
    and del_law: "inv s L \<Longrightarrow> i \<in> L \<Longrightarrow>
      \<exists>s'. del s i = Inr s' \<and> inv s' (L - {i}) \<and> (\<forall>j\<in>L - {i}. get s' j = get s j) \<and> (\<forall>n. room s n \<longrightarrow> room s' n)"

context object_store
begin

text \<open>\<open>holds s m\<close>: the store has exactly the objects of the map \<open>m\<close>, under its ids.\<close>

definition holds :: "'s \<Rightarrow> (bytes \<rightharpoonup> bytes) \<Rightarrow> bool" where
  "holds s m \<longleftrightarrow> inv s (dom m) \<and> (\<forall>i d. m i = Some d \<longrightarrow> get s i = Inr d)"

lemma holds_get: "holds s m \<Longrightarrow> m i = Some d \<Longrightarrow> get s i = Inr d"
  by (simp add: holds_def)

lemma holds_insert:
  assumes "holds s m" "d \<noteq> []" "room s (length d)"
  shows "\<exists>i s'. ins s d = Inr (i, s') \<and> length i = 8 \<and> i ! 7 = 0 \<and> m i = None \<and> holds s' (m(i \<mapsto> d))
     \<and> (\<forall>n. room s (length d + n) \<longrightarrow> room s' n)"
proof -
  from ins_law [of s "dom m" d] assms obtain i s' where i: "ins s d = Inr (i, s')" "length i = 8" "i ! 7 = 0" "i \<notin> dom m"
    "inv s' (insert i (dom m))" "get s' i = Inr d" "\<forall>j\<in>dom m. get s' j = get s j"
    "\<forall>n. room s (length d + n) \<longrightarrow> room s' n" unfolding holds_def by blast
  have "m i = None" using i(4) by auto
  moreover have "holds s' (m(i \<mapsto> d))"
    using i(5,6,7) assms(1) by (auto simp: holds_def domIff split: if_splits)
  ultimately show ?thesis using i by blast
qed

lemma holds_overwrite:
  assumes "holds s m" "m i = Some d" "length d' = length d"
  shows "\<exists>s'. ovw s i d' = Inr s' \<and> holds s' (m(i \<mapsto> d')) \<and> (\<forall>n. room s n \<longrightarrow> room s' n)"
proof -
  have "i \<in> dom m" "get s i = Inr d" using assms(1,2) by (auto simp: holds_def)
  from ovw_law [OF _ this assms(3)] assms(1) obtain s' where s: "ovw s i d' = Inr s'" "inv s' (dom m)" "get s' i = Inr d'"
    "\<forall>j\<in>dom m - {i}. get s' j = get s j" "\<forall>n. room s n \<longrightarrow> room s' n" unfolding holds_def by blast
  have "insert i (dom m) = dom m" using \<open>i \<in> dom m\<close> by auto
  then have "holds s' (m(i \<mapsto> d'))" using s(2-4) assms(1) by (auto simp: holds_def domIff split: if_splits)
  then show ?thesis using s by blast
qed

lemma holds_delete:
  assumes "holds s m" "m i = Some d"
  shows "\<exists>s'. del s i = Inr s' \<and> holds s' (m(i := None)) \<and> (\<forall>n. room s n \<longrightarrow> room s' n)"
proof -
  have "i \<in> dom m" using assms(2) by auto
  from del_law [OF _ this] assms(1) obtain s' where s: "del s i = Inr s'" "inv s' (dom m - {i})"
    "\<forall>j\<in>dom m - {i}. get s' j = get s j" "\<forall>n. room s n \<longrightarrow> room s' n" unfolding holds_def by blast
  then have "holds s' (m(i := None))" using assms(1) by (auto simp: holds_def domIff split: if_splits)
  then show ?thesis using s by blast
qed

fun ins_all :: "'s \<Rightarrow> bytes list \<Rightarrow> (bytes list \<times> 's) result" where
  "ins_all s [] = Inr ([], s)"
| "ins_all s (d # ds) =
     (case ins s d of
        Inl e \<Rightarrow> Inl e
      | Inr (i, s) \<Rightarrow> (case ins_all s ds of Inl e \<Rightarrow> Inl e | Inr (ids, s) \<Rightarrow> Inr (i # ids, s)))"

lemma holds_insert_all:
  assumes "holds s m" "[] \<notin> set ds" "room s (sum_list (map length ds))"
  shows "\<exists>ids s'. ins_all s ds = Inr (ids, s') \<and> length ids = length ds \<and> distinct ids \<and> set ids \<inter> dom m = {}
     \<and> holds s' (m(ids [\<mapsto>] ds))"
  using assms
proof (induction ds arbitrary: s m)
  case Nil
  then show ?case by simp
next
  case (Cons d ds)
  have "room s (length d)" using room_mono [OF Cons.prems(3)] by simp
  from holds_insert [OF Cons.prems(1) _ this] Cons.prems(2) obtain i s1 where i: "ins s d = Inr (i, s1)" "m i = None"
    "holds s1 (m(i \<mapsto> d))" "\<forall>n. room s (length d + n) \<longrightarrow> room s1 n" by auto
  have "room s1 (sum_list (map length ds))" using i(4) Cons.prems(3) by simp
  moreover have "[] \<notin> set ds" using Cons.prems(2) by simp
  ultimately obtain ids s' where s: "ins_all s1 ds = Inr (ids, s')" "length ids = length ds"
    "distinct ids" "set ids \<inter> dom (m(i \<mapsto> d)) = {}" "holds s' (m(i \<mapsto> d, ids [\<mapsto>] ds))" using Cons.IH [OF i(3)] by blast
  then show ?case using i(1,2) by (intro exI [of _ "i # ids"] exI [of _ s']) (auto simp del: fun_upd_apply)
qed

end

text \<open>
  The fractal heap keeps the contract while it has a single block and its used space stays within the
  \<open>2 ^ 16\<close> bytes its two-byte offsets reach.
\<close>

definition heap_shape :: "WritableHeapHeader \<Rightarrow> bool" where
  "heap_shape h \<longleftrightarrow> wh_HeapIDLength h = 8 \<and> wh_HeapOffsetSize h = 2 \<and> (wh_HeapLengthSize h = 2 \<or> wh_HeapLengthSize h = 3)
     \<and> unat (wh_MaxManagedObjectSize h) \<le> 65536"

definition region :: "WritableHeapHeader \<Rightarrow> bytes \<Rightarrow> nat set" where
  "region h i = (case decode_id h i of Inl _ \<Rightarrow> {} | Inr (off, len) \<Rightarrow> {unat off..<unat off + unat len})"

definition heap_inv :: "WritableFractalHeap \<Rightarrow> bytes set \<Rightarrow> bool" where
  "heap_inv fh L \<longleftrightarrow>
     fh_RootIndirectBlock fh = None \<and> fh_DirectBlocks fh = [] \<and> heap_shape (fh_Header fh)
     \<and> unat (db_FreeOffset (fh_DirectBlock fh)) \<le> length (db_Objects (fh_DirectBlock fh))
     \<and> length (db_Objects (fh_DirectBlock fh)) \<le> unat (db_Size (fh_DirectBlock fh))
     \<and> unat (db_Size (fh_DirectBlock fh)) < 2 ^ 40 \<and> unat (db_FreeOffset (fh_DirectBlock fh)) \<le> 65536
     \<and> (\<forall>i\<in>L. (\<exists>r. decode_id (fh_Header fh) i = Inr r) \<and> region (fh_Header fh) i \<noteq> {}
           \<and> region (fh_Header fh) i \<subseteq> {0..<unat (db_FreeOffset (fh_DirectBlock fh))})
     \<and> (\<forall>i\<in>L. \<forall>j\<in>L. i \<noteq> j \<longrightarrow> region (fh_Header fh) i \<inter> region (fh_Header fh) j = {})"

text \<open>Insertions fit the block, the offsets and, for ids with two-byte lengths, the length field.\<close>

definition heap_room :: "WritableFractalHeap \<Rightarrow> nat \<Rightarrow> bool" where
  "heap_room fh n \<longleftrightarrow>
     unat (db_FreeOffset (fh_DirectBlock fh)) + n \<le> min (unat (db_Size (fh_DirectBlock fh))) 65535
     \<and> n \<le> unat (wh_MaxManagedObjectSize (fh_Header fh))"

definition store_insert :: "(u64 list \<Rightarrow> u64 list) \<Rightarrow> WritableFractalHeap \<Rightarrow> bytes \<Rightarrow> (bytes \<times> WritableFractalHeap) result" where
  "store_insert visit fh d = (case fh_InsertObject visit fh d of (Inl e, _) \<Rightarrow> Inl e | (Inr i, fh') \<Rightarrow> Inr (i, fh'))"

lemma length_put_var [simp]: "length (put_var v sz e) = sz"
  by (cases e) (auto simp: put_var_def min_def)

lemma readUint_put_var:
  assumes "sz \<le> 8" "fits_width sz v"
  shows "readUint (put_var v sz e) sz e = v"
  using assms fits_width_take_bit by (cases e) (auto simp: readUint_def put_var_def min_def le_get_le_put)

lemma heap_id_roundtrip:
  assumes h: "heap_shape h" and "unat off < 65536" "fits_width (unat (wh_HeapLengthSize h)) len"
  shows "\<exists>i. encodeHeapID h off len = Inr i \<and> length i = 8 \<and> i ! 7 = 0 \<and> decode_id h i = Inr (off, len)"
proof -
  let ?l = "unat (wh_HeapLengthSize h)"
  let ?i = "[0] @ put_var off 2 LittleEndian @ put_var len ?l LittleEndian @ zeros (5 - ?l)"
  have l: "?l = 2 \<or> ?l = 3" using h by (auto simp: heap_shape_def)
  have u: "unat (wh_HeapIDLength h) = 8" "unat (wh_HeapOffsetSize h) = 2" using h by (simp_all add: heap_shape_def)
  have e: "encodeHeapID h off len = Inr ?i" unfolding encodeHeapID_def Let_def u using l by auto
  have len: "length ?i = 8" using l by auto
  have z: "?i ! 7 = 0" using l by (auto simp: nth_append)
  have f: "take 2 (drop 1 ?i) = put_var off 2 LittleEndian" "take ?l (drop (1 + 2) ?i) = put_var len ?l LittleEndian" "?i ! 0 = 0"
    by simp_all
  have "fits_width 2 off" using assms(2) by (simp add: fits_width_def)
  then have r: "readUint (put_var off 2 LittleEndian) 2 LittleEndian = off" by (intro readUint_put_var) simp
  have r2: "readUint (put_var len ?l LittleEndian) ?l LittleEndian = len" using assms(3) l by (intro readUint_put_var) auto
  have "decode_id h ?i = Inr (off, len)"
    unfolding decode_id_def Let_def u len f r r2 using l by auto
  with e len z show ?thesis by blast
qed

lemma append_object_effect:
  assumes "d \<noteq> []" "unat (db_FreeOffset b) \<le> length (db_Objects b)" "unat (db_FreeOffset b) + length d < 2 ^ 41"
  shows "append_object b d = Inr (b\<lparr>db_Objects := overwrite (db_Objects b) (unat (db_FreeOffset b)) d,
     db_FreeOffset := db_FreeOffset b + of_nat (length d)\<rparr>)"
    "unat (db_FreeOffset b + of_nat (length d)) = unat (db_FreeOffset b) + length d"
proof -
  have ul: "unat (of_nat (length d) :: u64) = length d" using assms(3) by (intro unat_of_nat_less) simp
  show u: "unat (db_FreeOffset b + of_nat (length d)) = unat (db_FreeOffset b) + length d"
    using ul assms(3) by (intro unat_add_lem [THEN iffD1, THEN trans]) simp_all
  let ?o = "unat (db_FreeOffset b)" and ?f = "db_Objects b"
  let ?g = "?f @ zeros (?o + length d - length ?f)"
  have lg: "?o + length d \<le> length ?g" by simp
  have "blit ?g ?o d = overwrite ?f ?o d"
    using assms(1,2) by (simp add: blit_def overwrite_def)
  moreover have "take (length ?g - ?o) d = d" using lg by simp
  ultimately show "append_object b d = Inr (b\<lparr>db_Objects := overwrite ?f ?o d, db_FreeOffset := db_FreeOffset b + of_nat (length d)\<rparr>)"
    unfolding append_object_def Let_def u using lg by simp
qed

lemma slice_object_ok:
  assumes "0 < unat len" "unat off + unat len \<le> length objs" "length objs < 2 ^ 41"
  shows "slice_object objs off len = Inr (take (unat len) (drop (unat off) objs))"
proof -
  have ul: "unat (of_nat (length objs) :: u64) = length objs" using assms(3) by (intro unat_of_nat_less) simp
  have us: "unat (off + len) = unat off + unat len"
    using assms by (intro unat_add_lem [THEN iffD1, THEN trans]) simp_all
  have "\<not> off \<ge> of_nat (length objs)" "\<not> off + len > of_nat (length objs)" "\<not> unat len \<ge> max_alloc"
    using assms ul us by (simp_all add: word_le_nat_alt word_less_nat_alt)
  then show ?thesis by (simp add: slice_object_def)
qed

lemma heap_inv_id:
  assumes "heap_inv fh L" "i \<in> L"
  obtains off len where "decode_id (fh_Header fh) i = Inr (off, len)" "0 < unat len"
    "unat off + unat len \<le> unat (db_FreeOffset (fh_DirectBlock fh))"
    "region (fh_Header fh) i = {unat off..<unat off + unat len}"
proof -
  obtain r where "decode_id (fh_Header fh) i = Inr r" using assms by (auto simp: heap_inv_def)
  then obtain off len where d: "decode_id (fh_Header fh) i = Inr (off, len)" by (cases r) auto
  have r: "region (fh_Header fh) i = {unat off..<unat off + unat len}" by (simp add: region_def d)
  have "region (fh_Header fh) i \<noteq> {}" "region (fh_Header fh) i \<subseteq> {0..<unat (db_FreeOffset (fh_DirectBlock fh))}"
    using assms unfolding heap_inv_def by blast+
  then have "0 < unat len" "unat off + unat len - 1 \<in> {0..<unat (db_FreeOffset (fh_DirectBlock fh))}" unfolding r by auto
  then show thesis using that d r by simp
qed

lemma heap_get:
  assumes "heap_inv fh L" "decode_id (fh_Header fh) i = Inr (off, len)" "0 < unat len"
    "unat off + unat len \<le> length (db_Objects (fh_DirectBlock fh))"
  shows "fh_GetObject visit fh i = Inr (take (unat len) (drop (unat off) (db_Objects (fh_DirectBlock fh))))"
proof -
  have "length (db_Objects (fh_DirectBlock fh)) < 2 ^ 41" using assms(1) by (auto simp: heap_inv_def)
  from slice_object_ok [OF assms(3,4) this] show ?thesis
    using assms(1,2) by (simp add: fh_GetObject_def getObjectFromDirect_def heap_inv_def)
qed

text \<open>What the heap reads under an id depends on the bytes of its region only.\<close>

lemma heap_get_cong:
  assumes "heap_inv fh L" "heap_inv fh' L'" "i \<in> L" "i \<in> L'" "decode_id (fh_Header fh') i = decode_id (fh_Header fh) i"
    "\<And>k. k \<in> region (fh_Header fh) i \<Longrightarrow> db_Objects (fh_DirectBlock fh') ! k = db_Objects (fh_DirectBlock fh) ! k"
  shows "fh_GetObject visit fh' i = fh_GetObject visit fh i"
proof -
  obtain off len where d: "decode_id (fh_Header fh) i = Inr (off, len)" "0 < unat len"
    "unat off + unat len \<le> unat (db_FreeOffset (fh_DirectBlock fh))" "region (fh_Header fh) i = {unat off..<unat off + unat len}"
    using heap_inv_id [OF assms(1,3)] by blast
  have d': "unat off + unat len \<le> unat (db_FreeOffset (fh_DirectBlock fh'))"
    using heap_inv_id [OF assms(2,4)] d(1) assms(5) by (metis Inr_inject prod.inject)
  let ?o = "db_Objects (fh_DirectBlock fh)" and ?o' = "db_Objects (fh_DirectBlock fh')"
  have l: "unat off + unat len \<le> length ?o" "unat off + unat len \<le> length ?o'"
    using assms(1,2) d(3) d' by (auto simp: heap_inv_def)
  have "take (unat len) (drop (unat off) ?o') = take (unat len) (drop (unat off) ?o)"
    using l assms(6) unfolding d(4) by (intro nth_equalityI) auto
  moreover have "decode_id (fh_Header fh') i = Inr (off, len)" using assms(5) d(1) by simp
  ultimately show ?thesis using heap_get [OF assms(1) d(1,2) l(1)] heap_get [OF assms(2) _ d(2) l(2)] by simp
qed

lemma heap_get_total: "heap_inv fh L \<Longrightarrow> i \<in> L \<Longrightarrow> \<exists>d. d \<noteq> [] \<and> fh_GetObject visit fh i = Inr d"
proof -
  assume a: "heap_inv fh L" "i \<in> L"
  obtain off len where d: "decode_id (fh_Header fh) i = Inr (off, len)" "0 < unat len"
    "unat off + unat len \<le> unat (db_FreeOffset (fh_DirectBlock fh))" using heap_inv_id [OF a] by blast
  have "unat off + unat len \<le> length (db_Objects (fh_DirectBlock fh))" using a(1) d(3) by (auto simp: heap_inv_def)
  from heap_get [OF a(1) d(1,2) this] show ?thesis
    using d(2) \<open>unat off + unat len \<le> length (db_Objects (fh_DirectBlock fh))\<close> by (intro exI conjI) auto
qed

lemma InsertObject_step:
  assumes "fh_RootIndirectBlock fh = None" "d \<noteq> []" "length d \<le> unat (wh_MaxManagedObjectSize (fh_Header fh))"
    "unat (db_FreeOffset (fh_DirectBlock fh)) + length d \<le> unat (db_Size (fh_DirectBlock fh))"
    "unat (db_Size (fh_DirectBlock fh)) < 2 ^ 40" "unat (db_FreeOffset (fh_DirectBlock fh)) \<le> length (db_Objects (fh_DirectBlock fh))"
    "encodeHeapID (fh_Header fh) (db_FreeOffset (fh_DirectBlock fh)) (of_nat (length d)) = Inr i"
  shows "store_insert visit fh d = Inr (i, fh\<lparr>fh_DirectBlock := (fh_DirectBlock fh)
        \<lparr>db_Objects := overwrite (db_Objects (fh_DirectBlock fh)) (unat (db_FreeOffset (fh_DirectBlock fh))) d,
         db_FreeOffset := db_FreeOffset (fh_DirectBlock fh) + of_nat (length d)\<rparr>,
        fh_Header := count_object (fh_Header fh) (of_nat (length d))\<rparr>)"
proof -
  have ul: "unat (of_nat (length d) :: u64) = length d" using assms(4,5) by (intro unat_of_nat_less) simp
  have lt: "unat (db_FreeOffset (fh_DirectBlock fh)) + length d < 2 ^ 41" using assms(4,5) by simp
  note ap = append_object_effect [OF assms(2,6) lt]
  have "\<not> (of_nat (length d) :: u64) > ucast (wh_MaxManagedObjectSize (fh_Header fh))" using assms(3) ul by (simp add: word_less_nat_alt)
  moreover have "\<not> needsTransition fh (of_nat (length d))" "\<not> db_FreeOffset (fh_DirectBlock fh) + of_nat (length d) > db_Size (fh_DirectBlock fh)"
    using ap(2) assms(4) by (simp_all add: needsTransition_def word_le_nat_alt word_less_nat_alt)
  ultimately show ?thesis
    using assms(1,2,7) ap(1) by (simp add: store_insert_def fh_InsertObject_def insertViaDirect_def Let_def)
qed

lemma InsertObject_direct:
  assumes inv: "heap_inv fh L" and d: "d \<noteq> []" and room: "heap_room fh (length d)"
  defines "b \<equiv> fh_DirectBlock fh"
  shows "\<exists>i. store_insert visit fh d = Inr (i, fh\<lparr>fh_DirectBlock := b\<lparr>db_Objects := overwrite (db_Objects b) (unat (db_FreeOffset b)) d,
        db_FreeOffset := db_FreeOffset b + of_nat (length d)\<rparr>, fh_Header := count_object (fh_Header fh) (of_nat (length d))\<rparr>)
     \<and> length i = 8 \<and> i ! 7 = 0 \<and> decode_id (fh_Header fh) i = Inr (db_FreeOffset b, of_nat (length d))"
    "unat (db_FreeOffset b + of_nat (length d)) = unat (db_FreeOffset b) + length d" "unat (of_nat (length d) :: u64) = length d"
proof -
  have r: "unat (db_FreeOffset b) + length d \<le> unat (db_Size b)" "unat (db_FreeOffset b) + length d \<le> 65535"
    "length d \<le> unat (wh_MaxManagedObjectSize (fh_Header fh))" using room by (auto simp: heap_room_def b_def)
  have o: "unat (db_FreeOffset b) \<le> length (db_Objects b)" "heap_shape (fh_Header fh)" "fh_RootIndirectBlock fh = None"
    "unat (db_Size b) < 2 ^ 40" using inv by (auto simp: heap_inv_def b_def)
  show ul: "unat (of_nat (length d) :: u64) = length d" using r(2) by (intro unat_of_nat_less) simp
  have lt: "unat (db_FreeOffset b) + length d < 2 ^ 41" using r(2) by simp
  show "unat (db_FreeOffset b + of_nat (length d)) = unat (db_FreeOffset b) + length d"
    by (rule append_object_effect(2) [OF d o(1) lt])
  have "fits_width (unat (wh_HeapLengthSize (fh_Header fh))) (of_nat (length d))"
    using r(2) ul o(2) by (auto simp: fits_width_def heap_shape_def)
  moreover have "unat (db_FreeOffset b) < 65536" using r(2) by simp
  ultimately obtain i where i: "encodeHeapID (fh_Header fh) (db_FreeOffset b) (of_nat (length d)) = Inr i" "length i = 8" "i ! 7 = 0"
    "decode_id (fh_Header fh) i = Inr (db_FreeOffset b, of_nat (length d))"
    using heap_id_roundtrip [OF o(2)] by blast
  from InsertObject_step [OF o(3) d r(3) r(1) [unfolded b_def] o(4) [unfolded b_def] o(1) [unfolded b_def] i(1) [unfolded b_def]] i
  show "\<exists>i. store_insert visit fh d = Inr (i, fh\<lparr>fh_DirectBlock := b\<lparr>db_Objects := overwrite (db_Objects b) (unat (db_FreeOffset b)) d,
        db_FreeOffset := db_FreeOffset b + of_nat (length d)\<rparr>, fh_Header := count_object (fh_Header fh) (of_nat (length d))\<rparr>)
     \<and> length i = 8 \<and> i ! 7 = 0 \<and> decode_id (fh_Header fh) i = Inr (db_FreeOffset b, of_nat (length d))"
    unfolding b_def by blast
qed

lemma decode_id_cong:
  "wh_HeapIDLength h' = wh_HeapIDLength h \<Longrightarrow> wh_HeapOffsetSize h' = wh_HeapOffsetSize h \<Longrightarrow>
   wh_HeapLengthSize h' = wh_HeapLengthSize h \<Longrightarrow> decode_id h' = decode_id h"
  by (rule ext) (simp add: decode_id_def Let_def)

lemma region_cong: "decode_id h' = decode_id h \<Longrightarrow> region h' = region h"
  by (rule ext) (simp add: region_def)

lemma overwrite_nth_before: "k < off \<Longrightarrow> k < length f \<Longrightarrow> overwrite f off p ! k = f ! k"
  by (simp add: overwrite_def nth_append)

lemma heap_insert_law:
  assumes inv: "heap_inv fh L" and d: "d \<noteq> []" and room: "heap_room fh (length d)"
  shows "\<exists>i fh'. store_insert visit fh d = Inr (i, fh') \<and> length i = 8 \<and> i ! 7 = 0 \<and> i \<notin> L \<and> heap_inv fh' (insert i L)
     \<and> fh_GetObject visit fh' i = Inr d \<and> (\<forall>j\<in>L. fh_GetObject visit fh' j = fh_GetObject visit fh j)
     \<and> (\<forall>n. heap_room fh (length d + n) \<longrightarrow> heap_room fh' n)"
proof -
  let ?b = "fh_DirectBlock fh" and ?h = "fh_Header fh"
  let ?f = "unat (db_FreeOffset ?b)" and ?objs = "db_Objects ?b"
  let ?h' = "count_object ?h (of_nat (length d))"
  let ?fh = "fh\<lparr>fh_DirectBlock := ?b\<lparr>db_Objects := overwrite ?objs ?f d,
        db_FreeOffset := db_FreeOffset ?b + of_nat (length d)\<rparr>, fh_Header := ?h'\<rparr>"
  note ins = InsertObject_direct [OF inv d room]
  obtain i where i: "store_insert visit fh d = Inr (i, ?fh)" "length i = 8" "i ! 7 = 0"
    "decode_id ?h i = Inr (db_FreeOffset ?b, of_nat (length d))" using ins(1) by blast
  have dec: "decode_id ?h' = decode_id ?h" by (rule decode_id_cong) (simp_all add: count_object_def)
  have reg: "region ?h' = region ?h" by (rule region_cong [OF dec])
  have ri: "region ?h i = {?f..<?f + length d}" using i(4) ins(3) by (simp add: region_def)
  have old: "region ?h j \<subseteq> {0..<?f}" if "j \<in> L" for j using inv that by (auto simp: heap_inv_def)
  have l: "?f \<le> length ?objs" "length ?objs \<le> unat (db_Size ?b)" "unat (db_Size ?b) < 2 ^ 40" using inv by (auto simp: heap_inv_def)
  have rm: "?f + length d \<le> unat (db_Size ?b)" "?f + length d \<le> 65535" using room by (auto simp: heap_room_def)
  have "region ?h i \<noteq> {}" unfolding ri using d by auto
  have notin: "i \<notin> L" using old [of i] ri d by auto
  have lo: "length (overwrite ?objs ?f d) = max (length ?objs) (?f + length d)" by (rule length_overwrite [OF d])
  have inv': "heap_inv ?fh (insert i L)"
  proof -
    have A: "\<forall>j\<in>insert i L. (\<exists>r. decode_id ?h' j = Inr r) \<and> region ?h' j \<noteq> {} \<and> region ?h' j \<subseteq> {0..<?f + length d}"
    proof
      fix j assume "j \<in> insert i L"
      then consider "j = i" | "j \<in> L" by blast
      then show "(\<exists>r. decode_id ?h' j = Inr r) \<and> region ?h' j \<noteq> {} \<and> region ?h' j \<subseteq> {0..<?f + length d}"
      proof cases
        case 1
        then show ?thesis using i(4) \<open>region ?h i \<noteq> {}\<close> ri by (simp add: dec reg)
      next
        case 2
        then have "(\<exists>r. decode_id ?h j = Inr r) \<and> region ?h j \<noteq> {}" using inv by (auto simp: heap_inv_def)
        moreover have "region ?h j \<subseteq> {0..<?f + length d}" using old [OF 2] by (rule order_trans) auto
        ultimately show ?thesis unfolding dec reg by blast
      qed
    qed
    have B: "region ?h' j \<inter> region ?h' k = {}" if jk: "j \<in> insert i L" "k \<in> insert i L" "j \<noteq> k" for j k
    proof -
      have "region ?h j \<inter> {?f..<?f + length d} = {}" if "j \<in> L" for j using old [OF that] by fastforce
      moreover have "region ?h j \<inter> region ?h k = {}" if "j \<in> L" "k \<in> L" using inv that jk(3) by (auto simp: heap_inv_def)
      ultimately show ?thesis unfolding reg using jk ri by blast
    qed
    have sh: "heap_shape ?h'" using inv by (auto simp: heap_inv_def heap_shape_def count_object_def)
    show ?thesis
      unfolding heap_inv_def using A B sh inv l rm lo ins(2) by (auto simp: heap_inv_def)
  qed
  have g: "fh_GetObject visit ?fh i = Inr (take (length d) (drop ?f (overwrite ?objs ?f d)))"
    using heap_get [OF inv', of i "db_FreeOffset ?b" "of_nat (length d)" visit] i(4) ins(3) d lo by (simp add: dec)
  have same: "fh_GetObject visit ?fh j = fh_GetObject visit fh j" if j: "j \<in> L" for j
  proof (rule heap_get_cong [OF inv inv' j])
    show "j \<in> insert i L" using j by simp
    show "decode_id (fh_Header ?fh) j = decode_id ?h j" by (simp add: dec)
    fix k assume "k \<in> region ?h j"
    then have "k < ?f" using old [OF j] by auto
    then show "db_Objects (fh_DirectBlock ?fh) ! k = ?objs ! k" using l(1) by (simp add: overwrite_nth_before)
  qed
  have rm': "heap_room ?fh n" if "heap_room fh (length d + n)" for n
    using that ins(2) by (simp add: heap_room_def count_object_def)
  show ?thesis
    using i inv' g same rm' notin by (intro exI [of _ i] exI [of _ ?fh]) simp
qed

lemma heap_write_law:
  assumes inv: "heap_inv fh L" and i: "i \<in> L" "decode_id (fh_Header fh) i = Inr (off, len)" and p: "length p = unat len"
    and h: "decode_id h = decode_id (fh_Header fh)" "heap_shape h" "wh_MaxManagedObjectSize h = wh_MaxManagedObjectSize (fh_Header fh)"
    and M: "M \<subseteq> L"
  defines "fh' \<equiv> (set_objects (blit (db_Objects (fh_DirectBlock fh)) (unat off) p) fh)\<lparr>fh_Header := h\<rparr>"
  shows "heap_inv fh' M" "i \<in> M \<Longrightarrow> fh_GetObject visit fh' i = Inr p"
    "\<forall>j\<in>M - {i}. fh_GetObject visit fh' j = fh_GetObject visit fh j" "\<forall>n. heap_room fh n \<longrightarrow> heap_room fh' n"
proof -
  let ?objs = "db_Objects (fh_DirectBlock fh)"
  obtain off' len' where d: "decode_id (fh_Header fh) i = Inr (off', len')" "0 < unat len'"
    "unat off' + unat len' \<le> unat (db_FreeOffset (fh_DirectBlock fh))" "region (fh_Header fh) i = {unat off'..<unat off' + unat len'}"
    using heap_inv_id [OF inv i(1)] by blast
  have e: "off' = off" "len' = len" using d(1) i(2) by simp_all
  have l: "unat off + unat len \<le> length ?objs" using d(3) inv unfolding e by (auto simp: heap_inv_def)
  have reg: "region h = region (fh_Header fh)" by (rule region_cong [OF h(1)])
  have bk: "db_Objects (fh_DirectBlock fh') = blit ?objs (unat off) p" "fh_Header fh' = h"
    "db_FreeOffset (fh_DirectBlock fh') = db_FreeOffset (fh_DirectBlock fh)" "db_Size (fh_DirectBlock fh') = db_Size (fh_DirectBlock fh)"
    "fh_RootIndirectBlock fh' = fh_RootIndirectBlock fh" "fh_DirectBlocks fh' = fh_DirectBlocks fh"
    using inv by (simp_all add: fh'_def set_objects_def Let_def heap_inv_def)
  show inv': "heap_inv fh' M"
    using inv l p M h(2) unfolding heap_inv_def bk reg h(1) by (auto simp: subset_iff)
  show "\<forall>n. heap_room fh n \<longrightarrow> heap_room fh' n" unfolding heap_room_def bk h(3) by simp
  have "take (unat len) (drop (unat off) (blit ?objs (unat off) p)) = p" using l p by (simp add: blit_def)
  then show "fh_GetObject visit fh' i = Inr p"
    using heap_get [OF inv', of i off len visit] i(2) l p d(2) unfolding bk h(1) e by simp
  show "\<forall>j\<in>M - {i}. fh_GetObject visit fh' j = fh_GetObject visit fh j"
  proof
    fix j assume j: "j \<in> M - {i}"
    then have jL: "j \<in> L" "j \<noteq> i" "j \<in> M" using M by auto
    have disj: "region (fh_Header fh) j \<inter> region (fh_Header fh) i = {}" using inv jL i(1) by (auto simp: heap_inv_def)
    show "fh_GetObject visit fh' j = fh_GetObject visit fh j"
    proof (rule heap_get_cong [OF inv inv' jL(1,3)])
      show "decode_id (fh_Header fh') j = decode_id (fh_Header fh) j" by (simp add: bk h(1))
      fix k assume "k \<in> region (fh_Header fh) j"
      then have "k \<notin> {unat off..<unat off + unat len}" using disj d(4) unfolding e by blast
      then show "db_Objects (fh_DirectBlock fh') ! k = ?objs ! k"
        unfolding bk blit_def using l p by (auto simp: nth_append)
    qed
  qed
qed

lemma heap_overwrite_law:
  assumes inv: "heap_inv fh L" and i: "i \<in> L" "fh_GetObject visit fh i = Inr d" and n: "length d' = length d"
  shows "\<exists>fh'. OverwriteObject fh i d' = Inr fh' \<and> heap_inv fh' L \<and> fh_GetObject visit fh' i = Inr d'
     \<and> (\<forall>j\<in>L - {i}. fh_GetObject visit fh' j = fh_GetObject visit fh j) \<and> (\<forall>n. heap_room fh n \<longrightarrow> heap_room fh' n)"
proof -
  let ?objs = "db_Objects (fh_DirectBlock fh)"
  obtain off len where dec: "decode_id (fh_Header fh) i = Inr (off, len)" "0 < unat len"
    "unat off + unat len \<le> unat (db_FreeOffset (fh_DirectBlock fh))"
    using heap_inv_id [OF inv i(1)] by blast
  have l: "unat off + unat len \<le> length ?objs" "length ?objs < 2 ^ 41" using dec(3) inv by (auto simp: heap_inv_def)
  have "d = take (unat len) (drop (unat off) ?objs)" using heap_get [OF inv dec(1,2) l(1), of visit] i(2) by simp
  then have nl: "length d' = unat len" using n l(1) by simp
  then have eq: "(of_nat (length d') :: u64) = len" by simp
  have ul: "unat (of_nat (length ?objs) :: u64) = length ?objs" using l(2) by (intro unat_of_nat_less) simp
  have us: "unat (off + len) = unat off + unat len" using l by (intro unat_add_lem [THEN iffD1, THEN trans]) simp_all
  have ok: "\<not> off \<ge> of_nat (length ?objs)" "\<not> off + len > of_nat (length ?objs)"
    using l(1) dec(2) ul us by (simp_all add: word_le_nat_alt word_less_nat_alt)
  let ?fh = "(set_objects (blit ?objs (unat off) d') fh)\<lparr>fh_Header := fh_Header fh\<rparr>"
  have same: "?fh = set_objects (blit ?objs (unat off) d') fh" by (simp add: set_objects_def Let_def)
  have "heap_shape (fh_Header fh)" using inv by (simp add: heap_inv_def)
  note w = heap_write_law [OF inv i(1) dec(1) nl refl this refl order_refl, unfolded same]
  have "OverwriteObject fh i d' = Inr (set_objects (blit ?objs (unat off) d') fh)"
    using dec(1) eq ok by (simp add: OverwriteObject_def Let_def)
  then show ?thesis using w i(1) by blast
qed

lemma heap_delete_law:
  assumes inv: "heap_inv fh L" and i: "i \<in> L"
  shows "\<exists>fh'. DeleteObject fh i = Inr fh' \<and> heap_inv fh' (L - {i})
     \<and> (\<forall>j\<in>L - {i}. fh_GetObject visit fh' j = fh_GetObject visit fh j) \<and> (\<forall>n. heap_room fh n \<longrightarrow> heap_room fh' n)"
proof -
  let ?objs = "db_Objects (fh_DirectBlock fh)" and ?h = "fh_Header fh"
  obtain off len where dec: "decode_id ?h i = Inr (off, len)" "0 < unat len"
    "unat off + unat len \<le> unat (db_FreeOffset (fh_DirectBlock fh))"
    using heap_inv_id [OF inv i] by blast
  have l: "unat off + unat len \<le> length ?objs" "length ?objs < 2 ^ 41" using dec(3) inv by (auto simp: heap_inv_def)
  have ul: "unat (of_nat (length ?objs) :: u64) = length ?objs" using l(2) by (intro unat_of_nat_less) simp
  have us: "unat (off + len) = unat off + unat len" using l by (intro unat_add_lem [THEN iffD1, THEN trans]) simp_all
  have ok: "\<not> off \<ge> of_nat (length ?objs)" "\<not> off + len > of_nat (length ?objs)"
    using l(1) dec(2) ul us by (simp_all add: word_le_nat_alt word_less_nat_alt)
  let ?h' = "?h\<lparr>wh_NumManagedObjects := wh_NumManagedObjects ?h - 1, wh_FreeSpace := wh_FreeSpace ?h + len\<rparr>"
  have sh: "heap_shape ?h'" using inv by (auto simp: heap_inv_def heap_shape_def)
  have dc: "decode_id ?h' = decode_id ?h" by (rule decode_id_cong) simp_all
  have nl: "length (zeros (unat len)) = unat len" by simp
  have mx: "wh_MaxManagedObjectSize ?h' = wh_MaxManagedObjectSize ?h" by simp
  note w = heap_write_law [OF inv i dec(1) nl dc sh mx Diff_subset [of L "{i}"]]
  have "DeleteObject fh i = Inr ((set_objects (blit ?objs (unat off) (zeros (unat len))) fh)\<lparr>fh_Header := ?h'\<rparr>)"
    using dec(1) ok us by (simp add: DeleteObject_def Let_def)
  then show ?thesis using w by blast
qed

interpretation fractal_store: object_store heap_inv heap_room "fh_GetObject visit" "store_insert visit" OverwriteObject DeleteObject
  for visit
proof (unfold_locales, goal_cases)
  case 1
  then show ?case by (auto simp: heap_room_def)
next
  case 2
  then show ?case by (rule heap_get_total)
next
  case 3
  then show ?case by (rule heap_insert_law)
next
  case 4
  then show ?case by (rule heap_overwrite_law)
next
  case 5
  then show ?case by (rule heap_delete_law)
qed

section \<open>Properties\<close>

lemma offset_size_65536: "computeOffsetSize 65536 = 3"
  by (simp add: computeOffsetSize_def count_bits.simps)

lemma new_heap_inv: "unat blockSize < 2 ^ 40 \<Longrightarrow> heap_inv (NewWritableFractalHeap blockSize) {}"
  by (simp add: heap_inv_def NewWritableFractalHeap_def Let_def heap_shape_def offset_size_65536)

lemma new_heap_room:
  "n \<le> unat blockSize \<Longrightarrow> n \<le> 65535 \<Longrightarrow> heap_room (NewWritableFractalHeap blockSize) n"
  by (simp add: heap_room_def NewWritableFractalHeap_def Let_def)

lemma map_upds_nth: "distinct ids \<Longrightarrow> length ids = length ds \<Longrightarrow> k < length ds \<Longrightarrow> (m(ids [\<mapsto>] ds)) (ids ! k) = Some (ds ! k)"
proof (induction ids arbitrary: ds k m)
  case (Cons i ids)
  then obtain d ds' where ds: "ds = d # ds'" by (cases ds) auto
  show ?case
  proof (cases k)
    case 0
    then show ?thesis using Cons.prems ds by simp
  next
    case (Suc j)
    then show ?thesis using Cons.IH [of ds' j "m(i \<mapsto> d)"] Cons.prems ds by (simp del: fun_upd_apply)
  qed
qed simp



text \<open>
  Offsets are stored in two bytes although the default block has 512 KiB. Two objects of 64 KiB, the
  size limit, get the same id: the second one's offset is 65536, which wraps to 0, and its id reads
  the first object.
\<close>

theorem heap_ids_wrap:
  "\<exists>i fh. fractal_store.ins_all id (NewWritableFractalHeap 524288) [replicate 65536 1, replicate 65536 2] = Inr ([i, i], fh)
     \<and> fh_GetObject id fh i = Inr (replicate 65536 1)"
proof -
  define a b :: bytes where ab: "a = replicate 65536 1" "b = replicate 65536 2"
  have len: "length a = 65536" "length b = 65536" "a \<noteq> []" "b \<noteq> []" by (simp_all add: ab)
  let ?fh = "NewWritableFractalHeap 524288"
  let ?i = "[0, 0, 0, 0, 0, 1, 0, 0] :: bytes"
  have z2: "zeros 2 = [0, 0]" by (simp add: numeral_2_eq_2)
  have id: "encodeHeapID h 0 65536 = Inr ?i" "encodeHeapID h 65536 65536 = Inr ?i" "decode_id h ?i = Inr (0, 65536)"
    if "wh_HeapIDLength h = 8" "wh_HeapOffsetSize h = 2" "wh_HeapLengthSize h = 3" for h
    using that z2 by (simp_all add: encodeHeapID_def decode_id_def put_var_def readUint_def Let_def drop_bit_eq_div)
  have n: "fh_RootIndirectBlock ?fh = None" "db_FreeOffset (fh_DirectBlock ?fh) = 0" "db_Objects (fh_DirectBlock ?fh) = []"
    "db_Size (fh_DirectBlock ?fh) = 524288" "wh_HeapIDLength (fh_Header ?fh) = 8" "wh_HeapOffsetSize (fh_Header ?fh) = 2"
    "wh_HeapLengthSize (fh_Header ?fh) = 3" "wh_MaxManagedObjectSize (fh_Header ?fh) = 65536"
    by (simp_all add: NewWritableFractalHeap_def Let_def offset_size_65536)
  let ?fh1 = "?fh\<lparr>fh_DirectBlock := (fh_DirectBlock ?fh)\<lparr>db_Objects := a, db_FreeOffset := 65536\<rparr>,
      fh_Header := count_object (fh_Header ?fh) 65536\<rparr>"
  let ?fh2 = "?fh1\<lparr>fh_DirectBlock := (fh_DirectBlock ?fh1)\<lparr>db_Objects := a @ b, db_FreeOffset := 131072\<rparr>,
      fh_Header := count_object (fh_Header ?fh1) 65536\<rparr>"
  have o: "overwrite [] 0 a = a" "overwrite a 65536 b = a @ b" using len by (simp_all add: overwrite_def)
  have 1: "store_insert id ?fh a = Inr (?i, ?fh1)"
    using InsertObject_step [of ?fh a ?i id] len n id(1) [OF n(5-7)] o(1) by simp
  have 2: "store_insert id ?fh1 b = Inr (?i, ?fh2)"
    using InsertObject_step [of ?fh1 b ?i id] len n o(2) id(2) [of "count_object (fh_Header ?fh) 65536"]
    by (simp add: count_object_def)
  have dec: "decode_id (fh_Header ?fh2) ?i = Inr (0, 65536)" using n by (intro id(3)) (simp_all add: count_object_def)
  have "slice_object (a @ b) 0 65536 = Inr (take (unat (65536 :: u64)) (drop (unat (0 :: u64)) (a @ b)))"
    using len by (intro slice_object_ok) simp_all
  then have "fh_GetObject id ?fh2 ?i = Inr a"
    unfolding fh_GetObject_def dec using len n by (simp add: getObjectFromDirect_def)
  then show ?thesis using 1 2 by (intro exI [of _ ?i] exI [of _ ?fh2]) (simp add: ab [symmetric])
qed

end
