(* ===== verification/Fractal_Heap_File.thy ===== *)
theory Fractal_Heap_File
  imports Fractal_Heap Object_Header
begin

text \<open>
  The fractal heap on disk: the header, direct and indirect blocks as \<^verbatim>\<open>fractalheap_write.go\<close> and
  \<^verbatim>\<open>fractalheap_indirect.go\<close> write them and load them back for modification, and the reader of
  \<^verbatim>\<open>fractalheap.go\<close>. A heap written by the code is read back object by object, and can be
  loaded, extended and written in place, while it has a single block whose last 19 bytes are unused;
  the section on the limits shows what happens beyond that.
\<close>

section \<open>The reader\<close>

record FractalHeapHeader =
  hh_Signature :: bytes
  hh_Version :: byte
  hh_HeapIDLen :: u16
  hh_IOFiltersLen :: u16
  hh_Flags :: byte
  hh_MaxManagedObjSize :: u32
  hh_NextHugeObjID :: u64
  hh_HugeObjBTreeAddr :: u64
  hh_FreeSpaceAmount :: u64
  hh_FreeSpaceSectionAddr :: u64
  hh_ManagedObjSpaceSize :: u64
  hh_ManagedObjAllocSize :: u64
  hh_ManagedObjIterOffset :: u64
  hh_ManagedObjCount :: u64
  hh_HugeObjSize :: u64
  hh_HugeObjCount :: u64
  hh_TinyObjSize :: u64
  hh_TinyObjCount :: u64
  hh_TableWidth :: u16
  hh_StartingBlockSize :: u64
  hh_MaxDirectBlockSize :: u64
  hh_MaxHeapSize :: u16
  hh_StartRootIndirectRows :: u16
  hh_RootBlockAddr :: u64
  hh_CurrentRowCount :: u16
  hh_HeapOffsetSize :: byte
  hh_HeapLengthSize :: byte
  hh_ChecksumDirectBlocks :: bool

record FractalHeap =
  rh_Header :: FractalHeapHeader
  rh_reader :: bytes
  rh_headerAddr :: u64
  rh_sizeofSize :: byte
  rh_sizeofAddr :: byte
  rh_endianness :: byte_order

datatype HeapIDType = HeapIDTypeManaged | HeapIDTypeHuge | HeapIDTypeTiny | HeapIDTypeOther

record fh_HeapID =
  hi_Raw :: bytes
  hi_Version :: byte
  hi_Type :: HeapIDType
  hi_Offset :: u64
  hi_Length :: u64

record DirectBlock =
  rb_Signature :: bytes
  rb_Version :: byte
  rb_HeapHeaderAddr :: u64
  rb_BlockOffset :: u64
  rb_Checksum :: u32
  rb_Data :: bytes

abbreviation frhp :: bytes where "frhp \<equiv> [0x46, 0x52, 0x48, 0x50]"
abbreviation fhdb :: bytes where "fhdb \<equiv> [0x46, 0x48, 0x44, 0x42]"
abbreviation fhib :: bytes where "fhib \<equiv> [0x46, 0x48, 0x49, 0x42]"

text \<open>
  The fields are read off the front of the buffer one after another: \<open>b\<close> is \<^verbatim>\<open>buf[offset:]\<close>.
  The buffer has exactly the bytes of the fields.
\<close>

definition parseFractalHeapHeader :: "bytes \<Rightarrow> u64 \<Rightarrow> byte \<Rightarrow> byte \<Rightarrow> byte_order \<Rightarrow> FractalHeapHeader result" where
  "parseFractalHeapHeader r address sizeofSize sizeofAddr e =
     (let L = unat sizeofSize; A = unat sizeofAddr
      in case ReadAt r (22 + 12 * L + 3 * A) address of
           Inl err \<Rightarrow> Inl (Wrapf ''failed to read fractal heap header: %w'' err)
         | Inr buf \<Rightarrow>
             if take 4 buf \<noteq> frhp then Inl (Errorf ''invalid fractal heap signature: %q (expected FRHP)'')
             else let b = drop 4 buf; version = b ! 0
             in if version \<noteq> 0 then Inl (Errorf ''unsupported fractal heap version: %d (only version 0 supported)'')
             else let b = drop 1 b;
                 heapIDLen = order_get e (take 2 b); b = drop 2 b;
                 ioFiltersLen = order_get e (take 2 b); b = drop 2 b;
                 flags = b ! 0; b = drop 1 b;
                 maxManaged = order_get e (take 4 b); b = drop 4 b;
                 nextHuge = readUint (take L b) L e; b = drop L b;
                 hugeBTree = readUint (take A b) A e; b = drop A b;
                 freeSpace = readUint (take L b) L e; b = drop L b;
                 freeSection = readUint (take A b) A e; b = drop A b;
                 managedSpace = readUint (take L b) L e; b = drop L b;
                 managedAlloc = readUint (take L b) L e; b = drop L b;
                 managedIter = readUint (take L b) L e; b = drop L b;
                 managedCount = readUint (take L b) L e; b = drop L b;
                 hugeSize = readUint (take L b) L e; b = drop L b;
                 hugeCount = readUint (take L b) L e; b = drop L b;
                 tinySize = readUint (take L b) L e; b = drop L b;
                 tinyCount = readUint (take L b) L e; b = drop L b;
                 tableWidth = order_get e (take 2 b); b = drop 2 b;
                 startingBlock = readUint (take L b) L e; b = drop L b;
                 maxDirect = readUint (take L b) L e; b = drop L b;
                 maxHeap = order_get e (take 2 b) :: u16; b = drop 2 b;
                 startRows = order_get e (take 2 b); b = drop 2 b;
                 rootAddr = readUint (take A b) A e; b = drop A b;
                 currentRows = order_get e (take 2 b);
                 dirSize = computeOffsetSize maxDirect;
                 manSize = computeOffsetSize (ucast (maxManaged :: u32))
             in Inr \<lparr>hh_Signature = take 4 buf, hh_Version = version, hh_HeapIDLen = heapIDLen, hh_IOFiltersLen = ioFiltersLen,
                  hh_Flags = flags, hh_MaxManagedObjSize = maxManaged, hh_NextHugeObjID = nextHuge,
                  hh_HugeObjBTreeAddr = hugeBTree, hh_FreeSpaceAmount = freeSpace, hh_FreeSpaceSectionAddr = freeSection,
                  hh_ManagedObjSpaceSize = managedSpace, hh_ManagedObjAllocSize = managedAlloc,
                  hh_ManagedObjIterOffset = managedIter, hh_ManagedObjCount = managedCount, hh_HugeObjSize = hugeSize,
                  hh_HugeObjCount = hugeCount, hh_TinyObjSize = tinySize, hh_TinyObjCount = tinyCount,
                  hh_TableWidth = tableWidth, hh_StartingBlockSize = startingBlock, hh_MaxDirectBlockSize = maxDirect,
                  hh_MaxHeapSize = maxHeap, hh_StartRootIndirectRows = startRows, hh_RootBlockAddr = rootAddr,
                  hh_CurrentRowCount = currentRows, hh_HeapOffsetSize = ucast ((maxHeap + 7) div 8),
                  hh_HeapLengthSize = (if dirSize < manSize then dirSize else manSize),
                  hh_ChecksumDirectBlocks = (flags AND 0x02 \<noteq> 0)\<rparr>)"

definition OpenFractalHeap :: "bytes \<Rightarrow> u64 \<Rightarrow> byte \<Rightarrow> byte \<Rightarrow> byte_order \<Rightarrow> FractalHeap result" where
  "OpenFractalHeap r address sizeofSize sizeofAddr e =
     (if address = 0 \<or> address = - 1 then Inl (Errorf ''invalid fractal heap address: 0x%X'')
      else case parseFractalHeapHeader r address sizeofSize sizeofAddr e of
             Inl err \<Rightarrow> Inl (wrap ''failed to parse fractal heap header'' err)
           | Inr header \<Rightarrow>
               Inr \<lparr>rh_Header = header, rh_reader = r, rh_headerAddr = address, rh_sizeofSize = sizeofSize,
                    rh_sizeofAddr = sizeofAddr, rh_endianness = e\<rparr>)"

definition heap_id_type :: "byte \<Rightarrow> HeapIDType" where
  "heap_id_type flags =
     (let t = flags AND 0x30
      in if t = 0x00 then HeapIDTypeManaged else if t = 0x10 then HeapIDTypeHuge
         else if t = 0x20 then HeapIDTypeTiny else HeapIDTypeOther)"

definition parseHeapID :: "FractalHeap \<Rightarrow> bytes \<Rightarrow> fh_HeapID result" where
  "parseHeapID fh heapID =
     (if length heapID < 1 then Inl (Errorf ''heap ID too short: %d bytes'')
      else let flags = heapID ! 0;
               hid = \<lparr>hi_Raw = heapID, hi_Version = drop_bit 6 (flags AND 0xC0), hi_Type = heap_id_type flags,
                     hi_Offset = 0, hi_Length = 0\<rparr>
           in if hi_Version hid \<noteq> 0 then Inl (Errorf ''unsupported heap ID version: %d'')
              else case hi_Type hid of
                     HeapIDTypeManaged \<Rightarrow>
                       let osz = unat (hh_HeapOffsetSize (rh_Header fh)); lsz = unat (hh_HeapLengthSize (rh_Header fh))
                       in if length heapID < 1 + osz + lsz
                          then Inl (Errorf ''heap ID too short for managed object: %d bytes (need %d)'')
                          else Inr (hid\<lparr>hi_Offset := readUint (take osz (drop 1 heapID)) osz (rh_endianness fh),
                                       hi_Length := readUint (take lsz (drop (1 + osz) heapID)) lsz (rh_endianness fh)\<rparr>)
                   | HeapIDTypeTiny \<Rightarrow> Inr (hid\<lparr>hi_Length := of_nat (length heapID - 1), hi_Offset := 0\<rparr>)
                   | _ \<Rightarrow> Inr hid)"

text \<open>
  Both direct-block readers take the same steps and differ in where the data ends: \<open>check\<close> tells
  whether the last four bytes are a checksum, \<open>keep\<close> whether it is kept.
\<close>

definition read_block :: "bool \<Rightarrow> bool \<Rightarrow> bytes \<Rightarrow> u64 \<Rightarrow> u64 \<Rightarrow> nat \<Rightarrow> nat \<Rightarrow> byte_order \<Rightarrow> u64 \<Rightarrow> DirectBlock result" where
  "read_block check keep r address blockSize osz A e headerAddr =
     (if address = 0 \<or> address = - 1 then Inl (Errorf ''invalid direct block address: 0x%X'')
      else if unat blockSize \<ge> max_alloc then Inl makeslice_panic
      else let n = unat blockSize
      in case ReadAt r n address of
           Inl err \<Rightarrow> Inl (Wrapf ''failed to read direct block: %w'' err)
         | Inr buf \<Rightarrow>
             if n < 4 then Inl slice_panic
             else if take 4 buf \<noteq> fhdb then Inl (Errorf ''invalid direct block signature: %q (expected FHDB)'')
             else if n < 5 then Inl index_panic
             else if buf ! 4 \<noteq> 0 then Inl (Errorf ''unsupported direct block version: %d'')
             else if n < 5 + A then Inl slice_panic
             else let hha = readUint (take A (drop 5 buf)) A e
             in if hha \<noteq> headerAddr
                then Inl (Errorf ''direct block heap header address mismatch: 0x%X (expected 0x%X)'')
             else if n < 5 + A + osz then Inl slice_panic
             else if check \<and> n < 5 + A + osz + 4 then Inl makeslice_panic
             else let dataEnd = (if check then n - 4 else n)
             in Inr \<lparr>rb_Signature = take 4 buf, rb_Version = 0, rb_HeapHeaderAddr = hha,
                     rb_BlockOffset = readUint (take osz (drop (5 + A) buf)) osz e,
                     rb_Checksum = (if keep then order_get e (drop (n - 4) buf) else 0),
                     rb_Data = drop (5 + A + osz) (take dataEnd buf)\<rparr>)"

definition readDirectBlock :: "FractalHeap \<Rightarrow> u64 \<Rightarrow> u64 \<Rightarrow> DirectBlock result" where
  "readDirectBlock fh address blockSize =
     read_block (hh_ChecksumDirectBlocks (rh_Header fh)) False (rh_reader fh) address blockSize
       (unat (hh_HeapOffsetSize (rh_Header fh))) (unat (rh_sizeofAddr fh)) (rh_endianness fh) (rh_headerAddr fh)"

definition readManagedObject :: "FractalHeap \<Rightarrow> fh_HeapID \<Rightarrow> bytes result" where
  "readManagedObject fh hid =
     (if hh_CurrentRowCount (rh_Header fh) \<noteq> 0
      then Inl (Errorf ''indirect blocks not supported in minimal implementation (root has %d rows)'')
      else case readDirectBlock fh (hh_RootBlockAddr (rh_Header fh)) (hh_StartingBlockSize (rh_Header fh)) of
             Inl err \<Rightarrow> Inl (wrap ''failed to read direct block'' err)
           | Inr dblock \<Rightarrow>
               if hi_Offset hid < rb_BlockOffset dblock then Inl (Errorf ''object offset 0x%X before block offset 0x%X'')
               else let relativeOffset = hi_Offset hid - rb_BlockOffset dblock; n = of_nat (length (rb_Data dblock))
               in if relativeOffset > n then Inl (Errorf ''object offset 0x%X beyond block data (size: %d)'')
               else if relativeOffset + hi_Length hid > n then Inl (Errorf ''object extends beyond block data (offset: 0x%X, length: %d, block size: %d)'')
               else if unat (hi_Length hid) \<ge> max_alloc then Inl makeslice_panic
               else Inr (take (unat (hi_Length hid)) (drop (unat relativeOffset) (rb_Data dblock))))"

definition readTinyObject :: "fh_HeapID \<Rightarrow> bytes result" where
  "readTinyObject hid = (if length (hi_Raw hid) < 2 then Inr [] else Inr (drop 1 (hi_Raw hid)))"

definition ReadObject :: "FractalHeap \<Rightarrow> bytes \<Rightarrow> bytes result" where
  "ReadObject fh heapID =
     (case parseHeapID fh heapID of
        Inl err \<Rightarrow> Inl (wrap ''failed to parse heap ID'' err)
      | Inr hid \<Rightarrow>
          (case hi_Type hid of
             HeapIDTypeManaged \<Rightarrow> readManagedObject fh hid
           | HeapIDTypeHuge \<Rightarrow> Inl (Errorf ''huge objects not supported in minimal implementation (heap ID type: 0x%02X)'')
           | HeapIDTypeTiny \<Rightarrow> readTinyObject hid
           | HeapIDTypeOther \<Rightarrow> Inl (Errorf ''unsupported heap ID type: 0x%02X'')))"

section \<open>Writing the heap\<close>

definition heap_header_bytes :: "WritableHeapHeader \<Rightarrow> Superblock \<Rightarrow> bytes" where
  "heap_header_bytes h sb =
     (let L = unat (LengthSize sb); A = unat (OffsetSize sb); e = Endianness sb
      in frhp @ [wh_Version h] @ le_put 2 (wh_HeapIDLength h) @ le_put 2 (wh_IOFiltersLength h) @ [wh_Flags h]
         @ le_put 4 (wh_MaxManagedObjectSize h)
         @ put_var (wh_NextHugeObjectID h) L e @ put_var (wh_HugeObjectBTreeAddr h) A e
         @ put_var (wh_FreeSpace h) L e @ put_var (wh_FreeSectionAddress h) A e
         @ put_var (wh_ManagedSpaceSize h) L e @ put_var (wh_AllocatedManagedSpace h) L e
         @ put_var (wh_ManagedSpaceOffset h) L e @ put_var (wh_NumManagedObjects h) L e
         @ put_var (wh_SizeHugeObjects h) L e @ put_var (wh_NumHugeObjects h) L e
         @ put_var (wh_SizeTinyObjects h) L e @ put_var (wh_NumTinyObjects h) L e
         @ le_put 2 (wh_TableWidth h) @ put_var (wh_StartingBlockSize h) L e @ put_var (wh_MaxDirectBlockSize h) L e
         @ le_put 2 (wh_MaxHeapSize h) @ le_put 2 (wh_StartingNumRows h) @ put_var (wh_RootBlockAddress h) A e
         @ le_put 2 (wh_CurrentNumRows h))"

definition writeHeaderAt :: "WritableFractalHeap \<Rightarrow> FileWriter \<Rightarrow> u64 \<Rightarrow> Superblock \<Rightarrow> FileWriter result" where
  "writeHeaderAt fh w addr sb = fw_WriteAtAddress w (with_checksum (heap_header_bytes (fh_Header fh) sb)) addr"

text \<open>
  The objects are copied behind the block header as far as they fit the block, and the checksum is
  put over its last four bytes. A block smaller than its header panics.
\<close>

definition block_header :: "WritableFractalHeap \<Rightarrow> Superblock \<Rightarrow> bytes" where
  "block_header fh sb =
     (let b = fh_DirectBlock fh
      in fhdb @ [db_Version b] @ put_var (db_HeapHeaderAddress b) (unat (OffsetSize sb)) (Endianness sb)
         @ put_var (db_BlockOffset b) (unat (wh_HeapOffsetSize (fh_Header fh))) (Endianness sb))"

definition writeDirectBlockAt :: "WritableFractalHeap \<Rightarrow> FileWriter \<Rightarrow> u64 \<Rightarrow> Superblock \<Rightarrow> FileWriter result" where
  "writeDirectBlockAt fh w addr sb =
     (let n = unat (db_Size (fh_DirectBlock fh)); hd = block_header fh sb
      in if n \<ge> max_alloc then Inl makeslice_panic
         else if n < 5 then Inl index_panic
         else if n < length hd then Inl slice_panic
         else fw_WriteAtAddress w (with_checksum (take (n - 4) (hd @ db_Objects (fh_DirectBlock fh) @ zeros n))) addr)"

definition heap_WriteToFile :: "WritableFractalHeap \<Rightarrow> FileWriter \<Rightarrow> Superblock \<Rightarrow> (u64 \<times> WritableFractalHeap \<times> FileWriter) result" where
  "heap_WriteToFile fh w sb =
     (let headerSize = 22 + 12 * unat (LengthSize sb) + 3 * unat (OffsetSize sb) + 4;
          directBlockSize = db_Size (fh_DirectBlock fh)
      in case Allocate (fw_allocator w) (of_nat headerSize) of
           Inl e \<Rightarrow> Inl (Wrapf ''failed to allocate heap header: %w'' e)
         | Inr (headerAddr, a) \<Rightarrow>
             let w = w\<lparr>fw_allocator := a\<rparr>
             in case Allocate (fw_allocator w) directBlockSize of
                  Inl e \<Rightarrow> Inl (Wrapf ''failed to allocate direct block: %w'' e)
                | Inr (directBlockAddr, a) \<Rightarrow>
                    let w = w\<lparr>fw_allocator := a\<rparr>;
                        fh = fh\<lparr>fh_Header := (fh_Header fh)\<lparr>wh_RootBlockAddress := directBlockAddr\<rparr>,
                                fh_DirectBlock := (fh_DirectBlock fh)\<lparr>db_HeapHeaderAddress := headerAddr\<rparr>\<rparr>
                    in case writeHeaderAt fh w headerAddr sb of
                         Inl e \<Rightarrow> Inl (wrap ''failed to write heap header: %w'' e)
                       | Inr w \<Rightarrow>
                           (case writeDirectBlockAt fh w directBlockAddr sb of
                              Inl e \<Rightarrow> Inl (wrap ''failed to write direct block: %w'' e)
                            | Inr w \<Rightarrow> Inr (headerAddr, fh, w)))"

definition heap_WriteAt :: "WritableFractalHeap \<Rightarrow> FileWriter \<Rightarrow> Superblock \<Rightarrow> (WritableFractalHeap \<times> FileWriter) result" where
  "heap_WriteAt fh w sb =
     (if fh_loadedHeaderAddress fh = 0
      then Inl (Errorf ''cannot use WriteAt: heap not loaded from file (use WriteToFile for new heaps)'')
      else let fh = fh\<lparr>fh_Header := (fh_Header fh)\<lparr>wh_RootBlockAddress := fh_loadedDirectBlockAddress fh\<rparr>,
                       fh_DirectBlock := (fh_DirectBlock fh)\<lparr>db_HeapHeaderAddress := fh_loadedHeaderAddress fh\<rparr>\<rparr>
           in case writeHeaderAt fh w (fh_loadedHeaderAddress fh) sb of
                Inl e \<Rightarrow> Inl (wrap ''failed to write heap header at 0x%X: %w'' e)
              | Inr w \<Rightarrow>
                  (case writeDirectBlockAt fh w (fh_loadedDirectBlockAddress fh) sb of
                     Inl e \<Rightarrow> Inl (wrap ''failed to write direct block at 0x%X: %w'' e)
                   | Inr w \<Rightarrow> Inr (fh, w)))"

section \<open>Loading a heap for modification\<close>

definition readDirectBlockFromFile :: "bytes \<Rightarrow> u64 \<Rightarrow> u64 \<Rightarrow> byte \<Rightarrow> byte \<Rightarrow> byte_order \<Rightarrow> u64 \<Rightarrow> DirectBlock result" where
  "readDirectBlockFromFile r address blockSize heapOffsetSize fileOffsetSize e headerAddr =
     read_block True True r address blockSize (unat heapOffsetSize) (unat fileOffsetSize) e headerAddr"

definition writable_header :: "FractalHeapHeader \<Rightarrow> WritableHeapHeader" where
  "writable_header h =
     \<lparr>wh_Version = hh_Version h, wh_HeapIDLength = hh_HeapIDLen h, wh_IOFiltersLength = hh_IOFiltersLen h,
      wh_Flags = hh_Flags h, wh_MaxManagedObjectSize = hh_MaxManagedObjSize h, wh_NextHugeObjectID = hh_NextHugeObjID h,
      wh_HugeObjectBTreeAddr = hh_HugeObjBTreeAddr h, wh_FreeSpace = hh_FreeSpaceAmount h,
      wh_FreeSectionAddress = hh_FreeSpaceSectionAddr h, wh_ManagedSpaceSize = hh_ManagedObjSpaceSize h,
      wh_AllocatedManagedSpace = hh_ManagedObjAllocSize h, wh_ManagedSpaceOffset = hh_ManagedObjIterOffset h,
      wh_NumManagedObjects = hh_ManagedObjCount h, wh_SizeHugeObjects = hh_HugeObjSize h,
      wh_NumHugeObjects = hh_HugeObjCount h, wh_SizeTinyObjects = hh_TinyObjSize h, wh_NumTinyObjects = hh_TinyObjCount h,
      wh_TableWidth = hh_TableWidth h, wh_StartingBlockSize = hh_StartingBlockSize h,
      wh_MaxDirectBlockSize = hh_MaxDirectBlockSize h, wh_MaxHeapSize = hh_MaxHeapSize h,
      wh_StartingNumRows = hh_StartRootIndirectRows h, wh_RootBlockAddress = hh_RootBlockAddr h,
      wh_CurrentNumRows = hh_CurrentRowCount h, wh_HeapOffsetSize = hh_HeapOffsetSize h,
      wh_HeapLengthSize = hh_HeapLengthSize h\<rparr>"

definition heap_LoadFromFile :: "WritableFractalHeap \<Rightarrow> bytes \<Rightarrow> u64 \<Rightarrow> Superblock \<Rightarrow> WritableFractalHeap result" where
  "heap_LoadFromFile fh r address sb =
     (if address = 0 \<or> address = - 1 then Inl (Errorf ''invalid heap address: 0x%X'')
      else case OpenFractalHeap r address (LengthSize sb) (OffsetSize sb) (Endianness sb) of
             Inl e \<Rightarrow> Inl (wrap ''failed to open fractal heap: %w'' e)
           | Inr readHeap \<Rightarrow>
               let h = rh_Header readHeap
               in if hh_CurrentRowCount h \<noteq> 0
                  then Inl (Errorf ''cannot modify heap with indirect blocks (root has %d rows)'')
                  else case readDirectBlockFromFile r (hh_RootBlockAddr h) (hh_StartingBlockSize h) (hh_HeapOffsetSize h)
                              (OffsetSize sb) (Endianness sb) (rh_headerAddr readHeap) of
                         Inl e \<Rightarrow> Inl (wrap ''failed to read direct block: %w'' e)
                       | Inr dblock \<Rightarrow>
                           Inr (fh\<lparr>fh_loadedHeaderAddress := address, fh_loadedDirectBlockAddress := hh_RootBlockAddr h,
                                   fh_Header := writable_header h,
                                   fh_DirectBlock := \<lparr>db_Version = rb_Version dblock,
                                     db_HeapHeaderAddress = rb_HeapHeaderAddr dblock,
                                     db_BlockOffset = rb_BlockOffset dblock, db_Size = hh_StartingBlockSize h,
                                     db_Objects = rb_Data dblock, db_FreeOffset = hh_ManagedObjIterOffset h,
                                     db_ChecksumEnabled = hh_ChecksumDirectBlocks h\<rparr>\<rparr>))"

section \<open>Indirect blocks\<close>

record IndirectBlock =
  xb_HeapHeaderAddr :: u64
  xb_BlockOffset :: u64
  xb_NumRows :: u16
  xb_TableWidth :: u16
  xb_ChecksumPresent :: bool
  xb_Entries :: "u64 list"

definition iblock_bytes :: "WritableIndirectBlock \<Rightarrow> Superblock \<Rightarrow> byte \<Rightarrow> bytes" where
  "iblock_bytes wb sb heapOffsetSize =
     (let A = unat (OffsetSize sb); e = Endianness sb;
          buf = fhib @ [wi_Version (ib_Header wb)] @ put_var (wi_HeapHeaderAddr (ib_Header wb)) A e
                @ put_var (wi_BlockOffset (ib_Header wb)) (unat heapOffsetSize) e
                @ concat (map (\<lambda>addr. put_var addr A e) (ib_ChildAddresses wb))
      in if wi_ChecksumEnabled (ib_Header wb) then with_checksum buf else buf)"

definition iblock_writeAt :: "WritableIndirectBlock \<Rightarrow> FileWriter \<Rightarrow> u64 \<Rightarrow> Superblock \<Rightarrow> byte \<Rightarrow> FileWriter result" where
  "iblock_writeAt wb w address sb heapOffsetSize = fw_WriteAtAddress w (iblock_bytes wb sb heapOffsetSize) address"

definition iblock_WriteToFile :: "WritableIndirectBlock \<Rightarrow> FileWriter \<Rightarrow> Superblock \<Rightarrow> byte \<Rightarrow> (u64 \<times> WritableIndirectBlock \<times> FileWriter) result" where
  "iblock_WriteToFile wb w sb heapOffsetSize =
     (let numEntries = length (ib_ChildAddresses wb);
          headerSize = 5 + unat (OffsetSize sb) + unat heapOffsetSize;
          entriesSize = numEntries * unat (OffsetSize sb);
          checksumSize = (if wi_ChecksumEnabled (ib_Header wb) then 4 else 0)
      in case Allocate (fw_allocator w) (of_nat (headerSize + entriesSize + checksumSize)) of
           Inl e \<Rightarrow> Inl (Wrapf ''failed to allocate space for indirect block: %w'' e)
         | Inr (address, a) \<Rightarrow>
             (case iblock_writeAt wb (w\<lparr>fw_allocator := a\<rparr>) address sb heapOffsetSize of
                Inl e \<Rightarrow> Inl (wrap ''failed to write indirect block at 0x%X: %w'' e)
              | Inr w \<Rightarrow> Inr (address, wb\<lparr>ib_loadedAddress := address\<rparr>, w)))"

definition iblock_WriteAt :: "WritableIndirectBlock \<Rightarrow> FileWriter \<Rightarrow> Superblock \<Rightarrow> byte \<Rightarrow> FileWriter result" where
  "iblock_WriteAt wb w sb heapOffsetSize =
     (if ib_loadedAddress wb = 0
      then Inl (Errorf ''cannot use WriteAt: block not loaded from file (use WriteToFile for new blocks)'')
      else iblock_writeAt wb w (ib_loadedAddress wb) sb heapOffsetSize)"

primrec iblock_entries :: "nat \<Rightarrow> nat \<Rightarrow> byte_order \<Rightarrow> bytes \<Rightarrow> u64 list" where
  "iblock_entries 0 A e b = []"
| "iblock_entries (Suc n) A e b = readUint (take A b) A e # iblock_entries n A e (drop A b)"

definition ParseIndirectBlock :: "bytes \<Rightarrow> u64 \<Rightarrow> u16 \<Rightarrow> u16 \<Rightarrow> byte \<Rightarrow> byte \<Rightarrow> byte_order \<Rightarrow> u64 \<Rightarrow> IndirectBlock result" where
  "ParseIndirectBlock r address numRows tableWidth sizeofAddr heapOffsetSize e expectedHeapHeaderAddr =
     (if address = 0 \<or> address = - 1 then Inl (Errorf ''invalid indirect block address: 0x%X'')
      else let numEntries = unat numRows * unat tableWidth; A = unat sizeofAddr; osz = unat heapOffsetSize
      in case ReadAt r (5 + A + osz + numEntries * A + 4) address of
           Inl err \<Rightarrow> Inl (Wrapf ''failed to read indirect block: %w'' err)
         | Inr buf \<Rightarrow>
             if take 4 buf \<noteq> fhib then Inl (Errorf ''invalid indirect block signature: %q (expected %s)'')
             else if buf ! 4 \<noteq> 0 then Inl (Errorf ''unsupported indirect block version: %d (only version %d supported)'')
             else let hha = readUint (take A (drop 5 buf)) A e
             in if hha \<noteq> expectedHeapHeaderAddr
                then Inl (Errorf ''indirect block heap header address mismatch: 0x%X (expected 0x%X)'')
             else Inr \<lparr>xb_HeapHeaderAddr = hha, xb_BlockOffset = readUint (take osz (drop (5 + A) buf)) osz e,
                       xb_NumRows = numRows, xb_TableWidth = tableWidth, xb_ChecksumPresent = True,
                       xb_Entries = iblock_entries numEntries A e (drop (5 + A + osz) buf)\<rparr>)"

definition iblock_LoadFromFile :: "WritableIndirectBlock \<Rightarrow> bytes \<Rightarrow> u64 \<Rightarrow> u16 \<Rightarrow> u16 \<Rightarrow> u16 \<Rightarrow> Superblock \<Rightarrow> byte \<Rightarrow> u64 \<Rightarrow> WritableIndirectBlock result" where
  "iblock_LoadFromFile wb r address numRows tableWidth maxDirectRows sb heapOffsetSize expectedHeapHeaderAddr =
     (case ParseIndirectBlock r address numRows tableWidth (OffsetSize sb) heapOffsetSize (Endianness sb) expectedHeapHeaderAddr of
        Inl e \<Rightarrow> Inl (Wrapf ''failed to parse indirect block: %w'' e)
      | Inr iblock \<Rightarrow>
          Inr (wb\<lparr>ib_loadedAddress := address,
                  ib_Header := \<lparr>wi_Version = 0, wi_HeapHeaderAddr = xb_HeapHeaderAddr iblock,
                    wi_BlockOffset = xb_BlockOffset iblock, wi_NumRows = numRows, wi_TableWidth = tableWidth,
                    wi_MaxDirectRows = maxDirectRows, wi_ChecksumEnabled = xb_ChecksumPresent iblock\<rparr>,
                  ib_ChildAddresses := xb_Entries iblock\<rparr>))"

section \<open>A written heap is read back\<close>

definition read_header :: "WritableHeapHeader \<Rightarrow> FractalHeapHeader" where
  "read_header h =
     \<lparr>hh_Signature = frhp, hh_Version = wh_Version h, hh_HeapIDLen = wh_HeapIDLength h, hh_IOFiltersLen = wh_IOFiltersLength h,
      hh_Flags = wh_Flags h, hh_MaxManagedObjSize = wh_MaxManagedObjectSize h, hh_NextHugeObjID = wh_NextHugeObjectID h,
      hh_HugeObjBTreeAddr = wh_HugeObjectBTreeAddr h, hh_FreeSpaceAmount = wh_FreeSpace h,
      hh_FreeSpaceSectionAddr = wh_FreeSectionAddress h, hh_ManagedObjSpaceSize = wh_ManagedSpaceSize h,
      hh_ManagedObjAllocSize = wh_AllocatedManagedSpace h, hh_ManagedObjIterOffset = wh_ManagedSpaceOffset h,
      hh_ManagedObjCount = wh_NumManagedObjects h, hh_HugeObjSize = wh_SizeHugeObjects h, hh_HugeObjCount = wh_NumHugeObjects h,
      hh_TinyObjSize = wh_SizeTinyObjects h, hh_TinyObjCount = wh_NumTinyObjects h, hh_TableWidth = wh_TableWidth h,
      hh_StartingBlockSize = wh_StartingBlockSize h, hh_MaxDirectBlockSize = wh_MaxDirectBlockSize h,
      hh_MaxHeapSize = wh_MaxHeapSize h, hh_StartRootIndirectRows = wh_StartingNumRows h,
      hh_RootBlockAddr = wh_RootBlockAddress h, hh_CurrentRowCount = wh_CurrentNumRows h,
      hh_HeapOffsetSize = ucast ((wh_MaxHeapSize h + 7) div 8),
      hh_HeapLengthSize = (if computeOffsetSize (wh_MaxDirectBlockSize h) < computeOffsetSize (ucast (wh_MaxManagedObjectSize h))
        then computeOffsetSize (wh_MaxDirectBlockSize h) else computeOffsetSize (ucast (wh_MaxManagedObjectSize h))),
      hh_ChecksumDirectBlocks = (wh_Flags h AND 0x02 \<noteq> 0)\<rparr>"

text \<open>The superblock's field widths, in little-endian order, hold the fields of the header.\<close>

definition lengths_of :: "WritableHeapHeader \<Rightarrow> u64 list" where
  "lengths_of h = [wh_NextHugeObjectID h, wh_FreeSpace h, wh_ManagedSpaceSize h, wh_AllocatedManagedSpace h,
     wh_ManagedSpaceOffset h, wh_NumManagedObjects h, wh_SizeHugeObjects h, wh_NumHugeObjects h, wh_SizeTinyObjects h,
     wh_NumTinyObjects h, wh_StartingBlockSize h, wh_MaxDirectBlockSize h]"

definition addresses_of :: "WritableHeapHeader \<Rightarrow> u64 list" where
  "addresses_of h = [wh_HugeObjectBTreeAddr h, wh_FreeSectionAddress h, wh_RootBlockAddress h]"

definition header_fits :: "Superblock \<Rightarrow> WritableHeapHeader \<Rightarrow> bool" where
  "header_fits sb h \<longleftrightarrow> Endianness sb = LittleEndian \<and> unat (LengthSize sb) \<le> 8 \<and> unat (OffsetSize sb) \<le> 8
     \<and> list_all (fits_width (unat (LengthSize sb))) (lengths_of h) \<and> list_all (fits_width (unat (OffsetSize sb))) (addresses_of h)"

lemma length_heap_header [simp]:
  "length (heap_header_bytes h sb) = 22 + 12 * unat (LengthSize sb) + 3 * unat (OffsetSize sb)"
  by (simp add: heap_header_bytes_def Let_def)

lemma length_with_checksum' [simp]: "length (with_checksum b) = length b + 4"
  by (simp add: with_checksum_def)

lemma holds_at_with_checksum: "holds_at f p (with_checksum b) \<Longrightarrow> holds_at f p b"
  by (simp add: with_checksum_def holds_at_append)

lemma parse_header_written:
  assumes "header_fits sb h" "wh_Version h = 0" "holds_at f (unat addr) (heap_header_bytes h sb)" "unat addr < 2 ^ 63"
  shows "parseFractalHeapHeader f addr (LengthSize sb) (OffsetSize sb) (Endianness sb) = Inr (read_header h)"
proof -
  let ?L = "unat (LengthSize sb)" and ?A = "unat (OffsetSize sb)"
  have r: "ReadAt f (22 + 12 * ?L + 3 * ?A) addr = Inr (heap_header_bytes h sb)"
    using assms(3,4) by (intro ReadAt_holds) simp_all
  have e: "Endianness sb = LittleEndian" "?L \<le> 8" "?A \<le> 8" using assms(1) by (simp_all add: header_fits_def)
  have v: "readUint (put_var v ?L LittleEndian) ?L LittleEndian = v" if "v \<in> set (lengths_of h)" for v
    using that assms(1) e by (intro readUint_put_var) (auto simp: header_fits_def list_all_iff)
  have a: "readUint (put_var v ?A LittleEndian) ?A LittleEndian = v" if "v \<in> set (addresses_of h)" for v
    using that assms(1) e by (intro readUint_put_var) (auto simp: header_fits_def list_all_iff)
  note vs = v [unfolded lengths_of_def, simplified] a [unfolded addresses_of_def, simplified]
  show ?thesis
    unfolding parseFractalHeapHeader_def Let_def r unfolding heap_header_bytes_def Let_def e
    using assms(2)
    by (simp add: read_header_def vs del: drop_drop le_put_numeral)
qed


text \<open>What the block holds of the objects: all but the last bytes, where header and checksum take their room.\<close>

abbreviation block_image :: "WritableFractalHeap \<Rightarrow> Superblock \<Rightarrow> bytes" where
  "block_image fh sb \<equiv> take (unat (db_Size (fh_DirectBlock fh)) - 4)
     (block_header fh sb @ db_Objects (fh_DirectBlock fh) @ zeros (unat (db_Size (fh_DirectBlock fh))))"

lemma take_append_long: "length xs \<le> k \<Longrightarrow> take k (xs @ ys) = xs @ take (k - length xs) ys"
  by simp

lemma small_not_undefined: "unat (a :: u64) < 2 ^ 63 \<Longrightarrow> a \<noteq> - 1"
  by (auto simp: unsigned_minus_1_eq_mask mask_eq_exp_minus_1)

lemma length_block_header [simp]:
  "length (block_header fh sb) = 5 + unat (OffsetSize sb) + unat (wh_HeapOffsetSize (fh_Header fh))"
  by (simp add: block_header_def Let_def)

lemma length_block_image:
  "4 \<le> unat (db_Size (fh_DirectBlock fh)) \<Longrightarrow> length (with_checksum (block_image fh sb)) = unat (db_Size (fh_DirectBlock fh))"
  by simp

lemma read_block_written:
  fixes fh sb
  defines "n \<equiv> unat (db_Size (fh_DirectBlock fh))" and "A \<equiv> unat (OffsetSize sb)" and "H \<equiv> unat (wh_HeapOffsetSize (fh_Header fh))"
  assumes img: "holds_at f (unat addr) (with_checksum (block_image fh sb))" "addr \<noteq> 0" "unat addr < 2 ^ 63"
    and b: "db_Version (fh_DirectBlock fh) = 0" "fits_width A (db_HeapHeaderAddress (fh_DirectBlock fh))"
      "fits_width H (db_BlockOffset (fh_DirectBlock fh))" "A \<le> 8" "H \<le> 8" "9 + A + H \<le> n" "n < 2 ^ 48"
  shows "\<exists>blk. read_block check keep f addr (db_Size (fh_DirectBlock fh)) H A (Endianness sb) (db_HeapHeaderAddress (fh_DirectBlock fh)) = Inr blk
     \<and> rb_Version blk = 0 \<and> rb_HeapHeaderAddr blk = db_HeapHeaderAddress (fh_DirectBlock fh)
     \<and> rb_BlockOffset blk = db_BlockOffset (fh_DirectBlock fh)
     \<and> length (rb_Data blk) = n - (5 + A + H) - (if check then 4 else 0)
     \<and> take (n - (9 + A + H)) (rb_Data blk) = take (n - (9 + A + H)) (db_Objects (fh_DirectBlock fh) @ zeros n)"
proof -
  let ?b = "fh_DirectBlock fh" and ?e = "Endianness sb"
  let ?x = "with_checksum (block_image fh sb)"
  have lx: "length ?x = n" using b(6) length_block_image [of fh sb] by (simp add: n_def)
  have r: "ReadAt f n addr = Inr ?x" using img lx by (intro ReadAt_holds) simp_all
  have m1: "addr \<noteq> - 1" using img(3) by (rule small_not_undefined)
  let ?r = "fhdb @ [0] @ put_var (db_HeapHeaderAddress ?b) A ?e @ put_var (db_BlockOffset ?b) H ?e"
  have hd: "block_header fh sb = ?r" using b(1) by (simp add: block_header_def Let_def A_def H_def)
  have bi: "block_image fh sb = ?r @ take (n - (9 + A + H)) (db_Objects ?b @ zeros n)"
    unfolding n_def [symmetric] hd using take_append_long [of ?r "n - 4"] b(6) by (simp del: append_Cons append.simps)
  define d where d: "d = take (n - (9 + A + H)) (db_Objects ?b @ zeros n)"
  have ld: "length d = n - (9 + A + H)" by (simp add: d)
  obtain ck where ck: "?x = ?r @ d @ ck" "length ck = 4"
    unfolding with_checksum_def bi d by auto
  obtain x where x: "ReadAt f n addr = Inr x" "x = ?r @ d @ ck" "length x = n" using r ck(1) lx by metis
  have d5: "drop 5 x = put_var (db_HeapHeaderAddress ?b) A ?e @ put_var (db_BlockOffset ?b) H ?e @ d @ ck"
    unfolding x(2) by simp
  have dd: "drop (5 + A) x = drop A (drop 5 x)" "drop (5 + A + H) x = drop H (drop A (drop 5 x))" by (simp_all add: ac_simps)
  have f: "take 4 x = fhdb" "x ! 4 = 0" "take A (drop 5 x) = put_var (db_HeapHeaderAddress ?b) A ?e"
    "take H (drop (5 + A) x) = put_var (db_BlockOffset ?b) H ?e" "drop (5 + A + H) x = d @ ck"
    unfolding dd d5 unfolding x(2) by (simp_all add: nth_append)
  have v: "readUint (put_var (db_HeapHeaderAddress ?b) A ?e) A ?e = db_HeapHeaderAddress ?b"
    "readUint (put_var (db_BlockOffset ?b) H ?e) H ?e = db_BlockOffset ?b"
    using b by (simp_all add: readUint_put_var)
  let ?stop = "if check then n - 4 else n"
  have dt: "drop (5 + A + H) (take ?stop x) = (if check then d else d @ ck)"
  proof -
    have "drop (5 + A + H) (take ?stop x) = take (?stop - (5 + A + H)) (d @ ck)" using f(5) by (simp add: drop_take)
    then show ?thesis using b(6) ld ck(2) by auto
  qed
  have sz: "\<not> n < 4" "\<not> n < 5" "\<not> n < 5 + A" "\<not> n < 5 + A + H" "\<not> n < 5 + A + H + 4" "\<not> 2 ^ 48 \<le> n"
    using b(6,7) by simp_all
  have e: "read_block check keep f addr (db_Size ?b) H A ?e (db_HeapHeaderAddress ?b)
    = Inr \<lparr>rb_Signature = fhdb, rb_Version = 0, rb_HeapHeaderAddr = db_HeapHeaderAddress ?b, rb_BlockOffset = db_BlockOffset ?b,
       rb_Checksum = (if keep then order_get ?e (drop (n - 4) x) else 0), rb_Data = (if check then d else d @ ck)\<rparr>"
    unfolding read_block_def n_def [symmetric] Let_def x(1) sum.case f v dt if_not_P [OF sz(6)] if_not_P [OF sz(1)]
      if_not_P [OF sz(2)] if_not_P [OF sz(3)] if_not_P [OF sz(4)]
    using sz(5) img(2) m1 by simp
  show ?thesis
    unfolding e d [symmetric] using ld ck(2) b(6) by auto
qed

lemma count_bits_less: "unat v < 2 ^ k \<Longrightarrow> count_bits v \<le> k"
proof (induction k arbitrary: v)
  case 0
  then have "v = 0" by (simp add: unsigned_eq_0_iff)
  then show ?case by (simp add: count_bits.simps)
next
  case (Suc k)
  then have "count_bits (drop_bit 1 v) \<le> k" by (intro Suc.IH) (simp add: drop_bit_eq_div unat_div less_mult_imp_div_less mult.commute)
  then show ?case by (subst count_bits.simps) simp
qed

lemma count_bits_ge: "2 ^ k \<le> unat v \<Longrightarrow> k < count_bits v"
proof (induction k arbitrary: v)
  case 0
  then have "0 < v" by (simp add: word_less_nat_alt)
  then show ?case by (subst count_bits.simps) simp
next
  case (Suc k)
  then have "k < count_bits (drop_bit 1 v)" by (intro Suc.IH) (simp add: drop_bit_eq_div unat_div)
  moreover have "0 < unat v" using Suc.prems by (metis less_le_trans zero_less_numeral zero_less_power)
  then have "0 < v" by (simp add: word_less_nat_alt)
  ultimately show ?case by (subst count_bits.simps) simp
qed

lemma offset_size_2: "256 \<le> unat v \<Longrightarrow> unat v < 65536 \<Longrightarrow> computeOffsetSize v = 2"
proof -
  assume a: "256 \<le> unat v" "unat v < 65536"
  have c: "count_bits v \<le> 16" "8 < count_bits v" using a count_bits_less [of v 16] count_bits_ge [of 8 v] by simp_all
  then have "(count_bits v + 7) div 8 = 2" by simp
  moreover have "v \<noteq> 0" using a by auto
  ultimately show ?thesis by (simp add: computeOffsetSize_def)
qed

lemma offset_size_3: "65536 \<le> unat v \<Longrightarrow> \<not> computeOffsetSize v < 3"
proof -
  assume a: "65536 \<le> unat v"
  have c: "16 < count_bits v" "count_bits v \<le> 64" using count_bits_ge [of 16 v] count_bits_less [of v 64] a by simp_all
  then have d: "3 \<le> (count_bits v + 7) div 8" "(count_bits v + 7) div 8 < 256" by simp_all
  then have "unat (of_nat ((count_bits v + 7) div 8) :: byte) = (count_bits v + 7) div 8" by (intro unat_of_nat_less) simp
  moreover have "v \<noteq> 0" using a by auto
  ultimately show ?thesis using d by (simp add: computeOffsetSize_def word_less_nat_alt)
qed

text \<open>
  The header of a single-block heap as this library makes it: its derived fields are those the reader
  computes from the stored ones, or differ only in the width of lengths that fit both.
\<close>

definition heap_file_ok :: "WritableFractalHeap \<Rightarrow> bool" where
  "heap_file_ok fh \<longleftrightarrow>
     (let h = fh_Header fh; b = fh_DirectBlock fh
      in wh_Version h = 0 \<and> wh_CurrentNumRows h = 0 \<and> wh_MaxHeapSize h = 16 \<and> wh_MaxManagedObjectSize h = 65536
         \<and> wh_StartingBlockSize h = db_Size b \<and> wh_MaxDirectBlockSize h = db_Size b
         \<and> wh_ManagedSpaceOffset h = db_FreeOffset b \<and> db_Version b = 0 \<and> db_BlockOffset b = 0
         \<and> 256 \<le> unat (db_Size b) \<and> (wh_HeapLengthSize h = 3 \<or> wh_HeapLengthSize h = 2 \<and> unat (db_Size b) < 65536))"

definition sb_8_8 :: "Superblock \<Rightarrow> bool" where
  "sb_8_8 sb \<longleftrightarrow> Endianness sb = LittleEndian \<and> OffsetSize sb = 8 \<and> LengthSize sb = 8"

definition written :: "FileWriter \<Rightarrow> u64 \<Rightarrow> WritableFractalHeap \<Rightarrow> Superblock \<Rightarrow> bool" where
  "written w a fh sb \<longleftrightarrow>
     sb_8_8 sb \<and> a \<noteq> 0 \<and> wh_RootBlockAddress (fh_Header fh) \<noteq> 0 \<and> db_HeapHeaderAddress (fh_DirectBlock fh) = a
     \<and> stored w a (with_checksum (heap_header_bytes (fh_Header fh) sb))
     \<and> stored w (wh_RootBlockAddress (fh_Header fh)) (with_checksum (block_image fh sb))
     \<and> {unat a..<unat a + 146} \<inter> {unat (wh_RootBlockAddress (fh_Header fh))..<
           unat (wh_RootBlockAddress (fh_Header fh)) + unat (db_Size (fh_DirectBlock fh))} = {}"

abbreviation opened :: "FileWriter \<Rightarrow> u64 \<Rightarrow> WritableFractalHeap \<Rightarrow> FractalHeap" where
  "opened w a fh \<equiv> \<lparr>rh_Header = read_header (fh_Header fh), rh_reader = contents w, rh_headerAddr = a,
     rh_sizeofSize = 8, rh_sizeofAddr = 8, rh_endianness = LittleEndian\<rparr>"

lemma fits_width_8 [simp]: "fits_width 8 v"
  by (simp add: fits_width_def)

lemma written_open:
  assumes "written w a fh sb" "wh_Version (fh_Header fh) = 0"
  shows "OpenFractalHeap (contents w) a (LengthSize sb) (OffsetSize sb) (Endianness sb) = Inr (opened w a fh)"
proof -
  have a: "sb_8_8 sb" "a \<noteq> 0" "stored w a (with_checksum (heap_header_bytes (fh_Header fh) sb))" "unat a < 2 ^ 63"
    using assms(1) by (auto simp: written_def stored_def)
  have "header_fits sb (fh_Header fh)" using a(1) by (simp add: header_fits_def sb_8_8_def list_all_iff)
  from parse_header_written [OF this assms(2) holds_at_with_checksum [OF stored_holds [OF a(3)]] a(4)]
  show ?thesis using a(1,2) small_not_undefined [OF a(4)] by (simp add: OpenFractalHeap_def sb_8_8_def)
qed

lemma read_header_sizes:
  assumes "heap_file_ok fh"
  shows "hh_HeapOffsetSize (read_header (fh_Header fh)) = 2"
    "hh_HeapLengthSize (read_header (fh_Header fh)) = (if unat (db_Size (fh_DirectBlock fh)) < 65536 then 2 else 3)"
proof -
  have f: "wh_MaxHeapSize (fh_Header fh) = 16" "wh_MaxManagedObjectSize (fh_Header fh) = 65536"
    "wh_MaxDirectBlockSize (fh_Header fh) = db_Size (fh_DirectBlock fh)" "256 \<le> unat (db_Size (fh_DirectBlock fh))"
    using assms by (auto simp: heap_file_ok_def Let_def)
  show "hh_HeapOffsetSize (read_header (fh_Header fh)) = 2" by (simp add: read_header_def f(1))
  show "hh_HeapLengthSize (read_header (fh_Header fh)) = (if unat (db_Size (fh_DirectBlock fh)) < 65536 then 2 else 3)"
    using f offset_size_2 [OF f(4)] offset_size_3 [of "db_Size (fh_DirectBlock fh)"]
    by (simp add: read_header_def offset_size_65536)
qed

text \<open>The root block of a written heap, through either block reader.\<close>

lemma written_block:
  assumes "written w a fh sb" "heap_file_ok fh" "heap_inv fh L" "19 \<le> unat (db_Size (fh_DirectBlock fh))"
  shows "\<exists>blk. read_block check keep (contents w) (wh_RootBlockAddress (fh_Header fh)) (db_Size (fh_DirectBlock fh)) 2 8 LittleEndian a = Inr blk
     \<and> rb_Version blk = 0 \<and> rb_HeapHeaderAddr blk = a \<and> rb_BlockOffset blk = 0
     \<and> length (rb_Data blk) = unat (db_Size (fh_DirectBlock fh)) - 15 - (if check then 4 else 0)
     \<and> take (unat (db_Size (fh_DirectBlock fh)) - 19) (rb_Data blk)
         = take (unat (db_Size (fh_DirectBlock fh)) - 19) (db_Objects (fh_DirectBlock fh) @ zeros (unat (db_Size (fh_DirectBlock fh))))"
proof -
  have a: "sb_8_8 sb" "stored w (wh_RootBlockAddress (fh_Header fh)) (with_checksum (block_image fh sb))"
    "wh_RootBlockAddress (fh_Header fh) \<noteq> 0" "unat (wh_RootBlockAddress (fh_Header fh)) < 2 ^ 63"
    "db_HeapHeaderAddress (fh_DirectBlock fh) = a"
    using assms(1) by (auto simp: written_def stored_def)
  have h: "wh_HeapOffsetSize (fh_Header fh) = 2" "unat (db_Size (fh_DirectBlock fh)) < 2 ^ 40"
    using assms(3) by (auto simp: heap_inv_def heap_shape_def)
  have b: "db_Version (fh_DirectBlock fh) = 0" "db_BlockOffset (fh_DirectBlock fh) = 0"
    using assms(2) by (auto simp: heap_file_ok_def Let_def)
  have s: "unat (OffsetSize sb) = 8" "Endianness sb = LittleEndian" "unat (wh_HeapOffsetSize (fh_Header fh)) = 2"
    using a(1) h(1) by (simp_all add: sb_8_8_def)
  show ?thesis
    using read_block_written [OF stored_holds [OF a(2)] a(3,4) b(1), of check keep] assms(4) h(2) a(5)
    unfolding s b(2) by (simp add: fits_width_def)
qed

lemma decode_widths:
  assumes d: "decode_id h i = Inr (off, len)" and h: "heap_shape h" and w: "unat len < 65536 \<or> l = unat (wh_HeapLengthSize h)"
    and l: "l = 2 \<or> l = 3" "l \<le> unat (wh_HeapLengthSize h)"
  shows "length i = 8" "drop_bit 6 (i ! 0 AND 0xC0) = 0" "i ! 0 AND 0x30 = 0"
    "readUint (take 2 (drop 1 i)) 2 LittleEndian = off" "readUint (take l (drop 3 i)) l LittleEndian = len"
proof -
  have s: "unat (wh_HeapIDLength h) = 8" "unat (wh_HeapOffsetSize h) = 2"
    using h by (simp_all add: heap_shape_def)
  let ?l = "unat (wh_HeapLengthSize h)"
  show f: "length i = 8" "drop_bit 6 (i ! 0 AND 0xC0) = 0" "i ! 0 AND 0x30 = 0"
      "readUint (take 2 (drop 1 i)) 2 LittleEndian = off"
    using d s by (auto simp: decode_id_def Let_def split: if_splits)
  have f5: "readUint (take ?l (drop 3 i)) ?l LittleEndian = len"
    using d s by (auto simp: decode_id_def Let_def numeral_3_eq_3 split: if_splits)
  have lh: "?l = 2 \<or> ?l = 3" using h by (auto simp: heap_shape_def)
  show "readUint (take l (drop 3 i)) l LittleEndian = len"
  proof (cases "l = ?l")
    case True
    then show ?thesis using f5 by simp
  next
    case False
    then have e: "l = 2" "?l = 3" using l lh by auto
    then have sm: "unat len < 65536" using w by auto
    obtain x y z where t: "take 3 (drop 3 i) = [x, y, z]" "take 2 (drop 3 i) = [x, y]"
      using f(1) by (auto simp: numeral_eq_Suc take_Suc_conv_app_nth)
    have "len = le_get [x, y, z]" using f5 e t(1) f(1) by (simp add: readUint_def)
    moreover have "take_bit 16 len = len" using sm by (intro unat_eqD) (simp add: unsigned_take_bit_eq take_bit_nat_eq_self)
    moreover have "take_bit 16 (le_get [x, y, z] :: u64) = le_get [x, y]"
      by (rule bit_word_eqI) (auto simp: bit_simps dest: bit_imp_le_length)
    ultimately have "len = le_get [x, y]" by simp
    then show ?thesis using e t(2) f(1) by (simp add: readUint_def)
  qed
qed


lemma slice_prefix:
  fixes xs ys :: bytes
  assumes "off + len \<le> m" "take m xs = take m ys"
  shows "take len (drop off xs) = take len (drop off ys)"
proof -
  have "take len (drop off zs) = take len (drop off (take m zs))" for zs :: bytes
    using assms(1) by (simp add: drop_take min_def)
  then show ?thesis using assms(2) by metis
qed

lemma heap_inv_get:
  assumes "heap_inv fh L" "i \<in> L"
  obtains off len where "decode_id (fh_Header fh) i = Inr (off, len)" "0 < unat len"
    "unat off + unat len \<le> unat (db_FreeOffset (fh_DirectBlock fh))"
    "\<And>visit. fh_GetObject visit fh i = Inr (take (unat len) (drop (unat off) (db_Objects (fh_DirectBlock fh))))"
proof -
  obtain off len where d: "decode_id (fh_Header fh) i = Inr (off, len)" "0 < unat len"
    "unat off + unat len \<le> unat (db_FreeOffset (fh_DirectBlock fh))" using heap_inv_id [OF assms] by blast
  have "unat off + unat len \<le> length (db_Objects (fh_DirectBlock fh))" using assms(1) d(3) by (auto simp: heap_inv_def)
  from that [OF d heap_get [OF assms(1) d(1,2) this]] show thesis .
qed

definition disk_room :: "WritableFractalHeap \<Rightarrow> bool" where
  "disk_room fh \<longleftrightarrow> unat (db_FreeOffset (fh_DirectBlock fh)) + 19 \<le> unat (db_Size (fh_DirectBlock fh))"

text \<open>The ids of a single-block heap mean the same to the reader of the file.\<close>

lemma reader_decodes:
  assumes inv: "heap_inv fh L" "i \<in> L" and ok: "heap_file_ok fh" and room: "disk_room fh"
    and d: "decode_id (fh_Header fh) i = Inr (off, len)" "unat off + unat len \<le> unat (db_FreeOffset (fh_DirectBlock fh))"
  defines "l \<equiv> unat (hh_HeapLengthSize (read_header (fh_Header fh)))"
  shows "length i = 8" "drop_bit 6 (i ! 0 AND 0xC0) = 0" "i ! 0 AND 0x30 = 0"
    "readUint (take 2 (drop 1 i)) 2 LittleEndian = off" "readUint (take l (drop 3 i)) l LittleEndian = len" "l = 2 \<or> l = 3"
proof -
  have sh: "heap_shape (fh_Header fh)" using inv by (simp add: heap_inv_def)
  have l: "l = (if unat (db_Size (fh_DirectBlock fh)) < 65536 then 2 else 3)" using read_header_sizes(2) [OF ok] by (simp add: l_def)
  then show l23: "l = 2 \<or> l = 3" by simp
  have hl: "wh_HeapLengthSize (fh_Header fh) = 3 \<or> wh_HeapLengthSize (fh_Header fh) = 2 \<and> unat (db_Size (fh_DirectBlock fh)) < 65536"
    using ok by (auto simp: heap_file_ok_def Let_def)
  have le: "l \<le> unat (wh_HeapLengthSize (fh_Header fh))" using hl l by auto
  have "unat len < 65536 \<or> l = unat (wh_HeapLengthSize (fh_Header fh))"
    using hl l d(2) room by (auto simp: disk_room_def)
  from decode_widths [OF d(1) sh this l23 le]
  show "length i = 8" "drop_bit 6 (i ! 0 AND 0xC0) = 0" "i ! 0 AND 0x30 = 0"
    "readUint (take 2 (drop 1 i)) 2 LittleEndian = off" "readUint (take l (drop 3 i)) l LittleEndian = len" .
qed

lemma written_read:
  assumes wr: "written w a fh sb" and ok: "heap_file_ok fh" and inv: "heap_inv fh L" "i \<in> L" and room: "disk_room fh"
  shows "ReadObject (opened w a fh) i = fh_GetObject visit fh i"
proof -
  let ?b = "fh_DirectBlock fh" and ?h = "fh_Header fh"
  obtain off len where d: "decode_id ?h i = Inr (off, len)" "0 < unat len" "unat off + unat len \<le> unat (db_FreeOffset ?b)"
    "\<And>visit. fh_GetObject visit fh i = Inr (take (unat len) (drop (unat off) (db_Objects ?b)))"
    using heap_inv_get [OF inv] by blast
  note r = reader_decodes [OF inv ok room d(1,3)]
  have rh: "wh_CurrentNumRows ?h = 0" "wh_StartingBlockSize ?h = db_Size ?b" "wh_Version ?h = 0"
    using ok by (auto simp: heap_file_ok_def Let_def)
  have sz: "hh_HeapOffsetSize (read_header ?h) = 2" by (rule read_header_sizes(1) [OF ok])
  have p: "parseHeapID (opened w a fh) i = Inr \<lparr>hi_Raw = i, hi_Version = 0, hi_Type = HeapIDTypeManaged, hi_Offset = off, hi_Length = len\<rparr>"
    using r sz by (auto simp: parseHeapID_def heap_id_type_def Let_def numeral_3_eq_3)
  have n19: "19 \<le> unat (db_Size ?b)" using room by (simp add: disk_room_def)
  obtain blk where b: "readDirectBlock (opened w a fh) (wh_RootBlockAddress ?h) (db_Size ?b) = Inr blk" "rb_BlockOffset blk = 0"
    "length (rb_Data blk) = unat (db_Size ?b) - 15 - (if hh_ChecksumDirectBlocks (read_header ?h) then 4 else 0)"
    "take (unat (db_Size ?b) - 19) (rb_Data blk) = take (unat (db_Size ?b) - 19) (db_Objects ?b @ zeros (unat (db_Size ?b)))"
    using written_block [OF wr ok inv(1) n19, of "hh_ChecksumDirectBlocks (read_header ?h)" False] sz
    by (auto simp: readDirectBlock_def)
  have fr: "unat off + unat len \<le> unat (db_Size ?b) - 19" using d(3) room by (simp add: disk_room_def)
  have fo: "unat off + unat len \<le> length (db_Objects ?b)" "unat (db_Size ?b) < 2 ^ 40"
    using d(3) inv(1) by (auto simp: heap_inv_def)
  have ln: "unat off + unat len \<le> length (rb_Data blk)" "length (rb_Data blk) < 2 ^ 40" using b(3) fr fo(2) by auto
  have ul: "unat (of_nat (length (rb_Data blk)) :: u64) = length (rb_Data blk)" using ln(2) by (intro unat_of_nat_less) simp
  have us: "unat (off + len) = unat off + unat len" using ln by (intro unat_add_lem [THEN iffD1, THEN trans]) simp_all
  have "\<not> off > of_nat (length (rb_Data blk))" "\<not> off + len > of_nat (length (rb_Data blk))" "\<not> 2 ^ 48 \<le> unat len"
    using ln ul us by (simp_all add: word_less_nat_alt)
  moreover have "take (unat len) (drop (unat off) (rb_Data blk)) = take (unat len) (drop (unat off) (db_Objects ?b @ zeros (unat (db_Size ?b))))"
    by (rule slice_prefix [OF fr b(4)])
  moreover have "\<dots> = take (unat len) (drop (unat off) (db_Objects ?b))" using fo(1) by simp
  moreover have f: "hh_CurrentRowCount (read_header ?h) = 0" "hh_RootBlockAddr (read_header ?h) = wh_RootBlockAddress ?h"
    "hh_StartingBlockSize (read_header ?h) = db_Size ?b"
    using rh by (simp_all add: read_header_def)
  ultimately show ?thesis
    unfolding ReadObject_def p d(4) by (simp add: readManagedObject_def b(1,2) Let_def)
qed

lemma written_load:
  assumes wr: "written w a fh sb" and ok: "heap_file_ok fh" and inv: "heap_inv fh L" and room: "disk_room fh"
    and fh0: "fh_RootIndirectBlock fh0 = None" "fh_DirectBlocks fh0 = []"
  shows "\<exists>fl. heap_LoadFromFile fh0 (contents w) a sb = Inr fl \<and> heap_inv fl L \<and> heap_file_ok fl
     \<and> (\<forall>i\<in>L. \<forall>visit. fh_GetObject visit fl i = fh_GetObject visit fh i)
     \<and> fh_loadedHeaderAddress fl = a \<and> fh_loadedDirectBlockAddress fl = wh_RootBlockAddress (fh_Header fh)
     \<and> db_Size (fh_DirectBlock fl) = db_Size (fh_DirectBlock fh) \<and> db_FreeOffset (fh_DirectBlock fl) = db_FreeOffset (fh_DirectBlock fh)"
proof -
  let ?b = "fh_DirectBlock fh" and ?h = "fh_Header fh"
  have rh: "wh_CurrentNumRows ?h = 0" "wh_StartingBlockSize ?h = db_Size ?b" "wh_Version ?h = 0" "wh_ManagedSpaceOffset ?h = db_FreeOffset ?b"
    using ok by (auto simp: heap_file_ok_def Let_def)
  note sz = read_header_sizes [OF ok]
  have n19: "19 \<le> unat (db_Size ?b)" using room by (simp add: disk_room_def)
  have s8: "sb_8_8 sb" "a \<noteq> 0" "unat a < 2 ^ 63" using wr by (auto simp: written_def stored_def)
  obtain blk where b: "readDirectBlockFromFile (contents w) (wh_RootBlockAddress ?h) (db_Size ?b) 2 8 LittleEndian a = Inr blk"
    "rb_Version blk = 0" "rb_HeapHeaderAddr blk = a" "rb_BlockOffset blk = 0" "length (rb_Data blk) = unat (db_Size ?b) - 19"
    "take (unat (db_Size ?b) - 19) (rb_Data blk) = take (unat (db_Size ?b) - 19) (db_Objects ?b @ zeros (unat (db_Size ?b)))"
    using written_block [OF wr ok inv n19, of True True] by (auto simp: readDirectBlockFromFile_def)
  define fl where "fl = fh0\<lparr>fh_loadedHeaderAddress := a, fh_loadedDirectBlockAddress := wh_RootBlockAddress ?h,
     fh_Header := writable_header (read_header ?h),
     fh_DirectBlock := \<lparr>db_Version = 0, db_HeapHeaderAddress = a, db_BlockOffset = 0, db_Size = db_Size ?b,
       db_Objects = rb_Data blk, db_FreeOffset = db_FreeOffset ?b, db_ChecksumEnabled = hh_ChecksumDirectBlocks (read_header ?h)\<rparr>\<rparr>"
  have f: "hh_CurrentRowCount (read_header ?h) = 0" "hh_RootBlockAddr (read_header ?h) = wh_RootBlockAddress ?h"
    "hh_StartingBlockSize (read_header ?h) = db_Size ?b" "hh_ManagedObjIterOffset (read_header ?h) = db_FreeOffset ?b"
    using rh by (simp_all add: read_header_def)
  have s: "Endianness sb = LittleEndian" "OffsetSize sb = 8" "LengthSize sb = 8" using s8(1) by (simp_all add: sb_8_8_def)
  have ld: "heap_LoadFromFile fh0 (contents w) a sb = Inr fl"
    unfolding heap_LoadFromFile_def written_open [OF wr rh(3)] fl_def
    using s8(2) small_not_undefined [OF s8(3)] by (simp add: Let_def f b sz s)
  let ?hl = "writable_header (read_header ?h)"
  have hl: "wh_HeapIDLength ?hl = wh_HeapIDLength ?h" "wh_HeapOffsetSize ?hl = 2" "wh_HeapLengthSize ?hl = (if unat (db_Size ?b) < 65536 then 2 else 3)"
    "wh_MaxManagedObjectSize ?hl = wh_MaxManagedObjectSize ?h"
    using sz by (simp_all add: writable_header_def) (simp_all add: read_header_def)
  have hs: "heap_shape ?h" using inv by (simp add: heap_inv_def)
  have sh: "heap_shape ?hl" using hs hl by (simp add: heap_shape_def)
  have same: "decode_id ?hl i = decode_id ?h i" if i: "i \<in> L" for i
  proof -
    obtain off len where d: "decode_id ?h i = Inr (off, len)" "unat off + unat len \<le> unat (db_FreeOffset ?b)"
      using heap_inv_get [OF inv i] by blast
    note r = reader_decodes [OF inv i ok room d]
    show ?thesis using r hl hs d(1) sz(2) unfolding decode_id_def [of ?hl] heap_shape_def by (auto simp: Let_def numeral_3_eq_3)
  qed
  have reg: "region ?hl i = region ?h i" if "i \<in> L" for i using same [OF that] by (simp add: region_def)
  have fo: "unat (db_Size ?b) < 2 ^ 40" "unat (db_FreeOffset ?b) \<le> length (db_Objects ?b)" "unat (db_FreeOffset ?b) \<le> 65536"
    using inv by (auto simp: heap_inv_def)
  have "\<forall>i\<in>L. (\<exists>r. decode_id ?h i = Inr r) \<and> region ?h i \<noteq> {} \<and> region ?h i \<subseteq> {0..<unat (db_FreeOffset ?b)}"
    "\<forall>i\<in>L. \<forall>j\<in>L. i \<noteq> j \<longrightarrow> region ?h i \<inter> region ?h j = {}"
    using inv unfolding heap_inv_def by blast+
  then have invl: "heap_inv fl L"
    unfolding heap_inv_def fl_def using fh0 sh b(5) fo room by (simp add: same reg disk_room_def)
  have okl: "heap_file_ok fl"
    using ok hl sz by (auto simp: heap_file_ok_def fl_def Let_def writable_header_def read_header_def)
  have "fh_GetObject visit fl i = fh_GetObject visit fh i" if i: "i \<in> L" for i visit
  proof (rule heap_get_cong [OF inv invl i i])
    show "decode_id (fh_Header fl) i = decode_id ?h i" using same [OF i] by (simp add: fl_def)
    fix k assume k: "k \<in> region ?h i"
    have "region ?h i \<subseteq> {0..<unat (db_FreeOffset ?b)}" using inv i by (auto simp: heap_inv_def)
    then have kf: "k < unat (db_FreeOffset ?b)" using k by auto
    then have ks: "k < unat (db_Size ?b) - 19" using room by (simp add: disk_room_def)
    then have "rb_Data blk ! k = take (unat (db_Size ?b) - 19) (rb_Data blk) ! k" by simp
    also have "\<dots> = db_Objects ?b ! k" unfolding b(6) using kf ks fo(2) by (simp add: nth_append)
    finally show "db_Objects (fh_DirectBlock fl) ! k = db_Objects ?b ! k" by (simp add: fl_def)
  qed
  with ld invl okl show ?thesis by (intro exI [of _ fl]) (simp add: fl_def)
qed

text \<open>Writing: the header and the block go to space of their own, and nothing else changes.\<close>

abbreviation block_extent :: "WritableFractalHeap \<Rightarrow> nat set" where
  "block_extent fh \<equiv> {unat (wh_RootBlockAddress (fh_Header fh))..<
     unat (wh_RootBlockAddress (fh_Header fh)) + unat (db_Size (fh_DirectBlock fh))}"

definition block_shape :: "WritableFractalHeap \<Rightarrow> bool" where
  "block_shape fh \<longleftrightarrow> wh_HeapOffsetSize (fh_Header fh) = 2 \<and> 19 \<le> unat (db_Size (fh_DirectBlock fh))
     \<and> unat (db_Size (fh_DirectBlock fh)) < 2 ^ 48"

lemma heap_inv_block_shape: "heap_inv fh L \<Longrightarrow> 19 \<le> unat (db_Size (fh_DirectBlock fh)) \<Longrightarrow> block_shape fh"
  by (auto simp: heap_inv_def heap_shape_def block_shape_def)

lemma write_both:
  assumes w: "writer_ok w" and sb: "sb_8_8 sb" and shape: "block_shape fh"
    and a: "db_HeapHeaderAddress (fh_DirectBlock fh) = a" "a \<noteq> 0" "unat a < 2 ^ 63" "{unat a..<unat a + 146} \<subseteq> used (fw_allocator w)"
    and r: "wh_RootBlockAddress (fh_Header fh) = r" "r \<noteq> 0" "unat r < 2 ^ 63" "block_extent fh \<subseteq> used (fw_allocator w)"
    and disj: "{unat a..<unat a + 146} \<inter> block_extent fh = {}"
  shows "\<exists>w1 w2. writeHeaderAt fh w a sb = Inr w1 \<and> writeDirectBlockAt fh w1 r sb = Inr w2 \<and> written w2 a fh sb
     \<and> writer_ok w2 \<and> fw_allocator w2 = fw_allocator w
     \<and> (\<forall>p d. stored w p d \<longrightarrow> d \<noteq> [] \<longrightarrow> {unat p..<unat p + length d} \<inter> ({unat a..<unat a + 146} \<union> block_extent fh) = {} \<longrightarrow> stored w2 p d)"
proof -
  let ?n = "unat (db_Size (fh_DirectBlock fh))"
  have n19: "19 \<le> ?n" using shape by (simp add: block_shape_def)
  let ?hd = "with_checksum (heap_header_bytes (fh_Header fh) sb)" and ?bk = "with_checksum (block_image fh sb)"
  have s: "unat (OffsetSize sb) = 8" "unat (LengthSize sb) = 8" using sb by (simp_all add: sb_8_8_def)
  have lh: "length ?hd = 146" "?hd \<noteq> []" using s by (simp_all add: with_checksum_def)
  have lb: "length ?bk = ?n" "?bk \<noteq> []" using n19 by (simp_all add: with_checksum_def)
  have "{unat a..<unat a + length ?hd} \<subseteq> used (fw_allocator w)" using a(4) lh by simp
  from write_effect [OF w lh(2) a(3) this] obtain w1 where 1: "fw_WriteAtAddress w ?hd a = Inr w1" "writer_ok w1"
    "fw_allocator w1 = fw_allocator w" "stored w1 a ?hd"
    "\<forall>p d. stored w p d \<longrightarrow> d \<noteq> [] \<longrightarrow> {unat p..<unat p + length d} \<inter> {unat a..<unat a + length ?hd} = {} \<longrightarrow> stored w1 p d"
    by blast
  have "{unat r..<unat r + length ?bk} \<subseteq> used (fw_allocator w1)" using r lb 1(3) by simp
  from write_effect [OF 1(2) lb(2) r(3) this] obtain w2 where 2: "fw_WriteAtAddress w1 ?bk r = Inr w2" "writer_ok w2"
    "fw_allocator w2 = fw_allocator w1" "stored w2 r ?bk"
    "\<forall>p d. stored w1 p d \<longrightarrow> d \<noteq> [] \<longrightarrow> {unat p..<unat p + length d} \<inter> {unat r..<unat r + length ?bk} = {} \<longrightarrow> stored w2 p d"
    by blast
  have be: "block_extent fh = {unat r..<unat r + ?n}" using r(1) by simp
  have "stored w2 a ?hd" using 1(4) 2(5) lh lb disj be by simp
  then have wr: "written w2 a fh sb" using 2(4) sb a(1,2) r(1,2) disj by (simp add: written_def)
  have h: "unat (wh_HeapOffsetSize (fh_Header fh)) = 2" "?n < 2 ^ 48" using shape by (simp_all add: block_shape_def)
  have "writeDirectBlockAt fh w1 r sb = Inr w2"
    using 2(1) n19 h s by (simp add: writeDirectBlockAt_def Let_def)
  moreover have "stored w2 p d" if "stored w p d" "d \<noteq> []" "{unat p..<unat p + length d} \<inter> ({unat a..<unat a + 146} \<union> block_extent fh) = {}" for p d
    using 1(5) 2(5) that lh lb be by (auto simp: Int_Un_distrib)
  ultimately show ?thesis using 1(1,3) 2(2,3) wr by (auto simp: writeHeaderAt_def)
qed

definition placed :: "u64 \<Rightarrow> u64 \<Rightarrow> WritableFractalHeap \<Rightarrow> WritableFractalHeap" where
  "placed a r fh = fh\<lparr>fh_Header := (fh_Header fh)\<lparr>wh_RootBlockAddress := r\<rparr>,
     fh_DirectBlock := (fh_DirectBlock fh)\<lparr>db_HeapHeaderAddress := a\<rparr>\<rparr>"

lemma placed_simps [simp]:
  "wh_RootBlockAddress (fh_Header (placed a r fh)) = r" "db_HeapHeaderAddress (fh_DirectBlock (placed a r fh)) = a"
  "db_Size (fh_DirectBlock (placed a r fh)) = db_Size (fh_DirectBlock fh)"
  "db_FreeOffset (fh_DirectBlock (placed a r fh)) = db_FreeOffset (fh_DirectBlock fh)"
  "decode_id (fh_Header (placed a r fh)) = decode_id (fh_Header fh)"
  "fh_loadedHeaderAddress (placed a r fh) = fh_loadedHeaderAddress fh"
  "fh_loadedDirectBlockAddress (placed a r fh) = fh_loadedDirectBlockAddress fh"
  "fh_RootIndirectBlock (placed a r fh) = fh_RootIndirectBlock fh" "fh_DirectBlocks (placed a r fh) = fh_DirectBlocks fh"
  "db_Objects (fh_DirectBlock (placed a r fh)) = db_Objects (fh_DirectBlock fh)"
  "wh_Version (fh_Header (placed a r fh)) = wh_Version (fh_Header fh)"
  "wh_CurrentNumRows (fh_Header (placed a r fh)) = wh_CurrentNumRows (fh_Header fh)"
  "block_shape (placed a r fh) = block_shape fh" "heap_file_ok (placed a r fh) = heap_file_ok fh" "disk_room (placed a r fh) = disk_room fh"
  using decode_id_cong [of "fh_Header (placed a r fh)" "fh_Header fh"]
  by (simp_all add: placed_def heap_file_ok_def disk_room_def block_shape_def Let_def)

lemma placed_heap [simp]:
  "heap_inv (placed a r fh) L = heap_inv fh L" "fh_GetObject visit (placed a r fh) = fh_GetObject visit fh"
proof -
  have "region (fh_Header (placed a r fh)) = region (fh_Header fh)" by (rule region_cong) simp
  then show "heap_inv (placed a r fh) L = heap_inv fh L"
    unfolding heap_inv_def by (simp add: heap_shape_def) (simp add: placed_def)
  show "fh_GetObject visit (placed a r fh) = fh_GetObject visit fh"
    unfolding fh_GetObject_def getObjectFromDirect_def getObjectFromIndirect_def placed_simps ..
qed

text \<open>The start of the file, where the superblock is, is never given out: addresses are not 0.\<close>

definition base_reserved :: "Allocator \<Rightarrow> bool" where
  "base_reserved al \<longleftrightarrow> 0 \<notin> used al \<union> unused al \<and> nextOffset al \<noteq> 0"

lemma Allocate_base:
  assumes "base_reserved al" "alloc_inv al" "Allocate al sz = Inr (a, al')" "unat (nextOffset al) + unat sz < 2 ^ 64"
  shows "base_reserved al'" "a \<noteq> 0"
proof -
  note e = Allocate_effect [OF assms(2-4)]
  have p: "0 < unat (nextOffset al)" using assms(1) by (simp add: base_reserved_def unat_gt_0)
  have n: "0 \<notin> used al' \<union> unused al'" unfolding e(6) using assms(1) p by (auto simp: base_reserved_def)
  show "base_reserved al'" using n p e(5) by (auto simp: base_reserved_def)
  have "sz \<noteq> 0" using assms(3) by (cases rule: Allocate_cases) simp_all
  then have "unat a \<in> Allocator.region \<lparr>Offset = a, Size = sz\<rparr>" by (simp add: Allocator.region_def bend_def unat_gt_0)
  then have "unat a \<in> used al'" unfolding e(3) by (auto simp: regions_def)
  then show "a \<noteq> 0" using n by auto
qed

lemma heap_WriteToFile_effect:
  assumes w: "writer_ok w" "base_reserved (fw_allocator w)" and sb: "sb_8_8 sb" and shape: "block_shape fh"
    and lim: "unat (fw_EndOfFile w) + 146 + unat (db_Size (fh_DirectBlock fh)) < 2 ^ 63"
  shows "\<exists>a r w'. heap_WriteToFile fh w sb = Inr (a, placed a r fh, w') \<and> written w' a (placed a r fh) sb \<and> writer_ok w'
     \<and> (\<forall>p d. stored w p d \<longrightarrow> d \<noteq> [] \<longrightarrow> stored w' p d
           \<and> {unat p..<unat p + length d} \<inter> ({unat a..<unat a + 146} \<union> block_extent (placed a r fh)) = {})
     \<and> unat (fw_EndOfFile w') \<le> unat (fw_EndOfFile w) + 146 + unat (db_Size (fh_DirectBlock fh))"
proof -
  let ?sz = "db_Size (fh_DirectBlock fh)"
  have s: "unat (OffsetSize sb) = 8" "unat (LengthSize sb) = 8" using sb by (simp_all add: sb_8_8_def)
  have n19: "19 \<le> unat ?sz" using shape by (simp add: block_shape_def)
  have lim1: "unat (nextOffset (fw_allocator w)) + unat (146 :: u64) < 2 ^ 63" using lim by (simp add: fw_EndOfFile_def EndOfFile_def)
  from allocate_effect [OF w(1) _ lim1] obtain a al where
    1: "Allocate (fw_allocator w) 146 = Inr (a, al)" "writer_ok (w\<lparr>fw_allocator := al\<rparr>)" "extent a 146 \<inter> used (fw_allocator w) = {}"
      "extent a 146 \<subseteq> used al" "unat a + unat (146 :: u64) < 2 ^ 63" "\<forall>p d. stored w p d \<longrightarrow> stored (w\<lparr>fw_allocator := al\<rparr>) p d"
      "unat (nextOffset al) \<le> unat (nextOffset (fw_allocator w)) + unat (146 :: u64)" by auto
  let ?w1 = "w\<lparr>fw_allocator := al\<rparr>"
  have "?sz \<noteq> 0" using n19 by auto
  moreover have "unat (nextOffset (fw_allocator ?w1)) + unat ?sz < 2 ^ 63" using 1(7) lim by (simp add: fw_EndOfFile_def EndOfFile_def)
  ultimately obtain r al2 where
    2: "Allocate (fw_allocator ?w1) ?sz = Inr (r, al2)" "writer_ok (?w1\<lparr>fw_allocator := al2\<rparr>)" "extent r ?sz \<inter> used al = {}"
      "extent r ?sz \<subseteq> used al2" "unat r + unat ?sz < 2 ^ 63" "\<forall>p d. stored ?w1 p d \<longrightarrow> stored (?w1\<lparr>fw_allocator := al2\<rparr>) p d"
      "unat (nextOffset al2) \<le> unat (nextOffset al) + unat ?sz"
    using allocate_effect [OF 1(2), of ?sz] by auto
  let ?w2 = "?w1\<lparr>fw_allocator := al2\<rparr>" and ?fh = "placed a r fh"
  have ex: "extent a 146 = {unat a..<unat a + 146}" "extent r ?sz = {unat r..<unat r + unat ?sz}" by (simp_all add: extent_def)
  have sub: "used (fw_allocator w) \<subseteq> used al" "used al \<subseteq> used al2"
    using hdf5_alloc.alloc_law [OF _ _ 1(1)] hdf5_alloc.alloc_law [OF _ _ 2(1)] 1(2,7) w(1) lim
    by (auto simp: writer_ok_def fw_EndOfFile_def EndOfFile_def)
  have b: "base_reserved al" "a \<noteq> 0" using Allocate_base [OF w(2) _ 1(1)] w(1) lim1 by (auto simp: writer_ok_def)
  then have nz: "a \<noteq> 0" "r \<noteq> 0" using Allocate_base(2) [OF b(1), of ?sz r al2] 1(2,7) 2(1) lim
    by (auto simp: writer_ok_def fw_EndOfFile_def EndOfFile_def)
  have dj: "{unat a..<unat a + 146} \<inter> block_extent ?fh = {}" using 2(3) 1(4) unfolding ex placed_simps by blast
  have "\<exists>w3 w4. writeHeaderAt ?fh ?w2 a sb = Inr w3 \<and> writeDirectBlockAt ?fh w3 r sb = Inr w4 \<and> written w4 a ?fh sb
     \<and> writer_ok w4 \<and> fw_allocator w4 = fw_allocator ?w2
     \<and> (\<forall>p d. stored ?w2 p d \<longrightarrow> d \<noteq> [] \<longrightarrow> {unat p..<unat p + length d} \<inter> ({unat a..<unat a + 146} \<union> block_extent ?fh) = {} \<longrightarrow> stored w4 p d)"
    by (rule write_both [OF 2(2) sb]) (use shape nz 1(4,5) 2(4,5) ex sub dj in auto)
  then obtain w3 w4 where 3: "writeHeaderAt ?fh ?w2 a sb = Inr w3" "writeDirectBlockAt ?fh w3 r sb = Inr w4" "written w4 a ?fh sb"
     "writer_ok w4" "fw_allocator w4 = al2"
     "\<forall>p d. stored ?w2 p d \<longrightarrow> d \<noteq> [] \<longrightarrow> {unat p..<unat p + length d} \<inter> ({unat a..<unat a + 146} \<union> block_extent ?fh) = {} \<longrightarrow> stored w4 p d"
    by auto
  have st: "stored w4 p d \<and> {unat p..<unat p + length d} \<inter> ({unat a..<unat a + 146} \<union> block_extent ?fh) = {}"
    if pd: "stored w p d" "d \<noteq> []" for p d
  proof -
    have "{unat p..<unat p + length d} \<subseteq> used (fw_allocator w)" using pd(1) by (simp add: stored_def)
    then have "{unat p..<unat p + length d} \<inter> ({unat a..<unat a + 146} \<union> block_extent ?fh) = {}"
      using 1(3) 2(3) sub(1) unfolding ex placed_simps by blast
    then show ?thesis using 3(6) 1(6) 2(6) pd by blast
  qed
  have "heap_WriteToFile fh w sb = Inr (a, ?fh, w4)"
    using 1(1) 2(1) 3(1,2) s by (simp add: heap_WriteToFile_def Let_def placed_def)
  moreover have "unat (fw_EndOfFile w4) \<le> unat (fw_EndOfFile w) + 146 + unat ?sz"
    using 3(5) 1(7) 2(7) by (simp add: fw_EndOfFile_def EndOfFile_def)
  ultimately show ?thesis using 3(3,4) st by blast
qed

lemma heap_WriteAt_effect:
  assumes w: "writer_ok w" and wr: "written w a fh0 sb" and shape: "block_shape fh"
    and ld: "fh_loadedHeaderAddress fh = a" "fh_loadedDirectBlockAddress fh = wh_RootBlockAddress (fh_Header fh0)"
    and sz: "db_Size (fh_DirectBlock fh) = db_Size (fh_DirectBlock fh0)"
  defines "r \<equiv> wh_RootBlockAddress (fh_Header fh0)"
  shows "\<exists>w'. heap_WriteAt fh w sb = Inr (placed a r fh, w') \<and> written w' a (placed a r fh) sb \<and> writer_ok w'
     \<and> fw_allocator w' = fw_allocator w
     \<and> (\<forall>p d. stored w p d \<longrightarrow> d \<noteq> [] \<longrightarrow> {unat p..<unat p + length d} \<inter> ({unat a..<unat a + 146} \<union> block_extent fh0) = {} \<longrightarrow> stored w' p d)"
proof -
  let ?fh = "placed a r fh"
  have n19: "19 \<le> unat (db_Size (fh_DirectBlock fh0))" using shape sz by (simp add: block_shape_def)
  have s: "sb_8_8 sb" "unat (OffsetSize sb) = 8" "unat (LengthSize sb) = 8" using wr by (simp_all add: written_def sb_8_8_def)
  have l: "length (with_checksum (heap_header_bytes (fh_Header fh0) sb)) = 146"
    "length (with_checksum (block_image fh0 sb)) = unat (db_Size (fh_DirectBlock fh0))"
    using s n19 by simp_all
  have st: "a \<noteq> 0" "r \<noteq> 0" "unat a < 2 ^ 63" "unat r < 2 ^ 63" "{unat a..<unat a + 146} \<subseteq> used (fw_allocator w)"
    "block_extent fh0 \<subseteq> used (fw_allocator w)" "{unat a..<unat a + 146} \<inter> block_extent fh0 = {}"
    using wr l unfolding written_def stored_def r_def by auto
  have be: "block_extent ?fh = block_extent fh0" by (simp add: sz r_def)
  have "\<exists>w1 w2. writeHeaderAt ?fh w a sb = Inr w1 \<and> writeDirectBlockAt ?fh w1 r sb = Inr w2 \<and> written w2 a ?fh sb
     \<and> writer_ok w2 \<and> fw_allocator w2 = fw_allocator w
     \<and> (\<forall>p d. stored w p d \<longrightarrow> d \<noteq> [] \<longrightarrow> {unat p..<unat p + length d} \<inter> ({unat a..<unat a + 146} \<union> block_extent ?fh) = {} \<longrightarrow> stored w2 p d)"
    by (rule write_both [OF w s(1)]) (use shape sz st be in simp_all)
  then obtain w1 w2 where x: "writeHeaderAt ?fh w a sb = Inr w1" "writeDirectBlockAt ?fh w1 r sb = Inr w2" "written w2 a ?fh sb"
     "writer_ok w2" "fw_allocator w2 = fw_allocator w"
     "\<forall>p d. stored w p d \<longrightarrow> d \<noteq> [] \<longrightarrow> {unat p..<unat p + length d} \<inter> ({unat a..<unat a + 146} \<union> block_extent fh0) = {} \<longrightarrow> stored w2 p d"
    unfolding be by blast
  have "heap_WriteAt fh w sb = Inr (?fh, w2)"
    using x(1,2) st(1) ld by (simp add: heap_WriteAt_def Let_def placed_def r_def)
  then show ?thesis using x by blast
qed

text \<open>Insertions keep the file format and the loaded addresses.\<close>

lemma ins_all_file:
  assumes "fractal_store.ins_all visit fh ds = Inr (ids, fh')" "heap_inv fh L" "heap_file_ok fh" "[] \<notin> set ds"
    "heap_room fh (sum_list (map length ds))"
  shows "heap_inv fh' (L \<union> set ids) \<and> heap_file_ok fh'
     \<and> unat (db_FreeOffset (fh_DirectBlock fh')) = unat (db_FreeOffset (fh_DirectBlock fh)) + sum_list (map length ds)
     \<and> db_Size (fh_DirectBlock fh') = db_Size (fh_DirectBlock fh) \<and> fh_loadedHeaderAddress fh' = fh_loadedHeaderAddress fh
     \<and> fh_loadedDirectBlockAddress fh' = fh_loadedDirectBlockAddress fh"
  using assms
proof (induction ds arbitrary: fh L ids)
  case Nil
  then show ?case by simp
next
  case (Cons d ds)
  have d: "d \<noteq> []" "heap_room fh (length d)" using Cons.prems(4,5) by (auto simp: heap_room_def)
  note dir = InsertObject_direct [OF Cons.prems(2) d]
  from heap_insert_law [OF Cons.prems(2) d, of visit] obtain i fh1 where
    1: "store_insert visit fh d = Inr (i, fh1)" "heap_inv fh1 (insert i L)" "\<forall>n. heap_room fh (length d + n) \<longrightarrow> heap_room fh1 n" by blast
  have e: "fh1 = fh\<lparr>fh_DirectBlock := (fh_DirectBlock fh)\<lparr>db_Objects := overwrite (db_Objects (fh_DirectBlock fh)) (unat (db_FreeOffset (fh_DirectBlock fh))) d,
        db_FreeOffset := db_FreeOffset (fh_DirectBlock fh) + of_nat (length d)\<rparr>, fh_Header := count_object (fh_Header fh) (of_nat (length d))\<rparr>"
    using dir(1) [of visit] 1(1) by auto
  have ok: "heap_file_ok fh1" using Cons.prems(3) by (simp add: e heap_file_ok_def count_object_def Let_def)
  obtain js where js: "fractal_store.ins_all visit fh1 ds = Inr (js, fh')" "ids = i # js"
    using Cons.prems(1) 1(1) by (auto split: sum.splits)
  have "[] \<notin> set ds" "heap_room fh1 (sum_list (map length ds))" using Cons.prems(4,5) 1(3) by auto
  from Cons.IH [OF js(1) 1(2) ok this] show ?case using dir(2) by (simp add: e js(2))
qed


section \<open>Properties\<close>

lemma new_heap_file_ok:
  "256 \<le> unat blockSize \<Longrightarrow> heap_file_ok (NewWritableFractalHeap blockSize)"
  by (simp add: heap_file_ok_def NewWritableFractalHeap_def Let_def offset_size_65536)

lemma new_heap_fields [simp]:
  "db_FreeOffset (fh_DirectBlock (NewWritableFractalHeap n)) = 0" "db_Size (fh_DirectBlock (NewWritableFractalHeap n)) = n"
  "fh_RootIndirectBlock (NewWritableFractalHeap n) = None" "fh_DirectBlocks (NewWritableFractalHeap n) = []"
  by (simp_all add: NewWritableFractalHeap_def Let_def)




section \<open>Limits\<close>

text \<open>
  The block header and the checksum take 19 bytes of the block on disk, which the heap in memory does
  not account for. An object that fits the block in memory but reaches into its last 15 bytes is
  inserted and written without an error, and cannot be read back.
\<close>
theorem heap_tail_lost:
  assumes "writer_ok w" "base_reserved (fw_allocator w)" "sb_8_8 sb" "256 \<le> unat n" "unat n \<le> 65535"
    "length d \<le> unat n" "unat n < length d + 15" "unat (fw_EndOfFile w) + 146 + unat n < 2 ^ 63"
  shows "\<exists>i fh a fh' w' rh. fractal_store.ins_all visit (NewWritableFractalHeap n) [d] = Inr ([i], fh) \<and> fh_GetObject visit fh i = Inr d
     \<and> heap_WriteToFile fh w sb = Inr (a, fh', w') \<and> OpenFractalHeap (contents w') a 8 8 LittleEndian = Inr rh
     \<and> ReadObject rh i = Inl (Errorf ''object extends beyond block data (offset: 0x%X, length: %d, block size: %d)'')"
proof -
  let ?new = "NewWritableFractalHeap n"
  have d: "d \<noteq> []" using assms(4,7) by auto
  have inv0: "heap_inv ?new {}" using assms(5) by (intro new_heap_inv) simp
  have room: "heap_room ?new (length d)" using assms(5,6) by (intro new_heap_room) auto
  note dir = InsertObject_direct [OF inv0 d room]
  from heap_insert_law [OF inv0 d room, of visit] obtain i fh where
    1: "store_insert visit ?new d = Inr (i, fh)" "heap_inv fh {i}" "fh_GetObject visit fh i = Inr d" by auto
  have ins: "fractal_store.ins_all visit ?new [d] = Inr ([i], fh)" using 1(1) by simp
  have s: "heap_file_ok fh" "db_Size (fh_DirectBlock fh) = n"
    using ins_all_file [OF ins inv0 new_heap_file_ok [OF assms(4)]] d room by auto
  have fi: "wh_Flags (fh_Header fh) = 0" "decode_id (fh_Header fh) i = Inr (0, of_nat (length d))"
  proof -
    have e: "wh_Flags (fh_Header fh) = wh_Flags (fh_Header ?new)" "decode_id (fh_Header fh) = decode_id (fh_Header ?new)"
      "decode_id (fh_Header ?new) i = Inr (0, of_nat (length d))"
      using dir(1) [of visit] 1(1) by (auto intro: decode_id_cong simp: count_object_def)
    show "wh_Flags (fh_Header fh) = 0" unfolding e(1) by (simp add: NewWritableFractalHeap_def Let_def)
    show "decode_id (fh_Header fh) i = Inr (0, of_nat (length d))" unfolding e(2) by (rule e(3))
  qed
  have sh: "block_shape fh" using heap_inv_block_shape [OF 1(2)] s(2) assms(4) by simp
  from heap_WriteToFile_effect [OF assms(1-3) sh] assms(8) s(2) obtain a r w' where
    w: "heap_WriteToFile fh w sb = Inr (a, placed a r fh, w')" "written w' a (placed a r fh) sb" by auto
  let ?fh = "placed a r fh" and ?rh = "opened w' a (placed a r fh)"
  have v: "wh_Version (fh_Header ?fh) = 0" using s(1) by (simp add: heap_file_ok_def Let_def)
  have op: "OpenFractalHeap (contents w') a 8 8 LittleEndian = Inr ?rh"
    using written_open [OF w(2) v] assms(3) by (simp add: sb_8_8_def)
  have ck: "hh_ChecksumDirectBlocks (read_header (fh_Header ?fh)) = False" "hh_CurrentRowCount (read_header (fh_Header ?fh)) = 0"
    "hh_RootBlockAddr (read_header (fh_Header ?fh)) = r" "hh_StartingBlockSize (read_header (fh_Header ?fh)) = n"
    using fi(1) s by (simp_all add: read_header_def heap_file_ok_def Let_def) (simp_all add: placed_def)
  have okp: "heap_file_ok ?fh" using s(1) by simp
  note sz = read_header_sizes [OF okp]
  obtain blk where b: "readDirectBlock ?rh r n = Inr blk" "rb_BlockOffset blk = 0" "length (rb_Data blk) = unat n - 15"
    using written_block [OF w(2), of "{i}" False False] s 1(2) assms(4) sz(1) ck(1) by (auto simp: readDirectBlock_def)
  have sh8: "heap_shape (fh_Header fh)" using 1(2) by (simp add: heap_inv_def)
  have ul: "unat (of_nat (length d) :: u64) = length d" using assms(5,6) by (intro unat_of_nat_less) simp
  have hl: "wh_HeapLengthSize (fh_Header fh) = 3 \<or> wh_HeapLengthSize (fh_Header fh) = 2" using sh8 by (auto simp: heap_shape_def)
  have r2: "hh_HeapLengthSize (read_header (fh_Header ?fh)) = 2" using sz(2) s(2) assms(5) by simp
  have "unat (of_nat (length d) :: u64) < 65536 \<or> 2 = unat (wh_HeapLengthSize (fh_Header fh))" using ul assms(5,6) by simp
  from decode_widths [OF fi(2) sh8 this] hl have
    p: "length i = 8" "drop_bit 6 (i ! 0 AND 0xC0) = 0" "i ! 0 AND 0x30 = 0"
      "readUint (take 2 (drop 1 i)) 2 LittleEndian = 0" "readUint (take 2 (drop 3 i)) 2 LittleEndian = of_nat (length d)" by auto
  have "parseHeapID ?rh i = Inr \<lparr>hi_Raw = i, hi_Version = 0, hi_Type = HeapIDTypeManaged, hi_Offset = 0, hi_Length = of_nat (length d)\<rparr>"
    using p sz(1) r2 by (auto simp: parseHeapID_def heap_id_type_def Let_def numeral_3_eq_3)
  moreover have "of_nat (length d) > (of_nat (length (rb_Data blk)) :: u64)"
  proof -
    have "unat (of_nat (unat n - 15) :: u64) = unat n - 15" using assms(5) by (intro unat_of_nat_less) simp
    then show ?thesis using ul assms(4,7) b(3) by (simp add: word_less_nat_alt)
  qed
  ultimately have "ReadObject ?rh i = Inl (Errorf ''object extends beyond block data (offset: 0x%X, length: %d, block size: %d)'')"
    by (simp add: ReadObject_def readManagedObject_def ck b Let_def word_less_nat_alt)
  then show ?thesis using ins 1(3) w(1) op by blast
qed

lemma new_writer_ok:
  "writer_ok \<lparr>fw_file = Some ([], True), fw_allocator = NewAllocator 48\<rparr>"
  "base_reserved (NewAllocator 48)" "unat (fw_EndOfFile \<lparr>fw_file = Some ([], True), fw_allocator = NewAllocator 48\<rparr>) = 48"
  by (simp_all add: writer_ok_def NewAllocator_def alloc_inv_def free_ok_def blocks_ok_def regions_def base_reserved_def fw_EndOfFile_def EndOfFile_def)

theorem heap_tail_lost_witness:
  "\<exists>i fh a fh' w' rh. fractal_store.ins_all id (NewWritableFractalHeap 256) [replicate 250 1] = Inr ([i], fh)
     \<and> heap_WriteToFile fh \<lparr>fw_file = Some ([], True), fw_allocator = NewAllocator 48\<rparr> sb8 = Inr (a, fh', w')
     \<and> OpenFractalHeap (contents w') a 8 8 LittleEndian = Inr rh
     \<and> ReadObject rh i = Inl (Errorf ''object extends beyond block data (offset: 0x%X, length: %d, block size: %d)'')"
  using heap_tail_lost [of "\<lparr>fw_file = Some ([], True), fw_allocator = NewAllocator 48\<rparr>" sb8 256 "replicate 250 1" id] new_writer_ok
  by (simp add: sb_8_8_def del: fractal_store.ins_all.simps) blast

text \<open>
  A heap that has outgrown its first block is written without an error, but only its header and its
  first block are: the header says that the root is an indirect block while its address is that of the
  direct block. Loading it is refused, and so is reading any managed object of it.
\<close>
theorem grown_heap_unreadable:
  assumes "writer_ok w" "base_reserved (fw_allocator w)" "sb_8_8 sb" "block_shape fh" "wh_Version (fh_Header fh) = 0"
    "wh_CurrentNumRows (fh_Header fh) \<noteq> 0" "unat (fw_EndOfFile w) + 146 + unat (db_Size (fh_DirectBlock fh)) < 2 ^ 63"
  shows "\<exists>a fh' w' rh. heap_WriteToFile fh w sb = Inr (a, fh', w') \<and> OpenFractalHeap (contents w') a 8 8 LittleEndian = Inr rh
     \<and> heap_LoadFromFile fh0 (contents w') a sb = Inl (Errorf ''cannot modify heap with indirect blocks (root has %d rows)'')
     \<and> (\<forall>i. i ! 0 AND 0x30 = 0 \<longrightarrow> (\<exists>e. ReadObject rh i = Inl e))"
proof -
  from heap_WriteToFile_effect [OF assms(1-4,7)] obtain a r w' where
    w: "heap_WriteToFile fh w sb = Inr (a, placed a r fh, w')" "written w' a (placed a r fh) sb" by blast
  let ?rh = "opened w' a (placed a r fh)"
  have v: "wh_Version (fh_Header (placed a r fh)) = 0" using assms(5) by simp
  note op = written_open [OF w(2) v]
  have sb: "LengthSize sb = 8" "OffsetSize sb = 8" "Endianness sb = LittleEndian" using assms(3) by (simp_all add: sb_8_8_def)
  have a: "a \<noteq> 0" "unat a < 2 ^ 63" using w(2) by (auto simp: written_def stored_def)
  have c: "hh_CurrentRowCount (read_header (fh_Header (placed a r fh))) \<noteq> 0" using assms(6) by (simp add: read_header_def)
  then have ld: "heap_LoadFromFile fh0 (contents w') a sb = Inl (Errorf ''cannot modify heap with indirect blocks (root has %d rows)'')"
    unfolding heap_LoadFromFile_def op using a(1) small_not_undefined [OF a(2)] by (simp add: Let_def)
  have "\<exists>e. ReadObject ?rh i = Inl e" if "i ! 0 AND 0x30 = 0" for i
  proof (cases "parseHeapID ?rh i")
    case (Inl e)
    then show ?thesis by (simp add: ReadObject_def)
  next
    case (Inr x)
    then have "hi_Type x = HeapIDTypeManaged" using that by (auto simp: parseHeapID_def heap_id_type_def Let_def split: if_splits)
    then show ?thesis using Inr c by (simp add: ReadObject_def readManagedObject_def)
  qed
  then show ?thesis using w(1) op ld unfolding sb by blast
qed

theorem grown_heap_unreadable_witness:
  "\<exists>fh a fh' w'. transitionToIndirectRoot (NewWritableFractalHeap 512) = Inr fh
     \<and> heap_WriteToFile fh \<lparr>fw_file = Some ([], True), fw_allocator = NewAllocator 48\<rparr> sb8 = Inr (a, fh', w')
     \<and> heap_LoadFromFile fh (contents w') a sb8 = Inl (Errorf ''cannot modify heap with indirect blocks (root has %d rows)'')"
proof -
  let ?w = "\<lparr>fw_file = Some ([], True), fw_allocator = NewAllocator 48\<rparr>"
  obtain fh where t: "transitionToIndirectRoot (NewWritableFractalHeap 512) = Inr fh" "wh_CurrentNumRows (fh_Header fh) = 1"
      "wh_Version (fh_Header fh) = 0" "db_Size (fh_DirectBlock fh) = 512" "wh_HeapOffsetSize (fh_Header fh) = 2"
    by (simp add: transitionToIndirectRoot_def NewWritableFractalHeap_def NewWritableIndirectBlock_def SetChildAddress_def
        CalculateEntryIndex_def Let_def)
  then have "block_shape fh" by (simp add: block_shape_def)
  then show ?thesis
    using grown_heap_unreadable [of ?w sb8 fh fh] new_writer_ok t by (auto simp: sb_8_8_def)
qed

lemma length_iblock:
  "length (iblock_bytes wb sb hos) = 5 + unat (OffsetSize sb) + unat hos + length (ib_ChildAddresses wb) * unat (OffsetSize sb)
     + (if wi_ChecksumEnabled (ib_Header wb) then 4 else 0)"
proof -
  have "length (concat (map (\<lambda>v. put_var v (unat (OffsetSize sb)) (Endianness sb)) (ib_ChildAddresses wb)))
     = unat (OffsetSize sb) * length (ib_ChildAddresses wb)"
    by (rule length_concat_const) simp
  then show ?thesis by (simp add: iblock_bytes_def Let_def)
qed

lemma iblock_entries_concat:
  "A \<le> 8 \<Longrightarrow> (\<forall>v\<in>set vs. fits_width A v) \<Longrightarrow>
   iblock_entries (length vs) A e (concat (map (\<lambda>v. put_var v A e) vs) @ rest) = vs"
  by (induction vs) (auto simp: readUint_put_var)

lemma ParseIndirectBlock_written:
  assumes img: "holds_at f (unat a) (iblock_bytes wb sb hos)" "unat a + length (iblock_bytes wb sb hos) + 4 \<le> length f"
    and a: "a \<noteq> 0" "unat a < 2 ^ 63" and sb: "sb_8_8 sb" and h: "wi_Version (ib_Header wb) = 0" "\<not> wi_ChecksumEnabled (ib_Header wb)"
    and o: "unat hos \<le> 8" "fits_width (unat hos) (wi_BlockOffset (ib_Header wb))"
    and n: "length (ib_ChildAddresses wb) = unat rows * unat width"
  shows "ParseIndirectBlock f a rows width (OffsetSize sb) hos (Endianness sb) (wi_HeapHeaderAddr (ib_Header wb))
     = Inr \<lparr>xb_HeapHeaderAddr = wi_HeapHeaderAddr (ib_Header wb), xb_BlockOffset = wi_BlockOffset (ib_Header wb),
            xb_NumRows = rows, xb_TableWidth = width, xb_ChecksumPresent = True, xb_Entries = ib_ChildAddresses wb\<rparr>"
proof -
  have s: "unat (OffsetSize sb) = 8" "Endianness sb = LittleEndian" using sb by (simp_all add: sb_8_8_def)
  let ?cs = "concat (map (\<lambda>v. put_var v 8 LittleEndian) (ib_ChildAddresses wb))"
  let ?h = "put_var (wi_HeapHeaderAddr (ib_Header wb)) 8 LittleEndian" and ?o = "put_var (wi_BlockOffset (ib_Header wb)) (unat hos) LittleEndian"
  let ?b = "iblock_bytes wb sb hos"
  have b: "?b = fhib @ [0] @ ?h @ ?o @ ?cs" using h s by (simp add: iblock_bytes_def Let_def)
  have lb: "length ?b = 5 + 8 + unat hos + unat rows * unat width * 8" using length_iblock [of wb sb hos] h(2) s n by simp
  let ?k = "take 4 (drop (unat a + length ?b) f)"
  have "take (length ?b + 4) (drop (unat a) f) = ?b @ ?k"
    using img(1) unfolding take_add holds_at_def by (simp add: add.commute)
  then have r: "ReadAt f (5 + 8 + unat hos + unat rows * unat width * 8 + 4) a = Inr (fhib @ [0] @ ?h @ ?o @ ?cs @ ?k)"
    using img(2) a(2) lb unfolding ReadAt_def by (simp add: b ac_simps)
  have o2: "readUint ?o (unat hos) LittleEndian = wi_BlockOffset (ib_Header wb)" using o by (intro readUint_put_var)
  have h2: "readUint ?h 8 LittleEndian = wi_HeapHeaderAddr (ib_Header wb)" by (intro readUint_put_var) simp_all
  have dr: "drop (5 + 8) (fhib @ [0] @ ?h @ ?o @ ?cs @ ?k) = ?o @ ?cs @ ?k"
    "drop (5 + 8 + unat hos) (fhib @ [0] @ ?h @ ?o @ ?cs @ ?k) = ?cs @ ?k"
    using drop_drop [of "unat hos" 13 "fhib @ [0] @ ?h @ ?o @ ?cs @ ?k", symmetric] by (simp_all add: add.commute)
  have en: "iblock_entries (unat rows * unat width) 8 LittleEndian (?cs @ ?k) = ib_ChildAddresses wb"
    unfolding n [symmetric] by (rule iblock_entries_concat) simp_all
  show ?thesis
    unfolding ParseIndirectBlock_def s Let_def r sum.case dr en
    using a(1) small_not_undefined [OF a(2)] by (simp add: h2 o2)
qed

text \<open>
  Indirect blocks are made without a checksum but read as if they had one. A block that ends the file
  cannot be loaded. One that is loaded gets its children back, and is then written in place with a
  checksum it has no room for, over the four bytes that follow it in the file.
\<close>
theorem iblock_rewrite_overruns:
  assumes w: "writer_ok w" "base_reserved (fw_allocator w)" and sb: "sb_8_8 sb"
    and h: "wi_Version (ib_Header wb) = 0" "\<not> wi_ChecksumEnabled (ib_Header wb)"
    and o: "unat hos \<le> 8" "fits_width (unat hos) (wi_BlockOffset (ib_Header wb))"
    and n: "length (ib_ChildAddresses wb) = unat rows * unat width"
    and lim: "unat (fw_EndOfFile w) + length (iblock_bytes wb sb hos) < 2 ^ 63"
  shows "\<exists>a wb' w'. iblock_WriteToFile wb w sb hos = Inr (a, wb', w')
     \<and> (if length (contents w') < unat a + length (iblock_bytes wb sb hos) + 4
        then \<exists>e. iblock_LoadFromFile wb0 (contents w') a rows width maxRows sb hos (wi_HeapHeaderAddr (ib_Header wb)) = Inl e
        else \<exists>wl w2. iblock_LoadFromFile wb0 (contents w') a rows width maxRows sb hos (wi_HeapHeaderAddr (ib_Header wb)) = Inr wl
          \<and> ib_ChildAddresses wl = ib_ChildAddresses wb \<and> iblock_WriteAt wl w' sb hos = Inr w2
          \<and> take 4 (drop (unat a + length (iblock_bytes wb sb hos)) (contents w2)) = le_put 4 (JenkinsChecksum (iblock_bytes wb sb hos)))"
proof -
  let ?b = "iblock_bytes wb sb hos"
  have s: "unat (OffsetSize sb) = 8" using sb by (simp add: sb_8_8_def)
  have lb: "length ?b = 5 + 8 + unat hos + length (ib_ChildAddresses wb) * 8" using length_iblock [of wb sb hos] h(2) s by simp
  have u: "unat (of_nat (length ?b) :: u64) = length ?b" using lim by (intro unat_of_nat_less) simp
  have ne: "?b \<noteq> []" using lb by auto
  have "unat (nextOffset (fw_allocator w)) + unat (of_nat (length ?b) :: u64) < 2 ^ 63" using lim u by (simp add: fw_EndOfFile_def EndOfFile_def)
  from store_effect [OF w(1) _ ne this] u obtain a al w' where
    1: "Allocate (fw_allocator w) (of_nat (length ?b)) = Inr (a, al)" "fw_WriteAtAddress (w\<lparr>fw_allocator := al\<rparr>) ?b a = Inr w'"
      "writer_ok w'" "stored w' a ?b" by auto
  have nz: "a \<noteq> 0" using Allocate_base(2) [OF w(2) _ 1(1)] w(1) lim u by (auto simp: writer_ok_def fw_EndOfFile_def EndOfFile_def)
  have lt: "unat a < 2 ^ 63" using 1(4) by (simp add: stored_def)
  have wr: "iblock_WriteToFile wb w sb hos = Inr (a, wb\<lparr>ib_loadedAddress := a\<rparr>, w')"
    using 1(1,2) h(2) s unfolding lb by (simp add: iblock_WriteToFile_def iblock_writeAt_def Let_def)
  show ?thesis
  proof (cases "length (contents w') < unat a + length ?b + 4")
    case True
    then have "ReadAt (contents w') (5 + 8 + unat hos + unat rows * unat width * 8 + 4) a = Inl (Errorf ''EOF'')"
      using lt lb n by (simp add: ReadAt_def)
    then have "\<exists>e. iblock_LoadFromFile wb0 (contents w') a rows width maxRows sb hos (wi_HeapHeaderAddr (ib_Header wb)) = Inl e"
      using s nz small_not_undefined [OF lt] by (simp add: iblock_LoadFromFile_def ParseIndirectBlock_def Let_def)
    then show ?thesis using wr True by (intro exI [of _ a] exI [of _ "wb\<lparr>ib_loadedAddress := a\<rparr>"] exI [of _ w']) simp
  next
    case False
    note p = ParseIndirectBlock_written [OF stored_holds [OF 1(4)] _ nz lt sb h o n]
    define wl where "wl = wb0\<lparr>ib_loadedAddress := a, ib_Header := \<lparr>wi_Version = 0, wi_HeapHeaderAddr = wi_HeapHeaderAddr (ib_Header wb),
        wi_BlockOffset = wi_BlockOffset (ib_Header wb), wi_NumRows = rows, wi_TableWidth = width, wi_MaxDirectRows = maxRows,
        wi_ChecksumEnabled = True\<rparr>, ib_ChildAddresses := ib_ChildAddresses wb\<rparr>"
    have ld: "iblock_LoadFromFile wb0 (contents w') a rows width maxRows sb hos (wi_HeapHeaderAddr (ib_Header wb)) = Inr wl"
      using p False by (simp add: iblock_LoadFromFile_def wl_def)
    have bl: "iblock_bytes wl sb hos = with_checksum ?b" using h by (simp add: iblock_bytes_def wl_def Let_def)
    obtain f where f: "fw_file w' = Some (f, True)" using 1(3) by (auto simp: writer_ok_def)
    let ?w2 = "w'\<lparr>fw_file := Some (overwrite f (unat a) (with_checksum ?b), True)\<rparr>"
    have wa: "iblock_WriteAt wl w' sb hos = Inr ?w2"
      using fw_WriteAt_open [OF f _ lt] nz bl by (simp add: iblock_WriteAt_def wl_def iblock_writeAt_def fw_WriteAtAddress_def with_checksum_def)
    have "holds_at (overwrite f (unat a) (with_checksum ?b)) (unat a) (with_checksum ?b)" by (rule overwrite_holds) (simp add: with_checksum_def)
    then have "holds_at (contents ?w2) (unat a + length ?b) (le_put 4 (JenkinsChecksum ?b))"
      by (simp add: contents_def with_checksum_def holds_at_append del: le_put_numeral)
    then have "take 4 (drop (unat a + length ?b) (contents ?w2)) = le_put 4 (JenkinsChecksum ?b)" by (simp add: holds_at_def del: le_put_numeral)
    moreover have "ib_ChildAddresses wl = ib_ChildAddresses wb" by (simp add: wl_def)
    ultimately show ?thesis using wr False ld wa
      by (intro exI [of _ a] exI [of _ "wb\<lparr>ib_loadedAddress := a\<rparr>"] exI [of _ w']) auto
  qed
qed

theorem iblock_rewrite_overruns_witness:
  "\<exists>a wb' w'. iblock_WriteToFile (NewWritableIndirectBlock 48 0 1 2 1) \<lparr>fw_file = Some ([], True), fw_allocator = NewAllocator 48\<rparr> sb8 2 = Inr (a, wb', w')"
proof -
  let ?wb = "NewWritableIndirectBlock 48 0 1 2 1"
  have f: "wi_Version (ib_Header ?wb) = 0" "\<not> wi_ChecksumEnabled (ib_Header ?wb)" "wi_BlockOffset (ib_Header ?wb) = 0"
    "length (ib_ChildAddresses ?wb) = 2" by (simp_all add: NewWritableIndirectBlock_def)
  have "length (iblock_bytes ?wb sb8 2) = 31" using f length_iblock [of ?wb sb8 2] by simp
  then show ?thesis
    using iblock_rewrite_overruns [of "\<lparr>fw_file = Some ([], True), fw_allocator = NewAllocator 48\<rparr>" sb8 ?wb 2 1 2] f new_writer_ok
    by (fastforce simp: sb_8_8_def fits_width_def)
qed

end
