(* ===== verification/Links.thy ===== *)
theory Links
  imports Object_Header
begin

text \<open>
  Link messages, which name the members of a group, and link info messages, which say where dense
  links are stored: \<^verbatim>\<open>internal/core/link_message.go\<close>, \<^verbatim>\<open>internal/core/linkinfo.go\<close> and the second
  parser of \<^verbatim>\<open>internal/structures/linkmessage.go\<close>. Names are the bytes of Go strings.
\<close>

section \<open>Link messages of the core package\<close>

type_synonym LinkType = byte

abbreviation LinkTypeHard :: LinkType where "LinkTypeHard \<equiv> 0"
abbreviation LinkTypeSoft :: LinkType where "LinkTypeSoft \<equiv> 1"
abbreviation LinkTypeExternal :: LinkType where "LinkTypeExternal \<equiv> 64"

record LinkMessage =
  lm_Version :: byte
  lm_Flags :: byte
  lm_Type :: LinkType
  lm_CreationOrder :: u64
  lm_CharSet :: byte
  lm_Name :: bytes
  lm_LinkValue :: bytes

definition HasCreationOrder :: "LinkMessage \<Rightarrow> bool" where
  "HasCreationOrder lm \<longleftrightarrow> lm_Flags lm AND 0x04 \<noteq> 0"

definition HasLinkTypeField :: "LinkMessage \<Rightarrow> bool" where
  "HasLinkTypeField lm \<longleftrightarrow> lm_Flags lm AND 0x08 \<noteq> 0"

definition HasCharSetField :: "LinkMessage \<Rightarrow> bool" where
  "HasCharSetField lm \<longleftrightarrow> lm_Flags lm AND 0x10 \<noteq> 0"

definition GetLinkNameLengthSize :: "LinkMessage \<Rightarrow> nat" where
  "GetLinkNameLengthSize lm =
     (let sizeCode = lm_Flags lm AND 0x03
      in if sizeCode = 0 then 1 else if sizeCode = 1 then 2 else if sizeCode = 2 then 4 else if sizeCode = 3 then 8 else 1)"

definition parseLinkMessageHeader :: "bytes \<Rightarrow> (LinkMessage \<times> nat) result" where
  "parseLinkMessageHeader data =
     (if length data < 2 then Inl (Errorf ''link message too short (need at least 2 bytes for version and flags)'')
      else let lm = \<lparr>lm_Version = data ! 0, lm_Flags = data ! 1, lm_Type = 0, lm_CreationOrder = 0, lm_CharSet = 0,
                     lm_Name = [], lm_LinkValue = []\<rparr>;
               offset = 2
           in if lm_Version lm \<noteq> 1
              then Inl (Errorf ''unsupported link message version: %d (only version 1 is supported)'')
              else case (if HasLinkTypeField lm
                         then (if length data < offset + 1 then Inl (Errorf ''link message truncated (missing link type field)'')
                               else Inr (lm\<lparr>lm_Type := data ! offset\<rparr>, offset + 1))
                         else Inr (lm\<lparr>lm_Type := LinkTypeHard\<rparr>, offset)) of
                     Inl e \<Rightarrow> Inl e
                   | Inr (lm, offset) \<Rightarrow>
                       (case (if HasCreationOrder lm
                              then (if length data < offset + 8
                                    then Inl (Errorf ''link message truncated (missing creation order field)'')
                                    else Inr (lm\<lparr>lm_CreationOrder := order_get LittleEndian (take 8 (drop offset data))\<rparr>, offset + 8))
                              else Inr (lm, offset)) of
                          Inl e \<Rightarrow> Inl e
                        | Inr (lm, offset) \<Rightarrow>
                            if HasCharSetField lm
                            then (if length data < offset + 1
                                  then Inl (Errorf ''link message truncated (missing character set field)'')
                                  else Inr (lm\<lparr>lm_CharSet := data ! offset\<rparr>, offset + 1))
                            else Inr (lm\<lparr>lm_CharSet := 0\<rparr>, offset)))"

definition parseLinkNameLength :: "bytes \<Rightarrow> nat \<Rightarrow> LinkMessage \<Rightarrow> (u64 \<times> nat) result" where
  "parseLinkNameLength data offset lm =
     (let lengthSize = GetLinkNameLengthSize lm
      in if length data < offset + lengthSize then Inl (Errorf ''link message truncated (missing link name length)'')
         else Inr (order_get LittleEndian (take lengthSize (drop offset data)), offset + lengthSize))"

definition parseLinkName :: "bytes \<Rightarrow> nat \<Rightarrow> u64 \<Rightarrow> (bytes \<times> nat) result" where
  "parseLinkName data offset nameLength =
     (if nameLength > 1024 * 1024 then Inl (Errorf ''link name length too large: %d bytes'')
      else let n = unat nameLength
           in if length data < offset + n then Inl (Errorf ''link message truncated (missing link name)'')
              else Inr (take n (drop offset data), offset + n))"

definition parseHardLinkValue :: "bytes \<Rightarrow> nat \<Rightarrow> LinkMessage \<Rightarrow> Superblock \<Rightarrow> LinkMessage result" where
  "parseHardLinkValue data offset lm sb =
     (let os = unat (OffsetSize sb)
      in if length data < offset + os then Inl (Errorf ''link message truncated (missing hard link address)'')
         else Inr (lm\<lparr>lm_LinkValue := take os (drop offset data)\<rparr>))"

definition parseSoftLinkValue :: "bytes \<Rightarrow> nat \<Rightarrow> LinkMessage \<Rightarrow> LinkMessage result" where
  "parseSoftLinkValue data offset lm =
     (if length data < offset + 2 then Inl (Errorf ''link message truncated (missing soft link length)'')
      else let softLinkLength = unat (order_get LittleEndian (take 2 (drop offset data)) :: u16);
               offset = offset + 2
           in if length data < offset + softLinkLength then Inl (Errorf ''link message truncated (missing soft link path)'')
              else Inr (lm\<lparr>lm_LinkValue := take softLinkLength (drop offset data)\<rparr>))"

definition parseExternalLinkValue :: "bytes \<Rightarrow> nat \<Rightarrow> LinkMessage \<Rightarrow> LinkMessage result" where
  "parseExternalLinkValue data offset lm =
     (let startOffset = offset
      in if length data < offset + 2
         then Inl (Errorf ''link message truncated (missing external link file name length)'')
         else let fileNameLength = unat (order_get LittleEndian (take 2 (drop offset data)) :: u16);
                  offset = offset + 2
              in if length data < offset + fileNameLength + 2
                 then Inl (Errorf ''link message truncated (missing external link file name or path length)'')
                 else let pathLengthOffset = offset + fileNameLength;
                          pathLength = unat (order_get LittleEndian (take 2 (drop pathLengthOffset data)) :: u16);
                          totalLength = 2 + fileNameLength + (2 + pathLength)
                      in if length data < startOffset + totalLength
                         then Inl (Errorf ''link message truncated (missing external link data)'')
                         else Inr (lm\<lparr>lm_LinkValue := take totalLength (drop startOffset data)\<rparr>))"

definition parseLinkValue :: "bytes \<Rightarrow> nat \<Rightarrow> LinkMessage \<Rightarrow> Superblock \<Rightarrow> LinkMessage result" where
  "parseLinkValue data offset lm sb =
     (if lm_Type lm = LinkTypeHard then parseHardLinkValue data offset lm sb
      else if lm_Type lm = LinkTypeSoft then parseSoftLinkValue data offset lm
      else if lm_Type lm = LinkTypeExternal then parseExternalLinkValue data offset lm
      else Inl (Errorf ''unsupported link type: %d''))"

definition ParseLinkMessage :: "bytes \<Rightarrow> Superblock \<Rightarrow> LinkMessage result" where
  "ParseLinkMessage data sb =
     (case parseLinkMessageHeader data of
        Inl e \<Rightarrow> Inl e
      | Inr (lm, offset) \<Rightarrow>
          (case parseLinkNameLength data offset lm of
             Inl e \<Rightarrow> Inl e
           | Inr (nameLength, offset) \<Rightarrow>
               (case parseLinkName data offset nameLength of
                  Inl e \<Rightarrow> Inl e
                | Inr (name, offset) \<Rightarrow> parseLinkValue data offset (lm\<lparr>lm_Name := name\<rparr>) sb)))"

definition writeLinkNameLength :: "nat \<Rightarrow> nat \<Rightarrow> bytes result" where
  "writeLinkNameLength nameLength lengthSize =
     (if lengthSize = 1
      then (if nameLength > 255 then Inl (Errorf ''name length %d exceeds 1-byte maximum (255)'')
            else Inr (le_put 1 (of_nat nameLength :: u64)))
      else if lengthSize = 2
      then (if nameLength > 65535 then Inl (Errorf ''name length %d exceeds 2-byte maximum (65535)'')
            else Inr (le_put 2 (of_nat nameLength :: u64)))
      else if lengthSize = 4
      then (if nameLength > 4294967295 then Inl (Errorf ''name length %d exceeds 4-byte maximum (4294967295)'')
            else Inr (le_put 4 (of_nat nameLength :: u64)))
      else if lengthSize = 8 then Inr (le_put 8 (of_nat nameLength :: u64))
      else Inl (Errorf ''invalid length size: %d''))"

definition link_prefix :: "LinkMessage \<Rightarrow> bytes" where
  "link_prefix lm =
     [lm_Version lm, lm_Flags lm] @ (if HasLinkTypeField lm then [lm_Type lm] else [])
     @ (if HasCreationOrder lm then le_put 8 (lm_CreationOrder lm) else [])
     @ (if HasCharSetField lm then [lm_CharSet lm] else [])"

definition EncodeLinkMessage :: "LinkMessage \<Rightarrow> bytes result" where
  "EncodeLinkMessage lm =
     (if lm_Version lm \<noteq> 1 then Inl (Errorf ''unsupported link message version: %d (only version 1 is supported)'')
      else case writeLinkNameLength (length (lm_Name lm)) (GetLinkNameLengthSize lm) of
             Inl e \<Rightarrow> Inl e
           | Inr len \<Rightarrow> Inr (link_prefix lm @ len @ lm_Name lm @ lm_LinkValue lm))"

definition GetHardLinkAddress :: "LinkMessage \<Rightarrow> Superblock \<Rightarrow> u64 result" where
  "GetHardLinkAddress lm sb =
     (if lm_Type lm \<noteq> LinkTypeHard then Inl (Errorf ''not a hard link (type=%s)'')
      else if length (lm_LinkValue lm) \<noteq> unat (OffsetSize sb)
      then Inl (Errorf ''invalid hard link value size: got %d, expected %d'')
      else Inr (readUint64 (lm_LinkValue lm) (unat (OffsetSize sb)) (Endianness sb)))"

definition GetSoftLinkPath :: "LinkMessage \<Rightarrow> bytes result" where
  "GetSoftLinkPath lm =
     (if lm_Type lm \<noteq> LinkTypeSoft then Inl (Errorf ''not a soft link (type=%s)'')
      else if length (lm_LinkValue lm) = 0 then Inl (Errorf ''empty soft link path'')
      else Inr (lm_LinkValue lm))"

definition GetExternalLinkInfo :: "LinkMessage \<Rightarrow> (bytes \<times> bytes) result" where
  "GetExternalLinkInfo lm =
     (let v = lm_LinkValue lm
      in if lm_Type lm \<noteq> LinkTypeExternal then Inl (Errorf ''not an external link (type=%s)'')
         else if length v < 4 then Inl (Errorf ''external link value too short'')
         else let fileNameLength = unat (order_get LittleEndian (take 2 v) :: u16); offset = 2
              in if length v < offset + fileNameLength + 2
                 then Inl (Errorf ''external link value truncated (missing file name or path length)'')
                 else let fileName = take fileNameLength (drop offset v);
                          offset = offset + fileNameLength;
                          pathLength = unat (order_get LittleEndian (take 2 (drop offset v)) :: u16);
                          offset = offset + 2
                      in if length v < offset + pathLength
                         then Inl (Errorf ''external link value truncated (missing object path)'')
                         else Inr (fileName, take pathLength (drop offset v)))"

section \<open>Link messages of the structures package\<close>

record StructLinkMessage =
  sl_Version :: byte
  sl_Flags :: byte
  sl_Type :: LinkType
  sl_Name :: bytes
  sl_CreationOrder :: u64
  sl_CreationOrderValid :: bool
  sl_CharacterSet :: byte
  sl_ObjectAddress :: u64
  sl_TargetPath :: bytes

text \<open>
  \<^verbatim>\<open>current+int(nameLen)\<close> is an addition of 64-bit integers that may wrap: the sum is kept as a word and
  read as a signed number.
\<close>

definition link_target :: "bytes \<Rightarrow> nat \<Rightarrow> StructLinkMessage \<Rightarrow> Superblock \<Rightarrow> StructLinkMessage result" where
  "link_target data current msg sb =
     (if sl_Type msg = LinkTypeHard
      then (let offsetSize = unat (OffsetSize sb)
            in if current + offsetSize > length data then Inl (Errorf ''unexpected end of data reading object address'')
               else if offsetSize \<notin> {1, 2, 4, 8} then Inl (Errorf ''invalid offset size: %d'')
               else Inr (msg\<lparr>sl_ObjectAddress := order_get (Endianness sb) (take offsetSize (drop current data))\<rparr>))
      else if sl_Type msg = LinkTypeSoft
      then (if current + 2 > length data then Inl (Errorf ''unexpected end of data reading soft link length'')
            else let targetLen = order_get LittleEndian (take 2 (drop current data)) :: u16;
                     current = current + 2
                 in if targetLen = 0 then Inl (Errorf ''invalid soft link length: 0'')
                    else if current + unat targetLen > length data then Inl (Errorf ''unexpected end of data reading soft link path'')
                    else Inr (msg\<lparr>sl_TargetPath := take (unat targetLen) (drop current data)\<rparr>))
      else if current + 2 > length data then Inl (Errorf ''unexpected end of data reading user-defined link length'')
      else Inr msg)"

definition structures_ParseLinkMessage :: "bytes \<Rightarrow> Superblock \<Rightarrow> StructLinkMessage result" where
  "structures_ParseLinkMessage data sb =
     (if length data < 2 then Inl (Errorf ''link message too short: %d bytes'')
      else if data ! 0 \<noteq> 1 then Inl (Errorf ''unsupported link message version: %d'')
      else let flags = data ! 1;
               msg = \<lparr>sl_Version = data ! 0, sl_Flags = flags, sl_Type = 0, sl_Name = [], sl_CreationOrder = 0,
                      sl_CreationOrderValid = False, sl_CharacterSet = 0, sl_ObjectAddress = 0, sl_TargetPath = []\<rparr>
           in case (if flags AND 0x08 \<noteq> 0
                    then (if 2 \<ge> length data then Inl (Errorf ''unexpected end of data reading link type'')
                          else Inr (msg\<lparr>sl_Type := data ! 2\<rparr>, 3))
                    else Inr (msg\<lparr>sl_Type := LinkTypeHard\<rparr>, 2)) of
                Inl e \<Rightarrow> Inl e
              | Inr (msg, current) \<Rightarrow>
                  (case (if flags AND 0x04 \<noteq> 0
                         then (if current + 8 > length data then Inl (Errorf ''unexpected end of data reading creation order'')
                               else Inr (msg\<lparr>sl_CreationOrder := order_get LittleEndian (take 8 (drop current data)),
                                             sl_CreationOrderValid := True\<rparr>, current + 8))
                         else Inr (msg, current)) of
                     Inl e \<Rightarrow> Inl e
                   | Inr (msg, current) \<Rightarrow>
                       (case (if flags AND 0x10 \<noteq> 0
                              then (if current \<ge> length data then Inl (Errorf ''unexpected end of data reading charset'')
                                    else Inr (msg\<lparr>sl_CharacterSet := data ! current\<rparr>, current + 1))
                              else Inr (msg\<lparr>sl_CharacterSet := 0\<rparr>, current)) of
                          Inl e \<Rightarrow> Inl e
                        | Inr (msg, current) \<Rightarrow>
                            let w = 2 ^ unat (flags AND 0x03)
                            in if current + w > length data then Inl (Errorf ''unexpected end of data reading name length'')
                               else let nameLen = order_get LittleEndian (take w (drop current data)) :: u64;
                                        current = current + w;
                                        stop = sint (of_nat current + nameLen)
                                    in if nameLen = 0 then Inl (Errorf ''invalid name length: 0'')
                                       else if stop > int (length data)
                                       then Inl (Errorf ''unexpected end of data reading name (need %d bytes, have %d)'')
                                       else if stop < int current then Inl slice_panic
                                       else link_target data (nat stop)
                                              (msg\<lparr>sl_Name := take (nat stop - current) (drop current data)\<rparr>) sb)))"

definition IsHardLink :: "StructLinkMessage \<Rightarrow> bool" where
  "IsHardLink lm \<longleftrightarrow> sl_Type lm = LinkTypeHard"

definition sl_IsSoftLink :: "StructLinkMessage \<Rightarrow> bool" where
  "sl_IsSoftLink lm \<longleftrightarrow> sl_Type lm = LinkTypeSoft"

section \<open>Link info messages\<close>

text \<open>\<^verbatim>\<open>MaxCreationOrder\<close> is an \<^verbatim>\<open>int64\<close>: a word read as a signed number.\<close>

record LinkInfoMessage =
  li_Version :: byte
  li_Flags :: byte
  li_MaxCreationOrder :: u64
  li_FractalHeapAddress :: u64
  li_NameBTreeAddress :: u64
  li_CreationOrderBTreeAddress :: u64

definition HasCreationOrderTracking :: "LinkInfoMessage \<Rightarrow> bool" where
  "HasCreationOrderTracking lim \<longleftrightarrow> li_Flags lim AND 0x01 \<noteq> 0"

definition HasCreationOrderIndex :: "LinkInfoMessage \<Rightarrow> bool" where
  "HasCreationOrderIndex lim \<longleftrightarrow> li_Flags lim AND 0x02 \<noteq> 0"

abbreviation haddrUndef :: u64 where "haddrUndef \<equiv> 0xFFFFFFFFFFFFFFFF"

definition HasFractalHeap :: "LinkInfoMessage \<Rightarrow> bool" where
  "HasFractalHeap lim \<longleftrightarrow> li_FractalHeapAddress lim \<noteq> 0 \<and> li_FractalHeapAddress lim \<noteq> haddrUndef"

definition HasNameBTree :: "LinkInfoMessage \<Rightarrow> bool" where
  "HasNameBTree lim \<longleftrightarrow> li_NameBTreeAddress lim \<noteq> 0 \<and> li_NameBTreeAddress lim \<noteq> haddrUndef"

definition HasCreationOrderBTree :: "LinkInfoMessage \<Rightarrow> bool" where
  "HasCreationOrderBTree lim \<longleftrightarrow> li_CreationOrderBTreeAddress lim \<noteq> 0 \<and> li_CreationOrderBTreeAddress lim \<noteq> haddrUndef"

definition ParseLinkInfoMessage :: "bytes \<Rightarrow> Superblock \<Rightarrow> LinkInfoMessage result" where
  "ParseLinkInfoMessage data sb =
     (if length data < 2 then Inl (Errorf ''link info message too short (need at least 2 bytes for version and flags)'')
      else let lim = \<lparr>li_Version = data ! 0, li_Flags = data ! 1, li_MaxCreationOrder = 0, li_FractalHeapAddress = 0,
                      li_NameBTreeAddress = 0, li_CreationOrderBTreeAddress = 0\<rparr>;
               os = unat (OffsetSize sb)
           in if li_Version lim \<noteq> 0 then Inl (Errorf ''unsupported link info version: %d (only version 0 is supported)'')
              else if li_Flags lim AND NOT 0x03 \<noteq> 0 then Inl (Errorf ''invalid link info flags: 0x%02X (reserved bits set)'')
              else case (if HasCreationOrderTracking lim
                         then (if length data < 2 + 8 then Inl (Errorf ''link info message truncated (missing max creation order)'')
                               else let v = order_get LittleEndian (take 8 (drop 2 data)) :: u64
                                    in if sint v < 0 then Inl (Errorf ''invalid max creation order value: %d (must be >= 0)'')
                                       else Inr (lim\<lparr>li_MaxCreationOrder := v\<rparr>, 2 + 8))
                         else Inr (lim\<lparr>li_MaxCreationOrder := 0\<rparr>, 2)) of
                     Inl e \<Rightarrow> Inl e
                   | Inr (lim, offset) \<Rightarrow>
                       if length data < offset + os then Inl (Errorf ''link info message truncated (missing fractal heap address)'')
                       else let lim = lim\<lparr>li_FractalHeapAddress := readUint64 (drop offset data) os (Endianness sb)\<rparr>;
                                offset = offset + os
                            in if length data < offset + os
                               then Inl (Errorf ''link info message truncated (missing name B-tree address)'')
                               else let lim = lim\<lparr>li_NameBTreeAddress := readUint64 (drop offset data) os (Endianness sb)\<rparr>;
                                        offset = offset + os
                                    in if HasCreationOrderIndex lim
                                       then (if length data < offset + os
                                             then Inl (Errorf ''link info message truncated (missing creation order B-tree address)'')
                                             else Inr (lim\<lparr>li_CreationOrderBTreeAddress :=
                                                         readUint64 (drop offset data) os (Endianness sb)\<rparr>))
                                       else Inr (lim\<lparr>li_CreationOrderBTreeAddress := 0\<rparr>))"

definition EncodeLinkInfoMessage :: "LinkInfoMessage \<Rightarrow> Superblock \<Rightarrow> bytes result" where
  "EncodeLinkInfoMessage lim sb =
     (let addr = (\<lambda>a. writeUint64 a (unat (OffsetSize sb)) (Endianness sb))
      in if li_Version lim \<noteq> 0 then Inl (Errorf ''unsupported link info version: %d (only version 0 is supported)'')
         else Inr ([li_Version lim, li_Flags lim]
                   @ (if HasCreationOrderTracking lim then le_put 8 (li_MaxCreationOrder lim) else [])
                   @ addr (li_FractalHeapAddress lim) @ addr (li_NameBTreeAddress lim)
                   @ (if HasCreationOrderIndex lim then addr (li_CreationOrderBTreeAddress lim) else [])))"

section \<open>Round trips\<close>

lemma name_length_size: "GetLinkNameLengthSize lm = 2 ^ unat (lm_Flags lm AND 0x03)" "GetLinkNameLengthSize lm \<in> {1, 2, 4, 8}"
proof -
  have "(lm_Flags lm AND 3) \<le> 3" by (rule word_and_le1)
  then have "(lm_Flags lm AND 3) \<in> {0, 1, 2, 3}" by (auto simp: word_le_nat_alt word_unat_eq_iff)
  then show "GetLinkNameLengthSize lm = 2 ^ unat (lm_Flags lm AND 0x03)" "GetLinkNameLengthSize lm \<in> {1, 2, 4, 8}"
    by (auto simp: GetLinkNameLengthSize_def)
qed

lemma parseLinkMessageHeader_prefix:
  assumes "lm_Version lm = 1" "HasLinkTypeField lm \<or> lm_Type lm = LinkTypeHard"
    "HasCreationOrder lm \<or> lm_CreationOrder lm = 0" "HasCharSetField lm \<or> lm_CharSet lm = 0"
  shows "parseLinkMessageHeader (link_prefix lm @ rest) = Inr (lm\<lparr>lm_Name := [], lm_LinkValue := []\<rparr>, length (link_prefix lm))"
  using assms
  by (cases lm; cases "HasLinkTypeField lm"; cases "HasCreationOrder lm"; cases "HasCharSetField lm")
    (simp_all add: parseLinkMessageHeader_def link_prefix_def HasLinkTypeField_def HasCreationOrder_def HasCharSetField_def
       Let_def nth_append del: le_put_numeral)

lemma writeLinkNameLength_cases:
  assumes "writeLinkNameLength n sz = Inr len" "n < 2 ^ 63"
  shows "length len = sz" "order_get LittleEndian len = (of_nat n :: u64)"
proof -
  have w: "sz \<in> {1, 2, 4, 8}" "len = le_put sz (of_nat n :: u64)" "n < 2 ^ (8 * sz)"
    using assms by (auto simp: writeLinkNameLength_def split: if_splits simp del: le_put_numeral)
  have "fits_width sz (of_nat n)" using w(3) assms(2) by (simp add: fits_width_def unat_of_nat_less)
  then show "length len = sz" "order_get LittleEndian len = (of_nat n :: u64)"
    using fits_width_take_bit unfolding w(2) by (simp_all add: le_get_le_put del: le_put_numeral)
qed

text \<open>The link value in the form the writers store it, and what the parser makes of it.\<close>

definition stored_value :: "Superblock \<Rightarrow> LinkType \<Rightarrow> bytes \<Rightarrow> bytes \<Rightarrow> bool" where
  "stored_value sb t v w \<longleftrightarrow>
     t = LinkTypeHard \<and> length v = unat (OffsetSize sb) \<and> w = v
   \<or> t = LinkTypeSoft \<and> length w < 65536 \<and> v = le_put 2 (of_nat (length w) :: u16) @ w
   \<or> t = LinkTypeExternal \<and> w = v \<and> (\<exists>fname path. length fname < 65536 \<and> length path < 65536
       \<and> v = le_put 2 (of_nat (length fname) :: u16) @ fname @ le_put 2 (of_nat (length path) :: u16) @ path)"

lemma len16:
  assumes "n < 65536"
  obtains l where "l = le_put 2 (of_nat n :: u16)" "length l = 2" "unat (order_get LittleEndian l :: u16) = n"
proof
  show "length (le_put 2 (of_nat n :: u16)) = 2" by (simp del: le_put_numeral)
  show "unat (order_get LittleEndian (le_put 2 (of_nat n :: u16)) :: u16) = n"
    using assms by (simp add: unat_of_nat_less del: le_put_numeral)
qed simp

lemma parseLinkValue_stored:
  assumes "stored_value sb (lm_Type lm) v w"
  shows "parseLinkValue (pre @ v) (length pre) lm sb = Inr (lm\<lparr>lm_LinkValue := w\<rparr>)"
proof -
  consider (hard) "lm_Type lm = LinkTypeHard" "length v = unat (OffsetSize sb)" "w = v"
    | (soft) "lm_Type lm = LinkTypeSoft" "length w < 65536" "v = le_put 2 (of_nat (length w) :: u16) @ w"
    | (ext) fname path where "lm_Type lm = LinkTypeExternal" "w = v" "length fname < 65536" "length path < 65536"
       "v = le_put 2 (of_nat (length fname) :: u16) @ fname @ le_put 2 (of_nat (length path) :: u16) @ path"
    using assms unfolding stored_value_def by blast
  then show ?thesis
  proof cases
    case hard
    then show ?thesis by (simp add: parseLinkValue_def parseHardLinkValue_def Let_def)
  next
    case soft
    obtain l where l: "l = le_put 2 (of_nat (length w) :: u16)" "length l = 2" "unat (order_get LittleEndian l :: u16) = length w"
      using soft(2) by (rule len16)
    show ?thesis unfolding soft(3) l(1) [symmetric] using soft(1) l(2,3)
      by (simp add: parseLinkValue_def parseSoftLinkValue_def Let_def del: order_get.simps)
  next
    case ext
    obtain a where a: "a = le_put 2 (of_nat (length fname) :: u16)" "length a = 2" "unat (order_get LittleEndian a :: u16) = length fname"
      using ext(3) by (rule len16)
    obtain b where b: "b = le_put 2 (of_nat (length path) :: u16)" "length b = 2" "unat (order_get LittleEndian b :: u16) = length path"
      using ext(4) by (rule len16)
    show ?thesis unfolding ext(2,5) a(1) [symmetric] b(1) [symmetric] using ext(1) a(2,3) b(2,3)
      by (simp add: parseLinkValue_def parseExternalLinkValue_def Let_def del: order_get.simps)
  qed
qed



section \<open>The two parsers\<close>

lemma readUint64_order_get:
  "sz \<in> {1, 2, 4, 8} \<Longrightarrow> length v = sz \<Longrightarrow> readUint64 v sz e = order_get e v"
  by (cases e) (auto simp: readUint64_def length_Suc_conv)

text \<open>What the core parser accepts, field by field.\<close>

lemma core_fields:
  assumes "ParseLinkMessage data sb = Inr lm"
  defines "fl \<equiv> data ! 1"
  defines "p1 \<equiv> if fl AND 0x08 \<noteq> 0 then 3 else 2 :: nat"
  defines "p2 \<equiv> if fl AND 0x04 \<noteq> 0 then p1 + 8 else p1"
  defines "p3 \<equiv> if fl AND 0x10 \<noteq> 0 then p2 + 1 else p2"
  defines "n \<equiv> unat (order_get LittleEndian (take (2 ^ unat (fl AND 0x03)) (drop p3 data)) :: u64)"
  defines "p4 \<equiv> p3 + 2 ^ unat (fl AND 0x03)"
  shows "lm_Version lm = 1" "data ! 0 = 1" "lm_Flags lm = fl" "lm_Type lm = (if fl AND 0x08 \<noteq> 0 then data ! 2 else LinkTypeHard)"
    "lm_CreationOrder lm = (if fl AND 0x04 \<noteq> 0 then order_get LittleEndian (take 8 (drop p1 data)) else 0)"
    "lm_CharSet lm = (if fl AND 0x10 \<noteq> 0 then data ! p2 else 0)" "lm_Name lm = take n (drop p4 data)"
    "parseLinkValue data (p4 + n) (lm\<lparr>lm_LinkValue := []\<rparr>) sb = Inr lm"
    "n \<le> 1024 * 1024" "p4 + n \<le> length data"
proof -
  obtain h q where h: "parseLinkMessageHeader data = Inr (h, q)"
    using assms(1) by (auto simp: ParseLinkMessage_def split: sum.splits)
  have hf: "lm_Version h = 1" "data ! 0 = 1" "lm_Flags h = fl" "lm_Type h = (if fl AND 0x08 \<noteq> 0 then data ! 2 else LinkTypeHard)"
    "lm_CreationOrder h = (if fl AND 0x04 \<noteq> 0 then order_get LittleEndian (take 8 (drop p1 data)) else 0)"
    "lm_CharSet h = (if fl AND 0x10 \<noteq> 0 then data ! p2 else 0)" "lm_LinkValue h = []" "q = p3"
    using h by (auto simp: parseLinkMessageHeader_def Let_def HasLinkTypeField_def HasCreationOrder_def HasCharSetField_def
        fl_def p1_def p2_def p3_def simp del: order_get.simps split: if_splits sum.splits)
  have w: "GetLinkNameLengthSize h = 2 ^ unat (fl AND 0x03)" using name_length_size(1) hf(3) by simp
  have l: "parseLinkNameLength data q h = Inr (order_get LittleEndian (take (2 ^ unat (fl AND 0x03)) (drop p3 data)), p4)"
    using assms(1) h by (auto simp: ParseLinkMessage_def parseLinkNameLength_def w hf(8) p4_def Let_def simp del: order_get.simps split: if_splits)
  have nm: "n \<le> 1024 * 1024" "p4 + n \<le> length data" "parseLinkValue data (p4 + n) (h\<lparr>lm_Name := take n (drop p4 data)\<rparr>) sb = Inr lm"
    using assms(1) h l by (auto simp: ParseLinkMessage_def parseLinkName_def n_def word_less_nat_alt Let_def simp del: order_get.simps split: if_splits sum.splits)
  have val: "lm = h\<lparr>lm_Name := take n (drop p4 data), lm_LinkValue := lm_LinkValue lm\<rparr>"
    using nm(3) by (auto simp: parseLinkValue_def parseHardLinkValue_def parseSoftLinkValue_def parseExternalLinkValue_def Let_def
        simp del: order_get.simps split: if_splits)
  have "lm\<lparr>lm_LinkValue := []\<rparr> = h\<lparr>lm_Name := take n (drop p4 data)\<rparr>" using hf(7) by (subst val) simp
  then show "parseLinkValue data (p4 + n) (lm\<lparr>lm_LinkValue := []\<rparr>) sb = Inr lm" using nm(3) by simp
  show "lm_Version lm = 1" "data ! 0 = 1" "lm_Flags lm = fl" "lm_Type lm = (if fl AND 0x08 \<noteq> 0 then data ! 2 else LinkTypeHard)"
    "lm_CreationOrder lm = (if fl AND 0x04 \<noteq> 0 then order_get LittleEndian (take 8 (drop p1 data)) else 0)"
    "lm_CharSet lm = (if fl AND 0x10 \<noteq> 0 then data ! p2 else 0)" "lm_Name lm = take n (drop p4 data)"
    using arg_cong [OF val, of lm_Version] arg_cong [OF val, of lm_Flags] arg_cong [OF val, of lm_Type]
      arg_cong [OF val, of lm_CreationOrder] arg_cong [OF val, of lm_CharSet] arg_cong [OF val, of lm_Name] hf
    by (simp_all del: order_get.simps)
  show "n \<le> 1024 * 1024" "p4 + n \<le> length data" using nm by simp_all
qed

lemma struct_fields:
  assumes "structures_ParseLinkMessage data sb = Inr sm"
  defines "fl \<equiv> data ! 1"
  defines "p1 \<equiv> if fl AND 0x08 \<noteq> 0 then 3 else 2 :: nat"
  defines "p2 \<equiv> if fl AND 0x04 \<noteq> 0 then p1 + 8 else p1"
  defines "p3 \<equiv> if fl AND 0x10 \<noteq> 0 then p2 + 1 else p2"
  defines "n \<equiv> order_get LittleEndian (take (2 ^ unat (fl AND 0x03)) (drop p3 data)) :: u64"
  defines "p4 \<equiv> p3 + 2 ^ unat (fl AND 0x03)"
  defines "stop \<equiv> sint (of_nat p4 + n)"
  shows "\<exists>msg. sl_Version msg = 1 \<and> sl_Flags msg = fl \<and> sl_Type msg = (if fl AND 0x08 \<noteq> 0 then data ! 2 else LinkTypeHard)
     \<and> sl_CreationOrder msg = (if fl AND 0x04 \<noteq> 0 then order_get LittleEndian (take 8 (drop p1 data)) else 0)
     \<and> sl_CharacterSet msg = (if fl AND 0x10 \<noteq> 0 then data ! p2 else 0) \<and> sl_Name msg = take (nat stop - p4) (drop p4 data)
     \<and> link_target data (nat stop) msg sb = Inr sm" (is "\<exists>msg. ?P msg")
proof -
  let ?msg = "\<lparr>sl_Version = 1, sl_Flags = fl, sl_Type = (if fl AND 0x08 \<noteq> 0 then data ! 2 else LinkTypeHard), sl_Name = take (nat stop - p4) (drop p4 data),
     sl_CreationOrder = (if fl AND 0x04 \<noteq> 0 then order_get LittleEndian (take 8 (drop p1 data)) else 0),
     sl_CreationOrderValid = (fl AND 0x04 \<noteq> 0), sl_CharacterSet = (if fl AND 0x10 \<noteq> 0 then data ! p2 else 0),
     sl_ObjectAddress = 0, sl_TargetPath = []\<rparr>"
  have p: "stop = sint (of_nat p4 + n)" by (simp add: stop_def)
  have "link_target data (nat stop) ?msg sb = Inr sm"
    using assms(1) unfolding structures_ParseLinkMessage_def fl_def [symmetric]
    by (cases "fl AND 0x08 = 0"; cases "fl AND 0x04 = 0"; cases "fl AND 0x10 = 0")
      (simp_all add: Let_def p p4_def n_def p3_def p2_def p1_def del: order_get.simps split: if_splits)
  then show ?thesis by (intro exI [of _ ?msg]) simp
qed

lemma sint_small: "unat (w :: u64) < 2 ^ 63 \<Longrightarrow> sint w = int (unat w)"
proof -
  assume "unat w < 2 ^ 63"
  then have "int (unat w) < int (2 ^ 63)" by (simp only: of_nat_less_iff)
  then have "uint w < 2 ^ 63" by simp
  moreover have "- (2 ^ 63) \<le> uint w" by (rule order_trans [OF _ uint_ge_0]) simp
  ultimately have "signed_take_bit 63 (uint w) = uint w" by (intro signed_take_bit_int_eq_self)
  then show ?thesis by (simp add: sint_uint)
qed

lemma link_value_fixed: "lm\<lparr>lm_LinkValue := v\<rparr> = lm \<longleftrightarrow> lm_LinkValue lm = v"
  by (cases lm) auto

lemma link_target_keeps:
  assumes "link_target data p msg sb = Inr sm"
  shows "sl_Type sm = sl_Type msg \<and> sl_Version sm = sl_Version msg \<and> sl_Flags sm = sl_Flags msg
     \<and> sl_CreationOrder sm = sl_CreationOrder msg \<and> sl_CharacterSet sm = sl_CharacterSet msg \<and> sl_Name sm = sl_Name msg"
  using assms by (auto simp: link_target_def Let_def simp del: order_get.simps split: if_splits)

text \<open>
  C20. The two parsers of link messages agree: whenever both accept a message, they return the same
  version, flags, type, creation order, character set and name, and the address of a hard link or
  the path of a soft link is the same.
\<close>
theorem link_parsers_agree:
  assumes core: "ParseLinkMessage data sb = Inr lm" and struct: "structures_ParseLinkMessage data sb = Inr sm"
  shows "lm_Version lm = sl_Version sm \<and> lm_Flags lm = sl_Flags sm \<and> lm_Type lm = sl_Type sm \<and> lm_CreationOrder lm = sl_CreationOrder sm
     \<and> lm_CharSet lm = sl_CharacterSet sm \<and> lm_Name lm = sl_Name sm
     \<and> (if IsHardLink sm then GetHardLinkAddress lm sb = Inr (sl_ObjectAddress sm)
        else if sl_IsSoftLink sm then GetSoftLinkPath lm = Inr (sl_TargetPath sm) else True)"
proof -
  define fl where "fl = data ! 1"
  define p1 :: nat where "p1 = (if fl AND 0x08 \<noteq> 0 then 3 else 2)"
  define p2 where "p2 = (if fl AND 0x04 \<noteq> 0 then p1 + 8 else p1)"
  define p3 where "p3 = (if fl AND 0x10 \<noteq> 0 then p2 + 1 else p2)"
  define n :: u64 where "n = order_get LittleEndian (take (2 ^ unat (fl AND 0x03)) (drop p3 data))"
  define p4 where "p4 = p3 + 2 ^ unat (fl AND 0x03)"
  note c = core_fields [OF core, folded fl_def, folded p1_def, folded p2_def, folded p3_def, folded n_def p4_def]
  obtain msg where m: "sl_Version msg = 1" "sl_Flags msg = fl" "sl_Type msg = (if fl AND 0x08 \<noteq> 0 then data ! 2 else LinkTypeHard)"
     "sl_CreationOrder msg = (if fl AND 0x04 \<noteq> 0 then order_get LittleEndian (take 8 (drop p1 data)) else 0)"
     "sl_CharacterSet msg = (if fl AND 0x10 \<noteq> 0 then data ! p2 else 0)"
     "sl_Name msg = take (nat (sint (of_nat p4 + n)) - p4) (drop p4 data)"
     "link_target data (nat (sint (of_nat p4 + n))) msg sb = Inr sm"
    using struct_fields [OF struct, folded fl_def, folded p1_def, folded p2_def, folded p3_def, folded n_def p4_def] by blast
  have w: "(2 :: nat) ^ unat (fl AND 0x03) \<in> {1, 2, 4, 8}"
    using name_length_size [of lm] c(3) by simp
  then have p4: "p4 \<le> 20" by (auto simp: p4_def p3_def p2_def p1_def)
  have "unat (of_nat p4 + n) = p4 + unat n"
    using p4 c(9) by (subst add.commute, subst unat_add_small) (simp_all add: unat_of_nat_less)
  moreover from this have "unat (of_nat p4 + n) < 2 ^ 63" using p4 c(9) by simp
  ultimately have "sint (of_nat p4 + n) = int (p4 + unat n)" using sint_small by metis
  then have stop: "nat (sint (of_nat p4 + n)) = p4 + unat n" by (simp only: nat_int)
  note m = m [unfolded stop]
  have same: "sl_Type sm = lm_Type lm" "sl_Version sm = 1" "sl_Flags sm = fl" "sl_CreationOrder sm = lm_CreationOrder lm"
    "sl_CharacterSet sm = lm_CharSet lm" "sl_Name sm = lm_Name lm"
  proof -
    have "sl_Type sm = sl_Type msg \<and> sl_Version sm = sl_Version msg \<and> sl_Flags sm = sl_Flags msg \<and> sl_CreationOrder sm = sl_CreationOrder msg
       \<and> sl_CharacterSet sm = sl_CharacterSet msg \<and> sl_Name sm = sl_Name msg" by (rule link_target_keeps [OF m(7)])
    then show "sl_Type sm = lm_Type lm" "sl_Version sm = 1" "sl_Flags sm = fl" "sl_CreationOrder sm = lm_CreationOrder lm"
      "sl_CharacterSet sm = lm_CharSet lm" "sl_Name sm = lm_Name lm"
      unfolding c(4-7) m(1-6) by simp_all
  qed
  have "GetHardLinkAddress lm sb = Inr (sl_ObjectAddress sm)" if "lm_Type lm = LinkTypeHard"
  proof -
    let ?v = "take (unat (OffsetSize sb)) (drop (p4 + unat n) data)"
    have v: "lm_LinkValue lm = ?v" "length data \<ge> p4 + unat n + unat (OffsetSize sb)"
      using c(8) that by (auto simp: parseLinkValue_def parseHardLinkValue_def Let_def link_value_fixed split: if_splits)
    have t: "sl_Type msg = LinkTypeHard" using that m(3) c(4) by simp
    have "unat (OffsetSize sb) \<in> {1, 2, 4, 8}" "sl_ObjectAddress sm = order_get (Endianness sb) ?v"
      using m(7) t by (auto simp: link_target_def Let_def simp del: order_get.simps split: if_splits)
    then show ?thesis using that v readUint64_order_get [of "unat (OffsetSize sb)" ?v]
      by (simp add: GetHardLinkAddress_def del: order_get.simps)
  qed
  moreover have "GetSoftLinkPath lm = Inr (sl_TargetPath sm)" if "lm_Type lm = LinkTypeSoft"
  proof -
    have t: "sl_Type msg = LinkTypeSoft" using that m(3) c(4) by simp
    let ?k = "order_get LittleEndian (take 2 (drop (p4 + unat n) data)) :: u16"
    have v: "lm_LinkValue lm = take (unat ?k) (drop (p4 + unat n + 2) data)" "p4 + unat n + 2 + unat ?k \<le> length data"
      using c(8) that by (auto simp: parseLinkValue_def parseSoftLinkValue_def Let_def link_value_fixed simp del: order_get.simps split: if_splits)
    have "?k \<noteq> 0" "sl_TargetPath sm = take (unat ?k) (drop (p4 + unat n + 2) data)"
      using m(7) t by (auto simp: link_target_def Let_def simp del: order_get.simps split: if_splits)
    then show ?thesis using that v by (simp add: GetSoftLinkPath_def unat_eq_zero del: order_get.simps)
  qed
  ultimately show ?thesis using c same by (simp add: IsHardLink_def sl_IsSoftLink_def)
qed

theorem link_parsers_agree_witness:
  "\<exists>lm sm. ParseLinkMessage [1, 0, 1, 0x61, 48, 0, 0, 0, 0, 0, 0, 0] sb8 = Inr lm
     \<and> structures_ParseLinkMessage [1, 0, 1, 0x61, 48, 0, 0, 0, 0, 0, 0, 0] sb8 = Inr sm \<and> lm_Name lm = sl_Name sm"
proof -
  let ?d = "[1, 0, 1, 0x61, 48, 0, 0, 0, 0, 0, 0, 0] :: bytes"
  have "ParseLinkMessage ?d sb8 = Inr \<lparr>lm_Version = 1, lm_Flags = 0, lm_Type = 0, lm_CreationOrder = 0, lm_CharSet = 0,
       lm_Name = [0x61], lm_LinkValue = [48, 0, 0, 0, 0, 0, 0, 0]\<rparr>" (is "_ = Inr ?lm")
    by code_simp
  moreover have "structures_ParseLinkMessage ?d sb8 = Inr \<lparr>sl_Version = 1, sl_Flags = 0, sl_Type = 0, sl_Name = [0x61],
      sl_CreationOrder = 0, sl_CreationOrderValid = False, sl_CharacterSet = 0, sl_ObjectAddress = 48, sl_TargetPath = []\<rparr>" (is "_ = Inr ?sm")
    by code_simp
  ultimately show ?thesis using link_parsers_agree [of ?d sb8 ?lm ?sm] by blast
qed

text \<open>
  A link info message with non-negative maximum creation order, addresses that fit the file's offset
  size and defaults in the fields its flags leave out is parsed back to the same message.
\<close>
theorem link_info_roundtrip:
  assumes "EncodeLinkInfoMessage lim sb = Inr data" "sizes_ok sb" "li_Flags lim AND NOT 0x03 = 0" "0 \<le> sint (li_MaxCreationOrder lim)"
    and "fits_width (unat (OffsetSize sb)) (li_FractalHeapAddress lim)" "fits_width (unat (OffsetSize sb)) (li_NameBTreeAddress lim)"
      "fits_width (unat (OffsetSize sb)) (li_CreationOrderBTreeAddress lim)"
    and "HasCreationOrderTracking lim \<or> li_MaxCreationOrder lim = 0" "HasCreationOrderIndex lim \<or> li_CreationOrderBTreeAddress lim = 0"
  shows "ParseLinkInfoMessage data sb = Inr lim"
proof -
  let ?os = "unat (OffsetSize sb)" and ?e = "Endianness sb"
  let ?a = "writeUint64 (li_FractalHeapAddress lim) ?os ?e" and ?b = "writeUint64 (li_NameBTreeAddress lim) ?os ?e"
    and ?c = "writeUint64 (li_CreationOrderBTreeAddress lim) ?os ?e"
  have os: "?os \<in> {1, 2, 4, 8}" using assms(2) by (simp add: sizes_ok_def)
  note r = readUint64_writeUint64 [OF os]
  have r0: "readUint64 ?c ?os ?e = li_CreationOrderBTreeAddress lim" using r [OF assms(7), of ?e "[]"] by simp
  have d: "li_Version lim = 0" "data = [0, li_Flags lim] @ (if HasCreationOrderTracking lim then le_put 8 (li_MaxCreationOrder lim) else [])
      @ ?a @ ?b @ (if HasCreationOrderIndex lim then ?c else [])"
    using assms(1) by (auto simp: EncodeLinkInfoMessage_def Let_def split: if_splits)
  define hd where "hd = [0, li_Flags lim] @ (if HasCreationOrderTracking lim then le_put 8 (li_MaxCreationOrder lim) else [])"
  have h: "length hd = (if HasCreationOrderTracking lim then 10 else 2)" "hd ! 0 = 0" "hd ! 1 = li_Flags lim" "2 \<le> length hd"
    "HasCreationOrderTracking lim \<Longrightarrow> order_get LittleEndian (take 8 (drop 2 hd)) = li_MaxCreationOrder lim"
    by (simp_all add: hd_def del: le_put_numeral)
  have d': "data = hd @ ?a @ ?b @ (if HasCreationOrderIndex lim then ?c else [])" unfolding d(2) hd_def by simp
  have n: "data ! 0 = 0" "data ! 1 = li_Flags lim" "2 \<le> length data" using h by (simp_all add: d' nth_append)
  have dr: "drop (length hd) data = ?a @ ?b @ (if HasCreationOrderIndex lim then ?c else [])"
    "drop (length hd + ?os) data = ?b @ (if HasCreationOrderIndex lim then ?c else [])"
    "drop (length hd + ?os + ?os) data = (if HasCreationOrderIndex lim then ?c else [])"
    by (simp_all add: d')
  have ld: "length data = length hd + ?os + ?os + (if HasCreationOrderIndex lim then ?os else 0)" by (simp add: d')
  have tr: "HasCreationOrderTracking lim \<Longrightarrow> order_get LittleEndian (take 8 (drop 2 data)) = li_MaxCreationOrder lim"
    using h(1,5) by (simp add: d' del: order_get.simps)
  let ?l = "\<lparr>li_Version = 0, li_Flags = li_Flags lim, li_MaxCreationOrder = 0, li_FractalHeapAddress = 0, li_NameBTreeAddress = 0,
    li_CreationOrderBTreeAddress = 0\<rparr>"
  have fl: "HasCreationOrderTracking (?l\<lparr>li_MaxCreationOrder := x\<rparr>) = HasCreationOrderTracking lim"
    "HasCreationOrderTracking ?l = HasCreationOrderTracking lim" for x
    by (simp_all add: HasCreationOrderTracking_def)
  have fi: "HasCreationOrderIndex \<lparr>li_Version = v, li_Flags = li_Flags lim, li_MaxCreationOrder = a, li_FractalHeapAddress = b,
      li_NameBTreeAddress = c, li_CreationOrderBTreeAddress = e\<rparr> = HasCreationOrderIndex lim" for v a b c e
    by (simp add: HasCreationOrderIndex_def)
  have eq: "\<lparr>li_Version = 0, li_Flags = li_Flags lim, li_MaxCreationOrder = li_MaxCreationOrder lim,
      li_FractalHeapAddress = li_FractalHeapAddress lim, li_NameBTreeAddress = li_NameBTreeAddress lim,
      li_CreationOrderBTreeAddress = li_CreationOrderBTreeAddress lim\<rparr> = lim" using d(1) by (cases lim) simp
  have hd_len: "HasCreationOrderTracking lim \<Longrightarrow> length hd = 10" "\<not> HasCreationOrderTracking lim \<Longrightarrow> length hd = 2" using h(1) by simp_all
  show ?thesis
  proof (cases "HasCreationOrderTracking lim")
    case True
    note l = hd_len(1) [OF True]
    show ?thesis unfolding ParseLinkInfoMessage_def
      using assms(3,4,9) n ld l eq dr [unfolded l] r [OF assms(5)] r [OF assms(6)] r [OF assms(6), of ?e "[]"] r0 True tr
      by (cases "HasCreationOrderIndex lim") (simp_all add: fl fi Let_def add.assoc del: order_get.simps)
  next
    case False
    note l = hd_len(2) [OF False]
    show ?thesis unfolding ParseLinkInfoMessage_def
      using assms(3,4,8,9) n ld l eq dr [unfolded l] r [OF assms(5)] r [OF assms(6)] r [OF assms(6), of ?e "[]"] r0 False
      by (cases "HasCreationOrderIndex lim") (simp_all add: fl fi Let_def add.assoc)
  qed
qed

theorem link_info_roundtrip_witness:
  "\<exists>data. EncodeLinkInfoMessage \<lparr>li_Version = 0, li_Flags = 1, li_MaxCreationOrder = 7, li_FractalHeapAddress = 300,
        li_NameBTreeAddress = 600, li_CreationOrderBTreeAddress = 0\<rparr> sb8 = Inr data
     \<and> ParseLinkInfoMessage data sb8 = Inr \<lparr>li_Version = 0, li_Flags = 1, li_MaxCreationOrder = 7, li_FractalHeapAddress = 300,
        li_NameBTreeAddress = 600, li_CreationOrderBTreeAddress = 0\<rparr>"
proof -
  let ?l = "\<lparr>li_Version = 0, li_Flags = 1, li_MaxCreationOrder = 7, li_FractalHeapAddress = 300,
        li_NameBTreeAddress = 600, li_CreationOrderBTreeAddress = 0\<rparr>"
  obtain data where d: "EncodeLinkInfoMessage ?l sb8 = Inr data" by (simp add: EncodeLinkInfoMessage_def)
  have "ParseLinkInfoMessage data sb8 = Inr ?l"
    by (rule link_info_roundtrip [OF d]) (simp_all add: sizes_ok_def fits_width_def HasCreationOrderTracking_def)
  with d show ?thesis by blast
qed

text \<open>
  An eight-byte name length near \<open>2 ^ 64\<close> passes the length check of the second parser, because the end
  of the name wraps to a negative number, and makes it panic; the first parser refuses it.
\<close>
theorem long_link_name_panics:
  "structures_ParseLinkMessage ([1, 3] @ replicate 8 0xFF) sb8 = Inl slice_panic
     \<and> ParseLinkMessage ([1, 3] @ replicate 8 0xFF) sb8 = Inl (Errorf ''link name length too large: %d bytes'')"
  by (rule conjI; code_simp)

text \<open>
  A parsed soft link does not survive being encoded again: the parser drops the two length bytes of
  the value and the encoder does not restore them, so the path \<^verbatim>\<open>/b\<close> is read as a length of 25135 bytes.
\<close>
theorem soft_link_reencoded_unreadable:
  "\<exists>lm. ParseLinkMessage [1, 0x18, 1, 0, 1, 0x61, 2, 0, 0x2F, 0x62] sb8 = Inr lm
     \<and> EncodeLinkMessage lm = Inr [1, 0x18, 1, 0, 1, 0x61, 0x2F, 0x62]
     \<and> ParseLinkMessage [1, 0x18, 1, 0, 1, 0x61, 0x2F, 0x62] sb8 = Inl (Errorf ''link message truncated (missing soft link path)'')"
  by (rule exI [of _ "\<lparr>lm_Version = 1, lm_Flags = 0x18, lm_Type = LinkTypeSoft, lm_CreationOrder = 0, lm_CharSet = 0,
        lm_Name = [0x61], lm_LinkValue = [0x2F, 0x62]\<rparr>"]; intro conjI; code_simp)

end
