(* ===== verification/BTree_V1.thy ===== *)
theory BTree_V1
  imports Object_Header Symbol_Table
begin

text \<open>
  Version 1 B-trees. For groups: \<^verbatim>\<open>internal/structures/btree_group.go\<close> (writer and reader of the node that
  points to symbol table nodes) and \<^verbatim>\<open>btree.go\<close>. For the chunks of a dataset: the writer, which builds a tree
  of nodes of at most 64 children bottom-up (\<^verbatim>\<open>internal/structures/btree_chunk.go\<close>), and the reader
  (\<^verbatim>\<open>internal/core/btree_v1.go\<close>). The readers follow child addresses without a bound, so on a file with a
  cycle they do not return; their value is then \<open>None\<close>. \<^verbatim>\<open>sort.Slice\<close> is a stable sort.
\<close>

abbreviation tree :: bytes where "tree \<equiv> [0x54, 0x52, 0x45, 0x45]"

section \<open>Group B-trees\<close>

record BTreeEntry =
  be_LinkNameOffset :: u64
  be_ObjectAddress :: u64
  be_CacheType :: u32
  be_Reserved :: u32
  be_CachedBTreeAddr :: u64
  be_CachedHeapAddr :: u64
  be_CachedSoftLinkOffset :: u32

definition be_IsSoftLink :: "BTreeEntry \<Rightarrow> bool" where
  "be_IsSoftLink e \<longleftrightarrow> be_CacheType e = 2"

definition old_entry :: "byte_order \<Rightarrow> bytes \<Rightarrow> BTreeEntry" where
  "old_entry e b =
     \<lparr>be_LinkNameOffset = order_get e (take 8 b), be_ObjectAddress = order_get e (take 8 (drop 8 b)),
      be_CacheType = order_get e (take 4 (drop 16 b)), be_Reserved = order_get e (take 4 (drop 20 b)),
      be_CachedBTreeAddr = 0, be_CachedHeapAddr = 0, be_CachedSoftLinkOffset = 0\<rparr>"

fun old_entries :: "bytes \<Rightarrow> u64 \<Rightarrow> byte_order \<Rightarrow> nat \<Rightarrow> nat \<Rightarrow> BTreeEntry list result" where
  "old_entries f address e i 0 = Inr []"
| "old_entries f address e i (Suc n) =
     (case ReadAt f 24 (address + 8 + of_nat i * 24) of
        Inl err \<Rightarrow> Inl err
      | Inr b \<Rightarrow> (case old_entries f address e (Suc i) n of Inl err \<Rightarrow> Inl err | Inr es \<Rightarrow> Inr (old_entry e b # es)))"

definition ReadBTreeEntries :: "bytes \<Rightarrow> u64 \<Rightarrow> Superblock \<Rightarrow> BTreeEntry list result" where
  "ReadBTreeEntries f address sb =
     (case ReadAt f 6 address of
        Inl e \<Rightarrow> Inl (Wrapf ''B-tree node read failed'' e)
      | Inr buf \<Rightarrow>
          if take 4 buf \<noteq> [0x42, 0x54, 0x52, 0x45] then Inl (Errorf ''invalid B-tree signature'')
          else if buf ! 5 \<noteq> 0 then Inl (Errorf ''non-leaf nodes not supported yet'')
          else case ReadAt f 2 (address + 6) of
                 Inl e \<Rightarrow> Inl e
               | Inr cb \<Rightarrow> old_entries f address (Endianness sb) 0 (unat (order_get (Endianness sb) cb :: u16)))"

definition readAddress :: "bytes \<Rightarrow> nat \<Rightarrow> byte_order \<Rightarrow> u64" where
  "readAddress data sz e =
     (let sz = (if sz > length data then length data else sz)
      in if sz = 1 then ucast (data ! 0)
         else if sz = 2 \<or> sz = 4 \<or> sz = 8 then order_get e (take sz data)
         else order_get e (take 8 (take sz data) @ zeros (8 - sz)))"

text \<open>The children of the interleaved keys and children.\<close>

fun child_addresses :: "bytes \<Rightarrow> nat \<Rightarrow> byte_order \<Rightarrow> nat \<Rightarrow> u64 list" where
  "child_addresses data os e 0 = []"
| "child_addresses data os e (Suc n) = readAddress (drop os data) os e # child_addresses (drop (2 * os) data) os e n"

fun snod_entries :: "bytes \<Rightarrow> Superblock \<Rightarrow> u64 list \<Rightarrow> BTreeEntry list result" where
  "snod_entries f sb [] = Inr []"
| "snod_entries f sb (a # addrs) =
     (case ParseSymbolTableNode f a sb of
        Inl e \<Rightarrow> if is_panic e then Inl e else snod_entries f sb addrs
      | Inr node \<Rightarrow>
          (case snod_entries f sb addrs of
             Inl e \<Rightarrow> Inl e
           | Inr es \<Rightarrow>
               Inr (map (\<lambda>entry. \<lparr>be_LinkNameOffset = LinkNameOffset entry, be_ObjectAddress = ObjectAddress entry,
                                 be_CacheType = CacheType entry, be_Reserved = 0, be_CachedBTreeAddr = CachedBTreeAddr entry,
                                 be_CachedHeapAddr = CachedHeapAddr entry, be_CachedSoftLinkOffset = 0\<rparr>)
                        (stn_Entries node) @ es)))"

definition ReadGroupBTreeEntries :: "bytes \<Rightarrow> u64 \<Rightarrow> Superblock \<Rightarrow> BTreeEntry list result" where
  "ReadGroupBTreeEntries f address sb =
     (let os = unat (OffsetSize sb); headerSize = 8 + os * 2
      in case ReadAt f headerSize address of
           Inl e \<Rightarrow> Inl (Wrapf ''B-tree node header read failed'' e)
         | Inr header \<Rightarrow>
             if take 4 header \<noteq> tree then Inl (Errorf ''invalid B-tree signature: %q (expected TREE)'')
             else if header ! 4 \<noteq> 0 then Inl (Errorf ''expected group B-tree (type 0), got type %d'')
             else if header ! 5 \<noteq> 0 then Inl (Errorf ''non-leaf B-tree nodes not supported yet'')
             else let entriesUsed = unat (order_get (Endianness sb) (take 2 (drop 6 header)) :: u16)
                  in if entriesUsed = 0 then Inr []
                     else let dataSize = entriesUsed * 2 * os
                          in case ReadAt f (dataSize + os) (address + of_nat headerSize) of
                               Inl e \<Rightarrow> Inl (Wrapf ''B-tree data read failed'' e)
                             | Inr data \<Rightarrow>
                                 snod_entries f sb (filter (\<lambda>a. a \<noteq> 0 \<and> a \<noteq> 0xFFFFFFFFFFFFFFFF)
                                                      (child_addresses data os (Endianness sb) entriesUsed)))"

text \<open>\<open>bn_cap\<close> is \<^verbatim>\<open>cap(btn.Keys)\<close>, the capacity \<^verbatim>\<open>AddKey\<close> enforces.\<close>

record BTreeNodeV1 =
  bn_Signature :: bytes
  bn_NodeType :: byte
  bn_NodeLevel :: byte
  bn_EntriesUsed :: u16
  bn_LeftSibling :: u64
  bn_RightSibling :: u64
  bn_Keys :: "u64 list"
  bn_ChildPointers :: "u64 list"
  bn_cap :: nat

definition NewBTreeNodeV1 :: "byte \<Rightarrow> u16 \<Rightarrow> BTreeNodeV1" where
  "NewBTreeNodeV1 nodeType k =
     \<lparr>bn_Signature = tree, bn_NodeType = nodeType, bn_NodeLevel = 0, bn_EntriesUsed = 0,
      bn_LeftSibling = 0xFFFFFFFFFFFFFFFF, bn_RightSibling = 0xFFFFFFFFFFFFFFFF, bn_Keys = [], bn_ChildPointers = [],
      bn_cap = 2 * unat k + 1\<rparr>"

definition AddKey :: "BTreeNodeV1 \<Rightarrow> u64 \<Rightarrow> u64 \<Rightarrow> BTreeNodeV1 result" where
  "AddKey btn key childAddr =
     (if length (bn_Keys btn) \<ge> bn_cap btn then Inl (Errorf ''b-tree node is full (%d/%d keys)'')
      else Inr (btn\<lparr>bn_Keys := bn_Keys btn @ [key], bn_ChildPointers := bn_ChildPointers btn @ [childAddr],
                    bn_EntriesUsed := bn_EntriesUsed btn + 1\<rparr>))"

text \<open>Into a buffer with room; sizes above eight slice the eight-byte array out of range.\<close>

definition writeAddr :: "u64 \<Rightarrow> nat \<Rightarrow> byte_order \<Rightarrow> bytes result" where
  "writeAddr addr sz e =
     (if sz = 1 then Inr [ucast addr]
      else if sz = 2 \<or> sz = 4 \<or> sz = 8 then Inr (order_put e sz addr)
      else if sz > 8 then Inl slice_panic
      else Inr (take sz (order_put e 8 addr)))"

definition keys_and_children :: "BTreeNodeV1 \<Rightarrow> nat \<Rightarrow> u64 list" where
  "keys_and_children btn k =
     concat (map (\<lambda>i. [if i < length (bn_Keys btn) then bn_Keys btn ! i else 0,
                       if i < length (bn_ChildPointers btn) then bn_ChildPointers btn ! i else 0]) [0..<2 * k])
     @ [if 2 * k < length (bn_Keys btn) then bn_Keys btn ! (2 * k) else 0]"

fun write_addrs :: "u64 list \<Rightarrow> nat \<Rightarrow> byte_order \<Rightarrow> bytes result" where
  "write_addrs [] sz e = Inr []"
| "write_addrs (a # as) sz e =
     (case writeAddr a sz e of
        Inl err \<Rightarrow> Inl err
      | Inr b \<Rightarrow> (case write_addrs as sz e of Inl err \<Rightarrow> Inl err | Inr bs \<Rightarrow> Inr (b @ bs)))"

definition btn_bytes :: "BTreeNodeV1 \<Rightarrow> byte \<Rightarrow> u16 \<Rightarrow> byte_order \<Rightarrow> bytes result" where
  "btn_bytes btn offsetSize k e =
     (case write_addrs ([bn_LeftSibling btn, bn_RightSibling btn] @ keys_and_children btn (unat k)) (unat offsetSize) e of
        Inl err \<Rightarrow> Inl err
      | Inr bs \<Rightarrow> Inr (bn_Signature btn @ [bn_NodeType btn, bn_NodeLevel btn] @ order_put e 2 (bn_EntriesUsed btn) @ bs))"

definition btn_WriteAt :: "BTreeNodeV1 \<Rightarrow> FileWriter \<Rightarrow> u64 \<Rightarrow> byte \<Rightarrow> u16 \<Rightarrow> byte_order \<Rightarrow> FileWriter result" where
  "btn_WriteAt btn w address offsetSize k e =
     (case btn_bytes btn offsetSize k e of
        Inl err \<Rightarrow> Inl err
      | Inr buf \<Rightarrow> fw_WriteAt w buf address)"

section \<open>Reading the chunk B-tree\<close>

record ChunkKey =
  ck_Scaled :: "u64 list"
  ck_Nbytes :: u32
  ck_FilterMask :: u32

record BTreeV1Node =
  nd_Signature :: bytes
  nd_NodeType :: byte
  nd_NodeLevel :: byte
  nd_EntriesUsed :: u16
  nd_LeftSibling :: u64
  nd_RightSibling :: u64
  nd_Keys :: "ChunkKey list"
  nd_Children :: "u64 list"

record ChunkEntry =
  ce_Key :: ChunkKey
  ce_Address :: u64

definition core_readAddress :: "bytes \<Rightarrow> nat \<Rightarrow> u64" where
  "core_readAddress data sz =
     (let sz = (if sz > length data then length data else sz)
      in if sz = 1 then ucast (data ! 0)
         else if sz = 2 \<or> sz = 4 \<or> sz = 8 then order_get LittleEndian (take sz data)
         else order_get LittleEndian (take 8 (take sz data) @ zeros (8 - sz)))"

fun read_coords :: "bytes \<Rightarrow> u64 list \<Rightarrow> nat \<Rightarrow> u64 list result" where
  "read_coords data chunkDims 0 = Inr []"
| "read_coords data [] (Suc n) = Inl index_panic"
| "read_coords data (d # chunkDims) (Suc n) =
     (if d = 0 then Inl (Errorf ''chunk dimension %d is zero'')
      else case read_coords (drop 8 data) chunkDims n of
             Inl e \<Rightarrow> Inl e
           | Inr cs \<Rightarrow> Inr (order_get LittleEndian (take 8 data) div d # cs))"

definition read_key :: "bytes \<Rightarrow> u64 list \<Rightarrow> nat \<Rightarrow> ChunkKey result" where
  "read_key data chunkDims ndims =
     (if length data < 8 + ndims * 8 then Inl (Errorf ''b-tree data truncated reading key'')
      else case read_coords (drop 8 data) chunkDims ndims of
             Inl e \<Rightarrow> Inl e
           | Inr scaled \<Rightarrow>
               Inr \<lparr>ck_Scaled = scaled, ck_Nbytes = order_get LittleEndian (take 4 data),
                    ck_FilterMask = order_get LittleEndian (take 4 (drop 4 data))\<rparr>)"

fun read_keys_children :: "bytes \<Rightarrow> u64 list \<Rightarrow> nat \<Rightarrow> nat \<Rightarrow> nat \<Rightarrow> (ChunkKey list \<times> u64 list) result" where
  "read_keys_children data chunkDims ndims childSize 0 =
     (case read_key data chunkDims ndims of Inl e \<Rightarrow> Inl e | Inr key \<Rightarrow> Inr ([key], []))"
| "read_keys_children data chunkDims ndims childSize (Suc n) =
     (case read_key data chunkDims ndims of
        Inl e \<Rightarrow> Inl e
      | Inr key \<Rightarrow>
          let rest = drop (8 + ndims * 8) data
          in if length rest < childSize then Inl (Errorf ''b-tree data truncated reading child'')
             else case read_keys_children (drop childSize rest) chunkDims ndims childSize n of
                    Inl e \<Rightarrow> Inl e
                  | Inr (keys, children) \<Rightarrow> Inr (key # keys, core_readAddress rest childSize # children))"

text \<open>
  \<^verbatim>\<open>make([]ChunkKey, node.EntriesUsed+1)\<close> wraps for 65535 entries: the first key has no place to go.
\<close>

definition ParseBTreeV1Node :: "bytes \<Rightarrow> u64 \<Rightarrow> byte \<Rightarrow> nat \<Rightarrow> u64 list \<Rightarrow> BTreeV1Node result" where
  "ParseBTreeV1Node f address offsetSize ndims chunkDims =
     (let os = unat offsetSize; headerSize = 8 + os * 2
      in case ReadAt f headerSize address of
           Inl e \<Rightarrow> Inl (Wrapf ''failed to read B-tree node header: %w'' e)
         | Inr header \<Rightarrow>
             if take 4 header \<noteq> tree then Inl (Errorf ''invalid B-tree signature: %s'')
             else let entriesUsed = order_get LittleEndian (take 2 (drop 6 header)) :: u16;
                      node = \<lparr>nd_Signature = take 4 header, nd_NodeType = header ! 4, nd_NodeLevel = header ! 5,
                              nd_EntriesUsed = entriesUsed, nd_LeftSibling = core_readAddress (drop 8 header) os,
                              nd_RightSibling = core_readAddress (drop (8 + os) header) os, nd_Keys = [], nd_Children = []\<rparr>
                  in if entriesUsed = 0 then Inr node
                     else let keySize = 8 + ndims * 8; dataSize = unat entriesUsed * (keySize + os) + keySize
                          in case ReadAt f dataSize (address + of_nat headerSize) of
                               Inl e \<Rightarrow> Inl (Wrapf ''failed to read B-tree node data: %w'' e)
                             | Inr data \<Rightarrow>
                                 if entriesUsed = 0xFFFF
                                 then (case read_key data chunkDims ndims of Inl e \<Rightarrow> Inl e | Inr _ \<Rightarrow> Inl index_panic)
                                 else case read_keys_children data chunkDims ndims os (unat entriesUsed) of
                                        Inl e \<Rightarrow> Inl e
                                      | Inr (keys, children) \<Rightarrow> Inr (node\<lparr>nd_Keys := keys, nd_Children := children\<rparr>))"

fun compareCoords :: "u64 list \<Rightarrow> u64 list \<Rightarrow> int" where
  "compareCoords (a # as) (b # bs) = (if a < b then -1 else if a > b then 1 else compareCoords as bs)"
| "compareCoords _ _ = 0"

text \<open>For nodes as the parser makes them: with one key more than children.\<close>

definition child_index :: "BTreeV1Node \<Rightarrow> u64 list \<Rightarrow> nat" where
  "child_index node coords =
     length (takeWhile (\<lambda>key. \<not> compareCoords coords (ck_Scaled key) < 0) (take (unat (nd_EntriesUsed node)) (nd_Keys node)))"

partial_function (option) FindChunk :: "bytes \<Rightarrow> BTreeV1Node \<Rightarrow> u64 list \<Rightarrow> byte \<Rightarrow> u64 list \<Rightarrow> u64 result option" where
  "FindChunk f node coords offsetSize chunkDims =
     (let childIndex = child_index node coords
      in if childIndex \<ge> length (nd_Children node) then Some (Inl index_panic)
         else let childAddr = nd_Children node ! childIndex
              in if nd_NodeLevel node = 0 then Some (Inr childAddr)
                 else case ParseBTreeV1Node f childAddr offsetSize (length coords) chunkDims of
                        Inl e \<Rightarrow> Some (Inl e)
                      | Inr childNode \<Rightarrow> FindChunk f childNode coords offsetSize chunkDims)"

definition leaf_chunks :: "BTreeV1Node \<Rightarrow> ChunkEntry list" where
  "leaf_chunks node =
     map (\<lambda>(k, a). \<lparr>ce_Key = k, ce_Address = a\<rparr>) (zip (nd_Keys node) (take (unat (nd_EntriesUsed node)) (nd_Children node)))"

text \<open>Sequencing of calls that may not return: \<open>wrapper\<close> is what the caller makes of an error.\<close>

definition and_then :: "'a result option \<Rightarrow> (go_error \<Rightarrow> go_error) \<Rightarrow> ('a \<Rightarrow> 'b result option) \<Rightarrow> 'b result option" where
  "and_then m wrapper k =
     Option.bind m (\<lambda>r. case r of Inl e \<Rightarrow> Some (Inl (wrapper e)) | Inr x \<Rightarrow> k x)"

lemma and_then_simps [simp]:
  "and_then None wrapper k = None" "and_then (Some (Inl e)) wrapper k = Some (Inl (wrapper e))"
  "and_then (Some (Inr x)) wrapper k = k x"
  by (simp_all add: and_then_def)

lemma and_then_mono [partial_function_mono]:
  assumes "mono_option B" "\<And>y. mono_option (\<lambda>f. C y f)"
  shows "mono_option (\<lambda>f. and_then (B f) wrapper (\<lambda>y. C y f))"
  unfolding and_then_def
proof (rule bind_mono [OF assms(1)])
  fix r :: "'c result"
  show "mono_option (\<lambda>f. case r of Inl e \<Rightarrow> Some (Inl (wrapper e)) | Inr x \<Rightarrow> C x f)"
    using assms(2) by (cases r) (simp_all add: option.const_mono)
qed

partial_function (option) collect_children :: "(u64 \<Rightarrow> BTreeV1Node result) \<Rightarrow> u64 list \<Rightarrow> ChunkEntry list result option" where
  "collect_children parse children =
     (case children of
        [] \<Rightarrow> Some (Inr [])
      | childAddr # rest \<Rightarrow>
          (case parse childAddr of
             Inl e \<Rightarrow> Some (Inl (wrap ''failed to parse child node at 0x%x: %w'' e))
           | Inr childNode \<Rightarrow>
               and_then (if nd_NodeLevel childNode = 0 then Some (Inr (leaf_chunks childNode))
                         else collect_children parse (take (unat (nd_EntriesUsed childNode)) (nd_Children childNode)))
                 (wrap ''failed to collect chunks from child at 0x%x: %w'')
                 (\<lambda>childChunks. and_then (collect_children parse rest) id
                                  (\<lambda>chunks. Some (Inr (childChunks @ chunks))))))"

definition CollectAllChunks :: "bytes \<Rightarrow> BTreeV1Node \<Rightarrow> byte \<Rightarrow> u64 list \<Rightarrow> ChunkEntry list result option" where
  "CollectAllChunks f node offsetSize chunkDims =
     (if nd_NodeLevel node = 0 then Some (Inr (leaf_chunks node))
      else collect_children (\<lambda>childAddr. ParseBTreeV1Node f childAddr offsetSize (length chunkDims) chunkDims)
             (take (unat (nd_EntriesUsed node)) (nd_Children node)))"

section \<open>Writing the chunk B-tree\<close>

abbreviation chunkBTreeK :: nat where "chunkBTreeK \<equiv> 32"

record WriterChunkKey =
  wk_Coords :: "u64 list"
  wk_FilterMask :: u32
  wk_Nbytes :: u32

record ChunkBTreeNode =
  cn_Signature :: bytes
  cn_NodeType :: byte
  cn_NodeLevel :: byte
  cn_EntriesUsed :: u16
  cn_LeftSibling :: u64
  cn_RightSibling :: u64
  cn_Keys :: "WriterChunkKey list"
  cn_ChildAddrs :: "u64 list"

record ChunkBTreeEntry =
  en_Coordinate :: "u64 list"
  en_Address :: u64
  en_Nbytes :: u32

record ChunkBTreeWriter =
  cw_dimensionality :: nat
  cw_chunkDims :: "u64 list"
  cw_elementSize :: u32
  cw_entries :: "ChunkBTreeEntry list"

record internalChild =
  ic_addr :: u64
  ic_firstKey :: WriterChunkKey
  ic_lastKey :: WriterChunkKey

definition NewChunkBTreeWriter :: "nat \<Rightarrow> u64 list \<Rightarrow> u32 \<Rightarrow> ChunkBTreeWriter" where
  "NewChunkBTreeWriter dimensionality chunkDims elementSize =
     \<lparr>cw_dimensionality = dimensionality, cw_chunkDims = chunkDims, cw_elementSize = elementSize, cw_entries = []\<rparr>"

definition AddChunkWithSize :: "ChunkBTreeWriter \<Rightarrow> u64 list \<Rightarrow> u64 \<Rightarrow> u32 \<Rightarrow> ChunkBTreeWriter result" where
  "AddChunkWithSize cw coord address nbytes =
     (if length coord \<noteq> cw_dimensionality cw then Inl (Errorf ''coordinate dimensionality mismatch: expected %d, got %d'')
      else Inr (cw\<lparr>cw_entries := cw_entries cw @ [\<lparr>en_Coordinate = coord, en_Address = address, en_Nbytes = nbytes\<rparr>]\<rparr>))"

definition AddChunk :: "ChunkBTreeWriter \<Rightarrow> u64 list \<Rightarrow> u64 \<Rightarrow> ChunkBTreeWriter result" where
  "AddChunk cw coord address = AddChunkWithSize cw coord address 0"

fun compareChunkCoords :: "u64 list \<Rightarrow> u64 list \<Rightarrow> int" where
  "compareChunkCoords (a # as) (b # bs) = (if a < b then -1 else if a > b then 1 else compareChunkCoords as bs)"
| "compareChunkCoords _ _ = 0"

fun insert_entry :: "ChunkBTreeEntry \<Rightarrow> ChunkBTreeEntry list \<Rightarrow> ChunkBTreeEntry list" where
  "insert_entry e [] = [e]"
| "insert_entry e (x # xs) =
     (if compareChunkCoords (en_Coordinate x) (en_Coordinate e) < 0 then x # insert_entry e xs else e # x # xs)"

definition sort_entries :: "ChunkBTreeEntry list \<Rightarrow> ChunkBTreeEntry list" where
  "sort_entries es = foldr insert_entry es []"

definition disk_coord :: "u64 list \<Rightarrow> u64 list \<Rightarrow> nat \<Rightarrow> u64" where
  "disk_coord chunkDims coords j =
     (if j < length coords
      then (if coords ! j \<noteq> 0xFFFFFFFFFFFFFFFF \<and> j < length chunkDims then coords ! j * chunkDims ! j else coords ! j)
      else 0)"

definition key_bytes :: "nat \<Rightarrow> u64 list \<Rightarrow> WriterChunkKey \<Rightarrow> bytes" where
  "key_bytes onDiskDims chunkDims key =
     le_put 4 (wk_Nbytes key) @ le_put 4 (wk_FilterMask key)
     @ concat (map (\<lambda>j. le_put 8 (disk_coord chunkDims (wk_Coords key) j)) [0..<onDiskDims])"

fun interleave :: "nat \<Rightarrow> u64 list \<Rightarrow> WriterChunkKey list \<Rightarrow> u64 list \<Rightarrow> bytes" where
  "interleave onDiskDims chunkDims [] addrs = []"
| "interleave onDiskDims chunkDims (k # ks) [] = key_bytes onDiskDims chunkDims k @ interleave onDiskDims chunkDims ks []"
| "interleave onDiskDims chunkDims (k # ks) (a # as) =
     key_bytes onDiskDims chunkDims k @ le_put 8 a @ interleave onDiskDims chunkDims ks as"

definition node_size :: "nat \<Rightarrow> nat" where
  "node_size onDiskDims = 24 + 2 * chunkBTreeK * 8 + (2 * chunkBTreeK + 1) * (8 + onDiskDims * 8)"

text \<open>A node with more keys than the buffer has room for would index out of range.\<close>

definition serializeChunkBTreeNode :: "ChunkBTreeNode \<Rightarrow> nat \<Rightarrow> u64 list \<Rightarrow> bytes result" where
  "serializeChunkBTreeNode node onDiskDims chunkDims =
     (let content = cn_Signature node @ [cn_NodeType node, cn_NodeLevel node] @ le_put 2 (cn_EntriesUsed node)
            @ le_put 8 (cn_LeftSibling node) @ le_put 8 (cn_RightSibling node)
            @ interleave onDiskDims chunkDims (cn_Keys node) (cn_ChildAddrs node)
      in if length content > node_size onDiskDims then Inl index_panic
         else Inr (content @ zeros (node_size onDiskDims - length content)))"

definition sentinel :: "ChunkBTreeWriter \<Rightarrow> ChunkBTreeEntry list \<Rightarrow> WriterChunkKey" where
  "sentinel cw entries =
     \<lparr>wk_Coords = (let n = (if entries = [] then 0 else min (cw_dimensionality cw) (length (en_Coordinate (last entries))))
                   in map (\<lambda>c. c + 1) (take n (en_Coordinate (last entries))) @ replicate (cw_dimensionality cw + 1 - n) 0),
      wk_FilterMask = 0, wk_Nbytes = 0\<rparr>"

definition buildLeafNode :: "ChunkBTreeWriter \<Rightarrow> ChunkBTreeEntry list \<Rightarrow> u64 \<Rightarrow> u64 \<Rightarrow> ChunkBTreeNode" where
  "buildLeafNode cw entries leftSibling rightSibling =
     \<lparr>cn_Signature = tree, cn_NodeType = 1, cn_NodeLevel = 0, cn_EntriesUsed = of_nat (length entries),
      cn_LeftSibling = leftSibling, cn_RightSibling = rightSibling,
      cn_Keys = map (\<lambda>e. \<lparr>wk_Coords = en_Coordinate e, wk_FilterMask = 0, wk_Nbytes = en_Nbytes e\<rparr>) entries @ [sentinel cw entries],
      cn_ChildAddrs = map en_Address entries\<rparr>"

definition writeSingleLeaf :: "ChunkBTreeWriter \<Rightarrow> FileWriter \<Rightarrow> (u64 \<times> FileWriter) result" where
  "writeSingleLeaf cw w =
     (let onDiskDims = cw_dimensionality cw + 1;
          node = buildLeafNode cw (cw_entries cw) 0xFFFFFFFFFFFFFFFF 0xFFFFFFFFFFFFFFFF
      in case serializeChunkBTreeNode node onDiskDims (cw_chunkDims cw) of
           Inl e \<Rightarrow> Inl e
         | Inr buf \<Rightarrow>
             (case Allocate (fw_allocator w) (of_nat (length buf)) of
                Inl e \<Rightarrow> Inl (Wrapf ''failed to allocate space for B-tree: %w'' e)
              | Inr (addr, a) \<Rightarrow>
                  (case fw_WriteAtAddress (w\<lparr>fw_allocator := a\<rparr>) buf addr of
                     Inl e \<Rightarrow> Inl (Wrapf ''failed to write B-tree at address %d: %w'' e)
                   | Inr w \<Rightarrow> Inr (addr, w))))"

text \<open>The partition into groups of \<open>n\<close>, and the pass that allocates an address for each.\<close>

function groups_of :: "nat \<Rightarrow> 'a list \<Rightarrow> 'a list list" where
  "groups_of n xs = (if xs = [] \<or> n = 0 then [] else take n xs # groups_of n (drop n xs))"
  by auto
termination by (relation "measure (\<lambda>(n, xs). length xs)") auto

declare groups_of.simps [simp del]

fun allocate_nodes :: "string \<Rightarrow> FileWriter \<Rightarrow> u64 \<Rightarrow> nat \<Rightarrow> (u64 list \<times> FileWriter) result" where
  "allocate_nodes err w nodeSize 0 = Inr ([], w)"
| "allocate_nodes err w nodeSize (Suc n) =
     (case Allocate (fw_allocator w) nodeSize of
        Inl e \<Rightarrow> Inl (Wrapf err e)
      | Inr (addr, a) \<Rightarrow>
          (case allocate_nodes err (w\<lparr>fw_allocator := a\<rparr>) nodeSize n of
             Inl e \<Rightarrow> Inl e
           | Inr (addrs, w) \<Rightarrow> Inr (addr # addrs, w)))"

text \<open>
  The second pass: \<open>build\<close> makes the node of a group from its siblings, the address before and the one after.
\<close>

fun write_nodes :: "string \<Rightarrow> ChunkBTreeWriter \<Rightarrow> ('a \<Rightarrow> u64 \<Rightarrow> u64 \<Rightarrow> ChunkBTreeNode) \<Rightarrow> FileWriter \<Rightarrow> u64 \<Rightarrow> ('a \<times> u64) list
    \<Rightarrow> (internalChild list \<times> FileWriter) result" where
  "write_nodes err cw build w leftSib [] = Inr ([], w)"
| "write_nodes err cw build w leftSib ((grp, addr) # rest) =
     (let rightSib = (case rest of [] \<Rightarrow> 0xFFFFFFFFFFFFFFFF | (_, a) # _ \<Rightarrow> a);
          node = build grp leftSib rightSib
      in case serializeChunkBTreeNode node (cw_dimensionality cw + 1) (cw_chunkDims cw) of
           Inl e \<Rightarrow> Inl e
         | Inr buf \<Rightarrow>
             (case fw_WriteAtAddress w buf addr of
                Inl e \<Rightarrow> Inl (Wrapf err e)
              | Inr w \<Rightarrow>
                  (case write_nodes err cw build w addr rest of
                     Inl e \<Rightarrow> Inl e
                   | Inr (children, w) \<Rightarrow>
                       Inr (\<lparr>ic_addr = addr, ic_firstKey = hd (cn_Keys node), ic_lastKey = last (cn_Keys node)\<rparr> # children, w))))"

definition buildInternalNode :: "byte \<Rightarrow> internalChild list \<Rightarrow> u64 \<Rightarrow> u64 \<Rightarrow> ChunkBTreeNode" where
  "buildInternalNode level grp leftSib rightSib =
     \<lparr>cn_Signature = tree, cn_NodeType = 1, cn_NodeLevel = level, cn_EntriesUsed = of_nat (length grp),
      cn_LeftSibling = leftSib, cn_RightSibling = rightSib,
      cn_Keys = map ic_firstKey grp @ [ic_lastKey (last grp)], cn_ChildAddrs = map ic_addr grp\<rparr>"

definition writeInternalLevel ::
    "ChunkBTreeWriter \<Rightarrow> FileWriter \<Rightarrow> internalChild list \<Rightarrow> byte \<Rightarrow> u64 \<Rightarrow> (internalChild list \<times> FileWriter) result" where
  "writeInternalLevel cw w children level nodeSize =
     (let groups = groups_of (2 * chunkBTreeK) children
      in case allocate_nodes ''failed to allocate internal node level %d, node %d: %w'' w nodeSize (length groups) of
           Inl e \<Rightarrow> Inl e
         | Inr (nodeAddrs, w) \<Rightarrow>
             write_nodes ''failed to write internal node level %d, node %d at address %d: %w'' cw (buildInternalNode level) w
               0xFFFFFFFFFFFFFFFF (zip groups nodeAddrs))"

text \<open>
  The loop over the levels. Each level is shorter than the one below it (\<open>build_levels\<close> is total because
  the recursive call is made on a shorter list only; the other case cannot arise).
\<close>

function build_levels :: "ChunkBTreeWriter \<Rightarrow> FileWriter \<Rightarrow> internalChild list \<Rightarrow> byte \<Rightarrow> u64 \<Rightarrow> (u64 \<times> FileWriter) result" where
  "build_levels cw w children level nodeSize =
     (if length children > 1
      then (case writeInternalLevel cw w children level nodeSize of
              Inl e \<Rightarrow> Inl (wrap ''failed to build internal level %d: %w'' e)
            | Inr (children', w) \<Rightarrow>
                if length children' < length children then build_levels cw w children' (level + 1) nodeSize
                else Inl index_panic)
      else case children of [] \<Rightarrow> Inl index_panic | c # _ \<Rightarrow> Inr (ic_addr c, w))"
  by pat_completeness (elim Pair_inject, simp only:)
termination by (relation "measure (\<lambda>(_, _, children, _, _). length children)") simp_all

declare build_levels.simps [simp del]

definition buildMultiLevelTree :: "ChunkBTreeWriter \<Rightarrow> FileWriter \<Rightarrow> (u64 \<times> FileWriter) result" where
  "buildMultiLevelTree cw w =
     (let leafGroups = groups_of (2 * chunkBTreeK) (cw_entries cw);
          nodeSize = of_nat (node_size (cw_dimensionality cw + 1)) :: u64
      in case allocate_nodes ''failed to allocate leaf node %d: %w'' w nodeSize (length leafGroups) of
           Inl e \<Rightarrow> Inl e
         | Inr (leafAddrs, w) \<Rightarrow>
             (case write_nodes ''failed to write leaf node %d at address %d: %w'' cw (buildLeafNode cw) w
                     0xFFFFFFFFFFFFFFFF (zip leafGroups leafAddrs) of
                Inl e \<Rightarrow> Inl e
              | Inr (children, w) \<Rightarrow> build_levels cw w children 1 nodeSize))"

definition chunk_WriteToFile :: "ChunkBTreeWriter \<Rightarrow> FileWriter \<Rightarrow> (u64 \<times> ChunkBTreeWriter \<times> FileWriter) result" where
  "chunk_WriteToFile cw w =
     (if length (cw_entries cw) = 0 then Inl (Errorf ''no chunks to write (empty B-tree)'')
      else let cw = cw\<lparr>cw_entries := sort_entries (cw_entries cw)\<rparr>
           in case (if length (cw_entries cw) \<le> 2 * chunkBTreeK then writeSingleLeaf cw w else buildMultiLevelTree cw w) of
                Inl e \<Rightarrow> Inl e
              | Inr (addr, w) \<Rightarrow> Inr (addr, cw, w))"

section \<open>Reading back a node\<close>

lemma length_key_bytes [simp]: "length (key_bytes d cd k) = 8 + d * 8"
proof -
  have "length (concat (map (\<lambda>j. le_put 8 (disk_coord cd (wk_Coords k) j)) [0..<d])) = 8 * length [0..<d]"
    by (rule length_concat_const) simp
  then show ?thesis by (simp add: key_bytes_def del: le_put_numeral)
qed

lemma length_interleave:
  "length ks = Suc (length as) \<Longrightarrow> length (interleave d cd ks as) = length as * (8 + d * 8 + 8) + (8 + d * 8)"
proof (induction as arbitrary: ks)
  case Nil
  then obtain k where "ks = [k]" by (auto simp: length_Suc_conv)
  then show ?case by simp
next
  case (Cons a as)
  then obtain k ks' where "ks = k # ks'" "length ks' = Suc (length as)" by (auto simp: length_Suc_conv)
  then show ?case using Cons.IH [of ks'] by (simp del: le_put_numeral)
qed

lemma read_coords_written:
  "length dims = length xs \<Longrightarrow> 0 \<notin> set dims \<Longrightarrow>
   read_coords (concat (map (\<lambda>x. le_put 8 (g x)) xs) @ rest) dims (length xs) = Inr (map2 (\<lambda>x d. g x div d) xs dims)"
proof (induction xs arbitrary: dims)
  case Nil
  then show ?case by simp
next
  case (Cons x xs)
  then obtain d dims' where "dims = d # dims'" by (cases dims) auto
  then show ?case using Cons.IH [of dims'] Cons.prems by (auto simp del: le_put_numeral)
qed

definition decoded :: "u64 list \<Rightarrow> u64 list \<Rightarrow> WriterChunkKey \<Rightarrow> ChunkKey" where
  "decoded cd dims k =
     \<lparr>ck_Scaled = map2 (\<lambda>j d. disk_coord cd (wk_Coords k) j div d) [0..<length dims] dims,
      ck_Nbytes = wk_Nbytes k, ck_FilterMask = wk_FilterMask k\<rparr>"

lemma read_key_written:
  assumes "0 \<notin> set dims"
  shows "read_key (key_bytes (length dims) cd k @ rest) dims (length dims) = Inr (decoded cd dims k)"
proof -
  let ?c = "concat (map (\<lambda>j. le_put 8 (disk_coord cd (wk_Coords k) j)) [0..<length dims])"
  have "length ?c = length dims * 8" using length_key_bytes [of "length dims" cd k] by (simp add: key_bytes_def del: le_put_numeral length_key_bytes)
  then show ?thesis using read_coords_written [of dims "[0..<length dims]" "disk_coord cd (wk_Coords k)" rest] assms
    by (simp add: read_key_def decoded_def key_bytes_def del: le_put_numeral)
qed

lemma core_readAddress_8: "core_readAddress (le_put 8 a @ rest) 8 = a"
  by (simp add: core_readAddress_def del: le_put_numeral)

lemma read_keys_children_written:
  assumes "length ks = Suc (length as)" "0 \<notin> set dims"
  shows "read_keys_children (interleave (length dims) cd ks as @ rest) dims (length dims) 8 (length as)
     = Inr (map (decoded cd dims) ks, as)"
  using assms(1)
proof (induction as arbitrary: ks)
  case Nil
  then obtain k where "ks = [k]" by (auto simp: length_Suc_conv)
  then show ?case using read_key_written [OF assms(2)] by simp
next
  case (Cons a as)
  then obtain k ks' where ks: "ks = k # ks'" "length ks' = Suc (length as)" by (auto simp: length_Suc_conv)
  let ?t = "interleave (length dims) cd ks' as @ rest"
  have d: "drop (8 + length dims * 8) (key_bytes (length dims) cd k @ le_put 8 a @ ?t) = le_put 8 a @ ?t" by simp
  show ?case using Cons.IH [OF ks(2)] read_key_written [OF assms(2), of cd k "le_put 8 a @ ?t"] d core_readAddress_8 [of a ?t]
    by (simp add: ks(1) Let_def del: le_put_numeral)
qed

definition node_ok :: "ChunkBTreeNode \<Rightarrow> bool" where
  "node_ok node \<longleftrightarrow> cn_Signature node = tree \<and> cn_EntriesUsed node = of_nat (length (cn_ChildAddrs node))
     \<and> length (cn_Keys node) = Suc (length (cn_ChildAddrs node)) \<and> 0 < length (cn_ChildAddrs node) \<and> length (cn_ChildAddrs node) \<le> 64"

definition as_read :: "u64 list \<Rightarrow> u64 list \<Rightarrow> ChunkBTreeNode \<Rightarrow> BTreeV1Node" where
  "as_read cd dims node =
     \<lparr>nd_Signature = tree, nd_NodeType = cn_NodeType node, nd_NodeLevel = cn_NodeLevel node, nd_EntriesUsed = cn_EntriesUsed node,
      nd_LeftSibling = cn_LeftSibling node, nd_RightSibling = cn_RightSibling node,
      nd_Keys = map (decoded cd dims) (cn_Keys node), nd_Children = cn_ChildAddrs node\<rparr>"

lemma serialize_ok:
  assumes "node_ok node"
  shows "\<exists>hd pad. serializeChunkBTreeNode node d cd = Inr (hd @ interleave d cd (cn_Keys node) (cn_ChildAddrs node) @ pad)
     \<and> hd = tree @ [cn_NodeType node, cn_NodeLevel node] @ le_put 2 (cn_EntriesUsed node) @ le_put 8 (cn_LeftSibling node) @ le_put 8 (cn_RightSibling node)
     \<and> length (hd @ interleave d cd (cn_Keys node) (cn_ChildAddrs node) @ pad) = node_size d"
proof -
  let ?n = "length (cn_ChildAddrs node)"
  define hd where "hd = tree @ [cn_NodeType node, cn_NodeLevel node] @ le_put 2 (cn_EntriesUsed node) @ le_put 8 (cn_LeftSibling node) @ le_put 8 (cn_RightSibling node)"
  let ?i = "interleave d cd (cn_Keys node) (cn_ChildAddrs node)"
  have lh: "length hd = 24" by (simp add: hd_def del: le_put_numeral)
  have li: "length ?i = ?n * (8 + d * 8 + 8) + (8 + d * 8)" using assms by (intro length_interleave) (simp add: node_ok_def)
  have "?n * (8 + d * 8 + 8) \<le> 64 * (8 + d * 8 + 8)" using assms by (intro mult_right_mono) (simp_all add: node_ok_def)
  then have le: "length (hd @ ?i) \<le> node_size d" using lh li by (simp add: node_size_def)
  have c: "cn_Signature node @ [cn_NodeType node, cn_NodeLevel node] @ le_put 2 (cn_EntriesUsed node) @ le_put 8 (cn_LeftSibling node)
      @ le_put 8 (cn_RightSibling node) @ ?i = hd @ ?i" using assms by (simp add: hd_def node_ok_def del: le_put_numeral)
  have "serializeChunkBTreeNode node d cd = Inr (hd @ ?i @ zeros (node_size d - length (hd @ ?i)))"
    unfolding serializeChunkBTreeNode_def Let_def c using le by simp
  then show ?thesis using le hd_def by (intro exI [of _ hd] exI [of _ "zeros (node_size d - length (hd @ ?i))"]) simp
qed

lemma ParseBTreeV1Node_written:
  assumes ok: "node_ok node" and dims: "0 \<notin> set dims" and ser: "serializeChunkBTreeNode node (length dims) cd = Inr buf"
    and held: "holds_at f (unat addr) buf" and room: "unat addr + length buf < 2 ^ 63"
  shows "ParseBTreeV1Node f addr 8 (length dims) dims = Inr (as_read cd dims node)"
proof -
  let ?n = "length (cn_ChildAddrs node)" and ?d = "length dims"
  let ?i = "interleave ?d cd (cn_Keys node) (cn_ChildAddrs node)"
  obtain hd pad where b: "buf = hd @ ?i @ pad" "length buf = node_size ?d"
    and hd: "hd = tree @ [cn_NodeType node, cn_NodeLevel node] @ le_put 2 (cn_EntriesUsed node) @ le_put 8 (cn_LeftSibling node) @ le_put 8 (cn_RightSibling node)"
    using serialize_ok [OF ok, of ?d cd] ser by auto
  have lh: "length hd = 24" by (simp add: hd del: le_put_numeral)
  have li: "length ?i = ?n * (8 + ?d * 8 + 8) + (8 + ?d * 8)" using ok by (intro length_interleave) (simp add: node_ok_def)
  have h: "holds_at f (unat addr) hd" "holds_at f (unat addr + 24) ?i"
    using held unfolding b(1) holds_at_append [of f _ hd] holds_at_append [of f _ ?i] lh by simp_all
  have le: "24 + length ?i \<le> length buf" using b(1) lh by simp
  have u: "unat (addr + 24) = unat addr + 24" using room le by (subst unat_add_small) simp_all
  have r1: "ReadAt f 24 addr = Inr hd" by (rule ReadAt_holds [OF h(1) refl]) (use room le lh in simp_all)
  have r2: "ReadAt f (?n * (8 + ?d * 8 + 8) + (8 + ?d * 8)) (addr + 24) = Inr ?i"
    by (rule ReadAt_holds [OF h(2) u]) (use room le li in simp_all)
  have n: "?n \<le> 64" "0 < ?n" "cn_EntriesUsed node = of_nat ?n" using ok by (simp_all add: node_ok_def)
  have un: "unat (cn_EntriesUsed node) = ?n" unfolding n(3) using n(1) by (intro unat_of_nat_less) simp
  have nz: "cn_EntriesUsed node \<noteq> 0" "cn_EntriesUsed node \<noteq> 0xFFFF" using un n(1,2) by auto
  have fields: "take 4 hd = tree" "hd ! 4 = cn_NodeType node" "hd ! 5 = cn_NodeLevel node"
    "order_get LittleEndian (take 2 (drop 6 hd)) = cn_EntriesUsed node"
    "core_readAddress (drop 8 hd) 8 = cn_LeftSibling node" "core_readAddress (drop 16 hd) 8 = cn_RightSibling node"
    unfolding hd using core_readAddress_8 [of "cn_LeftSibling node" "le_put 8 (cn_RightSibling node)"] core_readAddress_8 [of "cn_RightSibling node" "[]"]
    by (simp_all del: le_put_numeral)
  have rk: "read_keys_children ?i dims ?d 8 ?n = Inr (map (decoded cd dims) (cn_Keys node), cn_ChildAddrs node)"
    using read_keys_children_written [OF _ dims, of "cn_Keys node" "cn_ChildAddrs node" cd "[]"] ok by (simp add: node_ok_def)
  show ?thesis
    unfolding ParseBTreeV1Node_def as_read_def using nz
    by (simp add: r1 fields Let_def un rk del: order_get.simps) (simp add: r2 [simplified] rk un)
qed

section \<open>Trees in the file\<close>

text \<open>
  \<open>chunk_tree S cw addr es\<close>: at \<open>addr\<close> stands the root of a tree, as the writer builds it, over the entries
  \<open>es\<close>. \<open>S\<close> tells which bytes stand at which address.
\<close>

inductive chunk_tree :: "(u64 \<Rightarrow> bytes \<Rightarrow> bool) \<Rightarrow> ChunkBTreeWriter \<Rightarrow> u64 \<Rightarrow> ChunkBTreeEntry list \<Rightarrow> bool" for S cw where
  leaf: "\<lbrakk> S addr buf; serializeChunkBTreeNode (buildLeafNode cw es l r) (cw_dimensionality cw + 1) (cw_chunkDims cw) = Inr buf;
          es \<noteq> []; length es \<le> 64 \<rbrakk> \<Longrightarrow> chunk_tree S cw addr es"
| internal: "\<lbrakk> S addr buf; serializeChunkBTreeNode (buildInternalNode lv cs l r) (cw_dimensionality cw + 1) (cw_chunkDims cw) = Inr buf;
          lv \<noteq> 0; cs \<noteq> []; length cs \<le> 64; length ess = length cs; \<forall>i < length cs. chunk_tree S cw (ic_addr (cs ! i)) (ess ! i) \<rbrakk>
        \<Longrightarrow> chunk_tree S cw addr (concat ess)"

lemma build_ok:
  "es \<noteq> [] \<Longrightarrow> length es \<le> 64 \<Longrightarrow> node_ok (buildLeafNode cw es l r)"
  "cs \<noteq> [] \<Longrightarrow> length cs \<le> 64 \<Longrightarrow> node_ok (buildInternalNode lv cs l r)"
  by (simp_all add: node_ok_def buildLeafNode_def buildInternalNode_def)

lemma serialize_length:
  assumes "node_ok node" "serializeChunkBTreeNode node d cd = Inr buf"
  shows "length buf = node_size d" "buf \<noteq> []"
proof -
  show "length buf = node_size d" using serialize_ok [OF assms(1), of d cd] assms(2) by auto
  then show "buf \<noteq> []" by (auto simp: node_size_def)
qed

lemma chunk_tree_mono:
  "chunk_tree S cw addr es \<Longrightarrow> (\<And>a b. S a b \<Longrightarrow> b \<noteq> [] \<Longrightarrow> T a b) \<Longrightarrow> chunk_tree T cw addr es"
proof (induction rule: chunk_tree.induct)
  case (leaf addr buf es l r)
  have "buf \<noteq> []" by (rule serialize_length(2) [OF build_ok(1) leaf(2)]) (use leaf in simp_all)
  then show ?case using leaf by (intro chunk_tree.leaf [of T addr buf]) auto
next
  case (internal addr buf lv cs l r ess)
  have "buf \<noteq> []" by (rule serialize_length(2) [OF build_ok(2) internal(2)]) (use internal in simp_all)
  then show ?case using internal by (intro chunk_tree.internal [of T addr buf lv]) auto
qed

text \<open>The entry as the reader returns it; coordinates whose byte offset fits 64 bits survive.\<close>

definition entry_chunk :: "ChunkBTreeEntry \<Rightarrow> ChunkEntry" where
  "entry_chunk e = \<lparr>ce_Key = \<lparr>ck_Scaled = en_Coordinate e @ [0], ck_Nbytes = en_Nbytes e, ck_FilterMask = 0\<rparr>, ce_Address = en_Address e\<rparr>"

definition coords_ok :: "ChunkBTreeWriter \<Rightarrow> ChunkBTreeEntry \<Rightarrow> bool" where
  "coords_ok cw e \<longleftrightarrow> length (en_Coordinate e) = cw_dimensionality cw
     \<and> (\<forall>i < cw_dimensionality cw. unat (en_Coordinate e ! i) * unat (cw_chunkDims cw ! i) < 2 ^ 64)"

lemma mult_div_exact:
  fixes c d :: u64
  assumes "unat c * unat d < 2 ^ 64" "d \<noteq> 0"
  shows "c * d div d = c"
proof -
  have "unat (c * d) = unat c * unat d" using assms(1) by (intro unat_mult_lem [THEN iffD1]) simp
  moreover have "unat d \<noteq> 0" using assms(2) by (simp add: unat_eq_zero)
  ultimately have "unat (c * d div d) = unat c" by (simp add: unat_div)
  then show ?thesis by (rule unat_eqD)
qed

lemma decoded_entry:
  assumes "coords_ok cw e" "length (cw_chunkDims cw) = cw_dimensionality cw" "0 \<notin> set (cw_chunkDims cw)" "el \<noteq> 0"
  shows "ck_Scaled (decoded (cw_chunkDims cw) (cw_chunkDims cw @ [el]) \<lparr>wk_Coords = en_Coordinate e, wk_FilterMask = fm, wk_Nbytes = nb\<rparr>)
     = en_Coordinate e @ [0]"
proof (rule nth_equalityI)
  let ?l = "ck_Scaled (decoded (cw_chunkDims cw) (cw_chunkDims cw @ [el]) \<lparr>wk_Coords = en_Coordinate e, wk_FilterMask = fm, wk_Nbytes = nb\<rparr>)"
  show len: "length ?l = length (en_Coordinate e @ [0])" using assms by (simp add: decoded_def coords_ok_def)
  fix i assume "i < length ?l"
  then have i: "i < Suc (cw_dimensionality cw)" using len assms(1) by (simp add: coords_ok_def)
  have l: "?l ! i = disk_coord (cw_chunkDims cw) (en_Coordinate e) i div ((cw_chunkDims cw @ [el]) ! i)"
  proof -
    have "i < length (cw_chunkDims cw @ [el])" using i assms(2) by simp
    then show ?thesis by (simp add: decoded_def del: length_append)
  qed
  show "?l ! i = (en_Coordinate e @ [0]) ! i"
  proof (cases "i < cw_dimensionality cw")
    case True
    let ?c = "en_Coordinate e ! i" and ?d = "cw_chunkDims cw ! i"
    have nz: "?d \<noteq> 0" using assms(2,3) True by (metis nth_mem)
    have fit: "unat ?c * unat ?d < 2 ^ 64" using assms(1) True by (simp add: coords_ok_def)
    have "disk_coord (cw_chunkDims cw) (en_Coordinate e) i = ?c * ?d"
    proof (cases "?c = 0xFFFFFFFFFFFFFFFF")
      case True': True
      then have "unat ?d \<le> 1" using fit by (simp add: True')
      then have "?d = 1" using nz by (metis One_nat_def le_Suc_eq le_zero_eq unat_1 unat_eq_zero word_unat_eq_iff)
      then show ?thesis using True assms(1,2) by (simp add: disk_coord_def coords_ok_def)
    qed (use True assms(1,2) in \<open>simp add: disk_coord_def coords_ok_def\<close>)
    then show ?thesis using l True assms(1,2) mult_div_exact [OF fit nz] by (simp add: nth_append coords_ok_def)
  next
    case False
    then have "i = cw_dimensionality cw" using i by simp
    then show ?thesis using l assms(1,2) by (simp add: nth_append coords_ok_def disk_coord_def)
  qed
qed

lemma leaf_chunks_read:
  assumes "\<forall>e\<in>set es. coords_ok cw e" "length (cw_chunkDims cw) = cw_dimensionality cw" "0 \<notin> set (cw_chunkDims cw)" "el \<noteq> 0"
    "length es \<le> 64"
  shows "leaf_chunks (as_read (cw_chunkDims cw) (cw_chunkDims cw @ [el]) (buildLeafNode cw es l r)) = map entry_chunk es"
proof (rule nth_equalityI)
  let ?n = "as_read (cw_chunkDims cw) (cw_chunkDims cw @ [el]) (buildLeafNode cw es l r)"
  have u: "unat (of_nat (length es) :: u16) = length es" using assms(5) by (intro unat_of_nat_less) simp
  show len: "length (leaf_chunks ?n) = length (map entry_chunk es)"
    by (simp add: leaf_chunks_def as_read_def buildLeafNode_def u)
  fix i assume "i < length (leaf_chunks ?n)"
  then have i: "i < length es" using len by simp
  have "coords_ok cw (es ! i)" using assms(1) i by simp
  from decoded_entry [OF this assms(2-4), of 0 "en_Nbytes (es ! i)"]
  show "leaf_chunks ?n ! i = map entry_chunk es ! i"
    using i by (simp add: leaf_chunks_def as_read_def buildLeafNode_def u entry_chunk_def decoded_def nth_append)
qed

lemma collect_children_concat:
  assumes "length ess = length as"
    "\<forall>i < length as. \<exists>node. parse (as ! i) = Inr node \<and> (if nd_NodeLevel node = 0 then Some (Inr (leaf_chunks node))
         else collect_children parse (take (unat (nd_EntriesUsed node)) (nd_Children node))) = Some (Inr (ess ! i))"
  shows "collect_children parse as = Some (Inr (concat ess))"
  using assms
proof (induction as arbitrary: ess)
  case Nil
  then show ?case by (simp add: collect_children.simps)
next
  case (Cons a as)
  then obtain e ess' where ess: "ess = e # ess'" "length ess' = length as" by (cases ess) auto
  obtain node where node: "parse a = Inr node" "(if nd_NodeLevel node = 0 then Some (Inr (leaf_chunks node))
         else collect_children parse (take (unat (nd_EntriesUsed node)) (nd_Children node))) = Some (Inr e)"
    using Cons.prems(2) ess(1) by force
  have "collect_children parse as = Some (Inr (concat ess'))"
  proof (rule Cons.IH [OF ess(2)], intro allI impI)
    fix i assume "i < length as"
    then show "\<exists>node. parse (as ! i) = Inr node \<and> (if nd_NodeLevel node = 0 then Some (Inr (leaf_chunks node))
         else collect_children parse (take (unat (nd_EntriesUsed node)) (nd_Children node))) = Some (Inr (ess' ! i))"
      using Cons.prems(2) [rule_format, of "Suc i"] ess(1) by simp
  qed
  then show ?case using node ess(1) by (subst collect_children.simps) simp
qed

text \<open>The reader returns the entries of the tree, in order, and it ends.\<close>

lemma collect_chunk_tree:
  assumes dims: "length (cw_chunkDims cw) = cw_dimensionality cw" "0 \<notin> set (cw_chunkDims cw)" "el \<noteq> 0"
    and S: "\<And>a b. S a b \<Longrightarrow> holds_at f (unat a) b \<and> unat a + length b < 2 ^ 63"
  shows "chunk_tree S cw addr es \<Longrightarrow> \<forall>e\<in>set es. coords_ok cw e \<Longrightarrow>
    \<exists>node. ParseBTreeV1Node f addr 8 (length (cw_chunkDims cw @ [el])) (cw_chunkDims cw @ [el]) = Inr node
      \<and> CollectAllChunks f node 8 (cw_chunkDims cw @ [el]) = Some (Inr (map entry_chunk es))"
proof (induction rule: chunk_tree.induct)
  case (leaf addr buf es l r)
  let ?d = "cw_chunkDims cw @ [el]"
  have l: "length ?d = cw_dimensionality cw + 1" using dims(1) by simp
  have z: "0 \<notin> set ?d" using dims by simp
  have "ParseBTreeV1Node f addr 8 (length ?d) ?d = Inr (as_read (cw_chunkDims cw) ?d (buildLeafNode cw es l r))"
    using leaf S unfolding l [symmetric] by (intro ParseBTreeV1Node_written [OF build_ok(1) z]) blast+
  moreover have "leaf_chunks (as_read (cw_chunkDims cw) ?d (buildLeafNode cw es l r)) = map entry_chunk es"
    using leaf by (intro leaf_chunks_read [OF _ dims]) simp_all
  ultimately show ?case by (simp add: CollectAllChunks_def as_read_def buildLeafNode_def)
next
  case (internal addr buf lv cs l r ess)
  let ?d = "cw_chunkDims cw @ [el]"
  have l: "length ?d = cw_dimensionality cw + 1" using dims(1) by simp
  have z: "0 \<notin> set ?d" using dims by simp
  have p: "ParseBTreeV1Node f addr 8 (length ?d) ?d = Inr (as_read (cw_chunkDims cw) ?d (buildInternalNode lv cs l r))"
    using internal(1-5) S unfolding l [symmetric] by (intro ParseBTreeV1Node_written [OF build_ok(2) z]) blast+
  have ch: "\<exists>node. ParseBTreeV1Node f (map ic_addr cs ! i) 8 (length ?d) ?d = Inr node
      \<and> (if nd_NodeLevel node = 0 then Some (Inr (leaf_chunks node))
         else collect_children (\<lambda>a. ParseBTreeV1Node f a 8 (length ?d) ?d) (take (unat (nd_EntriesUsed node)) (nd_Children node)))
        = Some (Inr (map (map entry_chunk) ess ! i))" if i: "i < length (map ic_addr cs)" for i
  proof -
    have "\<forall>e\<in>set (ess ! i). coords_ok cw e" using internal(8) internal(6) i by auto
    then show ?thesis using internal(7) internal(6) i unfolding CollectAllChunks_def by auto
  qed
  have "collect_children (\<lambda>a. ParseBTreeV1Node f a 8 (length ?d) ?d) (map ic_addr cs) = Some (Inr (concat (map (map entry_chunk) ess)))"
    using ch internal(6) by (intro collect_children_concat) auto
  moreover have "unat (of_nat (length cs) :: u16) = length cs" using internal(5) by (intro unat_of_nat_less) simp
  ultimately show ?case using p internal(3)
    by (simp add: CollectAllChunks_def as_read_def buildInternalNode_def map_concat)
qed

section \<open>Writing a tree\<close>

lemma groups_of_concat: "0 < n \<Longrightarrow> concat (groups_of n xs) = xs"
  by (induction n xs rule: groups_of.induct) (subst groups_of.simps, simp)

lemma groups_of_member: "g \<in> set (groups_of n xs) \<Longrightarrow> g \<noteq> [] \<and> length g \<le> n \<and> set g \<subseteq> set xs"
proof (induction n xs rule: groups_of.induct)
  case (1 n xs)
  show ?case
  proof (cases "xs = [] \<or> n = 0")
    case True
    then show ?thesis using "1.prems" by (simp add: groups_of.simps)
  next
    case False
    then have "g = take n xs \<or> g \<in> set (groups_of n (drop n xs))" using "1.prems" by (subst (asm) groups_of.simps) simp
    then show ?thesis
    proof
      assume "g = take n xs"
      then show ?thesis using False by (simp add: set_take_subset)
    next
      assume "g \<in> set (groups_of n (drop n xs))"
      then show ?thesis using "1.IH" [OF False] set_drop_subset [of n xs] by blast
    qed
  qed
qed

text \<open>Partitions of two lists of the same length go in step.\<close>

lemma groups_of_parallel:
  "length xs = length ys \<Longrightarrow> length (groups_of n xs) = length (groups_of n ys)
     \<and> (\<forall>i < length (groups_of n xs). length (groups_of n xs ! i) = length (groups_of n ys ! i)
         \<and> (\<forall>j < length (groups_of n xs ! i). \<exists>k < length xs. groups_of n xs ! i ! j = xs ! k \<and> groups_of n ys ! i ! j = ys ! k))"
proof (induction n xs arbitrary: ys rule: groups_of.induct)
  case (1 n xs)
  show ?case
  proof (cases "xs = [] \<or> n = 0")
    case True
    then show ?thesis using "1.prems" by (auto simp: groups_of.simps)
  next
    case False
    let ?gx = "groups_of n (drop n xs)" and ?gy = "groups_of n (drop n ys)"
    have g: "groups_of n xs = take n xs # ?gx" "groups_of n ys = take n ys # ?gy"
      using False "1.prems" by (subst groups_of.simps, auto)+
    have IH: "length ?gx = length ?gy" "\<And>i. i < length ?gx \<Longrightarrow> length (?gx ! i) = length (?gy ! i)"
      "\<And>i j. i < length ?gx \<Longrightarrow> j < length (?gx ! i) \<Longrightarrow> \<exists>k < length (drop n xs). ?gx ! i ! j = drop n xs ! k \<and> ?gy ! i ! j = drop n ys ! k"
      using "1.IH" [OF False, of "drop n ys"] "1.prems" by auto
    have step: "length (groups_of n xs ! i) = length (groups_of n ys ! i)
         \<and> (\<forall>j < length (groups_of n xs ! i). \<exists>k < length xs. groups_of n xs ! i ! j = xs ! k \<and> groups_of n ys ! i ! j = ys ! k)"
      if i: "i < length (groups_of n xs)" for i
    proof (cases i)
      case 0
      then show ?thesis using "1.prems" by (auto simp: g)
    next
      case (Suc i')
      have "\<exists>k < length xs. ?gx ! i' ! j = xs ! k \<and> ?gy ! i' ! j = ys ! k" if j: "j < length (?gx ! i')" for j
      proof -
        have "i' < length ?gx" using i Suc g(1) by simp
        from IH(3) [OF this j] obtain k where "k < length (drop n xs)" "?gx ! i' ! j = drop n xs ! k" "?gy ! i' ! j = drop n ys ! k" by blast
        then show ?thesis using "1.prems" by (intro exI [of _ "n + k"]) auto
      qed
      then show ?thesis using i Suc IH(2) by (auto simp: g)
    qed
    then show ?thesis using IH(1) by (simp add: g)
  qed
qed

lemma length_groups_of: "0 < n \<Longrightarrow> length (groups_of n xs) = (length xs + n - 1) div n"
proof (induction n xs rule: groups_of.induct)
  case (1 n xs)
  show ?case
  proof (cases "xs = []")
    case True
    then show ?thesis using "1.prems" by (simp add: groups_of.simps)
  next
    case False
    then have ne: "\<not> (xs = [] \<or> n = 0)" using "1.prems" by simp
    have IH: "length (groups_of n (drop n xs)) = (length (drop n xs) + n - 1) div n" by (rule "1.IH" [OF ne "1.prems"])
    have "groups_of n xs = take n xs # groups_of n (drop n xs)" using ne by (simp add: groups_of.simps [of n xs])
    then have "length (groups_of n xs) = Suc ((length xs - n + n - 1) div n)" using IH by simp
    also have "\<dots> = (length xs + n - 1) div n"
    proof (cases "n \<le> length xs")
      case True
      then have "length xs + n - 1 = (length xs - n + n - 1) + n" using "1.prems" False by simp
      then have "(length xs + n - 1) div n = ((length xs - n + n - 1) + n) div n" by (rule arg_cong)
      also have "\<dots> = (length xs - n + n - 1) div n + 1" using "1.prems" by (intro div_add_self2) simp
      finally show ?thesis by simp
    next
      case f: False
      have "(length xs + n - 1) div n = 1" using f False "1.prems" by (intro div_nat_eqI) (cases xs; simp)+
      moreover have "(length xs - n + n - 1) div n = 0" using f "1.prems" by simp
      ultimately show ?thesis by simp
    qed
    finally show ?thesis .
  qed
qed

abbreviation apart :: "u64 \<Rightarrow> u64 \<Rightarrow> u64 \<Rightarrow> bool" where
  "apart sz a b \<equiv> extent a sz \<inter> extent b sz = {}"

lemma allocate_nodes_effect:
  assumes "writer_ok w" "sz \<noteq> 0" "unat (nextOffset (fw_allocator w)) + n * unat sz < 2 ^ 63"
  shows "\<exists>addrs w'. allocate_nodes err w sz n = Inr (addrs, w') \<and> writer_ok w' \<and> fw_file w' = fw_file w \<and> length addrs = n
     \<and> (\<forall>a\<in>set addrs. extent a sz \<subseteq> used (fw_allocator w') - used (fw_allocator w) \<and> unat a + unat sz < 2 ^ 63)
     \<and> sorted_wrt (apart sz) addrs \<and> used (fw_allocator w) \<subseteq> used (fw_allocator w')
     \<and> unat (nextOffset (fw_allocator w')) \<le> unat (nextOffset (fw_allocator w)) + n * unat sz"
  using assms
proof (induction n arbitrary: w)
  case 0
  then show ?case by simp
next
  case (Suc n)
  have room: "unat (nextOffset (fw_allocator w)) + unat sz < 2 ^ 63" using Suc.prems(3) by simp
  from allocate_effect [OF Suc.prems(1,2) room] obtain addr a where
    a: "Allocate (fw_allocator w) sz = Inr (addr, a)" "writer_ok (w\<lparr>fw_allocator := a\<rparr>)" "unat addr + unat sz < 2 ^ 63" by blast
  have inv: "alloc_inv (fw_allocator w)" using Suc.prems(1) by (simp add: writer_ok_def)
  have law: "extent addr sz \<inter> used (fw_allocator w) = {}" "used a = used (fw_allocator w) \<union> extent addr sz"
    "unat (nextOffset a) \<le> unat (nextOffset (fw_allocator w)) + unat sz"
    using hdf5_alloc.alloc_law [OF inv _ a(1)] room by auto
  obtain addrs w' where w': "allocate_nodes err (w\<lparr>fw_allocator := a\<rparr>) sz n = Inr (addrs, w')" "writer_ok w'" "fw_file w' = fw_file w"
      "length addrs = n" "\<forall>b\<in>set addrs. extent b sz \<subseteq> used (fw_allocator w') - used a \<and> unat b + unat sz < 2 ^ 63"
      "sorted_wrt (apart sz) addrs" "used a \<subseteq> used (fw_allocator w')"
      "unat (nextOffset (fw_allocator w')) \<le> unat (nextOffset a) + n * unat sz"
    using Suc.IH [OF a(2) Suc.prems(2)] law(3) Suc.prems(3) by auto
  have "\<forall>b\<in>set addrs. apart sz addr b" using w'(5) law(2) by blast
  moreover have "\<forall>b\<in>set (addr # addrs). extent b sz \<subseteq> used (fw_allocator w') - used (fw_allocator w) \<and> unat b + unat sz < 2 ^ 63"
    using w'(5,7) law(1,2) a(3) by auto
  moreover have "unat (nextOffset (fw_allocator w')) \<le> unat (nextOffset (fw_allocator w)) + Suc n * unat sz"
    using w'(8) law(3) by simp
  ultimately show ?case using a(1) w' law(2) by simp
qed

lemma write_nodes_effect:
  assumes "writer_ok w" "\<forall>(g, a)\<in>set ps. extent a sz \<subseteq> used (fw_allocator w) \<and> unat a + unat sz < 2 ^ 63"
    "sorted_wrt (apart sz) (map snd ps)" "unat sz = node_size (cw_dimensionality cw + 1)"
    "\<forall>(g, a)\<in>set ps. \<forall>l r. node_ok (build g l r)"
  shows "\<exists>cs w'. write_nodes err cw build w left ps = Inr (cs, w') \<and> writer_ok w' \<and> fw_allocator w' = fw_allocator w
     \<and> length cs = length ps
     \<and> (\<forall>i < length ps. ic_addr (cs ! i) = snd (ps ! i) \<and> (\<exists>l r buf. stored w' (snd (ps ! i)) buf
          \<and> serializeChunkBTreeNode (build (fst (ps ! i)) l r) (cw_dimensionality cw + 1) (cw_chunkDims cw) = Inr buf))
     \<and> (\<forall>p d. stored w p d \<longrightarrow> d \<noteq> [] \<longrightarrow> (\<forall>(g, a)\<in>set ps. {unat p..<unat p + length d} \<inter> extent a sz = {}) \<longrightarrow> stored w' p d)"
  using assms
proof (induction ps arbitrary: w left)
  case Nil
  then show ?case by simp
next
  case (Cons ga ps)
  obtain g a where ga: "ga = (g, a)" by force
  let ?right = "case ps of [] \<Rightarrow> 0xFFFFFFFFFFFFFFFF | (_, a) # _ \<Rightarrow> a"
  let ?node = "build g left ?right"
  have ok: "node_ok ?node" using Cons.prems(5) by (simp add: ga)
  obtain buf where buf: "serializeChunkBTreeNode ?node (cw_dimensionality cw + 1) (cw_chunkDims cw) = Inr buf"
    using serialize_ok [OF ok] by blast
  have lb: "length buf = unat sz" "buf \<noteq> []" using serialize_length [OF ok buf] Cons.prems(4) by simp_all
  have ex: "{unat a..<unat a + length buf} = extent a sz" by (simp add: lb extent_def)
  have al: "extent a sz \<subseteq> used (fw_allocator w)" "unat a < 2 ^ 63" using Cons.prems(2) by (auto simp: ga)
  from write_effect [OF Cons.prems(1) lb(2) al(2)] al(1) obtain w1 where
    w1: "fw_WriteAtAddress w buf a = Inr w1" "writer_ok w1" "fw_allocator w1 = fw_allocator w" "stored w1 a buf"
      "\<forall>p d. stored w p d \<longrightarrow> d \<noteq> [] \<longrightarrow> {unat p..<unat p + length d} \<inter> extent a sz = {} \<longrightarrow> stored w1 p d"
    unfolding ex by blast
  have h1: "\<forall>(g, a)\<in>set ps. extent a sz \<subseteq> used (fw_allocator w1) \<and> unat a + unat sz < 2 ^ 63" using Cons.prems(2) w1(3) by auto
  have h2: "sorted_wrt (apart sz) (map snd ps)" using Cons.prems(3) by simp
  have h3: "\<forall>(g, a)\<in>set ps. \<forall>l r. node_ok (build g l r)" using Cons.prems(5) by simp
  from Cons.IH [OF w1(2) h1 h2 Cons.prems(4) h3, of a] obtain cs w2 where w2: "write_nodes err cw build w1 a ps = Inr (cs, w2)" "writer_ok w2" "fw_allocator w2 = fw_allocator w1"
     "length cs = length ps"
     "\<forall>i < length ps. ic_addr (cs ! i) = snd (ps ! i) \<and> (\<exists>l r buf. stored w2 (snd (ps ! i)) buf
          \<and> serializeChunkBTreeNode (build (fst (ps ! i)) l r) (cw_dimensionality cw + 1) (cw_chunkDims cw) = Inr buf)"
     "\<forall>p d. stored w1 p d \<longrightarrow> d \<noteq> [] \<longrightarrow> (\<forall>(g, a)\<in>set ps. {unat p..<unat p + length d} \<inter> extent a sz = {}) \<longrightarrow> stored w2 p d"
    by (elim exE conjE) (rule that)
  have "\<forall>(g, b)\<in>set ps. extent a sz \<inter> extent b sz = {}" using Cons.prems(3) by (force simp: ga)
  then have "stored w2 a buf" using w2(6) w1(4) lb(2) unfolding ex [symmetric] by simp
  then have all: "\<forall>i < length (ga # ps). ic_addr ((\<lparr>ic_addr = a, ic_firstKey = hd (cn_Keys ?node), ic_lastKey = last (cn_Keys ?node)\<rparr> # cs) ! i) = snd ((ga # ps) ! i)
      \<and> (\<exists>l r buf. stored w2 (snd ((ga # ps) ! i)) buf
          \<and> serializeChunkBTreeNode (build (fst ((ga # ps) ! i)) l r) (cw_dimensionality cw + 1) (cw_chunkDims cw) = Inr buf)"
    using w2(5) buf by (auto simp: ga nth_Cons split: nat.split)
  have keep: "\<forall>p d. stored w p d \<longrightarrow> d \<noteq> [] \<longrightarrow> (\<forall>(g, a)\<in>set (ga # ps). {unat p..<unat p + length d} \<inter> extent a sz = {}) \<longrightarrow> stored w2 p d"
    using w1(5) w2(6) by (auto simp: ga)
  have run: "write_nodes err cw build w left (ga # ps)
      = Inr (\<lparr>ic_addr = a, ic_firstKey = hd (cn_Keys ?node), ic_lastKey = last (cn_Keys ?node)\<rparr> # cs, w2)"
    using w1(1) w2(1) buf by (simp add: ga Let_def)
  have fin: "writer_ok w2" "fw_allocator w2 = fw_allocator w"
    "length (\<lparr>ic_addr = a, ic_firstKey = hd (cn_Keys ?node), ic_lastKey = last (cn_Keys ?node)\<rparr> # cs) = length (ga # ps)"
    using w2(2,3,4) w1(3) by simp_all
  show ?case by (intro exI conjI) (rule run, rule fin, rule fin, rule fin, rule all, rule keep)
qed

text \<open>One pass: allocation of the nodes of a level and writing them.\<close>

lemma level_effect:
  assumes "writer_ok w" "unat sz = node_size (cw_dimensionality cw + 1)"
    "unat (nextOffset (fw_allocator w)) + length gs * unat sz < 2 ^ 63" "\<forall>g\<in>set gs. \<forall>l r. node_ok (build g l r)"
  shows "\<exists>addrs w1 cs w2. allocate_nodes err w sz (length gs) = Inr (addrs, w1)
     \<and> write_nodes err2 cw build w1 left (zip gs addrs) = Inr (cs, w2) \<and> writer_ok w2 \<and> length cs = length gs
     \<and> (\<forall>i < length gs. \<exists>l r buf. stored w2 (ic_addr (cs ! i)) buf
          \<and> serializeChunkBTreeNode (build (gs ! i) l r) (cw_dimensionality cw + 1) (cw_chunkDims cw) = Inr buf)
     \<and> (\<forall>p d. stored w p d \<longrightarrow> d \<noteq> [] \<longrightarrow> stored w2 p d)
     \<and> unat (nextOffset (fw_allocator w2)) \<le> unat (nextOffset (fw_allocator w)) + length gs * unat sz"
proof -
  have "unat sz \<noteq> 0" using assms(2) by (simp add: node_size_def)
  then have sz0: "sz \<noteq> 0" by (metis unat_0)
  obtain addrs w1 where w1: "allocate_nodes err w sz (length gs) = Inr (addrs, w1)" "writer_ok w1" "fw_file w1 = fw_file w"
      "length addrs = length gs"
      "\<forall>a\<in>set addrs. extent a sz \<subseteq> used (fw_allocator w1) - used (fw_allocator w) \<and> unat a + unat sz < 2 ^ 63"
      "sorted_wrt (apart sz) addrs" "used (fw_allocator w) \<subseteq> used (fw_allocator w1)"
      "unat (nextOffset (fw_allocator w1)) \<le> unat (nextOffset (fw_allocator w)) + length gs * unat sz"
    using allocate_nodes_effect [OF assms(1) sz0 assms(3)] by blast
  have snd: "map snd (zip gs addrs) = addrs" using w1(4) by simp
  have 1: "\<forall>(g, a)\<in>set (zip gs addrs). extent a sz \<subseteq> used (fw_allocator w1) \<and> unat a + unat sz < 2 ^ 63"
    using w1(5) by (auto dest: set_zip_rightD)
  have 2: "sorted_wrt (apart sz) (map snd (zip gs addrs))" using w1(6) snd by simp
  have 3: "\<forall>(g, a)\<in>set (zip gs addrs). \<forall>l r. node_ok (build g l r)" using assms(4) by (auto dest: set_zip_leftD)
  obtain cs w2 where w2: "write_nodes err2 cw build w1 left (zip gs addrs) = Inr (cs, w2)" "writer_ok w2"
      "fw_allocator w2 = fw_allocator w1" "length cs = length (zip gs addrs)"
      "\<forall>i < length (zip gs addrs). ic_addr (cs ! i) = snd (zip gs addrs ! i) \<and> (\<exists>l r buf. stored w2 (snd (zip gs addrs ! i)) buf
          \<and> serializeChunkBTreeNode (build (fst (zip gs addrs ! i)) l r) (cw_dimensionality cw + 1) (cw_chunkDims cw) = Inr buf)"
      "\<forall>p d. stored w1 p d \<longrightarrow> d \<noteq> [] \<longrightarrow> (\<forall>(g, a)\<in>set (zip gs addrs). {unat p..<unat p + length d} \<inter> extent a sz = {}) \<longrightarrow> stored w2 p d"
    using write_nodes_effect [OF w1(2) 1 2 assms(2) 3] by metis
  have keep: "stored w2 p d" if s: "stored w p d" "d \<noteq> []" for p d
  proof -
    have "contents w1 = contents w" using w1(3) by (simp add: contents_def)
    then have s1: "stored w1 p d" using s(1) w1(7) by (auto simp: stored_def)
    have "{unat p..<unat p + length d} \<subseteq> used (fw_allocator w)" using s(1) by (simp add: stored_def)
    then have "\<forall>(g, a)\<in>set (zip gs addrs). {unat p..<unat p + length d} \<inter> extent a sz = {}"
      using w1(5) by (fastforce dest: set_zip_rightD)
    then show ?thesis using w2(6) s1 s(2) by blast
  qed
  have "\<forall>i < length gs. \<exists>l r buf. stored w2 (ic_addr (cs ! i)) buf
          \<and> serializeChunkBTreeNode (build (gs ! i) l r) (cw_dimensionality cw + 1) (cw_chunkDims cw) = Inr buf"
    using w2(5) w1(4) by simp
  then show ?thesis using w1(1,4,8) w2(1-4) keep by (intro exI [of _ addrs] exI [of _ w1] exI [of _ cs] exI [of _ w2]) simp
qed

lemma groups_halve: "2 \<le> n \<Longrightarrow> 2 * ((n + 63) div 64) \<le> (n :: nat)" "0 < n \<Longrightarrow> 0 < (n + 63) div (64 :: nat)"
proof -
  have "64 * ((n + 63) div 64) \<le> n + 63" by (rule times_div_less_eq_dividend)
  then show "2 \<le> n \<Longrightarrow> 2 * ((n + 63) div 64) \<le> n" by linarith
qed (simp add: div_greater_zero_iff)

lemma concat_map_flatten: "concat (map concat xs) = concat (concat xs)"
  by (induction xs) simp_all

lemma build_levels_effect:
  assumes "writer_ok w" "unat sz = node_size (cw_dimensionality cw + 1)" "cs \<noteq> []" "length ess = length cs"
    "\<forall>i < length cs. chunk_tree (stored w) cw (ic_addr (cs ! i)) (ess ! i)" "length cs < 2 ^ m" "unat level + m \<le> 255" "level \<noteq> 0"
    "unat (nextOffset (fw_allocator w)) + length cs * unat sz < 2 ^ 63"
  shows "\<exists>addr w'. build_levels cw w cs level sz = Inr (addr, w') \<and> writer_ok w' \<and> chunk_tree (stored w') cw addr (concat ess)
     \<and> (\<forall>p d. stored w p d \<longrightarrow> d \<noteq> [] \<longrightarrow> stored w' p d) \<and> unat (nextOffset (fw_allocator w')) < 2 ^ 63"
  using assms
proof (induction "length cs" arbitrary: w cs ess level m rule: less_induct)
  case less
  show ?case
  proof (cases "length cs > 1")
    case False
    then obtain c e where "cs = [c]" "ess = [e]" using less.prems(3,4) by (cases cs; cases ess) auto
    then show ?thesis using less.prems(1,5,9) by (simp add: build_levels.simps)
  next
    case True
    let ?gs = "groups_of 64 cs" and ?ge = "groups_of 64 ess"
    let ?k = "length ?gs"
    have k: "?k = (length cs + 63) div 64" by (simp add: length_groups_of)
    have k2: "2 * ?k \<le> length cs" "0 < ?k" using groups_halve True less.prems(3) unfolding k by auto
    have "?k * unat sz + ?k * unat sz \<le> length cs * unat sz"
      using mult_right_mono [OF k2(1), of "unat sz"] by (simp add: mult_2 distrib_right)
    then have room: "unat (nextOffset (fw_allocator w)) + ?k * unat sz + ?k * unat sz < 2 ^ 63" using less.prems(9) by linarith
    then have room1: "unat (nextOffset (fw_allocator w)) + ?k * unat sz < 2 ^ 63" by linarith
    have mem: "g \<noteq> [] \<and> length g \<le> 64" if "g \<in> set ?gs" for g using groups_of_member [OF that] by simp
    have ok: "\<forall>g\<in>set ?gs. \<forall>l r. node_ok (buildInternalNode level g l r)" using mem build_ok(2) by blast
    obtain addrs w1 cs' w2 where
      l: "allocate_nodes ''failed to allocate internal node level %d, node %d: %w'' w sz ?k = Inr (addrs, w1)"
        "write_nodes ''failed to write internal node level %d, node %d at address %d: %w'' cw (buildInternalNode level) w1 0xFFFFFFFFFFFFFFFF (zip ?gs addrs) = Inr (cs', w2)"
        "writer_ok w2" "length cs' = ?k"
        "\<forall>i < ?k. \<exists>l r buf. stored w2 (ic_addr (cs' ! i)) buf
          \<and> serializeChunkBTreeNode (buildInternalNode level (?gs ! i) l r) (cw_dimensionality cw + 1) (cw_chunkDims cw) = Inr buf"
        "\<forall>p d. stored w p d \<longrightarrow> d \<noteq> [] \<longrightarrow> stored w2 p d"
        "unat (nextOffset (fw_allocator w2)) \<le> unat (nextOffset (fw_allocator w)) + ?k * unat sz"
      using level_effect [OF less.prems(1,2) room1 ok] by metis
    have wl: "writeInternalLevel cw w cs level sz = Inr (cs', w2)" using l(1,2) by (simp add: writeInternalLevel_def)
    note par = groups_of_parallel [OF less.prems(4) [symmetric], of 64]
    have tree: "chunk_tree (stored w2) cw (ic_addr (cs' ! i)) (map concat ?ge ! i)" if i: "i < length cs'" for i
    proof -
      have i': "i < ?k" using i l(4) by simp
      obtain lf r buf where b: "stored w2 (ic_addr (cs' ! i)) buf"
        "serializeChunkBTreeNode (buildInternalNode level (?gs ! i) lf r) (cw_dimensionality cw + 1) (cw_chunkDims cw) = Inr buf"
        using l(5) i' by blast
      have "chunk_tree (stored w2) cw (ic_addr (?gs ! i ! j)) (?ge ! i ! j)" if j: "j < length (?gs ! i)" for j
      proof -
        obtain q where q: "q < length cs" "?gs ! i ! j = cs ! q" "?ge ! i ! j = ess ! q"
          using par [THEN conjunct2, rule_format, OF i', THEN conjunct2, rule_format, OF j] by blast
        have "chunk_tree (stored w2) cw (ic_addr (cs ! q)) (ess ! q)"
          by (rule chunk_tree_mono [OF less.prems(5) [rule_format, OF q(1)]]) (use l(6) in blast)
        then show ?thesis using q(2,3) by simp
      qed
      then have "chunk_tree (stored w2) cw (ic_addr (cs' ! i)) (concat (?ge ! i))"
        using mem [OF nth_mem [OF i']] par i' by (intro chunk_tree.internal [where S = "stored w2", OF b less.prems(8)]) auto
      then show ?thesis using i' par by simp
    qed
    have m: "0 < m" using less.prems(3,6) True by (cases m) auto
    have "?k < 2 ^ (m - 1)" using k2(1) less.prems(6) m by (cases m) auto
    moreover have lv: "unat (level + 1) = unat level + 1" using less.prems(7) m by (intro unat_add_lem [THEN iffD1, THEN trans]) simp_all
    moreover have "level + 1 \<noteq> 0" using lv by (metis add_is_0 one_neq_zero unat_0)
    moreover have "?k < length cs" using k2 by linarith
    moreover have "cs' \<noteq> []" using k2(2) l(4) by auto
    moreover have "unat (nextOffset (fw_allocator w2)) + length cs' * unat sz < 2 ^ 63" using l(4,7) room by simp
    moreover have "length (map concat ?ge) = length cs'" using par l(4) by simp
    moreover have "unat (level + 1) + (m - 1) \<le> 255" using lv less.prems(7) m by linarith
    ultimately have "\<exists>addr w'. build_levels cw w2 cs' (level + 1) sz = Inr (addr, w') \<and> writer_ok w'
       \<and> chunk_tree (stored w') cw addr (concat (map concat ?ge)) \<and> (\<forall>p d. stored w2 p d \<longrightarrow> d \<noteq> [] \<longrightarrow> stored w' p d)
       \<and> unat (nextOffset (fw_allocator w')) < 2 ^ 63"
      using tree l(3,4) less.prems(2) by (intro less.hyps [where m = "m - 1"]) (simp_all only: l(4), blast+)
    then obtain addr w' where "build_levels cw w2 cs' (level + 1) sz = Inr (addr, w')" "writer_ok w'"
       "chunk_tree (stored w') cw addr (concat (map concat ?ge))" "\<forall>p d. stored w2 p d \<longrightarrow> d \<noteq> [] \<longrightarrow> stored w' p d"
       "unat (nextOffset (fw_allocator w')) < 2 ^ 63" by blast
    moreover have "concat (map concat ?ge) = concat ess" by (simp add: concat_map_flatten groups_of_concat)
    ultimately show ?thesis using wl l(4,6) True \<open>?k < length cs\<close> by (simp add: build_levels.simps [of cw w cs])
  qed
qed

lemma mset_insert_entry: "mset (insert_entry e es) = add_mset e (mset es)"
  by (induction es) auto

lemma mset_sort_entries: "mset (sort_entries es) = mset es"
  unfolding sort_entries_def by (induction es) (simp_all add: mset_insert_entry)

lemma writer_cong:
  assumes "cw_dimensionality cw = cw_dimensionality cv" "cw_chunkDims cw = cw_chunkDims cv"
  shows "buildLeafNode cw = buildLeafNode cv"
  using assms by (intro ext) (simp add: buildLeafNode_def sentinel_def)

lemma chunk_WriteToFile_tree:
  assumes ok: "writer_ok w" and ne: "cw_entries cw \<noteq> []"
    and big: "length (cw_entries cw) < 2 ^ 63" "node_size (cw_dimensionality cw + 1) < 2 ^ 63"
    and room: "unat (fw_EndOfFile w) + 2 * length (cw_entries cw) * node_size (cw_dimensionality cw + 1) < 2 ^ 63"
  shows "\<exists>addr w'. chunk_WriteToFile cw w = Inr (addr, cw\<lparr>cw_entries := sort_entries (cw_entries cw)\<rparr>, w') \<and> writer_ok w'
     \<and> chunk_tree (stored w') cw addr (sort_entries (cw_entries cw)) \<and> (\<forall>p d. stored w p d \<longrightarrow> d \<noteq> [] \<longrightarrow> stored w' p d)
     \<and> unat (fw_EndOfFile w') < 2 ^ 63"
proof -
  let ?es = "sort_entries (cw_entries cw)" and ?cw = "cw\<lparr>cw_entries := sort_entries (cw_entries cw)\<rparr>"
  let ?d = "cw_dimensionality cw + 1"
  let ?sz = "of_nat (node_size ?d) :: u64"
  have usz: "unat ?sz = node_size ?d" using big(2) by (intro unat_of_nat_less) simp
  have len: "length ?es = length (cw_entries cw)" by (metis mset_sort_entries size_mset)
  have ne': "?es \<noteq> []" using ne len by auto
  have n1: "1 \<le> length (cw_entries cw)" using ne by (cases "cw_entries cw") auto
  have leafc: "buildLeafNode ?cw = buildLeafNode cw" by (rule writer_cong) simp_all
  have room': "unat (nextOffset (fw_allocator w)) + 2 * length ?es * unat ?sz < 2 ^ 63"
    using room len usz by (simp add: fw_EndOfFile_def EndOfFile_def)
  show ?thesis
  proof (cases "length ?es \<le> 64")
    case True
    let ?node = "buildLeafNode cw ?es 0xFFFFFFFFFFFFFFFF 0xFFFFFFFFFFFFFFFF"
    have nok: "node_ok ?node" using build_ok(1) ne' True by blast
    obtain buf where b: "serializeChunkBTreeNode ?node ?d (cw_chunkDims cw) = Inr buf" using serialize_ok [OF nok] by blast
    have lb: "length buf = node_size ?d" "buf \<noteq> []" using serialize_length [OF nok b] by simp_all
    have sz: "length buf \<le> unat ?sz" using lb usz by simp
    have "1 * unat ?sz \<le> 2 * length ?es * unat ?sz" using n1 len by (intro mult_right_mono) simp_all
    then have r1: "unat (nextOffset (fw_allocator w)) + unat ?sz < 2 ^ 63" using room' by linarith
    from store_effect [OF ok sz lb(2) r1] obtain addr a w' where
      s: "Allocate (fw_allocator w) ?sz = Inr (addr, a)" "fw_WriteAtAddress (w\<lparr>fw_allocator := a\<rparr>) buf addr = Inr w'"
        "writer_ok w'" "stored w' addr buf" "\<forall>p d. stored w p d \<longrightarrow> d \<noteq> [] \<longrightarrow> stored w' p d"
        "fw_allocator w' = a" "unat (nextOffset a) \<le> unat (nextOffset (fw_allocator w)) + unat ?sz" by blast
    have "unat (fw_EndOfFile w') < 2 ^ 63" using s(6,7) r1 by (simp add: fw_EndOfFile_def EndOfFile_def)
    moreover have "writeSingleLeaf ?cw w = Inr (addr, w')" using s(1,2) b lb(1) by (simp add: writeSingleLeaf_def leafc Let_def)
    moreover have "chunk_tree (stored w') cw addr ?es" using s(4) b ne' True by (intro chunk_tree.leaf)
    ultimately show ?thesis using s(3,5) ne True len by (simp add: chunk_WriteToFile_def Let_def)
  next
    case False
    let ?gs = "groups_of 64 ?es"
    let ?k = "length ?gs"
    have k: "2 * ?k \<le> length ?es" "0 < ?k" using groups_halve [of "length ?es"] False by (simp_all add: length_groups_of)
    have "2 * ?k * unat ?sz \<le> length ?es * unat ?sz" using k(1) by (intro mult_right_mono) simp_all
    then have rk: "unat (nextOffset (fw_allocator w)) + ?k * unat ?sz + ?k * unat ?sz < 2 ^ 63"
      using room' by (simp add: mult_2 distrib_right)
    then have rk1: "unat (nextOffset (fw_allocator w)) + ?k * unat ?sz < 2 ^ 63" by linarith
    have mem: "g \<noteq> [] \<and> length g \<le> 64" if "g \<in> set ?gs" for g using groups_of_member [OF that] by simp
    have gok: "\<forall>g\<in>set ?gs. \<forall>l r. node_ok (buildLeafNode cw g l r)" using mem build_ok(1) by blast
    have usz': "unat ?sz = node_size (cw_dimensionality ?cw + 1)" using usz by simp
    obtain addrs w1 cs w2 where
      l: "allocate_nodes ''failed to allocate leaf node %d: %w'' w ?sz ?k = Inr (addrs, w1)"
        "write_nodes ''failed to write leaf node %d at address %d: %w'' ?cw (buildLeafNode cw) w1 0xFFFFFFFFFFFFFFFF (zip ?gs addrs) = Inr (cs, w2)"
        "writer_ok w2" "length cs = ?k"
        "\<forall>i < ?k. \<exists>l r buf. stored w2 (ic_addr (cs ! i)) buf
          \<and> serializeChunkBTreeNode (buildLeafNode cw (?gs ! i) l r) (cw_dimensionality ?cw + 1) (cw_chunkDims ?cw) = Inr buf"
        "\<forall>p d. stored w p d \<longrightarrow> d \<noteq> [] \<longrightarrow> stored w2 p d"
        "unat (nextOffset (fw_allocator w2)) \<le> unat (nextOffset (fw_allocator w)) + ?k * unat ?sz"
      using level_effect [OF ok usz' rk1 gok] by metis
    have tree: "chunk_tree (stored w2) cw (ic_addr (cs ! i)) (?gs ! i)" if i: "i < length cs" for i
    proof -
      have i': "i < ?k" using i l(4) by simp
      obtain lf r buf where b: "stored w2 (ic_addr (cs ! i)) buf"
        "serializeChunkBTreeNode (buildLeafNode cw (?gs ! i) lf r) (cw_dimensionality cw + 1) (cw_chunkDims cw) = Inr buf"
        using l(5) [rule_format, OF i'] by auto
      show ?thesis using mem [OF nth_mem [OF i']] by (intro chunk_tree.leaf [where S = "stored w2", OF b]) simp_all
    qed
    have tcw: "chunk_tree S ?cw a es \<longleftrightarrow> chunk_tree S cw a es" for S a es
    proof -
      have "chunk_tree S cv a es" if "chunk_tree S cu a es" "cw_dimensionality cu = cw_dimensionality cv" "cw_chunkDims cu = cw_chunkDims cv" for cu cv
        using that(1)
      proof (induction rule: chunk_tree.induct)
        case (leaf addr buf es l r)
        then show ?case using writer_cong [OF that(2,3)] that(2,3) by (intro chunk_tree.leaf [of S addr buf]) simp_all
      next
        case (internal addr buf lv cs l r ess)
        then show ?case using that(2,3) by (intro chunk_tree.internal [of S addr buf lv cs l r]) simp_all
      qed
      from this [of ?cw cw] this [of cw ?cw] show ?thesis by auto
    qed
    have "?k < 2 ^ 63" using k big(1) len by linarith
    moreover have "cs \<noteq> []" using k(2) l(4) by auto
    moreover have "unat (nextOffset (fw_allocator w2)) + length cs * unat ?sz < 2 ^ 63" using l(4,7) rk by simp
    ultimately obtain addr w' where "build_levels ?cw w2 cs 1 ?sz = Inr (addr, w')" "writer_ok w'"
       "chunk_tree (stored w') ?cw addr (concat ?gs)" "\<forall>p d. stored w2 p d \<longrightarrow> d \<noteq> [] \<longrightarrow> stored w' p d"
       "unat (fw_EndOfFile w') < 2 ^ 63"
      using build_levels_effect [OF l(3) usz', of cs ?gs 63 1] l(4) tree by (auto simp: tcw fw_EndOfFile_def EndOfFile_def)
    moreover from this have "buildMultiLevelTree ?cw w = Inr (addr, w')"
      using l(1,2) by (simp add: buildMultiLevelTree_def leafc Let_def)
    moreover have "concat ?gs = ?es" by (rule groups_of_concat) simp
    ultimately show ?thesis using l(6) False ne by (auto simp: chunk_WriteToFile_def Let_def tcw)
  qed
qed

section \<open>Properties\<close>

lemma stored_held:
  assumes "stored w a b" "writer_ok w" "b \<noteq> []" "unat (fw_EndOfFile w) < 2 ^ 63"
  shows "holds_at (contents w) (unat a) b \<and> unat a + length b < 2 ^ 63"
proof -
  have "alloc_inv (fw_allocator w)" using assms(2) by (simp add: writer_ok_def)
  then have "used (fw_allocator w) \<subseteq> {0..<unat (nextOffset (fw_allocator w))}" using inv_below by blast
  moreover have "unat a + length b - 1 \<in> {unat a..<unat a + length b}" using assms(3) by (cases b) auto
  then have "unat a + length b - 1 \<in> used (fw_allocator w)" using assms(1) unfolding stored_def by blast
  ultimately have "unat a + length b - 1 < unat (nextOffset (fw_allocator w))" by fastforce
  then have "unat a + length b < 2 ^ 63" using assms(3,4) by (cases b) (auto simp: fw_EndOfFile_def EndOfFile_def)
  then show ?thesis using stored_holds [OF assms(1)] by simp
qed


text \<open>The order \<^verbatim>\<open>sort.Slice\<close> establishes.\<close>

lemma compareChunkCoords_trans:
  "length a = length b \<Longrightarrow> length b = length c \<Longrightarrow> compareChunkCoords a b \<le> 0 \<Longrightarrow> compareChunkCoords b c \<le> 0 \<Longrightarrow> compareChunkCoords a c \<le> 0"
proof (induction a arbitrary: b c)
  case (Cons x a)
  obtain y b' z c' where bc: "b = y # b'" "c = z # c'" "length a = length b'" "length b' = length c'"
    using Cons.prems(1,2) by (cases b; cases c) auto
  have le: "x \<le> y" "y \<le> z" using Cons.prems(3,4) by (auto simp: bc not_less split: if_splits)
  show ?case
  proof (cases "x = z")
    case True
    then have "compareChunkCoords a b' \<le> 0" "compareChunkCoords b' c' \<le> 0" using Cons.prems(3,4) le by (simp_all add: bc)
    then show ?thesis using Cons.IH [OF bc(3,4)] True by (simp add: bc)
  next
    case False
    then have "x < z" using le by (simp add: order.strict_iff_order order_trans [OF le])
    then show ?thesis by (simp add: bc)
  qed
qed simp

lemma compareChunkCoords_swap: "length a = length b \<Longrightarrow> compareChunkCoords a b = - compareChunkCoords b a"
proof (induction a arbitrary: b)
  case (Cons x a)
  then obtain y b' where "b = y # b'" "length b' = length a" by (metis length_Suc_conv)
  then show ?case using Cons.IH by auto
qed simp

lemma set_insert_entry: "set (insert_entry e es) = insert e (set es)"
  by (induction es) auto

lemma sorted_insert_entry:
  assumes "\<forall>x\<in>insert e (set es). length (en_Coordinate x) = n"
    "sorted_wrt (\<lambda>x y. compareChunkCoords (en_Coordinate x) (en_Coordinate y) \<le> 0) es"
  shows "sorted_wrt (\<lambda>x y. compareChunkCoords (en_Coordinate x) (en_Coordinate y) \<le> 0) (insert_entry e es)"
  using assms
proof (induction es)
  case (Cons x es)
  show ?case
  proof (cases "compareChunkCoords (en_Coordinate x) (en_Coordinate e) < 0")
    case True
    then show ?thesis using Cons by (auto simp: set_insert_entry)
  next
    case False
    then have "compareChunkCoords (en_Coordinate e) (en_Coordinate x) \<le> 0"
      using compareChunkCoords_swap [of "en_Coordinate e" "en_Coordinate x"] Cons.prems(1) by simp
    moreover have "compareChunkCoords (en_Coordinate e) (en_Coordinate y) \<le> 0" if y: "y \<in> set es" for y
      using Cons.prems y calculation
      by (intro compareChunkCoords_trans [of "en_Coordinate e" "en_Coordinate x" "en_Coordinate y"]) simp_all
    ultimately show ?thesis using Cons.prems(2) False by simp
  qed
qed simp

text \<open>
  The entries are written in row-major order, and they are the entries that were added.
\<close>
theorem chunk_entries_sorted:
  assumes "\<forall>e\<in>set es. length (en_Coordinate e) = n"
  shows "mset (sort_entries es) = mset es
     \<and> sorted_wrt (\<lambda>x y. compareChunkCoords (en_Coordinate x) (en_Coordinate y) \<le> 0) (sort_entries es)"
proof -
  have s: "set (foldr insert_entry es []) = set es" for es by (induction es) (simp_all add: set_insert_entry)
  have "sorted_wrt (\<lambda>x y. compareChunkCoords (en_Coordinate x) (en_Coordinate y) \<le> 0) (foldr insert_entry es [])"
    using assms by (induction es) (auto intro!: sorted_insert_entry [of _ _ n] simp: s)
  then show ?thesis unfolding sort_entries_def [symmetric] by (simp add: mset_sort_entries)
qed

theorem chunk_entries_sorted_witness:
  "sorted_wrt (\<lambda>x y. compareChunkCoords (en_Coordinate x) (en_Coordinate y) \<le> 0)
     (sort_entries [\<lparr>en_Coordinate = [1, 0], en_Address = 900, en_Nbytes = 4\<rparr>, \<lparr>en_Coordinate = [0, 1], en_Address = 800, en_Nbytes = 4\<rparr>])"
  using chunk_entries_sorted [of "[\<lparr>en_Coordinate = [1, 0], en_Address = 900, en_Nbytes = 4\<rparr>, \<lparr>en_Coordinate = [0, 1], en_Address = 800, en_Nbytes = 4\<rparr>]" 2]
  by simp

abbreviation demo_chunks :: ChunkBTreeWriter where
  "demo_chunks \<equiv> \<lparr>cw_dimensionality = 1, cw_chunkDims = [10], cw_elementSize = 8,
     cw_entries = [\<lparr>en_Coordinate = [1], en_Address = 900, en_Nbytes = 80\<rparr>, \<lparr>en_Coordinate = [0], en_Address = 800, en_Nbytes = 80\<rparr>]\<rparr>"

abbreviation fresh_writer :: FileWriter where
  "fresh_writer \<equiv> \<lparr>fw_file = Some ([], True), fw_allocator = NewAllocator 48\<rparr>"

lemma fresh_writer_ok: "writer_ok fresh_writer" "unat (fw_EndOfFile fresh_writer) = 48"
  by (simp_all add: writer_ok_def NewAllocator_def alloc_inv_def free_ok_def blocks_ok_def fw_EndOfFile_def EndOfFile_def)


lemma compareCoords_refl: "compareCoords a a = 0"
  by (induction a) simp_all

lemma compareCoords_swap: "compareCoords a b = - compareCoords b a"
  by (induction a b rule: compareCoords.induct) auto

text \<open>
  \<^verbatim>\<open>FindChunk\<close> on a leaf whose keys are in strictly increasing order: asked for the coordinates of entry
  \<open>i\<close>, it returns the address of entry \<open>i + 1\<close>, and for the last entry it panics. The address of the chunk
  asked for is never returned.
\<close>
theorem FindChunk_off_by_one:
  assumes "nd_NodeLevel node = 0" "unat (nd_EntriesUsed node) = n" "length (nd_Children node) = n" "length (nd_Keys node) = Suc n"
    and "sorted_wrt (\<lambda>j k. compareCoords (ck_Scaled j) (ck_Scaled k) < 0) (nd_Keys node)" "i < n"
  shows "FindChunk f node (ck_Scaled (nd_Keys node ! i)) os dims
     = Some (if Suc i < n then Inr (nd_Children node ! Suc i) else Inl index_panic)"
proof -
  let ?c = "ck_Scaled (nd_Keys node ! i)" and ?ks = "take n (nd_Keys node)"
  have lt: "compareCoords (ck_Scaled (nd_Keys node ! j)) (ck_Scaled (nd_Keys node ! k)) < 0" if "j < k" "k \<le> n" for j k
    using assms(5) that by (simp add: sorted_wrt_iff_nth_less assms(4))
  have "takeWhile (\<lambda>key. \<not> compareCoords ?c (ck_Scaled key) < 0) ?ks = take (Suc i) ?ks"
  proof (rule takeWhile_eq_take_P_nth)
    fix j assume j: "j < Suc i" "j < length ?ks"
    show "\<not> compareCoords ?c (ck_Scaled (?ks ! j)) < 0"
    proof (cases "j = i")
      case True
      then show ?thesis using j assms(4) by (simp add: compareCoords_refl)
    next
      case False
      then have "compareCoords (ck_Scaled (nd_Keys node ! j)) ?c < 0" using lt j assms(6) by simp
      then show ?thesis using j compareCoords_swap [of "ck_Scaled (nd_Keys node ! j)" ?c] by simp
    qed
  next
    assume "Suc i < length ?ks"
    then show "\<not> \<not> compareCoords ?c (ck_Scaled (?ks ! Suc i)) < 0" using lt [of i "Suc i"] assms(4) by simp
  qed
  then have "child_index node ?c = Suc i" using assms(4,6) by (simp add: child_index_def assms(2))
  then show ?thesis using assms(1,3) by (simp add: FindChunk.simps Let_def)
qed

theorem FindChunk_off_by_one_witness:
  "FindChunk [] \<lparr>nd_Signature = tree, nd_NodeType = 1, nd_NodeLevel = 0, nd_EntriesUsed = 2, nd_LeftSibling = 0, nd_RightSibling = 0,
       nd_Keys = [\<lparr>ck_Scaled = [0], ck_Nbytes = 8, ck_FilterMask = 0\<rparr>, \<lparr>ck_Scaled = [1], ck_Nbytes = 8, ck_FilterMask = 0\<rparr>,
         \<lparr>ck_Scaled = [2], ck_Nbytes = 0, ck_FilterMask = 0\<rparr>], nd_Children = [800, 900]\<rparr> [0] 8 [10] = Some (Inr 900)"
  using FindChunk_off_by_one [of "\<lparr>nd_Signature = tree, nd_NodeType = 1, nd_NodeLevel = 0, nd_EntriesUsed = 2, nd_LeftSibling = 0, nd_RightSibling = 0,
       nd_Keys = [\<lparr>ck_Scaled = [0], ck_Nbytes = 8, ck_FilterMask = 0\<rparr>, \<lparr>ck_Scaled = [1], ck_Nbytes = 8, ck_FilterMask = 0\<rparr>,
         \<lparr>ck_Scaled = [2], ck_Nbytes = 0, ck_FilterMask = 0\<rparr>], nd_Children = [800, 900]\<rparr>" 2 0 "[]" 8 "[10]"]
  by simp

section \<open>Group nodes\<close>

lemma readAddress_eq_readUint64: "readAddress = readUint64"
  by (intro ext) (simp only: readAddress_def readUint64_def)

lemma writeAddr_eq: "sz \<in> {1, 2, 4, 8} \<Longrightarrow> writeAddr a sz e = Inr (writeUint64 a sz e)"
  by (auto simp: writeAddr_def writeUint64_def simp del: order_put.simps le_put_numeral)

lemma write_addrs_eq: "sz \<in> {1, 2, 4, 8} \<Longrightarrow> write_addrs as sz e = Inr (concat (map (\<lambda>a. writeUint64 a sz e) as))"
  by (induction as) (simp_all add: writeAddr_eq del: insert_iff)

text \<open>The interleaving of keys and children of a node with at most \<open>2 k\<close> entries.\<close>

lemma child_addresses_written:
  assumes "os \<in> {1, 2, 4, 8}" "\<forall>c\<in>set cs. fits_width os c" "length ks = length cs"
  shows "child_addresses (concat (map (\<lambda>a. writeUint64 a os e) (concat (map2 (\<lambda>k c. [k, c]) ks cs))) @ rest) os e (length cs) = cs"
  using assms(2,3)
proof (induction cs arbitrary: ks)
  case (Cons c cs)
  obtain k ks' where ks: "ks = k # ks'" "length ks' = length cs" using Cons.prems(2) by (cases ks) auto
  let ?t = "concat (map (\<lambda>a. writeUint64 a os e) (concat (map2 (\<lambda>k c. [k, c]) ks' cs))) @ rest"
  have "readAddress (writeUint64 c os e @ ?t) os e = c"
    unfolding readAddress_eq_readUint64 using Cons.prems(1) by (intro readUint64_writeUint64 [OF assms(1)]) simp
  then show ?case using Cons.IH [OF _ ks(2)] Cons.prems(1) by (simp add: ks mult_2)
qed simp

lemma keys_and_children_split:
  assumes "length (bn_Keys btn) = length (bn_ChildPointers btn)" "length (bn_Keys btn) \<le> 2 * k"
  shows "\<exists>rest. keys_and_children btn k = concat (map2 (\<lambda>k c. [k, c]) (bn_Keys btn) (bn_ChildPointers btn)) @ rest \<and> 1 \<le> length rest"
proof -
  let ?g = "\<lambda>i. [if i < length (bn_Keys btn) then bn_Keys btn ! i else 0,
                 if i < length (bn_ChildPointers btn) then bn_ChildPointers btn ! i else 0]"
  let ?n = "length (bn_Keys btn)"
  obtain m where m: "2 * k = ?n + m" using assms(2) le_Suc_ex by blast
  have "map ?g [0..<2 * k] = map ?g [0..<?n] @ map ?g [?n..<2 * k]"
    unfolding m by (simp only: upt_add_eq_append [OF le0] map_append)
  moreover have "map ?g [0..<?n] = map2 (\<lambda>k c. [k, c]) (bn_Keys btn) (bn_ChildPointers btn)"
    using assms(1) by (intro nth_equalityI) simp_all
  ultimately show ?thesis by (simp add: keys_and_children_def)
qed

text \<open>The nodes \<^verbatim>\<open>NewBTreeNodeV1\<close> and \<^verbatim>\<open>AddKey\<close> build.\<close>

definition btn_inv :: "BTreeNodeV1 \<Rightarrow> bool" where
  "btn_inv btn \<longleftrightarrow> bn_Signature btn = tree \<and> bn_NodeLevel btn = 0 \<and> length (bn_Keys btn) = length (bn_ChildPointers btn)
     \<and> bn_EntriesUsed btn = of_nat (length (bn_Keys btn)) \<and> length (bn_Keys btn) \<le> bn_cap btn"

lemma NewBTreeNodeV1_inv: "btn_inv (NewBTreeNodeV1 t k)"
  by (simp add: btn_inv_def NewBTreeNodeV1_def)

lemma AddKey_inv: "btn_inv btn \<Longrightarrow> AddKey btn key c = Inr btn' \<Longrightarrow> btn_inv btn' \<and> bn_ChildPointers btn' = bn_ChildPointers btn @ [c]"
  by (auto simp: btn_inv_def AddKey_def split: if_splits)

text \<open>
  A group B-tree node of the invariant above, written and read: the reader follows exactly the child
  addresses of the node, in order, and returns the entries of the symbol table nodes found there.
\<close>
theorem group_btree_roundtrip:
  assumes "fw_file w = Some (f, True)" "btn_inv btn" "bn_NodeType btn = 0" "0 < length (bn_Keys btn)" "length (bn_Keys btn) \<le> 2 * unat k"
    and "sizes_ok sb" "\<forall>c\<in>set (bn_ChildPointers btn). fits_width (unat (OffsetSize sb)) c \<and> c \<noteq> 0 \<and> c \<noteq> 0xFFFFFFFFFFFFFFFF"
    and "unat addr + 2 ^ 21 < 2 ^ 63" "k < 2 ^ 15"
  shows "\<exists>w'. btn_WriteAt btn w addr (OffsetSize sb) k (Endianness sb) = Inr w'
     \<and> ReadGroupBTreeEntries (contents w') addr sb = snod_entries (contents w') sb (bn_ChildPointers btn)"
proof -
  let ?os = "unat (OffsetSize sb)" and ?e = "Endianness sb" and ?n = "length (bn_Keys btn)"
  let ?w = "\<lambda>as. concat (map (\<lambda>a. writeUint64 a ?os ?e) as)"
  let ?kc = "concat (map2 (\<lambda>k c. [k, c]) (bn_Keys btn) (bn_ChildPointers btn))"
  have os: "?os \<in> {1, 2, 4, 8}" "?os \<le> 8" using assms(6) by (auto simp: sizes_ok_def)
  obtain rest where rest: "keys_and_children btn (unat k) = ?kc @ rest" "1 \<le> length rest"
    using keys_and_children_split [OF _ assms(5)] assms(2) by (auto simp: btn_inv_def)
  obtain r0 rest' where r0: "rest = r0 # rest'" using rest(2) by (cases rest) auto
  define hd where "hd = tree @ [0, 0] @ order_put ?e 2 (bn_EntriesUsed btn) @ ?w [bn_LeftSibling btn, bn_RightSibling btn]"
  define kc where "kc = ?w ?kc @ writeUint64 r0 ?os ?e"
  have bytes: "btn_bytes btn (OffsetSize sb) k ?e = Inr (hd @ kc @ ?w rest')"
    using assms(2,3) by (simp add: btn_bytes_def write_addrs_eq [OF os(1)] rest(1) r0 hd_def kc_def btn_inv_def del: order_put.simps)
  have lw: "length (?w as) = ?os * length as" for as by (rule length_concat_const) simp
  have lkc: "length ?kc = 2 * ?n" using assms(2)
    by (subst length_concat_const [where w = 2]) (auto simp: btn_inv_def)
  have l: "length hd = 8 + ?os * 2" "length kc = ?n * 2 * ?os + ?os"
    using lw [of "[bn_LeftSibling btn, bn_RightSibling btn]"] lw [of ?kc] lkc by (simp_all add: hd_def kc_def del: order_put.simps)
  let ?buf = "hd @ kc @ ?w rest'"
  have ne: "?buf \<noteq> []" using l(1) by (cases hd) auto
  let ?f = "overwrite f (unat addr) ?buf" and ?w' = "w\<lparr>fw_file := Some (overwrite f (unat addr) ?buf, True)\<rparr>"
  have wr: "btn_WriteAt btn w addr (OffsetSize sb) k ?e = Inr ?w'"
    using fw_WriteAt_open [OF assms(1) ne] assms(8) by (simp add: btn_WriteAt_def bytes)
  have h: "holds_at ?f (unat addr) hd" "holds_at ?f (unat addr + (8 + ?os * 2)) kc"
    using overwrite_holds [OF ne, of f "unat addr"] unfolding holds_at_append [of _ _ hd] holds_at_append [of _ _ kc] l by simp_all
  have u: "unat (addr + of_nat (8 + ?os * 2)) = unat addr + (8 + ?os * 2)"
  proof -
    have "unat (of_nat (8 + ?os * 2) :: u64) = 8 + ?os * 2" using os(2) by (intro unat_of_nat_less) simp
    then show ?thesis using assms(8) os(2) by (subst unat_add_small) simp_all
  qed
  have r1: "ReadAt ?f (8 + ?os * 2) addr = Inr hd" by (rule ReadAt_holds [OF h(1) refl]) (use assms(8) l in simp_all)
  have "?n \<le> 65534"
  proof -
    have "unat k < 2 ^ 15" using assms(9) by (simp add: word_less_nat_alt)
    then show ?thesis using assms(5) by simp
  qed
  then have un: "unat (bn_EntriesUsed btn) = ?n" using assms(2) by (simp add: btn_inv_def unat_of_nat_less)
  have r2: "ReadAt ?f (?n * 2 * ?os + ?os) (addr + of_nat (8 + ?os * 2)) = Inr kc"
    by (rule ReadAt_holds [OF h(2) u]) (use assms(8) l os(2) in simp_all)
  have fields: "take 4 hd = tree" "hd ! 4 = 0" "hd ! 5 = 0" "order_get ?e (take 2 (drop 6 hd)) = bn_EntriesUsed btn"
    by (simp_all add: hd_def del: order_put.simps order_get.simps)
  have "child_addresses kc ?os ?e ?n = bn_ChildPointers btn"
    using child_addresses_written [OF os(1), of "bn_ChildPointers btn" "bn_Keys btn" ?e] assms(2,7) by (simp add: kc_def btn_inv_def)
  moreover have "filter (\<lambda>a. a \<noteq> 0 \<and> a \<noteq> 0xFFFFFFFFFFFFFFFF) (bn_ChildPointers btn) = bn_ChildPointers btn" using assms(7) by simp
  ultimately have "ReadGroupBTreeEntries ?f addr sb = snod_entries ?f sb (bn_ChildPointers btn)"
    unfolding ReadGroupBTreeEntries_def using assms(4)
    by (simp add: r1 r2 fields un Let_def del: order_get.simps of_nat_add of_nat_mult)
  then show ?thesis using wr by (simp add: contents_def)
qed

theorem group_btree_roundtrip_witness:
  "\<exists>btn w'. AddKey (NewBTreeNodeV1 0 16) 8 700 = Inr btn \<and> btn_WriteAt btn fresh_writer 48 8 16 LittleEndian = Inr w'
     \<and> ReadGroupBTreeEntries (contents w') 48 sb8 = snod_entries (contents w') sb8 [700]"
proof -
  let ?btn = "(NewBTreeNodeV1 0 16)\<lparr>bn_Keys := [8], bn_ChildPointers := [700], bn_EntriesUsed := 1\<rparr>"
  have a: "AddKey (NewBTreeNodeV1 0 16) 8 700 = Inr ?btn" by (simp add: AddKey_def NewBTreeNodeV1_def)
  have i: "btn_inv ?btn" using AddKey_inv [OF NewBTreeNodeV1_inv a] by simp
  have "\<exists>w'. btn_WriteAt ?btn fresh_writer 48 (OffsetSize sb8) 16 (Endianness sb8) = Inr w'
     \<and> ReadGroupBTreeEntries (contents w') 48 sb8 = snod_entries (contents w') sb8 (bn_ChildPointers ?btn)"
    by (rule group_btree_roundtrip [OF _ i]) (simp_all add: NewBTreeNodeV1_def sizes_ok_def fits_width_def)
  then show ?thesis using a by auto
qed

end
