(* ===== verification/Attributes.thy ===== *)
theory Attributes
  imports Global_Heap BTree_V1 Fractal_Heap
begin

text \<open>
  Attributes as a whole (\<^verbatim>\<open>internal/core/attribute.go\<close>, \<^verbatim>\<open>attribute_modify.go\<close>,
  \<^verbatim>\<open>dense_heap.go\<close>, \<^verbatim>\<open>ReadObjectHeader\<close> of \<^verbatim>\<open>objectheader.go\<close>): their values, the attribute info
  message, the reader of dense attribute storage, which parses the B-tree and the fractal heap by
  itself, and the modification of attributes that are messages of an object header. Modifying dense
  attributes and writing them is in the theory \<^verbatim>\<open>Dense_Storage\<close>.

  A value is a scalar or a slice of elements; integers and floats are their bits, which \<^verbatim>\<open>int32(..)\<close>
  and \<^verbatim>\<open>float32frombits\<close> reinterpret without changing them.
\<close>

section \<open>Values\<close>

datatype element = EInt32 u32 | EInt64 u64 | EFloat32 u32 | EFloat64 u64 | EString bytes

datatype attr_value = VEmpty | VScalar element | VSlice "element list"

definition trim_right :: "byte \<Rightarrow> bytes \<Rightarrow> bytes" where
  "trim_right c s = rev (dropWhile (\<lambda>b. b = c) (rev s))"

definition decodeFixedString :: "bytes \<Rightarrow> byte \<Rightarrow> bytes" where
  "decodeFixedString data paddingType =
     (if paddingType = 0 then takeWhile (\<lambda>b. b \<noteq> 0) data
      else if paddingType = 1 then trim_right 0 data
      else if paddingType = 2 then trim_right 0x20 data
      else data)"

text \<open>The loops over elements of a fixed width; the size has been checked before the first two.\<close>

definition numbers :: "(bytes \<Rightarrow> element) \<Rightarrow> nat \<Rightarrow> u64 \<Rightarrow> bytes \<Rightarrow> element list" where
  "numbers get w n data = map (\<lambda>i. get (take w (drop (i * w) data))) [0..<unat n]"

definition numeric_values :: "(bytes \<Rightarrow> element) \<Rightarrow> u64 \<Rightarrow> string \<Rightarrow> u64 \<Rightarrow> bytes \<Rightarrow> element list result" where
  "numeric_values get w err totalElements data =
     (case SafeMultiply totalElements w of
        Inl e \<Rightarrow> Inl (Wrapf err e)
      | Inr totalBytes \<Rightarrow>
          if totalBytes > of_nat (length data)
          then Inl (Errorf ''attribute data size mismatch: need %d bytes, have %d'')
          else Inr (numbers get (unat w) totalElements data))"

primrec fixed_strings :: "byte \<Rightarrow> nat \<Rightarrow> nat \<Rightarrow> bytes \<Rightarrow> element list result" where
  "fixed_strings pad sz 0 data = Inr []"
| "fixed_strings pad sz (Suc n) data =
     (if sz > length data then Inl (Errorf ''data too short for string element %d'')
      else case fixed_strings pad sz n (drop sz data) of
             Inl e \<Rightarrow> Inl e
           | Inr es \<Rightarrow> Inr (EString (decodeFixedString (take sz data) pad) # es))"

text \<open>
  A variable-length string is a reference into a global heap collection. The loop over a collection
  may never end (see \<^verbatim>\<open>Global_Heap\<close>), so these functions take its fuel.
\<close>

definition readVariableLengthString :: "nat \<Rightarrow> bytes \<Rightarrow> nat \<Rightarrow> bytes \<Rightarrow> bytes result option" where
  "readVariableLengthString fuel r offsetSize data =
     (if length data < 4 + offsetSize + 4
      then Some (Inl (Errorf ''vlen string data too short: got %d bytes, need %d''))
      else case ParseGlobalHeapReference (drop 4 data) offsetSize of
             Inl e \<Rightarrow> Some (Inl (Wrapf ''failed to parse global heap reference: %w'' e))
           | Inr ref \<Rightarrow>
               if gr_HeapAddress ref = 0 then Some (Inr [])
               else case ReadGlobalHeapCollection fuel r (gr_HeapAddress ref) offsetSize of
                      None \<Rightarrow> None
                    | Some (Inl e) \<Rightarrow> Some (Inl (wrap ''failed to read global heap collection at 0x%X: %w'' e))
                    | Some (Inr collection) \<Rightarrow>
                        (case GetObject collection (gr_ObjectIndex ref) of
                           Inl e \<Rightarrow> Some (Inl (Wrapf ''failed to get object %d from heap collection: %w'' e))
                         | Inr obj \<Rightarrow> Some (Inr (trim_right 0 (go_Data obj)))))"

primrec vlen_strings :: "nat \<Rightarrow> bytes \<Rightarrow> nat \<Rightarrow> nat \<Rightarrow> bytes \<Rightarrow> element list result option" where
  "vlen_strings fuel r offsetSize 0 data = Some (Inr [])"
| "vlen_strings fuel r offsetSize (Suc n) data =
     (case readVariableLengthString fuel r offsetSize (take (offsetSize + 8) data) of
        None \<Rightarrow> None
      | Some (Inl e) \<Rightarrow> Some (Inl (wrap ''failed to read variable-length string element %d: %w'' e))
      | Some (Inr s) \<Rightarrow>
          (case vlen_strings fuel r offsetSize n (drop (offsetSize + 8) data) of
             None \<Rightarrow> None
           | Some (Inl e) \<Rightarrow> Some (Inl e)
           | Some (Inr es) \<Rightarrow> Some (Inr (EString s # es))))"

text \<open>
  \<open>reader\<close> is the file the attribute was read from, \<open>None\<close> for an attribute that was not. The slice of
  strings is made before any size is checked.
\<close>

definition ReadValue :: "nat \<Rightarrow> bytes option \<Rightarrow> nat \<Rightarrow> Attribute \<Rightarrow> attr_value result option" where
  "ReadValue fuel reader offsetSize a =
     (let dt = at_Datatype a; dims = ds_Dimensions (at_Dataspace a); data = at_Data a;
          totalElements = TotalElements (at_Dataspace a);
          isScalar = (dims = [] \<or> (length dims = 1 \<and> dims ! 0 = 1));
          finish = (\<lambda>es. if isScalar then VScalar (es ! 0) else VSlice es);
          unsupported = Some (Inl (Errorf ''unsupported datatype class %d or size %d''))
      in if totalElements = 0 \<or> length data = 0 then Some (Inr VEmpty)
         else if dt_Class dt = DatatypeFixed then
           (if dt_Size dt = 4 then Some (map_sum id finish
              (numeric_values (\<lambda>b. EInt32 (order_get LittleEndian b)) 4 ''attribute size overflow (int32): %w'' totalElements data))
            else if dt_Size dt = 8 then Some (map_sum id finish
              (numeric_values (\<lambda>b. EInt64 (order_get LittleEndian b)) 8 ''attribute size overflow (int64): %w'' totalElements data))
            else unsupported)
         else if dt_Class dt = DatatypeFloat then
           (if dt_Size dt = 4 then Some (map_sum id finish
              (numeric_values (\<lambda>b. EFloat32 (order_get LittleEndian b)) 4 ''attribute size overflow (float32): %w'' totalElements data))
            else if dt_Size dt = 8 then Some (map_sum id finish
              (numeric_values (\<lambda>b. EFloat64 (order_get LittleEndian b)) 8 ''attribute size overflow (float64): %w'' totalElements data))
            else unsupported)
         else if dt_Class dt = DatatypeString then
           (if \<not> IsFixedString dt then Some (Inl (Errorf ''variable-length strings not yet supported in attributes''))
            else if unat totalElements * 16 \<ge> max_alloc then Some (Inl makeslice_panic)
            else Some (map_sum id finish (fixed_strings (GetStringPadding dt) (unat (dt_Size dt)) (unat totalElements) data)))
         else if dt_Class dt = DatatypeVarLen then
           (case reader of
              None \<Rightarrow> Some (Inl (Errorf ''variable-length attribute requires file reader (not available)''))
            | Some r \<Rightarrow>
                if \<not> IsVariableString dt
                then Some (Inl (Errorf ''variable-length non-string types not yet supported in attributes''))
                else case SafeMultiply totalElements (of_nat (offsetSize + 8)) of
                       Inl e \<Rightarrow> Some (Inl (Wrapf ''attribute size overflow (vlen string): %w'' e))
                     | Inr totalBytes \<Rightarrow>
                         if totalBytes > of_nat (length data)
                         then Some (Inl (Errorf ''attribute data size mismatch for vlen strings: need %d bytes, have %d''))
                         else map_option (map_sum id finish) (vlen_strings fuel r offsetSize (unat totalElements) data))
         else unsupported)"

section \<open>The attribute info message\<close>

record AttributeInfoMessage =
  ai_Version :: byte
  ai_Flags :: byte
  ai_FractalHeapAddr :: u64
  ai_BTreeNameIndexAddr :: u64
  ai_MaxCreationIndex :: u64
  ai_BTreeOrderIndexAddr :: u64

definition ParseAttributeInfoMessage :: "bytes \<Rightarrow> Superblock \<Rightarrow> AttributeInfoMessage result" where
  "ParseAttributeInfoMessage data sb =
     (if length data < 2 then Inl (Errorf ''attribute info message too short: %d bytes'')
      else let flags = data ! 1; track = flags AND 0x01 \<noteq> 0; index = flags AND 0x02 \<noteq> 0; osz = unat (OffsetSize sb)
      in if track \<and> length data < 6 then Inl (Errorf ''attribute info message too short for max compact/min dense'')
      else let maxIndex = (if track then ucast (order_get (Endianness sb) (take 2 (drop 2 data)) :: u16) else 0);
               offset = (if track then 6 else 2)
      in if offset + osz > length data
         then Inl (Errorf ''attribute info message too short for fractal heap address'')
      else if offset + osz + osz > length data
         then Inl (Errorf ''attribute info message too short for btree name index address'')
      else if index \<and> offset + osz + osz + osz > length data
         then Inl (Errorf ''attribute info message too short for btree order index address'')
      else Inr \<lparr>ai_Version = data ! 0, ai_Flags = flags,
                ai_FractalHeapAddr = core_readAddress (take osz (drop offset data)) osz,
                ai_BTreeNameIndexAddr = core_readAddress (take osz (drop (offset + osz) data)) osz,
                ai_MaxCreationIndex = maxIndex,
                ai_BTreeOrderIndexAddr = (if index then core_readAddress (take osz (drop (offset + osz + osz) data)) osz else 0)\<rparr>)"

definition core_writeAddress :: "u64 \<Rightarrow> nat \<Rightarrow> byte_order \<Rightarrow> bytes" where
  "core_writeAddress addr sz e =
     (if sz = 1 then [ucast addr] else if sz = 2 \<or> sz = 4 \<or> sz = 8 then order_put e sz addr else zeros sz)"

definition EncodeAttributeInfoMessage :: "AttributeInfoMessage \<Rightarrow> Superblock \<Rightarrow> bytes result" where
  "EncodeAttributeInfoMessage aim sb =
     (let track = ai_Flags aim AND 0x01 \<noteq> 0; index = ai_Flags aim AND 0x02 \<noteq> 0;
          osz = unat (OffsetSize sb); e = Endianness sb
      in Inr ([ai_Version aim, ai_Flags aim]
              @ (if track then order_put e 2 (ucast (ai_MaxCreationIndex aim) :: u16) @ order_put e 2 (0 :: u16) else [])
              @ core_writeAddress (ai_FractalHeapAddr aim) osz e @ core_writeAddress (ai_BTreeNameIndexAddr aim) osz e
              @ (if index then core_writeAddress (ai_BTreeOrderIndexAddr aim) osz e else [])))"

section \<open>Reading dense storage\<close>

text \<open>\<^verbatim>\<open>ReadAt\<close> where a short read is no error: the bytes read, and the buffer with zeros behind them.\<close>

definition read_some :: "bytes \<Rightarrow> nat \<Rightarrow> u64 \<Rightarrow> (nat \<times> bytes) result" where
  "read_some f n off =
     (if 2 ^ 63 \<le> unat off then Inl (Errorf ''negative offset'')
      else let b = take n (drop (unat off) f) in Inr (length b, b @ zeros (n - length b)))"

record btreeV2HeaderRaw =
  hr_Version :: byte
  hr_Type :: byte
  hr_NodeSize :: u32
  hr_RecordSize :: u16
  hr_Depth :: u16
  hr_RootNodeAddr :: u64
  hr_NumRecordsRoot :: u16
  hr_TotalRecords :: u64

definition readBTreeV2HeaderRaw :: "bytes \<Rightarrow> u64 \<Rightarrow> Superblock \<Rightarrow> btreeV2HeaderRaw result" where
  "readBTreeV2HeaderRaw r addr sb =
     (case read_some r 38 addr of
        Inl err \<Rightarrow> Inl (Wrapf ''read failed at 0x%X: %w'' err)
      | Inr (n, buf) \<Rightarrow>
          if n < 20 then Inl (Errorf ''header too short: %d bytes'')
          else if take 4 buf \<noteq> [0x42, 0x54, 0x48, 0x44] then Inl (Errorf ''invalid B-tree v2 signature: %q'')
          else let osz = unat (OffsetSize sb); e = Endianness sb
          in if 16 + osz > 38 then Inl (Errorf ''buffer too short for root node address'')
          else if 16 + osz + 2 > 38 then Inl (Errorf ''buffer too short for num records'')
          else if 18 + osz + 8 > 38 then Inl (Errorf ''buffer too short for total records'')
          else Inr \<lparr>hr_Version = buf ! 4, hr_Type = buf ! 5, hr_NodeSize = order_get e (take 4 (drop 6 buf)),
                    hr_RecordSize = order_get e (take 2 (drop 10 buf)), hr_Depth = order_get e (take 2 (drop 12 buf)),
                    hr_RootNodeAddr = core_readAddress (take osz (drop 16 buf)) osz,
                    hr_NumRecordsRoot = order_get e (take 2 (drop (16 + osz) buf)),
                    hr_TotalRecords = order_get e (take 8 (drop (18 + osz) buf))\<rparr>)"

text \<open>A record is the hash of the name and a heap id of seven bytes; the buffer is as long as all of them.\<close>

primrec leaf_ids :: "nat \<Rightarrow> bytes \<Rightarrow> bytes list" where
  "leaf_ids 0 buf = []"
| "leaf_ids (Suc n) buf = take 7 (drop 4 buf) # leaf_ids n (drop 11 buf)"

definition readBTreeV2LeafRecords :: "bytes \<Rightarrow> u64 \<Rightarrow> u16 \<Rightarrow> bytes list result" where
  "readBTreeV2LeafRecords r addr numRecords =
     (case read_some r (6 + unat numRecords * 11 + 4) addr of
        Inl err \<Rightarrow> Inl (Wrapf ''read failed at 0x%X: %w'' err)
      | Inr (n, buf) \<Rightarrow>
          if n < 10 then Inl (Errorf ''leaf node too short: %d bytes'')
          else if take 4 buf \<noteq> [0x42, 0x54, 0x4C, 0x46] then Inl (Errorf ''invalid B-tree v2 leaf signature: %q'')
          else Inr (leaf_ids (unat numRecords) (drop 6 buf)))"

record fractalHeapHeaderRaw =
  fr_Version :: byte
  fr_HeapIDLen :: u16
  fr_RootBlockAddress :: u64
  fr_MaxHeapSize :: u16
  fr_MaxDirectBlockSize :: u64
  fr_MaxManagedObjSize :: u32
  fr_HeapOffsetSize :: byte
  fr_HeapLengthSize :: byte
  fr_ChecksumDirBlocks :: bool

text \<open>
  The table of the doubling parameters is taken at offset 110 and the root block address at 132, where
  they are when offsets and lengths have eight bytes.
\<close>

definition readFractalHeapHeaderRaw :: "bytes \<Rightarrow> u64 \<Rightarrow> Superblock \<Rightarrow> fractalHeapHeaderRaw result" where
  "readFractalHeapHeaderRaw r addr sb =
     (case read_some r 144 addr of
        Inl err \<Rightarrow> Inl (Wrapf ''read failed at 0x%X: %w'' err)
      | Inr (n, buf) \<Rightarrow>
          if n < 20 then Inl (Errorf ''heap header too short: %d bytes'')
          else if take 4 buf \<noteq> [0x46, 0x52, 0x48, 0x50] then Inl (Errorf ''invalid fractal heap signature: %q'')
          else let L = unat (LengthSize sb); osz = unat (OffsetSize sb); e = Endianness sb
          in if 112 + L + L > 144 then Inl slice_panic
          else if 112 + L + L + 2 > 144 then Inl (Errorf ''buffer too short for max heap size'')
          else if 132 + osz > 144 then Inl (Errorf ''buffer too short for root block address'')
          else let maxDirect = le_get (take L (drop (112 + L) buf)) :: u64;
                   maxHeap = order_get e (take 2 (drop (112 + L + L) buf)) :: u16;
                   maxManaged = order_get e (take 4 (drop 10 buf)) :: u32;
                   dirSize = computeOffsetSize maxDirect; manSize = computeOffsetSize (ucast maxManaged)
          in Inr \<lparr>fr_Version = buf ! 4, fr_HeapIDLen = order_get e (take 2 (drop 5 buf)),
                  fr_RootBlockAddress = core_readAddress (take osz (drop 132 buf)) osz, fr_MaxHeapSize = maxHeap,
                  fr_MaxDirectBlockSize = maxDirect, fr_MaxManagedObjSize = maxManaged,
                  fr_HeapOffsetSize = ucast ((maxHeap + 7) div 8),
                  fr_HeapLengthSize = (if dirSize < manSize then dirSize else manSize),
                  fr_ChecksumDirBlocks = (buf ! 9 AND 0x02 \<noteq> 0)\<rparr>)"


definition core_parseHeapID :: "bytes \<Rightarrow> fractalHeapHeaderRaw \<Rightarrow> (u64 \<times> u64) result" where
  "core_parseHeapID heapID header =
     (if drop_bit 4 (heapID ! 0 AND 0x30) \<noteq> 0
      then Inl (Errorf ''unsupported heap ID type: %d (only managed objects supported)'')
      else let osz = min (unat (fr_HeapOffsetSize header)) 6
           in Inr (le_get (take osz (drop 1 heapID)), le_get (take (unat (fr_HeapLengthSize header)) (drop (1 + osz) heapID))))"

definition readHeapObject :: "bytes \<Rightarrow> u64 \<Rightarrow> u64 \<Rightarrow> u64 \<Rightarrow> Superblock \<Rightarrow> fractalHeapHeaderRaw \<Rightarrow> bytes result" where
  "readHeapObject r blockAddr offset len sb header =
     (let A = unat (OffsetSize sb); H = unat (fr_HeapOffsetSize header);
          headerSize = 5 + A + H + (if fr_ChecksumDirBlocks header then 4 else 0)
      in case read_some r (headerSize + 16) blockAddr of
           Inl err \<Rightarrow> Inl (Wrapf ''read failed at 0x%X: %w'' err)
         | Inr (n, headerBuf) \<Rightarrow>
             if n < headerSize then Inl (Errorf ''direct block too short: got %d bytes, need %d'')
             else if take 4 headerBuf \<noteq> [0x46, 0x48, 0x44, 0x42] then Inl (Errorf ''invalid direct block signature: %q'')
             else let blockOffset = le_get (take H (drop (5 + A) headerBuf))
             in if offset < blockOffset then Inl (Errorf ''object offset 0x%X before block offset 0x%X'')
             else let relativeOffset = offset - blockOffset;
                      objectAddr = (if fr_ChecksumDirBlocks header then blockAddr + relativeOffset
                                    else blockAddr + of_nat (5 + A + H) + relativeOffset)
             in if unat len \<ge> max_alloc then Inl makeslice_panic
             else case read_some r (unat len) objectAddr of
                    Inl err \<Rightarrow> Inl (Wrapf ''read object failed at 0x%X: %w'' err)
                  | Inr (n, objectData) \<Rightarrow>
                      if n < unat len then Inl (Errorf ''object data too short: got %d bytes, expected %d'')
                      else Inr objectData)"

fun heap_objects_of :: "bytes \<Rightarrow> Superblock \<Rightarrow> fractalHeapHeaderRaw \<Rightarrow> bytes list \<Rightarrow> bytes list result" where
  "heap_objects_of r sb header [] = Inr []"
| "heap_objects_of r sb header (heapID # ids) =
     (case core_parseHeapID heapID header of
        Inl err \<Rightarrow> Inl (Wrapf ''heap id %d: %w'' err)
      | Inr (off, len) \<Rightarrow>
          (case readHeapObject r (fr_RootBlockAddress header) off len sb header of
             Inl err \<Rightarrow> Inl (wrap ''heap object %d: %w'' err)
           | Inr data \<Rightarrow>
               (case heap_objects_of r sb header ids of Inl err \<Rightarrow> Inl err | Inr ds \<Rightarrow> Inr (data # ds))))"

definition ReadDenseHeapObjects :: "bytes \<Rightarrow> u64 \<Rightarrow> u64 \<Rightarrow> Superblock \<Rightarrow> bytes list result" where
  "ReadDenseHeapObjects r btreeAddr heapAddr sb =
     (case readBTreeV2HeaderRaw r btreeAddr sb of
        Inl err \<Rightarrow> Inl (Wrapf ''btree v2 header: %w'' err)
      | Inr btreeHeader \<Rightarrow>
          if hr_Depth btreeHeader \<noteq> 0 then Inl (Errorf ''btree v2 depth %d unsupported (only depth=0 leaf-root)'')
          else case readBTreeV2LeafRecords r (hr_RootNodeAddr btreeHeader) (hr_NumRecordsRoot btreeHeader) of
                 Inl err \<Rightarrow> Inl (Wrapf ''btree v2 leaf: %w'' err)
               | Inr heapIDs \<Rightarrow>
                   if length heapIDs = 0 then Inr []
                   else case readFractalHeapHeaderRaw r heapAddr sb of
                          Inl err \<Rightarrow> Inl (wrap ''fractal heap header: %w'' err)
                        | Inr heapHeader \<Rightarrow> heap_objects_of r sb heapHeader heapIDs)"

text \<open>The loop of \<^verbatim>\<open>readDenseAttributes\<close> parses each object as it reads it.\<close>

fun dense_attributes_of :: "bytes \<Rightarrow> Superblock \<Rightarrow> fractalHeapHeaderRaw \<Rightarrow> bytes list \<Rightarrow> Attribute list result" where
  "dense_attributes_of r sb header [] = Inr []"
| "dense_attributes_of r sb header (heapID # ids) =
     (case core_parseHeapID heapID header of
        Inl err \<Rightarrow> Inl (Wrapf ''failed to parse heap ID %d: %w'' err)
      | Inr (off, len) \<Rightarrow>
          (case readHeapObject r (fr_RootBlockAddress header) off len sb header of
             Inl err \<Rightarrow> Inl (wrap ''failed to read heap object %d: %w'' err)
           | Inr data \<Rightarrow>
               (case ParseAttributeMessage data (Endianness sb) of
                  Inl err \<Rightarrow> Inl (wrap ''failed to parse attribute %d: %w'' err)
                | Inr attr \<Rightarrow>
                    (case dense_attributes_of r sb header ids of Inl err \<Rightarrow> Inl err | Inr attrs \<Rightarrow> Inr (attr # attrs)))))"

definition readDenseAttributes :: "bytes \<Rightarrow> AttributeInfoMessage \<Rightarrow> Superblock \<Rightarrow> Attribute list result" where
  "readDenseAttributes r attrInfo sb =
     (if ai_FractalHeapAddr attrInfo = 0 \<or> ai_BTreeNameIndexAddr attrInfo = 0
      then Inl (Errorf ''invalid dense attribute addresses (heap=0x%X, btree=0x%X)'')
      else case readBTreeV2HeaderRaw r (ai_BTreeNameIndexAddr attrInfo) sb of
             Inl err \<Rightarrow> Inl (Wrapf ''failed to read B-tree header: %w'' err)
           | Inr btreeHeader \<Rightarrow>
               (case readBTreeV2LeafRecords r (hr_RootNodeAddr btreeHeader) (hr_NumRecordsRoot btreeHeader) of
                  Inl err \<Rightarrow> Inl (Wrapf ''failed to read B-tree leaf: %w'' err)
                | Inr heapIDs \<Rightarrow>
                    if length heapIDs = 0 then Inr []
                    else (case readFractalHeapHeaderRaw r (ai_FractalHeapAddr attrInfo) sb of
                            Inl err \<Rightarrow> Inl (wrap ''failed to read heap header: %w'' err)
                          | Inr heapHeader \<Rightarrow> dense_attributes_of r sb heapHeader heapIDs)))"

text \<open>
  Compact attributes that cannot be parsed are skipped, a panic is not; an attribute info message that
  cannot be parsed counts as absent.
\<close>

fun compact_attributes :: "HeaderMessage list \<Rightarrow> byte_order \<Rightarrow> Attribute list result" where
  "compact_attributes [] e = Inr []"
| "compact_attributes (m # ms) e =
     (if hm_Type m \<noteq> MsgAttribute then compact_attributes ms e
      else case ParseAttributeMessage (hm_Data m) e of
             Inl err \<Rightarrow> if is_panic err then Inl err else compact_attributes ms e
           | Inr attr \<Rightarrow>
               (case compact_attributes ms e of Inl err \<Rightarrow> Inl err | Inr attrs \<Rightarrow> Inr (attr # attrs)))"

definition ParseAttributesFromMessages :: "bytes \<Rightarrow> HeaderMessage list \<Rightarrow> Superblock \<Rightarrow> Attribute list result" where
  "ParseAttributesFromMessages r messages sb =
     (let attrInfo = (case find (\<lambda>m. hm_Type m = MsgAttributeInfo) messages of
                        None \<Rightarrow> None
                      | Some m \<Rightarrow> (case ParseAttributeInfoMessage (hm_Data m) sb of Inl _ \<Rightarrow> None | Inr ai \<Rightarrow> Some ai))
      in case compact_attributes messages (Endianness sb) of
           Inl err \<Rightarrow> Inl err
         | Inr attributes \<Rightarrow>
             (case attrInfo of
                None \<Rightarrow> Inr attributes
              | Some ai \<Rightarrow>
                  if ai_FractalHeapAddr ai = 0 then Inr attributes
                  else (case readDenseAttributes r ai sb of
                          Inl err \<Rightarrow> Inl (wrap ''failed to read dense attributes: %w'' err)
                        | Inr denseAttrs \<Rightarrow> Inr (attributes @ denseAttrs))))"

section \<open>Object headers with their attributes\<close>

text \<open>
  Reading follows continuation blocks, which need not end; errors of the attributes are dropped, the
  header then has none.
\<close>

definition ref_count :: "HeaderMessage list \<Rightarrow> byte_order \<Rightarrow> u32" where
  "ref_count messages e =
     (case find (\<lambda>m. hm_Type m = MsgRefCount \<and> length (hm_Data m) \<ge> 4) messages of
        None \<Rightarrow> 1 | Some m \<Rightarrow> order_get e (take 4 (hm_Data m)))"

definition finish_header :: "bytes \<Rightarrow> Superblock \<Rightarrow> byte \<Rightarrow> byte \<Rightarrow> HeaderMessage list \<Rightarrow> bytes \<Rightarrow> u32 \<Rightarrow> ObjectHeader result" where
  "finish_header r sb version flags messages name refs =
     (let header = (\<lambda>attrs. \<lparr>oh_Version = version, oh_Flags = flags, oh_Type = determineObjectType messages,
                             oh_Messages = messages, oh_Name = name, oh_Attributes = attrs, oh_ReferenceCount = refs\<rparr>)
      in case ParseAttributesFromMessages r messages sb of
           Inl e \<Rightarrow> if is_panic e then Inl e else Inr (header [])
         | Inr attributes \<Rightarrow> Inr (header attributes))"

definition ReadObjectHeader :: "bytes \<Rightarrow> u64 \<Rightarrow> Superblock \<Rightarrow> ObjectHeader result option" where
  "ReadObjectHeader r address sb =
     (if 2 ^ 63 \<le> unat address then Some (Inl (Errorf ''negative offset: %d''))
      else case ReadAt r 8 address of
        Inl e \<Rightarrow> Some (Inl (Wrapf ''object header read failed'' e))
      | Inr prefix \<Rightarrow>
          (let read_v1 = (\<lambda>flags. map_option (\<lambda>res. case res of
                   Inl e \<Rightarrow> Inl (wrap ''v1 header parse failed'' e)
                 | Inr (messages, name, refs) \<Rightarrow> finish_header r sb 1 flags messages name refs) (parseV1Header r address sb));
               read_v2 = (\<lambda>flags isBE. map_option (\<lambda>res. case res of
                   Inl e \<Rightarrow> Inl (wrap ''v2 header parse failed'' e)
                 | Inr (messages, name) \<Rightarrow>
                     finish_header r sb 2 flags messages name (ref_count messages (Endianness sb)))
                   (parseV2Header r address flags sb isBE));
               read = (\<lambda>version flags isBE.
                   if version = (1 :: byte) then read_v1 flags else if version = 2 then read_v2 flags isBE
                   else Some (Inl (Errorf ''unsupported object header version: %d'')))
           in if take 4 prefix = ohdr then read (prefix ! 4) (prefix ! 5) False
              else if rev (take 4 prefix) = ohdr then read (prefix ! 7) (prefix ! 6) True
              else if prefix ! 0 = 1 \<and> prefix ! 1 = 0 then read 1 0 False
              else Some (Inl (Errorf ''invalid object header signature: % x''))))"

section \<open>Modifying attributes in the object header\<close>

text \<open>The first attribute message with the name; messages that cannot be parsed are skipped.\<close>

fun find_attribute :: "HeaderMessage list \<Rightarrow> bytes \<Rightarrow> byte_order \<Rightarrow> nat \<Rightarrow> (Attribute \<times> nat) option result" where
  "find_attribute [] name e i = Inr None"
| "find_attribute (m # ms) name e i =
     (if hm_Type m \<noteq> MsgAttribute then find_attribute ms name e (Suc i)
      else case ParseAttributeMessage (hm_Data m) e of
             Inl err \<Rightarrow> if is_panic err then Inl err else find_attribute ms name e (Suc i)
           | Inr attr \<Rightarrow> if at_Name attr = name then Inr (Some (attr, i)) else find_attribute ms name e (Suc i))"

definition FindCompactAttribute :: "ObjectHeader \<Rightarrow> bytes \<Rightarrow> byte_order \<Rightarrow> (Attribute \<times> nat) option result" where
  "FindCompactAttribute oh name e = find_attribute (oh_Messages oh) name e 0"

definition remove_at :: "nat \<Rightarrow> 'a list \<Rightarrow> 'a list" where
  "remove_at i xs = take i xs @ drop (Suc i) xs"

definition ModifyCompactAttribute :: "FileWriter \<Rightarrow> u64 \<Rightarrow> bytes \<Rightarrow> Attribute \<Rightarrow> Superblock \<Rightarrow> FileWriter result option" where
  "ModifyCompactAttribute w objectAddr name newAttr sb =
     (if name = [] then Some (Inl (Errorf ''attribute name cannot be empty''))
      else map_option (\<lambda>res. case res of
             Inl err \<Rightarrow> Inl (wrap ''failed to read object header: %w'' err)
           | Inr oh \<Rightarrow>
               (case find_attribute (oh_Messages oh) name (Endianness sb) 0 of
                  Inl err \<Rightarrow> Inl err
                | Inr None \<Rightarrow> Inl (Errorf ''attribute %q not found'')
                | Inr (Some (_, i)) \<Rightarrow>
                    (case EncodeAttributeFromStruct newAttr of
                       Inl err \<Rightarrow> Inl (wrap ''failed to encode new attribute: %w'' err)
                     | Inr newAttrData \<Rightarrow>
                         let ms = oh_Messages oh;
                             ms' = (if length (hm_Data (ms ! i)) = length newAttrData
                                    then ms[i := (ms ! i)\<lparr>hm_Data := newAttrData\<rparr>]
                                    else remove_at i ms @ [\<lparr>hm_Type = MsgAttribute, hm_Offset = 0, hm_Data = newAttrData,
                                                            hm_FromContinuation = False\<rparr>])
                         in case WriteObjectHeader w objectAddr (oh\<lparr>oh_Messages := ms'\<rparr>) of
                              Inl err \<Rightarrow> Inl (wrap ''failed to write object header: %w'' err)
                            | Inr w \<Rightarrow> Inr w)))
           (ReadObjectHeader (contents w) objectAddr sb))"

definition DeleteCompactAttribute :: "FileWriter \<Rightarrow> u64 \<Rightarrow> bytes \<Rightarrow> Superblock \<Rightarrow> FileWriter result option" where
  "DeleteCompactAttribute w objectAddr name sb =
     (if name = [] then Some (Inl (Errorf ''attribute name cannot be empty''))
      else map_option (\<lambda>res. case res of
             Inl err \<Rightarrow> Inl (wrap ''failed to read object header: %w'' err)
           | Inr oh \<Rightarrow>
               (case find_attribute (oh_Messages oh) name (Endianness sb) 0 of
                  Inl err \<Rightarrow> Inl err
                | Inr None \<Rightarrow> Inl (Errorf ''attribute %q not found'')
                | Inr (Some (_, i)) \<Rightarrow>
                    (case WriteObjectHeader w objectAddr (oh\<lparr>oh_Messages := remove_at i (oh_Messages oh)\<rparr>) of
                       Inl err \<Rightarrow> Inl (wrap ''failed to write object header: %w'' err)
                     | Inr w \<Rightarrow> Inr w)))
           (ReadObjectHeader (contents w) objectAddr sb))"

fun add_messages :: "ObjectHeader \<Rightarrow> HeaderMessage list \<Rightarrow> ObjectHeader result" where
  "add_messages oh [] = Inr oh"
| "add_messages oh (m # ms) =
     (case AddMessageToObjectHeader oh (hm_Type m) (hm_Data m) of
        Inl err \<Rightarrow> Inl (Wrapf ''failed to add message: %w'' err)
      | Inr oh \<Rightarrow> add_messages oh ms)"

definition RewriteObjectHeaderV2 :: "FileWriter \<Rightarrow> u64 \<Rightarrow> Superblock \<Rightarrow> HeaderMessage list \<Rightarrow> FileWriter result option" where
  "RewriteObjectHeaderV2 w addr sb newMessages =
     map_option (\<lambda>res. case res of
         Inl err \<Rightarrow> Inl (wrap ''failed to read object header: %w'' err)
       | Inr oh \<Rightarrow>
           if oh_Version oh \<noteq> 2 then Inl (Errorf ''only v2 headers supported for rewrite, got version %d'')
           else case add_messages oh newMessages of
                  Inl err \<Rightarrow> Inl err
                | Inr oh \<Rightarrow>
                    (case WriteObjectHeader w addr oh of
                       Inl err \<Rightarrow> Inl (wrap ''failed to write object header: %w'' err)
                     | Inr w \<Rightarrow> Inr w))
       (ReadObjectHeader (contents w) addr sb)"

section \<open>Headers with compact attributes\<close>

text \<open>A message the header holds as it is, and that the readers neither follow nor treat as dense storage.\<close>

definition plain_message :: "MessageType \<times> bytes \<Rightarrow> bool" where
  "plain_message p \<longleftrightarrow> fst p < 256 \<and> length (snd p) < 65536 \<and> snd p \<noteq> [] \<and> fst p \<noteq> MsgContinuation
     \<and> fst p \<noteq> MsgAttributeInfo \<and> (fst p = MsgAttribute \<longrightarrow> (\<exists>a. ParseAttributeMessage (snd p) LittleEndian = Inr a))"

definition attrs_of :: "(MessageType \<times> bytes) list \<Rightarrow> Attribute list" where
  "attrs_of ps = map (\<lambda>p. projr (ParseAttributeMessage (snd p) LittleEndian)) (filter (\<lambda>p. fst p = MsgAttribute) ps)"

definition v2_writer :: "byte \<Rightarrow> (MessageType \<times> bytes) list \<Rightarrow> ObjectHeaderWriter" where
  "v2_writer flags ps = \<lparr>ohw_Version = 2, ohw_Flags = flags, ohw_Messages = map (\<lambda>p. \<lparr>mw_Type = fst p, mw_Data = snd p\<rparr>) ps, ohw_RefCount = 0\<rparr>"

text \<open>The file has a version 2 header with the given messages at the address.\<close>

definition header_at :: "bytes \<Rightarrow> u64 \<Rightarrow> byte \<Rightarrow> (MessageType \<times> bytes) list \<Rightarrow> bool" where
  "header_at f addr flags ps \<longleftrightarrow> holds_at f (unat addr) (header_v2 (v2_writer flags ps))
     \<and> unat addr + sizeV2 (v2_writer flags ps) < 2 ^ 63 \<and> flags AND 0x34 = 0"

lemma compact_attributes_of:
  "\<forall>p\<in>set (map parsed hs). plain_message p \<Longrightarrow> compact_attributes hs LittleEndian = Inr (attrs_of (map parsed hs))"
  by (induction hs) (auto simp: attrs_of_def plain_message_def split: sum.split)

lemma header_prefix: "take 8 (header_v2 (v2_writer flags ps)) = ohdr @ [2, v2_flags (v2_writer flags ps)] @ take 2 (drop 6 (header_v2 (v2_writer flags ps)))"
proof -
  obtain rest where "header_v2 (v2_writer flags ps) = ohdr @ [2, v2_flags (v2_writer flags ps)] @ rest"
    by (simp add: header_v2_def with_checksum_def Let_def v2_writer_def del: le_put_numeral)
  then show ?thesis by simp
qed

lemma ReadObjectHeader_plain:
  assumes h: "header_at f addr flags ps" and ok: "\<forall>p\<in>set ps. plain_message p" and sb: "Endianness sb = LittleEndian"
  shows "\<exists>oh. ReadObjectHeader f addr sb = Some (Inr oh) \<and> oh_Version oh = 2 \<and> oh_Flags oh AND 0x34 = 0
     \<and> map parsed (oh_Messages oh) = ps \<and> oh_Attributes oh = attrs_of ps"
proof -
  let ?ohw = "v2_writer flags ps"
  have hd: "holds_at f (unat addr) (header_v2 ?ohw)" "unat addr + sizeV2 ?ohw < 2 ^ 63" "flags AND 0x34 = 0"
    using h by (simp_all add: header_at_def)
  have fl: "ohw_Flags ?ohw AND 0x34 = 0" using hd(3) by (simp add: v2_writer_def)
  have "\<forall>m\<in>set (ohw_Messages ?ohw). message_ok m \<and> mw_Type m \<noteq> MsgContinuation"
    using ok by (auto simp: v2_writer_def plain_message_def message_ok_def)
  from parseV2Header_plain [OF this fl hd(1,2), of sb] obtain hs nm where
    p: "parseV2Header f addr (v2_flags ?ohw) sb False = Some (Inr (hs, nm))"
       "map parsed hs = map wire (nonempty (ohw_Messages ?ohw))" by blast
  have ne: "nonempty (ohw_Messages ?ohw) = ohw_Messages ?ohw" using ok by (auto simp: v2_writer_def plain_message_def filter_id_conv)
  have ps: "map parsed hs = ps" unfolding p(2) ne by (simp add: v2_writer_def comp_def)
  have len: "8 \<le> length (header_v2 ?ohw)" by (simp add: length_header_v2 sizeV2_def chunkSizeFieldWidth_def Let_def)
  have "ReadAt f 8 addr = Inr (take 8 (header_v2 ?ohw))"
  proof -
    have "header_v2 ?ohw = take 8 (header_v2 ?ohw) @ drop 8 (header_v2 ?ohw)" by simp
    then have "holds_at f (unat addr) (take 8 (header_v2 ?ohw))" using hd(1) by (metis holds_at_append)
    from ReadAt_holds [OF this refl] show ?thesis using len hd(2) by simp
  qed
  then have r: "ReadAt f 8 addr = Inr (ohdr @ [2, v2_flags ?ohw] @ take 2 (drop 6 (header_v2 ?ohw)))" unfolding header_prefix .
  have pm: "\<forall>p\<in>set (map parsed hs). plain_message p" using ok ps by simp
  have "find (\<lambda>m. hm_Type m = MsgAttributeInfo) hs = None"
    using pm by (auto simp: find_None_iff plain_message_def)
  then have pa: "ParseAttributesFromMessages f hs sb = Inr (attrs_of ps)"
    using compact_attributes_of [OF pm] ps sb by (simp add: ParseAttributesFromMessages_def)
  have v: "v2_flags ?ohw AND 0x34 = 0"
  proof -
    note c = v2_flags_cases [OF fl]
    have "(0x34 :: byte) = 0x20 OR 0x10 OR 0x04" by simp
    then show ?thesis using c by (metis bit.conj_disj_distrib or.left_neutral)
  qed
  have "ReadObjectHeader f addr sb = Some (finish_header f sb 2 (v2_flags ?ohw) hs nm (ref_count hs (Endianness sb)))"
    using r p(1) hd(2) by (simp add: ReadObjectHeader_def Let_def)
  then show ?thesis using pa v ps by (simp add: finish_header_def Let_def)
qed

text \<open>Writing the header back with other messages.\<close>

lemma rewrite_header:
  assumes w: "fw_file w = Some (f, True)" and oh: "oh_Version oh = 2" "oh_Flags oh AND 0x34 = 0"
    and room: "unat addr + sizeV2 (v2_writer (oh_Flags oh) (map parsed hs)) < 2 ^ 63"
  shows "\<exists>w'. WriteObjectHeader w addr (oh\<lparr>oh_Messages := hs\<rparr>) = Inr w' \<and> fw_file w' = Some (contents w', True)
     \<and> header_at (contents w') addr (oh_Flags oh) (map parsed hs)"
proof -
  let ?ohw = "v2_writer (oh_Flags oh) (map parsed hs)"
  have a: "as_writer (oh\<lparr>oh_Messages := hs\<rparr>) = ?ohw" using oh(1) by (simp add: as_writer_def v2_writer_def comp_def)
  have lt: "unat addr < 2 ^ 63" using room by simp
  let ?w = "w\<lparr>fw_file := Some (overwrite f (unat addr) (header_v2 ?ohw), True)\<rparr>"
  have v: "ohw_Version ?ohw = 2" by (simp add: v2_writer_def)
  have "fw_WriteAt w (header_v2 ?ohw) addr = Inr ?w"
    by (rule fw_WriteAt_open [OF w _ lt]) (simp add: header_v2_def with_checksum_def Let_def)
  then have "WriteObjectHeader w addr (oh\<lparr>oh_Messages := hs\<rparr>) = Inr ?w"
    using oh(1) v by (simp add: WriteObjectHeader_def a ohw_WriteTo_def writeToV2_def)
  moreover have "holds_at (contents ?w) (unat addr) (header_v2 ?ohw)"
    by (simp add: contents_def) (rule overwrite_holds, simp add: header_v2_def with_checksum_def Let_def)
  ultimately show ?thesis using room oh(2) by (intro exI [of _ ?w]) (simp add: header_at_def contents_def)
qed

text \<open>Finding the attribute by its name.\<close>

lemma find_attribute_nth:
  assumes "\<forall>p\<in>set (map parsed hs). plain_message p"
  shows "\<exists>r. find_attribute hs name LittleEndian i = Inr r
     \<and> (case r of
          None \<Rightarrow> name \<notin> at_Name ` set (attrs_of (map parsed hs))
        | Some (a, j) \<Rightarrow> i \<le> j \<and> j < i + length hs \<and> hm_Type (hs ! (j - i)) = MsgAttribute
            \<and> ParseAttributeMessage (hm_Data (hs ! (j - i))) LittleEndian = Inr a \<and> at_Name a = name)"
  using assms
proof (induction hs arbitrary: i)
  case Nil
  then show ?case by (simp add: attrs_of_def)
next
  case (Cons h hs)
  from Cons.IH [of "Suc i"] Cons.prems obtain r where r: "find_attribute hs name LittleEndian (Suc i) = Inr r"
    "case r of None \<Rightarrow> name \<notin> at_Name ` set (attrs_of (map parsed hs))
        | Some (a, j) \<Rightarrow> Suc i \<le> j \<and> j < Suc i + length hs \<and> hm_Type (hs ! (j - Suc i)) = MsgAttribute
            \<and> ParseAttributeMessage (hm_Data (hs ! (j - Suc i))) LittleEndian = Inr a \<and> at_Name a = name" by auto
  have shift: "(h # hs) ! (j - i) = hs ! (j - Suc i)" if "Suc i \<le> j" for j using that by (simp add: nth_Cons' Suc_diff_le)
  show ?case
  proof (cases "hm_Type h = MsgAttribute")
    case False
    then show ?thesis using r shift by (auto simp: attrs_of_def split: option.splits)
  next
    case True
    then obtain a where a: "ParseAttributeMessage (hm_Data h) LittleEndian = Inr a" using Cons.prems by (auto simp: plain_message_def)
    show ?thesis
    proof (cases "at_Name a = name")
      case name: True
      then show ?thesis using True a by (intro exI [of _ "Some (a, i)"]) simp
    next
      case False
      then show ?thesis using True a r shift by (auto simp: attrs_of_def split: option.splits)
    qed
  qed
qed


definition attr_map :: "Attribute list \<Rightarrow> bytes \<rightharpoonup> Attribute" where
  "attr_map attrs = map_of (map (\<lambda>a. (at_Name a, a)) attrs)"

lemma attr_map_Cons [simp]: "attr_map [] = Map.empty" "attr_map (a # as) = (attr_map as)(at_Name a \<mapsto> a)"
  by (simp_all add: attr_map_def)

lemma attr_map_None: "name \<notin> at_Name ` set xs \<Longrightarrow> attr_map xs name = None"
  by (induction xs) auto

text \<open>Removing, replacing and moving the one attribute of the list that has the name.\<close>

lemma attr_map_change:
  assumes "distinct (map at_Name (xs @ a # ys))"
  shows "attr_map (xs @ ys) = (attr_map (xs @ a # ys))(at_Name a := None)"
    "at_Name b = at_Name a \<Longrightarrow> attr_map (xs @ b # ys) = (attr_map (xs @ a # ys))(at_Name a \<mapsto> b)"
    "at_Name b = at_Name a \<Longrightarrow> attr_map (xs @ ys @ [b]) = (attr_map (xs @ a # ys))(at_Name a \<mapsto> b)"
proof -
  have n: "at_Name a \<notin> at_Name ` set ys" "at_Name a \<notin> at_Name ` set xs" using assms by auto
  have ys: "(attr_map ys)(at_Name a := None) = attr_map ys" using attr_map_None [OF n(1)] by auto
  show "attr_map (xs @ ys) = (attr_map (xs @ a # ys))(at_Name a := None)"
    using n(2) ys by (induction xs) (auto simp: fun_upd_twist)
  show "attr_map (xs @ b # ys) = (attr_map (xs @ a # ys))(at_Name a \<mapsto> b)" if "at_Name b = at_Name a"
    using n(2) that by (induction xs) (auto simp: fun_upd_twist)
  have e: "attr_map (ys @ [b]) = (attr_map ys)(at_Name a \<mapsto> b)" if "at_Name b = at_Name a"
    using n(1) that by (induction ys) (auto simp: fun_upd_twist)
  show "attr_map (xs @ ys @ [b]) = (attr_map (xs @ a # ys))(at_Name a \<mapsto> b)" if "at_Name b = at_Name a"
    using n(2) e [OF that] by (induction xs) (auto simp: fun_upd_twist)
qed

lemma attrs_of_append [simp]: "attrs_of (xs @ ys) = attrs_of xs @ attrs_of ys"
  by (simp add: attrs_of_def)

lemma attrs_of_attr: "ParseAttributeMessage d LittleEndian = Inr a \<Longrightarrow> attrs_of ((MsgAttribute, d) # ps) = a # attrs_of ps"
  by (simp add: attrs_of_def)

text \<open>The messages of the header, split at the attribute.\<close>

lemma split_at_attribute:
  assumes oh: "map parsed hs = ps" "\<forall>p\<in>set ps. plain_message p" and name: "name \<in> at_Name ` set (attrs_of ps)"
  obtains pre h post a where "hs = pre @ h # post" "find_attribute hs name LittleEndian 0 = Inr (Some (a, length pre))"
    "parsed h = (MsgAttribute, hm_Data h)" "ParseAttributeMessage (hm_Data h) LittleEndian = Inr a" "at_Name a = name"
proof -
  have pm: "\<forall>p\<in>set (map parsed hs). plain_message p" unfolding oh(1) by (rule oh(2))
  from find_attribute_nth [OF pm, of name 0] obtain r where r: "find_attribute hs name LittleEndian 0 = Inr r"
    "case r of None \<Rightarrow> name \<notin> at_Name ` set (attrs_of ps)
        | Some (a, j) \<Rightarrow> 0 \<le> j \<and> j < 0 + length hs \<and> hm_Type (hs ! (j - 0)) = MsgAttribute
            \<and> ParseAttributeMessage (hm_Data (hs ! (j - 0))) LittleEndian = Inr a \<and> at_Name a = name"
    unfolding oh(1) by blast
  obtain a j where rj: "r = Some (a, j)" using r(2) name by (cases r) auto
  have f: "find_attribute hs name LittleEndian 0 = Inr (Some (a, j))" "j < length hs" "hm_Type (hs ! j) = MsgAttribute"
       "ParseAttributeMessage (hm_Data (hs ! j)) LittleEndian = Inr a" "at_Name a = name"
    using r unfolding rj by simp_all
  have e: "hs = take j hs @ hs ! j # drop (Suc j) hs" using f(2) by (rule id_take_nth_drop)
  have l: "length (take j hs) = j" using f(2) by simp
  show thesis
    by (rule that [of "take j hs" "hs ! j" "drop (Suc j) hs" a]) (use e l f in simp_all)
qed

lemma sizeV2_bound: "sizeV2 (v2_writer fl ps) \<le> 18 + sum_list (map (\<lambda>p. 4 + length (snd p)) ps)"
proof -
  have "messages_size (ohw_Messages (v2_writer fl ps)) = sum_list (map (\<lambda>p. 4 + length (snd p)) ps)"
    by (induction ps) (simp_all add: v2_writer_def messages_size_def)
  moreover have "chunkSizeFieldWidth n \<le> 8" for n by (simp add: chunkSizeFieldWidth_def)
  ultimately show ?thesis by (simp add: sizeV2_def Let_def)
qed

abbreviation other_messages :: "ObjectHeader \<Rightarrow> (MessageType \<times> bytes) list" where
  "other_messages oh \<equiv> filter (\<lambda>p. fst p \<noteq> MsgAttribute) (map parsed (oh_Messages oh))"

lemma rewritten_header:
  assumes w: "fw_file w = Some (f, True)" and oh: "oh_Version oh = 2" "oh_Flags oh AND 0x34 = 0" and sb: "Endianness sb = LittleEndian"
    and ok: "\<forall>p\<in>set (map parsed hs). plain_message p"
    and room: "unat addr + 18 + sum_list (map (\<lambda>p. 4 + length (snd p)) (map parsed hs)) < 2 ^ 63"
  shows "\<exists>w' oh'. WriteObjectHeader w addr (oh\<lparr>oh_Messages := hs\<rparr>) = Inr w' \<and> ReadObjectHeader (contents w') addr sb = Some (Inr oh')
     \<and> map parsed (oh_Messages oh') = map parsed hs \<and> oh_Attributes oh' = attrs_of (map parsed hs)"
proof -
  have "unat addr + sizeV2 (v2_writer (oh_Flags oh) (map parsed hs)) < 2 ^ 63"
    using sizeV2_bound [of "oh_Flags oh" "map parsed hs"] room by linarith
  from rewrite_header [OF w oh this] obtain w' where
    1: "WriteObjectHeader w addr (oh\<lparr>oh_Messages := hs\<rparr>) = Inr w'" "header_at (contents w') addr (oh_Flags oh) (map parsed hs)" by blast
  from ReadObjectHeader_plain [OF 1(2) ok sb] show ?thesis using 1(1) by blast
qed

section \<open>Properties\<close>



abbreviation one_cell :: DataspaceMessage where
  "one_cell \<equiv> \<lparr>ds_Version = 1, ds_Type = DataspaceSimple, ds_Dimensions = [1], ds_MaxDims = []\<rparr>"

definition demo_attr :: "byte \<Rightarrow> Attribute" where
  "demo_attr v = \<lparr>at_Name = [65], at_Datatype = int32_type, at_Dataspace = one_cell, at_Data = [v, 0, 0, 0]\<rparr>"

definition demo_read :: "byte \<Rightarrow> Attribute" where
  "demo_read v = (demo_attr v)\<lparr>at_Datatype := int32_type\<lparr>dt_Properties := [0, 0, 32, 0]\<rparr>\<rparr>"

definition demo_message :: "byte \<Rightarrow> bytes" where
  "demo_message v = [3, 0, 2, 0, 12, 0, 16, 0, 0, 65, 0, 0x10, 8, 0, 0, 4, 0, 0, 0, 0, 0, 32, 0,
     1, 1, 0, 0, 0, 0, 0, 0, 1, 0, 0, 0, 0, 0, 0, 0, v, 0, 0, 0]"

lemma demo_encoded:
  "EncodeAttributeFromStruct (demo_attr 7) = Inr (demo_message 7)" "EncodeAttributeFromStruct (demo_attr 9) = Inr (demo_message 9)"
  "ParseAttributeMessage (demo_message 7) LittleEndian = Inr (demo_read 7)" "ParseAttributeMessage (demo_message 9) LittleEndian = Inr (demo_read 9)"
  by code_simp+

definition demo_file :: FileWriter where
  "demo_file = \<lparr>fw_file = Some (header_v2 (v2_writer 0 [(MsgAttribute, demo_message 7)]), True), fw_allocator = NewAllocator 100\<rparr>"

lemma demo_header:
  "fw_file demo_file = Some (contents demo_file, True)" "header_at (contents demo_file) 0 0 [(MsgAttribute, demo_message 7)]"
  "\<forall>p\<in>set [(MsgAttribute, demo_message 7)]. plain_message p" "attrs_of [(MsgAttribute, demo_message 7)] = [demo_read 7]"
proof -
  show "fw_file demo_file = Some (contents demo_file, True)" by (simp add: demo_file_def contents_def)
  have "sizeV2 (v2_writer 0 [(MsgAttribute, demo_message 7)]) < 2 ^ 63"
    by (simp add: sizeV2_def v2_writer_def messages_size_def chunkSizeFieldWidth_def Let_def demo_message_def)
  then show "header_at (contents demo_file) 0 0 [(MsgAttribute, demo_message 7)]"
    by (simp add: header_at_def demo_file_def contents_def holds_at_def)
  show "\<forall>p\<in>set [(MsgAttribute, demo_message 7)]. plain_message p"
    using demo_encoded(3) by (simp add: plain_message_def) (simp add: demo_message_def)
  show "attrs_of [(MsgAttribute, demo_message 7)] = [demo_read 7]" using demo_encoded(3) by (simp add: attrs_of_def)
qed



definition number_element :: "DatatypeClass \<Rightarrow> u32 \<Rightarrow> u64 \<Rightarrow> element" where
  "number_element c sz v =
     (if c = DatatypeFixed then (if sz = 4 then EInt32 (ucast v) else EInt64 v)
      else (if sz = 4 then EFloat32 (ucast v) else EFloat64 v))"

lemma drop_concat_const:
  "\<forall>x\<in>set xss. length x = w \<Longrightarrow> i < length xss \<Longrightarrow> take w (drop (i * w) (concat xss)) = xss ! i"
proof (induction xss arbitrary: i)
  case (Cons x xss)
  then show ?case by (cases i) (simp_all add: add.commute)
qed simp

lemma numbers_concat:
  assumes "\<And>v. v \<in> set vs \<Longrightarrow> get (le_put w v) = el v" "unat n = length vs"
  shows "numbers get w n (concat (map (le_put w) vs)) = map el vs"
proof (rule nth_equalityI)
  show l: "length (numbers get w n (concat (map (le_put w) vs))) = length (map el vs)" using assms(2) by (simp add: numbers_def)
  fix i assume "i < length (numbers get w n (concat (map (le_put w) vs)))"
  then have i: "i < length vs" using l by simp
  have "take w (drop (i * w) (concat (map (le_put w) vs))) = map (le_put w) vs ! i" by (rule drop_concat_const) (use i in simp_all)
  then show "numbers get w n (concat (map (le_put w) vs)) ! i = map el vs ! i"
    using i assms by (simp add: numbers_def)
qed

lemma numeric_values_concat:
  assumes "\<And>v. v \<in> set vs \<Longrightarrow> get (le_put (unat w) v) = el v" "length vs < 2 ^ 59" "n = of_nat (length vs)" "w = 4 \<or> w = 8"
  shows "numeric_values get w err n (concat (map (le_put (unat w)) vs)) = Inr (map el vs)"
proof -
  have u: "unat n = length vs" unfolding assms(3) using assms(2) by (intro unat_of_nat_less) simp
  have w8: "unat w \<le> 8" using assms(4) by auto
  have le: "length vs * unat w \<le> length vs * 8" using w8 by (intro mult_le_mono2)
  have "length vs * 8 < 2 ^ 64" using assms(2) by simp
  then have lt: "unat n * unat w < 2 ^ 64" unfolding u by (rule le_less_trans [OF le])
  have m: "SafeMultiply n w = Inr (n * w)" using lt by (simp add: SafeMultiply_eq)
  have "length (concat (map (le_put (unat w)) vs)) = unat w * length vs" by (rule length_concat_const) simp
  then have "of_nat (length (concat (map (le_put (unat w)) vs))) = n * w"
    unfolding assms(3) by (simp add: mult.commute)
  then show ?thesis using m numbers_concat [of vs get "unat w" el n] assms(1) u by (simp add: numeric_values_def)
qed

text \<open>
  Numeric attributes: the value read from little-endian data of four or eight bytes per element is the
  list of the numbers that were encoded, a single number for a scalar.
\<close>
theorem ReadValue_numbers:
  assumes "TotalElements (at_Dataspace a) = of_nat (length vs)" "vs \<noteq> []" "length vs < 2 ^ 59"
    "dt_Class (at_Datatype a) \<in> {DatatypeFixed, DatatypeFloat}"
    "dt_Size (at_Datatype a) = 4 \<and> (\<forall>v\<in>set vs. unat v < 2 ^ 32) \<or> dt_Size (at_Datatype a) = 8"
    "at_Data a = concat (map (le_put (unat (dt_Size (at_Datatype a)))) vs)"
  shows "ReadValue fuel r osz a = Some (Inr
     (let es = map (number_element (dt_Class (at_Datatype a)) (dt_Size (at_Datatype a))) vs; dims = ds_Dimensions (at_Dataspace a)
      in if dims = [] \<or> dims = [1] then VScalar (hd es) else VSlice es))"
proof -
  let ?c = "dt_Class (at_Datatype a)" and ?s = "dt_Size (at_Datatype a)" and ?dims = "ds_Dimensions (at_Dataspace a)"
  let ?n = "TotalElements (at_Dataspace a)"
  have un: "unat ?n = length vs" unfolding assms(1) using assms(3) by (intro unat_of_nat_less) simp
  have n0: "?n \<noteq> 0" using un assms(2) by auto
  have sz: "?s = 4 \<or> ?s = 8" using assms(5) by auto
  obtain v vs' where vs: "vs = v # vs'" using assms(2) by (cases vs) auto
  have d0: "at_Data a \<noteq> []" using sz unfolding assms(6) vs by auto
  have sc: "(?dims = [] \<or> length ?dims = 1 \<and> ?dims ! 0 = 1) = (?dims = [] \<or> ?dims = [1])" by (cases ?dims) auto
  have g4: "order_get LittleEndian (le_put 4 x) = (ucast x :: u32)" for x :: u64
  proof -
    have "le_put 4 x = le_put 4 (ucast (ucast x :: u32) :: u64)"
      by (rule le_put_cong_low) (rule bit_word_eqI, auto simp: bit_simps)
    also have "\<dots> = le_put 4 (ucast x :: u32)" by (rule le_put_ucast_up) simp
    finally show ?thesis by (simp del: le_put_numeral)
  qed
  have g8: "order_get LittleEndian (le_put 8 x) = (x :: u64)" for x by (simp del: le_put_numeral)
  have 4: "numeric_values (\<lambda>b. E (order_get LittleEndian b)) 4 err ?n (concat (map (le_put 4) vs)) = Inr (map (\<lambda>v. E (ucast v)) vs)"
    for E :: "u32 \<Rightarrow> element" and err
    using numeric_values_concat [of vs "\<lambda>b. E (order_get LittleEndian b)" 4 "\<lambda>v. E (ucast v)" ?n err] assms(1,3) g4
    by (simp del: order_get.simps le_put_numeral)
  have 8: "numeric_values (\<lambda>b. E (order_get LittleEndian b)) 8 err ?n (concat (map (le_put 8) vs)) = Inr (map E vs)"
    for E :: "u64 \<Rightarrow> element" and err
    using numeric_values_concat [of vs "\<lambda>b. E (order_get LittleEndian b)" 8 E ?n err] assms(1,3) g8
    by (simp del: order_get.simps le_put_numeral)
  show ?thesis
    unfolding ReadValue_def Let_def sc
    using n0 d0 sz assms(4) 4 8 unfolding assms(6)
    by (auto simp: number_element_def vs simp del: order_get.simps le_put_numeral)
qed

theorem ReadValue_numbers_witness:
  "ReadValue 0 None 8 \<lparr>at_Name = [65], at_Datatype = int32_type, at_Dataspace = one_cell\<lparr>ds_Dimensions := [2]\<rparr>,
     at_Data = [1, 0, 0, 0, 2, 1, 0, 0]\<rparr> = Some (Inr (VSlice [EInt32 1, EInt32 258]))"
  using ReadValue_numbers [of "\<lparr>at_Name = [65], at_Datatype = int32_type, at_Dataspace = one_cell\<lparr>ds_Dimensions := [2]\<rparr>,
     at_Data = [1, 0, 0, 0, 2, 1, 0, 0]\<rparr>" "[1, 258]" 0 None 8]
  by (simp add: int32_type_def TotalElements_def number_element_def drop_bit_eq_div)

text \<open>
  The slice of a string attribute is made before the size of its data is checked: an attribute of one
  byte whose dataspace claims enough elements makes the reader panic instead of returning an error.
\<close>
theorem huge_string_attribute_panics:
  assumes "dt_Class (at_Datatype a) = DatatypeString" "IsFixedString (at_Datatype a)" "at_Data a \<noteq> []"
    "2 ^ 44 \<le> unat (TotalElements (at_Dataspace a))"
  shows "ReadValue fuel r osz a = Some (Inl makeslice_panic)"
proof -
  have "TotalElements (at_Dataspace a) \<noteq> 0" using assms(4) by auto
  moreover have "max_alloc \<le> unat (TotalElements (at_Dataspace a)) * 16" using assms(4) by simp
  ultimately show ?thesis using assms(1-3) by (simp add: ReadValue_def Let_def)
qed

theorem huge_string_attribute_panics_witness:
  "ReadValue 0 None 8 \<lparr>at_Name = [65], at_Datatype = \<lparr>dt_Class = DatatypeString, dt_Version = 1, dt_Size = 1, dt_ClassBitField = 0, dt_Properties = []\<rparr>,
     at_Dataspace = one_cell\<lparr>ds_Dimensions := [0x1000000000000]\<rparr>, at_Data = [65]\<rparr> = Some (Inl makeslice_panic)"
  by (rule huge_string_attribute_panics) (simp_all add: IsFixedString_def IsString_def TotalElements_def)

definition info_ok :: "AttributeInfoMessage \<Rightarrow> Superblock \<Rightarrow> bool" where
  "info_ok ai sb \<longleftrightarrow> sizes_ok sb \<and> Endianness sb = LittleEndian
     \<and> fits_width (unat (OffsetSize sb)) (ai_FractalHeapAddr ai) \<and> fits_width (unat (OffsetSize sb)) (ai_BTreeNameIndexAddr ai)
     \<and> (if ai_Flags ai AND 0x01 \<noteq> 0 then unat (ai_MaxCreationIndex ai) < 65536 else ai_MaxCreationIndex ai = 0)
     \<and> (if ai_Flags ai AND 0x02 \<noteq> 0 then fits_width (unat (OffsetSize sb)) (ai_BTreeOrderIndexAddr ai) else ai_BTreeOrderIndexAddr ai = 0)"

lemma core_address_roundtrip:
  assumes "sz \<in> {1, 2, 4, 8}" "fits_width sz v"
  shows "core_readAddress (core_writeAddress v sz LittleEndian) sz = v" "length (core_writeAddress v sz LittleEndian) = sz"
proof -
  have t: "take_bit (8 * sz) v = v" by (rule fits_width_take_bit [OF assms(2)])
  have w: "core_writeAddress v sz LittleEndian = le_put sz v" using assms(1) by (auto simp: core_writeAddress_def)
  show "length (core_writeAddress v sz LittleEndian) = sz" by (simp add: w)
  show "core_readAddress (core_writeAddress v sz LittleEndian) sz = v"
  proof (cases "sz = 1")
    case True
    have "ucast (ucast v :: byte) = take_bit 8 v" by (rule bit_word_eqI) (auto simp: bit_simps)
    then show ?thesis using True t by (simp add: core_readAddress_def core_writeAddress_def)
  next
    case False
    then have "core_readAddress (core_writeAddress v sz LittleEndian) sz = le_get (le_put sz v)"
      using assms(1) unfolding w by (auto simp: core_readAddress_def Let_def simp del: le_put_numeral)
    then show ?thesis by (simp add: le_get_le_put t)
  qed
qed

lemma attribute_info_parsed:
  assumes "info_ok ai sb"
  shows "\<exists>b. EncodeAttributeInfoMessage ai sb = Inr b \<and> ParseAttributeInfoMessage b sb = Inr ai"
proof -
  let ?o = "unat (OffsetSize sb)"
  let ?t = "ai_Flags ai AND 0x01 \<noteq> 0" and ?x = "ai_Flags ai AND 0x02 \<noteq> 0"
  have o: "?o \<in> {1, 2, 4, 8}" "Endianness sb = LittleEndian" using assms by (auto simp: info_ok_def sizes_ok_def)
  let ?A = "core_writeAddress (ai_FractalHeapAddr ai) ?o LittleEndian" and ?B = "core_writeAddress (ai_BTreeNameIndexAddr ai) ?o LittleEndian"
  let ?C = "if ?x then core_writeAddress (ai_BTreeOrderIndexAddr ai) ?o LittleEndian else []"
  let ?T = "if ?t then le_put 2 (ucast (ai_MaxCreationIndex ai) :: u16) @ le_put 2 (0 :: u16) else []"
  let ?b = "[ai_Version ai, ai_Flags ai] @ ?T @ ?A @ ?B @ ?C"
  have A: "length ?A = ?o" "core_readAddress ?A ?o = ai_FractalHeapAddr ai" "length ?B = ?o" "core_readAddress ?B ?o = ai_BTreeNameIndexAddr ai"
    using assms core_address_roundtrip [OF o(1)] by (simp_all add: info_ok_def)
  have C: "length ?C = (if ?x then ?o else 0)" "?x \<Longrightarrow> core_readAddress ?C ?o = ai_BTreeOrderIndexAddr ai"
    using assms core_address_roundtrip [OF o(1)] by (simp_all add: info_ok_def)
  have mx: "?t \<Longrightarrow> ucast (ucast (ai_MaxCreationIndex ai) :: u16) = ai_MaxCreationIndex ai"
  proof -
    assume ?t
    then have "unat (ai_MaxCreationIndex ai) < 2 ^ 16" using assms by (simp add: info_ok_def)
    then have "take_bit 16 (ai_MaxCreationIndex ai) = ai_MaxCreationIndex ai"
      by (intro unat_eqD) (simp add: unsigned_take_bit_eq take_bit_nat_eq_self)
    moreover have "ucast (ucast (ai_MaxCreationIndex ai) :: u16) = take_bit 16 (ai_MaxCreationIndex ai)"
      by (rule bit_word_eqI) (auto simp: bit_simps)
    ultimately show ?thesis by simp
  qed
  have e: "EncodeAttributeInfoMessage ai sb = Inr ?b"
    by (simp add: EncodeAttributeInfoMessage_def Let_def o(2) del: le_put_numeral)
  define k where "k = (if ?t then 6 else 2 :: nat)"
  have dk: "drop k ?b = ?A @ ?B @ ?C" by (simp add: k_def del: le_put_numeral)
  have ad: "drop (k + ?o) ?b = drop ?o (drop k ?b)" "drop (k + ?o + ?o) ?b = drop ?o (drop ?o (drop k ?b))" by (simp_all add: ac_simps)
  have dA: "take ?o (drop k ?b) = ?A" "take ?o (drop (k + ?o) ?b) = ?B" "drop (k + ?o + ?o) ?b = ?C"
    unfolding ad dk using A by simp_all
  have lb: "length ?b = k + ?o + ?o + length ?C" using A(1,3) by (simp add: k_def)
  have h: "?b ! 0 = ai_Version ai" "?b ! 1 = ai_Flags ai" by simp_all
  have t2: "?t \<Longrightarrow> take 2 (drop 2 ?b) = le_put 2 (ucast (ai_MaxCreationIndex ai) :: u16)" by (simp del: le_put_numeral)
  have z: "\<not> ?t \<Longrightarrow> ai_MaxCreationIndex ai = 0" "\<not> ?x \<Longrightarrow> ai_BTreeOrderIndexAddr ai = 0" using assms by (simp_all add: info_ok_def)
  have p: "ParseAttributeInfoMessage ?b sb = Inr \<lparr>ai_Version = ai_Version ai, ai_Flags = ai_Flags ai,
      ai_FractalHeapAddr = ai_FractalHeapAddr ai, ai_BTreeNameIndexAddr = ai_BTreeNameIndexAddr ai,
      ai_MaxCreationIndex = ai_MaxCreationIndex ai, ai_BTreeOrderIndexAddr = ai_BTreeOrderIndexAddr ai\<rparr>"
  proof -
    have k6: "k \<le> length ?b" "?t \<Longrightarrow> 6 \<le> length ?b" "2 \<le> length ?b" using lb by (simp_all add: k_def)
    have mi: "(if ?t then ucast (order_get (Endianness sb) (take 2 (drop 2 ?b)) :: u16) else 0) = ai_MaxCreationIndex ai"
      using t2 mx z(1) o(2) by (simp del: le_put_numeral)
    have oi: "(if ?x then core_readAddress (take ?o (drop (k + ?o + ?o) ?b)) ?o else 0) = ai_BTreeOrderIndexAddr ai"
    proof (cases ?x)
      case True
      then have "take ?o ?C = ?C" using C(1) by simp
      then show ?thesis unfolding dA using True C(2) by simp
    next
      case False
      then show ?thesis using z(2) by simp
    qed
    show ?thesis
      unfolding ParseAttributeInfoMessage_def Let_def h mi k_def [symmetric] dA(1,2) oi A
      using k6 lb C(1) by (auto simp del: le_put_numeral)
  qed
  then show ?thesis using e by simp
qed

text \<open>
  The attribute info message: what is encoded is parsed back, for the widths a superblock can have
  and little-endian order. Addresses are always read in that order, whatever the superblock says.
\<close>
theorem attribute_info_roundtrip:
  assumes "info_ok ai sb"
  shows "\<exists>b. EncodeAttributeInfoMessage ai sb = Inr b \<and> ParseAttributeInfoMessage b sb = Inr ai"
  by (rule attribute_info_parsed [OF assms])

theorem attribute_info_roundtrip_witness:
  "\<exists>b. EncodeAttributeInfoMessage \<lparr>ai_Version = 0, ai_Flags = 3, ai_FractalHeapAddr = 48, ai_BTreeNameIndexAddr = 4096,
       ai_MaxCreationIndex = 8, ai_BTreeOrderIndexAddr = 8192\<rparr> sb8 = Inr b
     \<and> ParseAttributeInfoMessage b sb8 = Inr \<lparr>ai_Version = 0, ai_Flags = 3, ai_FractalHeapAddr = 48, ai_BTreeNameIndexAddr = 4096,
       ai_MaxCreationIndex = 8, ai_BTreeOrderIndexAddr = 8192\<rparr>"
  by (rule attribute_info_roundtrip) (simp add: info_ok_def sizes_ok_def fits_width_def)

end
