(* ===== verification/Dense_Storage.thy ===== *)
theory Dense_Storage
  imports Attributes Fractal_Heap_File BTree_Lazy Links
begin

text \<open>
  Dense storage of attributes and links: objects in a fractal heap, found through a version 2 B-tree
  of name hashes. The modification and deletion of dense attributes of
  \<^verbatim>\<open>internal/core/attribute_modify.go\<close> over the interfaces \<^verbatim>\<open>HeapWriter\<close> and \<^verbatim>\<open>BTreeWriter\<close>,
  \<^verbatim>\<open>internal/writer/dense_attribute_writer.go\<close> and \<^verbatim>\<open>internal/writer/densegroup_writer.go\<close>.
\<close>

section \<open>Modification over the interfaces\<close>

text \<open>
  The two interfaces as records of methods on the state of whoever implements them. \<^verbatim>\<open>InsertObject\<close>
  may change the heap and still fail; the other methods fail before they change anything.
\<close>

record 'h core_HeapWriter =
  hw_GetObject :: "'h \<Rightarrow> bytes \<Rightarrow> bytes result"
  hw_OverwriteObject :: "'h \<Rightarrow> bytes \<Rightarrow> bytes \<Rightarrow> 'h result"
  hw_DeleteObject :: "'h \<Rightarrow> bytes \<Rightarrow> 'h result"
  hw_InsertObject :: "'h \<Rightarrow> bytes \<Rightarrow> bytes result \<times> 'h"

record 't BTreeWriter =
  bw_SearchRecord :: "'t \<Rightarrow> bytes \<Rightarrow> bytes option"
  bw_UpdateRecord :: "'t \<Rightarrow> bytes \<Rightarrow> u64 \<Rightarrow> 't result"
  bw_DeleteRecord :: "'t \<Rightarrow> bytes \<Rightarrow> 't result"
  bw_DeleteRecordWithRebalancing :: "'t \<Rightarrow> bytes \<Rightarrow> 't result"
  bw_DeleteRecordLazy :: "'t \<Rightarrow> bytes \<Rightarrow> 't result"
  bw_IsLazyRebalancingEnabled :: "'t \<Rightarrow> bool"

text \<open>
  The new attribute comes encoded in its data. Heap and tree are the caller's objects, so they are
  returned with an error too, as the calls before it left them.
\<close>

definition ModifyDenseAttribute ::
  "'h core_HeapWriter \<Rightarrow> 't BTreeWriter \<Rightarrow> 'h \<Rightarrow> 't \<Rightarrow> bytes \<Rightarrow> Attribute \<Rightarrow> unit result \<times> 'h \<times> 't" where
  "ModifyDenseAttribute H B heap btree name newAttr =
     (if name = [] then (Inl (Errorf ''attribute name cannot be empty''), heap, btree)
      else case bw_SearchRecord B btree name of
        None \<Rightarrow> (Inl (Errorf ''attribute %q not found in dense storage''), heap, btree)
      | Some heapID \<Rightarrow>
          (case hw_GetObject H heap heapID of
             Inl e \<Rightarrow> (Inl (wrap ''failed to read old attribute from heap: %w'' e), heap, btree)
           | Inr oldAttrData \<Rightarrow>
               let newAttrData = at_Data newAttr
               in if newAttrData = [] then (Inl (Errorf ''new attribute data is empty (caller must encode)''), heap, btree)
                  else if length newAttrData = length oldAttrData
                  then (case hw_OverwriteObject H heap heapID newAttrData of
                          Inl e \<Rightarrow> (Inl (wrap ''failed to overwrite heap object: %w'' e), heap, btree)
                        | Inr heap \<Rightarrow> (Inr (), heap, btree))
                  else (case hw_DeleteObject H heap heapID of
                          Inl e \<Rightarrow> (Inl (wrap ''failed to delete old heap object: %w'' e), heap, btree)
                        | Inr heap \<Rightarrow>
                            (case hw_InsertObject H heap newAttrData of
                               (Inl e, heap) \<Rightarrow> (Inl (wrap ''failed to insert new attribute: %w'' e), heap, btree)
                             | (Inr newHeapIDBytes, heap) \<Rightarrow>
                                 if length newHeapIDBytes \<noteq> 8
                                 then (Inl (Errorf ''unexpected heap ID length: %d bytes''), heap, btree)
                                 else (case bw_UpdateRecord B btree name (le_get newHeapIDBytes) of
                                         Inl e \<Rightarrow> (Inl (wrap ''failed to update B-tree record: %w'' e), heap, btree)
                                       | Inr btree \<Rightarrow> (Inr (), heap, btree))))))"

definition delete_record :: "'t BTreeWriter \<Rightarrow> bool \<Rightarrow> 't \<Rightarrow> bytes \<Rightarrow> 't result" where
  "delete_record B rebalance btree name =
     (if bw_IsLazyRebalancingEnabled B btree then bw_DeleteRecordLazy B btree name
      else if rebalance then bw_DeleteRecordWithRebalancing B btree name
      else bw_DeleteRecord B btree name)"

definition DeleteDenseAttribute ::
  "'h core_HeapWriter \<Rightarrow> 't BTreeWriter \<Rightarrow> 'h \<Rightarrow> 't \<Rightarrow> bytes \<Rightarrow> bool \<Rightarrow> unit result \<times> 'h \<times> 't" where
  "DeleteDenseAttribute H B heap btree name rebalance =
     (if name = [] then (Inl (Errorf ''attribute name cannot be empty''), heap, btree)
      else case bw_SearchRecord B btree name of
        None \<Rightarrow> (Inl (Errorf ''attribute %q not found in dense storage''), heap, btree)
      | Some heapID \<Rightarrow>
          (case delete_record B rebalance btree name of
             Inl e \<Rightarrow> (Inl (wrap ''failed to delete B-tree record: %w'' e), heap, btree)
           | Inr btree \<Rightarrow>
               (case hw_DeleteObject H heap heapID of
                  Inl e \<Rightarrow> (Inl (wrap ''failed to delete heap object: %w'' e), heap, btree)
                | Inr heap \<Rightarrow> (Inr (), heap, btree))))"

text \<open>The two structures that implement the interfaces; the clock of the tree is an argument.\<close>

definition fractal_writer :: "(u64 list \<Rightarrow> u64 list) \<Rightarrow> WritableFractalHeap core_HeapWriter" where
  "fractal_writer visit =
     \<lparr>hw_GetObject = fh_GetObject visit, hw_OverwriteObject = OverwriteObject, hw_DeleteObject = DeleteObject,
      hw_InsertObject = fh_InsertObject visit\<rparr>"

definition on_tree :: "(WritableBTreeV2 \<Rightarrow> WritableBTreeV2 result) \<Rightarrow> LazyBTree \<Rightarrow> LazyBTree result" where
  "on_tree f b = (case f (lb_tree b) of Inl e \<Rightarrow> Inl e | Inr bt \<Rightarrow> Inr (b\<lparr>lb_tree := bt\<rparr>))"

definition btree_writer :: "int \<Rightarrow> LazyBTree BTreeWriter" where
  "btree_writer now =
     \<lparr>bw_SearchRecord = (\<lambda>b. SearchRecord (lb_tree b)), bw_UpdateRecord = (\<lambda>b n h. on_tree (\<lambda>t. UpdateRecord t n h) b),
      bw_DeleteRecord = (\<lambda>b n. on_tree (\<lambda>t. DeleteRecord t n) b),
      bw_DeleteRecordWithRebalancing = (\<lambda>b n. on_tree (\<lambda>t. DeleteRecordWithRebalancing t n) b),
      bw_DeleteRecordLazy = (\<lambda>b n. DeleteRecordLazy b now n), bw_IsLazyRebalancingEnabled = IsLazyRebalancingEnabled\<rparr>"

section \<open>The writer of dense attributes\<close>

record DenseAttributeWriter =
  da_objectAddr :: u64
  da_fractalHeap :: WritableFractalHeap
  da_btree :: WritableBTreeV2
  da_attrInfo :: AttributeInfoMessage
  da_attributes :: "(bytes \<times> Attribute) list"

definition NewDenseAttributeWriter :: "u64 \<Rightarrow> DenseAttributeWriter" where
  "NewDenseAttributeWriter objectAddr =
     \<lparr>da_objectAddr = objectAddr, da_fractalHeap = NewWritableFractalHeap (64 * 1024), da_btree = NewWritableBTreeV2 4096,
      da_attrInfo = \<lparr>ai_Version = 0, ai_Flags = 0, ai_FractalHeapAddr = 0, ai_BTreeNameIndexAddr = 0,
                     ai_MaxCreationIndex = 0, ai_BTreeOrderIndexAddr = 0\<rparr>,
      da_attributes = []\<rparr>"

definition AddAttribute ::
  "(u64 list \<Rightarrow> u64 list) \<Rightarrow> DenseAttributeWriter \<Rightarrow> Attribute \<Rightarrow> unit result \<times> DenseAttributeWriter" where
  "AddAttribute visit daw attr =
     (if at_Name attr = [] then (Inl (Errorf ''attribute name cannot be empty''), daw)
      else if map_of (da_attributes daw) (at_Name attr) \<noteq> None then (Inl (Errorf ''attribute %q already exists''), daw)
      else case EncodeAttributeFromStruct attr of
        Inl e \<Rightarrow> (Inl (wrap ''failed to encode attribute: %w'' e), daw)
      | Inr attrMsg \<Rightarrow>
          (case fh_InsertObject visit (da_fractalHeap daw) attrMsg of
             (Inl e, fh) \<Rightarrow> (Inl (wrap ''failed to insert into heap: %w'' e), daw\<lparr>da_fractalHeap := fh\<rparr>)
           | (Inr heapIDBytes, fh) \<Rightarrow>
               let daw = daw\<lparr>da_fractalHeap := fh\<rparr>
               in if length heapIDBytes \<noteq> 8 then (Inl (Errorf ''unexpected heap ID length: %d bytes''), daw)
                  else (case InsertRecord (da_btree daw) (at_Name attr) (le_get heapIDBytes) of
                          Inl e \<Rightarrow> (Inl (wrap ''failed to insert into B-tree: %w'' e), daw)
                        | Inr bt \<Rightarrow> (Inr (), daw\<lparr>da_btree := bt, da_attributes := (at_Name attr, attr) # da_attributes daw\<rparr>))))"

definition daw_WriteToFile ::
  "DenseAttributeWriter \<Rightarrow> FileWriter \<Rightarrow> Superblock \<Rightarrow> (AttributeInfoMessage \<times> DenseAttributeWriter \<times> FileWriter) result" where
  "daw_WriteToFile daw w sb =
     (if da_attributes daw = [] then Inl (Errorf ''no attributes to write'')
      else case heap_WriteToFile (da_fractalHeap daw) w sb of
        Inl e \<Rightarrow> Inl (wrap ''failed to write fractal heap: %w'' e)
      | Inr (heapAddr, fh, w) \<Rightarrow>
          (case btree_WriteToFile (da_btree daw) w sb of
             Inl e \<Rightarrow> Inl (wrap ''failed to write B-tree: %w'' e)
           | Inr (btreeAddr, bt, w) \<Rightarrow>
               let info = (da_attrInfo daw)\<lparr>ai_FractalHeapAddr := heapAddr, ai_BTreeNameIndexAddr := btreeAddr\<rparr>
               in Inr (info, daw\<lparr>da_fractalHeap := fh, da_btree := bt, da_attrInfo := info\<rparr>, w)))"

section \<open>The writer of dense groups\<close>

record denseLink =
  dl_name :: bytes
  dl_targetAddr :: u64

record DenseGroupWriter =
  dg_name :: bytes
  dg_fractalHeap :: WritableFractalHeap
  dg_btree :: WritableBTreeV2
  dg_linkInfo :: LinkInfoMessage
  dg_links :: "denseLink list"

definition NewDenseGroupWriter :: "bytes \<Rightarrow> DenseGroupWriter" where
  "NewDenseGroupWriter name =
     \<lparr>dg_name = name, dg_fractalHeap = NewWritableFractalHeap (512 * 1024), dg_btree = NewWritableBTreeV2 4096,
      dg_linkInfo = \<lparr>li_Version = 0, li_Flags = 0, li_MaxCreationOrder = 0, li_FractalHeapAddress = 0,
                     li_NameBTreeAddress = 0, li_CreationOrderBTreeAddress = 0\<rparr>,
      dg_links = []\<rparr>"

definition AddLink :: "DenseGroupWriter \<Rightarrow> bytes \<Rightarrow> u64 \<Rightarrow> DenseGroupWriter result" where
  "AddLink dgw name targetAddr =
     (if name = [] then Inl (Errorf ''link name cannot be empty'')
      else if list_ex (\<lambda>l. dl_name l = name) (dg_links dgw) then Inl (Errorf ''duplicate link name: %s'')
      else Inr (dgw\<lparr>dg_links := dg_links dgw @ [\<lparr>dl_name = name, dl_targetAddr = targetAddr\<rparr>]\<rparr>))"

text \<open>A 64-bit number in as many bytes as it needs; the loop shifts it down to zero.\<close>

function compact_size_loop :: "u64 \<Rightarrow> nat" where
  "compact_size_loop value' = (if value' = 0 then 0 else Suc (compact_size_loop (drop_bit 8 value')))"
  by auto

termination
proof (relation "measure unat")
  fix v :: u64
  assume "v \<noteq> 0"
  then have "0 < unat v" by (simp add: unat_gt_0)
  moreover have "unat (drop_bit 8 v) = unat v div 256" by (simp add: drop_bit_eq_div unat_div)
  ultimately show "(drop_bit 8 v, v) \<in> measure unat" by simp
qed simp

declare compact_size_loop.simps [simp del]

definition compactUint64Size :: "u64 \<Rightarrow> nat" where
  "compactUint64Size v = (if v = 0 then 1 else compact_size_loop v)"

definition encodeCompactUint64 :: "u64 \<Rightarrow> bytes" where
  "encodeCompactUint64 v = map (\<lambda>i. ucast (drop_bit (8 * i) v)) [0..<compactUint64Size v]"

definition createLinkMessage :: "denseLink \<Rightarrow> Superblock \<Rightarrow> bytes" where
  "createLinkMessage link sb =
     [1, 0, 0x04, 0] @ encodeCompactUint64 (of_nat (length (dl_name link))) @ dl_name link
     @ put_width (dl_targetAddr link) (unat (OffsetSize sb)) (Endianness sb)"

definition createScalarDataspaceMessage :: bytes where
  "createScalarDataspaceMessage = [1, 0, 0, 0, 0, 0, 0, 0]"

definition createObjectHeader :: "DenseGroupWriter \<Rightarrow> FileWriter \<Rightarrow> Superblock \<Rightarrow> (u64 \<times> FileWriter) result" where
  "createObjectHeader dgw w sb =
     (case EncodeLinkInfoMessage (dg_linkInfo dgw) sb of
        Inl e \<Rightarrow> Inl (Wrapf ''failed to encode link info message: %w'' e)
      | Inr linkInfoData \<Rightarrow>
          let ohw = \<lparr>ohw_Version = 2, ohw_Flags = 0,
                     ohw_Messages = [\<lparr>mw_Type = MsgLinkInfo, mw_Data = linkInfoData\<rparr>,
                                     \<lparr>mw_Type = MsgDataspace, mw_Data = createScalarDataspaceMessage\<rparr>], ohw_RefCount = 0\<rparr>
          in (case ohw_Size ohw of
                Inl e \<Rightarrow> Inl e
              | Inr headerSize \<Rightarrow>
                  (case Allocate (fw_allocator w) (of_nat headerSize) of
                     Inl e \<Rightarrow> Inl (Wrapf ''failed to allocate object header: %w'' e)
                   | Inr (headerAddr, a) \<Rightarrow>
                       (case ohw_WriteTo ohw (w\<lparr>fw_allocator := a\<rparr>) headerAddr of
                          Inl e \<Rightarrow> Inl (wrap ''failed to write object header: %w'' e)
                        | Inr (writtenSize, w) \<Rightarrow>
                            if writtenSize \<noteq> headerSize then Inl (Errorf ''header size mismatch: expected %d, wrote %d'')
                            else Inr (headerAddr, w)))))"

fun store_links :: "(u64 list \<Rightarrow> u64 list) \<Rightarrow> Superblock \<Rightarrow> denseLink list \<Rightarrow> DenseGroupWriter \<Rightarrow> DenseGroupWriter result" where
  "store_links visit sb [] dgw = Inr dgw"
| "store_links visit sb (link # links) dgw =
     (case fh_InsertObject visit (dg_fractalHeap dgw) (createLinkMessage link sb) of
        (Inl e, fh) \<Rightarrow> Inl (wrap ''failed to insert link %s into heap: %w'' e)
      | (Inr heapID, fh) \<Rightarrow>
          if length heapID < 8 then Inl (Errorf ''invalid heap ID length for link %s: %d bytes'')
          else (case InsertRecord (dg_btree dgw) (dl_name link) (le_get (take 8 heapID)) of
                  Inl e \<Rightarrow> Inl (wrap ''failed to insert link %s into B-tree: %w'' e)
                | Inr bt \<Rightarrow> store_links visit sb links (dgw\<lparr>dg_fractalHeap := fh, dg_btree := bt\<rparr>)))"

definition dgw_WriteToFile ::
  "(u64 list \<Rightarrow> u64 list) \<Rightarrow> DenseGroupWriter \<Rightarrow> FileWriter \<Rightarrow> Superblock \<Rightarrow> (u64 \<times> DenseGroupWriter \<times> FileWriter) result" where
  "dgw_WriteToFile visit dgw w sb =
     (if dg_links dgw = [] then Inl (Errorf ''dense group must have at least one link'')
      else case store_links visit sb (dg_links dgw) dgw of
        Inl e \<Rightarrow> Inl e
      | Inr dgw \<Rightarrow>
          (case heap_WriteToFile (dg_fractalHeap dgw) w sb of
             Inl e \<Rightarrow> Inl (wrap ''failed to write fractal heap: %w'' e)
           | Inr (heapAddr, fh, w) \<Rightarrow>
               (case btree_WriteToFile (dg_btree dgw) w sb of
                  Inl e \<Rightarrow> Inl (wrap ''failed to write B-tree v2: %w'' e)
                | Inr (btreeAddr, bt, w) \<Rightarrow>
                    let info = (dg_linkInfo dgw)\<lparr>li_FractalHeapAddress := heapAddr, li_NameBTreeAddress := btreeAddr,
                                                 li_CreationOrderBTreeAddress := 0\<rparr>;
                        dgw = dgw\<lparr>dg_fractalHeap := fh, dg_btree := bt, dg_linkInfo := info\<rparr>
                    in (case createObjectHeader dgw w sb of
                          Inl e \<Rightarrow> Inl (wrap ''failed to create object header: %w'' e)
                        | Inr (ohAddr, w) \<Rightarrow> Inr (ohAddr, dgw, w)))))"

section \<open>Dense storage implements a map\<close>

text \<open>
  What modification and deletion need of the two interfaces: an object store and an index of names
  whose ids survive the way through the tree. Under this contract dense storage is a map from name
  keys to attribute messages.
\<close>

definition ins_of :: "('h \<Rightarrow> bytes \<Rightarrow> bytes result \<times> 'h) \<Rightarrow> 'h \<Rightarrow> bytes \<Rightarrow> (bytes \<times> 'h) result" where
  "ins_of f s d = (case f s d of (Inl e, _) \<Rightarrow> Inl e | (Inr i, s') \<Rightarrow> Inr (i, s'))"

lemma ins_of_Inr: "ins_of f s d = Inr (i, s') \<longleftrightarrow> f s d = (Inr i, s')"
  by (auto simp: ins_of_def split: prod.splits sum.splits)

locale dense_store =
  heap: object_store hinv room "hw_GetObject H" "ins_of (hw_InsertObject H)" "hw_OverwriteObject H" "hw_DeleteObject H" +
  index: name_index tinv key enc "bw_SearchRecord B" tins "bw_UpdateRecord B" "delete_record B rebalance"
  for hinv :: "'h \<Rightarrow> bytes set \<Rightarrow> bool" and room :: "'h \<Rightarrow> nat \<Rightarrow> bool" and H :: "'h core_HeapWriter"
    and tinv :: "'t \<Rightarrow> bool" and key :: "bytes \<Rightarrow> 'k" and enc :: "u64 \<Rightarrow> bytes" and B :: "'t BTreeWriter"
    and tins :: "'t \<Rightarrow> bytes \<Rightarrow> u64 \<Rightarrow> 't result" and rebalance :: bool +
  assumes enc_id: "length i = 8 \<Longrightarrow> i ! 7 = 0 \<Longrightarrow> enc (le_get i) = i"
    and search_key: "key n = key m \<Longrightarrow> bw_SearchRecord B t n = bw_SearchRecord B t m"

context dense_store
begin

definition look :: "'h \<Rightarrow> 't \<Rightarrow> bytes \<Rightarrow> bytes option" where
  "look h t n = (case bw_SearchRecord B t n of
                   None \<Rightarrow> None | Some i \<Rightarrow> (case hw_GetObject H h i of Inl _ \<Rightarrow> None | Inr d \<Rightarrow> Some d))"

text \<open>The heap has exactly the objects the index refers to, and every key one of its own.\<close>

definition dense_inv :: "'h \<Rightarrow> 't \<Rightarrow> bool" where
  "dense_inv h t \<longleftrightarrow> tinv t \<and> hinv h {i. \<exists>n. bw_SearchRecord B t n = Some i}
     \<and> (\<forall>n m i. bw_SearchRecord B t n = Some i \<longrightarrow> bw_SearchRecord B t m = Some i \<longrightarrow> key n = key m)"

lemma dense_inj:
  "dense_inv h t \<Longrightarrow> bw_SearchRecord B t n = Some i \<Longrightarrow> bw_SearchRecord B t m = Some i \<Longrightarrow> key n = key m"
  unfolding dense_inv_def by blast

lemma look_found:
  assumes "dense_inv h t" "bw_SearchRecord B t n = Some i"
  obtains d where "hw_GetObject H h i = Inr d" "look h t n = Some d" "d \<noteq> []"
proof -
  have "i \<in> {i. \<exists>n. bw_SearchRecord B t n = Some i}" using assms(2) by blast
  moreover have "hinv h {i. \<exists>n. bw_SearchRecord B t n = Some i}" using assms(1) by (simp add: dense_inv_def)
  ultimately obtain d where d: "d \<noteq> []" "hw_GetObject H h i = Inr d" using heap.get_total by blast
  then have "look h t n = Some d" using assms(2) by (simp add: look_def)
  then show thesis using that d by blast
qed

lemma look_None: "dense_inv h t \<Longrightarrow> look h t n = None \<longleftrightarrow> bw_SearchRecord B t n = None"
  by (metis look_found option.distinct(1) option.exhaust look_def option.simps(4))

text \<open>Where the ids of two names are the same before and after, so is what is found under them.\<close>

lemma look_cong:
  assumes "bw_SearchRecord B t' n = bw_SearchRecord B t n"
    and "\<And>i. bw_SearchRecord B t n = Some i \<Longrightarrow> hw_GetObject H h' i = hw_GetObject H h i"
  shows "look h' t' n = look h t n"
  using assms by (simp add: look_def split: option.split)

lemma modify_same_size:
  assumes "dense_inv h t" "bw_SearchRecord B t name = Some i" "hw_GetObject H h i = Inr d" "length d' = length d"
  shows "\<exists>h'. hw_OverwriteObject H h i d' = Inr h' \<and> dense_inv h' t \<and> (\<forall>n. room h n \<longrightarrow> room h' n)
     \<and> (\<forall>n. look h' t n = (if key n = key name then Some d' else look h t n))"
proof -
  let ?L = "{i. \<exists>n. bw_SearchRecord B t n = Some i}"
  have L: "hinv h ?L" "i \<in> ?L" using assms(1,2) by (auto simp: dense_inv_def)
  from heap.ovw_law [OF L assms(3,4)] obtain h' where h: "hw_OverwriteObject H h i d' = Inr h'" "hinv h' ?L"
    "hw_GetObject H h' i = Inr d'" "\<forall>j\<in>?L - {i}. hw_GetObject H h' j = hw_GetObject H h j" "\<forall>n. room h n \<longrightarrow> room h' n" by blast
  have "look h' t n = (if key n = key name then Some d' else look h t n)" for n
  proof (cases "key n = key name")
    case True
    then show ?thesis using search_key [OF True] assms(2) h(3) by (simp add: look_def)
  next
    case False
    have "hw_GetObject H h' j = hw_GetObject H h j" if j: "bw_SearchRecord B t n = Some j" for j
    proof -
      have "j \<noteq> i" using False j dense_inj [OF assms(1) _ assms(2)] by blast
      then show ?thesis using h(4) j by blast
    qed
    then have "look h' t n = look h t n" by (intro look_cong) simp_all
    then show ?thesis using False by simp
  qed
  moreover have "dense_inv h' t" using assms(1) h(2) unfolding dense_inv_def by blast
  ultimately show ?thesis using h(1,5) by blast
qed

lemma modify_other_size:
  assumes "dense_inv h t" "bw_SearchRecord B t name = Some i" "d' \<noteq> []" "room h (length d')"
  shows "\<exists>h1 h' j t'. hw_DeleteObject H h i = Inr h1 \<and> hw_InsertObject H h1 d' = (Inr j, h') \<and> length j = 8
     \<and> bw_UpdateRecord B t name (le_get j) = Inr t' \<and> dense_inv h' t' \<and> (\<forall>n. room h (length d' + n) \<longrightarrow> room h' n)
     \<and> (\<forall>n. look h' t' n = (if key n = key name then Some d' else look h t n))"
proof -
  let ?S = "bw_SearchRecord B"
  let ?L = "{i. \<exists>n. ?S t n = Some i}"
  have t: "tinv t" and L: "hinv h ?L" "i \<in> ?L" using assms(1,2) by (auto simp: dense_inv_def)
  from heap.del_law [OF L] obtain h1 where h1: "hw_DeleteObject H h i = Inr h1" "hinv h1 (?L - {i})"
    "\<forall>k\<in>?L - {i}. hw_GetObject H h1 k = hw_GetObject H h k" "\<forall>n. room h n \<longrightarrow> room h1 n" by blast
  from heap.ins_law [OF h1(2) assms(3)] h1(4) assms(4) obtain j h' where h': "hw_InsertObject H h1 d' = (Inr j, h')"
    "length j = 8" "j ! 7 = 0" "j \<notin> ?L - {i}" "hinv h' (insert j (?L - {i}))" "hw_GetObject H h' j = Inr d'"
    "\<forall>k\<in>?L - {i}. hw_GetObject H h' k = hw_GetObject H h1 k" "\<forall>n. room h1 (length d' + n) \<longrightarrow> room h' n"
    unfolding ins_of_Inr by blast
  obtain t' where t': "bw_UpdateRecord B t name (le_get j) = Inr t'" using index.upd_total [OF t] assms(2) by blast
  have u: "tinv t'" "?S t' n = (if key n = key name then Some j else ?S t n)" for n
    using index.upd_law [OF t t'] enc_id [OF h'(2,3)] by auto
  have other: "k \<in> ?L - {i}" if "key n \<noteq> key name" "?S t n = Some k" for n k
    using that dense_inj [OF assms(1) that(2)] assms(2) by blast
  have "{k. \<exists>n. ?S t' n = Some k} = insert j (?L - {i})"
  proof (intro set_eqI iffI)
    fix k
    assume "k \<in> {k. \<exists>n. ?S t' n = Some k}"
    then obtain n where "?S t' n = Some k" by blast
    then show "k \<in> insert j (?L - {i})" using u(2) [of n] other [of n k] by (auto split: if_splits)
  next
    fix k
    assume k: "k \<in> insert j (?L - {i})"
    show "k \<in> {k. \<exists>n. ?S t' n = Some k}"
    proof (cases "k = j")
      case True
      then show ?thesis using u(2) [of name] by auto
    next
      case False
      then obtain n where n: "?S t n = Some k" "k \<noteq> i" using k by auto
      then have "key n \<noteq> key name" using search_key [of n name t] assms(2) by auto
      then show ?thesis using u(2) [of n] n(1) by auto
    qed
  qed
  moreover have "key n = key m" if "?S t' n = Some k" "?S t' m = Some k" for n m k
  proof (cases "key n = key name"; cases "key m = key name")
    assume "key n = key name" "key m = key name"
    then show ?thesis by simp
  next
    assume c: "key n = key name" "key m \<noteq> key name"
    then have "k = j" "?S t m = Some k" using that u(2) [of n] u(2) [of m] by auto
    then show ?thesis using other [OF c(2)] h'(4) by auto
  next
    assume c: "key n \<noteq> key name" "key m = key name"
    then have "k = j" "?S t n = Some k" using that u(2) [of n] u(2) [of m] by auto
    then show ?thesis using other [OF c(1)] h'(4) by auto
  next
    assume "key n \<noteq> key name" "key m \<noteq> key name"
    then have "?S t n = Some k" "?S t m = Some k" using that u(2) [of n] u(2) [of m] by auto
    then show ?thesis by (rule dense_inj [OF assms(1)])
  qed
  ultimately have "dense_inv h' t'" using u(1) h'(5) unfolding dense_inv_def by metis
  moreover have "look h' t' n = (if key n = key name then Some d' else look h t n)" for n
  proof (cases "key n = key name")
    case True
    then show ?thesis using u(2) [of n] h'(6) by (simp add: look_def)
  next
    case False
    then have "look h' t' n = look h t n"
      using u(2) [of n] other [OF False] h1(3) h'(7) by (intro look_cong) auto
    then show ?thesis using False by simp
  qed
  moreover have "\<forall>n. room h (length d' + n) \<longrightarrow> room h' n" using h1(4) h'(8) by blast
  ultimately show ?thesis using h1(1) h'(1,2) t' by blast
qed

lemma modify_refines:
  assumes "dense_inv h t" "name \<noteq> []" "at_Data a \<noteq> []" "room h (length (at_Data a))"
  shows "case ModifyDenseAttribute H B h t name a of
      (Inl e, h', t') \<Rightarrow> look h t name = None \<and> h' = h \<and> t' = t
    | (Inr _, h', t') \<Rightarrow> look h t name \<noteq> None \<and> dense_inv h' t' \<and> (\<forall>n. room h (length (at_Data a) + n) \<longrightarrow> room h' n)
        \<and> (\<forall>n. look h' t' n = (if key n = key name then Some (at_Data a) else look h t n))"
proof (cases "bw_SearchRecord B t name")
  case None
  then show ?thesis using assms(2) by (simp add: ModifyDenseAttribute_def look_def)
next
  case (Some i)
  obtain d where d: "hw_GetObject H h i = Inr d" "look h t name = Some d" using look_found [OF assms(1) Some] by blast
  show ?thesis
  proof (cases "length (at_Data a) = length d")
    case True
    from modify_same_size [OF assms(1) Some d(1) True] obtain h' where
      "hw_OverwriteObject H h i (at_Data a) = Inr h'" "dense_inv h' t" "\<forall>n. room h n \<longrightarrow> room h' n"
      "\<forall>n. look h' t n = (if key n = key name then Some (at_Data a) else look h t n)" by blast
    moreover have "\<forall>n. room h (length (at_Data a) + n) \<longrightarrow> room h n" using heap.room_mono le_add2 by blast
    ultimately show ?thesis using assms(2,3) Some d True by (simp add: ModifyDenseAttribute_def Let_def)
  next
    case False
    from modify_other_size [OF assms(1) Some assms(3,4)] obtain h1 h' j t' where
      "hw_DeleteObject H h i = Inr h1" "hw_InsertObject H h1 (at_Data a) = (Inr j, h')" "length j = 8"
      "bw_UpdateRecord B t name (le_get j) = Inr t'" "dense_inv h' t'" "\<forall>n. room h (length (at_Data a) + n) \<longrightarrow> room h' n"
      "\<forall>n. look h' t' n = (if key n = key name then Some (at_Data a) else look h t n)" by blast
    then show ?thesis using assms(2,3) Some d False by (simp add: ModifyDenseAttribute_def Let_def)
  qed
qed

lemma delete_refines:
  assumes "dense_inv h t" "name \<noteq> []"
  shows "case DeleteDenseAttribute H B h t name rebalance of
      (Inl e, h', t') \<Rightarrow> look h t name = None \<and> h' = h \<and> t' = t
    | (Inr _, h', t') \<Rightarrow> look h t name \<noteq> None \<and> dense_inv h' t' \<and> (\<forall>n. room h n \<longrightarrow> room h' n)
        \<and> (\<forall>n. look h' t' n = (if key n = key name then None else look h t n))"
proof (cases "bw_SearchRecord B t name")
  case None
  then show ?thesis using assms(2) by (simp add: DeleteDenseAttribute_def look_def)
next
  case (Some i)
  let ?S = "bw_SearchRecord B"
  let ?L = "{i. \<exists>n. ?S t n = Some i}"
  have t: "tinv t" and L: "hinv h ?L" "i \<in> ?L" using assms(1) Some by (auto simp: dense_inv_def)
  from heap.del_law [OF L] obtain h' where h': "hw_DeleteObject H h i = Inr h'" "hinv h' (?L - {i})"
    "\<forall>k\<in>?L - {i}. hw_GetObject H h' k = hw_GetObject H h k" "\<forall>n. room h n \<longrightarrow> room h' n" by blast
  obtain t' where t': "delete_record B rebalance t name = Inr t'" using index.del_total [OF t] Some by blast
  have u: "tinv t'" "?S t' n = (if key n = key name then None else ?S t n)" for n using index.del_law [OF t t'] by auto
  have other: "k \<in> ?L - {i}" if "key n \<noteq> key name" "?S t n = Some k" for n k
    using that dense_inj [OF assms(1) that(2)] Some by blast
  have "{k. \<exists>n. ?S t' n = Some k} = ?L - {i}"
  proof (intro set_eqI iffI)
    fix k
    assume "k \<in> {k. \<exists>n. ?S t' n = Some k}"
    then obtain n where "?S t' n = Some k" by blast
    then show "k \<in> ?L - {i}" using u(2) [of n] other [of n k] by (auto split: if_splits)
  next
    fix k
    assume k: "k \<in> ?L - {i}"
    then obtain n where n: "?S t n = Some k" "k \<noteq> i" by auto
    then have "key n \<noteq> key name" using search_key [of n name t] Some by auto
    then show "k \<in> {k. \<exists>n. ?S t' n = Some k}" using u(2) [of n] n(1) by auto
  qed
  moreover have "key n = key m" if "?S t' n = Some k" "?S t' m = Some k" for n m k
    using that u(2) [of n] u(2) [of m] dense_inj [OF assms(1), of n k m] by (simp split: if_splits)
  ultimately have "dense_inv h' t'" using u(1) h'(2) unfolding dense_inv_def by metis
  moreover have "look h' t' n = (if key n = key name then None else look h t n)" for n
  proof (cases "key n = key name")
    case True
    then show ?thesis using u(2) [of n] by (simp add: look_def)
  next
    case False
    then have "look h' t' n = look h t n" using u(2) [of n] other [OF False] h'(3) by (intro look_cong) auto
    then show ?thesis using False by simp
  qed
  moreover obtain d where "look h t name = Some d" using look_found [OF assms(1) Some] by blast
  ultimately show ?thesis using assms(2) Some t' h'(1,4) by (simp add: DeleteDenseAttribute_def)
qed

end

lemma heap_id7_le_get:
  assumes "length i = 8" "i ! 7 = 0"
  shows "heap_id7 (le_get i) @ [0] = i"
proof -
  have "le_put (length i) (le_get i :: u64) = i" by (rule le_put_le_get) (simp add: assms(1))
  moreover have "take (Suc 7) i = take 7 i @ [i ! 7]" using assms(1) by (intro take_Suc_conv_app_nth) simp
  ultimately show ?thesis using assms by (simp add: heap_id7_def del: le_put_numeral)
qed

definition lazy_index_inv :: "LazyBTree \<Rightarrow> bool" where
  "lazy_index_inv b \<longleftrightarrow> lazy_inv b \<and> uniq_inv (lb_tree b)"

lemma on_tree_Inr: "on_tree f b = Inr b' \<longleftrightarrow> (\<exists>bt. f (lb_tree b) = Inr bt \<and> b' = b\<lparr>lb_tree := bt\<rparr>)"
  by (auto simp: on_tree_def split: sum.splits)

lemma lazy_inv_tree: "lazy_inv b \<Longrightarrow> bt_inv bt \<Longrightarrow> lazy_inv (b\<lparr>lb_tree := bt\<rparr>)"
  by (simp add: lazy_inv_def)

lemma delete_record_tree:
  assumes "lazy_inv b" "delete_record (btree_writer now) rebalance b n = Inr b'"
  shows "DeleteRecord (lb_tree b) n = Inr (lb_tree b')" "lazy_inv b'"
proof -
  have "DeleteRecord (lb_tree b) n = Inr (lb_tree b') \<and> lazy_inv b'"
  proof (cases "IsLazyRebalancingEnabled b")
    case True
    then have "DeleteRecordLazy b now n = Inr b'" using assms(2) by (simp add: delete_record_def btree_writer_def)
    from DeleteRecordLazy_cases [OF this assms(1)] obtain rs where
      "remove_first (jenkinsHash n) (bt_records (lb_tree b)) = Some rs" "lb_tree b' = drop_record (lb_tree b) rs" "lazy_inv b'" by metis
    then show ?thesis by (simp add: DeleteRecord_def DeleteRecordWithRebalancing_def handleRootDepthDecrease_def Let_def)
  next
    case False
    then obtain bt where "DeleteRecord (lb_tree b) n = Inr bt" "b' = b\<lparr>lb_tree := bt\<rparr>"
      using assms(2) by (auto simp: delete_record_def btree_writer_def on_tree_Inr DeleteRecord_def split: if_splits)
    moreover from this have "bt_inv bt" using DeleteRecord_cases [of "lb_tree b" n bt] assms(1) by (auto simp: lazy_inv_def)
    ultimately show ?thesis using lazy_inv_tree [OF assms(1)] by simp
  qed
  then show "DeleteRecord (lb_tree b) n = Inr (lb_tree b')" "lazy_inv b'" by simp_all
qed

lemma delete_record_total:
  assumes "lazy_index_inv b" "SearchRecord (lb_tree b) n \<noteq> None"
  shows "\<exists>b'. delete_record (btree_writer now) rebalance b n = Inr b'"
proof -
  obtain bt where bt: "DeleteRecord (lb_tree b) n = Inr bt"
    using link_index.del_total [of "lb_tree b" n] assms by (auto simp: lazy_index_inv_def)
  show ?thesis
  proof (cases "IsLazyRebalancingEnabled b")
    case True
    obtain b' where "DeleteRecordLazy b now n = Inr b'"
      using DeleteRecordLazy_error [OF True, of now n] bt by (cases "DeleteRecordLazy b now n") auto
    then show ?thesis using True by (simp add: delete_record_def btree_writer_def)
  next
    case False
    then show ?thesis using bt by (auto simp: delete_record_def btree_writer_def on_tree_Inr DeleteRecord_def)
  qed
qed

interpretation dense_attributes: dense_store Fractal_Heap.heap_inv heap_room "fractal_writer visit" lazy_index_inv jenkinsHash
    "\<lambda>h. heap_id7 h @ [0]" "btree_writer now" "\<lambda>b n h. on_tree (\<lambda>t. InsertRecord t n h) b" rebalance
  for visit now rebalance
proof -
  have ins: "ins_of (fh_InsertObject visit) = store_insert visit" by (intro ext) (simp add: ins_of_def store_insert_def)
  have "object_store Fractal_Heap.heap_inv heap_room (hw_GetObject (fractal_writer visit))
     (ins_of (hw_InsertObject (fractal_writer visit))) (hw_OverwriteObject (fractal_writer visit)) (hw_DeleteObject (fractal_writer visit))"
    using fractal_store.object_store_axioms by (simp add: fractal_writer_def ins)
  moreover have "name_index lazy_index_inv jenkinsHash (\<lambda>h. heap_id7 h @ [0]) (bw_SearchRecord (btree_writer now))
     (\<lambda>b n h. on_tree (\<lambda>t. InsertRecord t n h) b) (bw_UpdateRecord (btree_writer now)) (delete_record (btree_writer now) rebalance)"
  proof (unfold_locales, goal_cases)
    case (1 s n h s' m)
    then obtain bt where b: "InsertRecord (lb_tree s) n h = Inr bt" "s' = s\<lparr>lb_tree := bt\<rparr>" by (auto simp: on_tree_Inr)
    from link_index.ins_law [OF _ _ b(1)] 1 b(2) show ?case
      by (auto simp: lazy_index_inv_def btree_writer_def uniq_inv_def intro: lazy_inv_tree)
  next
    case (2 s n h s' m)
    then obtain bt where b: "UpdateRecord (lb_tree s) n h = Inr bt" "s' = s\<lparr>lb_tree := bt\<rparr>" by (auto simp: on_tree_Inr btree_writer_def)
    from link_index.upd_law [OF _ b(1)] 2(1) b(2) show ?case
      by (auto simp: lazy_index_inv_def btree_writer_def uniq_inv_def intro: lazy_inv_tree)
  next
    case (3 s n s' m)
    have l: "lazy_inv s" "uniq_inv (lb_tree s)" using 3(1) by (simp_all add: lazy_index_inv_def)
    note d = delete_record_tree [OF l(1) 3(2)]
    from link_index.del_law [OF l(2) d(1)] d(2) show ?case by (auto simp: lazy_index_inv_def btree_writer_def)
  next
    case (4 s n h)
    then show ?case using link_index.upd_total [of "lb_tree s" n h] by (auto simp: lazy_index_inv_def btree_writer_def on_tree_Inr)
  next
    case (5 s n)
    then show ?case using delete_record_total [of s n] by (simp add: btree_writer_def)
  qed
  moreover have "dense_store_axioms jenkinsHash (\<lambda>h. heap_id7 h @ [0]) (btree_writer now)"
    by (unfold_locales, simp add: heap_id7_le_get, simp add: btree_writer_def SearchRecord_def)
  ultimately show "dense_store Fractal_Heap.heap_inv heap_room (fractal_writer visit) lazy_index_inv jenkinsHash
    (\<lambda>h. heap_id7 h @ [0]) (btree_writer now) (\<lambda>b n h. on_tree (\<lambda>t. InsertRecord t n h) b) rebalance"
    by (rule dense_store.intro)
qed

section \<open>Filling a dense attribute writer\<close>

fun add_attributes :: "(u64 list \<Rightarrow> u64 list) \<Rightarrow> DenseAttributeWriter \<Rightarrow> Attribute list \<Rightarrow> unit result \<times> DenseAttributeWriter" where
  "add_attributes visit daw [] = (Inr (), daw)"
| "add_attributes visit daw (a # as) =
     (case AddAttribute visit daw a of (Inl e, daw) \<Rightarrow> (Inl e, daw) | (Inr _, daw) \<Rightarrow> add_attributes visit daw as)"

text \<open>The heap has the encoded attributes under their ids, the tree a record for each, in the order of the hashes.\<close>

definition daw_rep :: "(u64 list \<Rightarrow> u64 list) \<Rightarrow> DenseAttributeWriter \<Rightarrow> Attribute list \<Rightarrow> bytes list \<Rightarrow> bool" where
  "daw_rep visit daw as ids \<longleftrightarrow>
     distinct ids \<and> (\<forall>i\<in>set ids. length i = 8 \<and> i ! 7 = 0)
     \<and> Fractal_Heap.heap_inv (da_fractalHeap daw) (set ids) \<and> heap_file_ok (da_fractalHeap daw)
     \<and> db_Size (fh_DirectBlock (da_fractalHeap daw)) = 65536 \<and> wh_Flags (fh_Header (da_fractalHeap daw)) = 0
     \<and> list_all2 (\<lambda>a i. EncodeAttributeFromStruct a = fh_GetObject visit (da_fractalHeap daw) i) as ids
     \<and> bt_inv (da_btree daw) \<and> bt_nodeSize (da_btree daw) = 4096
     \<and> mset (bt_records (da_btree daw)) = mset (map2 (\<lambda>a i. \<lparr>NameHash = jenkinsHash (at_Name a), rec_HeapID = take 7 i\<rparr>) as ids)
     \<and> map fst (da_attributes daw) = rev (map at_Name as)
     \<and> da_attrInfo daw = \<lparr>ai_Version = 0, ai_Flags = 0, ai_FractalHeapAddr = 0, ai_BTreeNameIndexAddr = 0,
                          ai_MaxCreationIndex = 0, ai_BTreeOrderIndexAddr = 0\<rparr>"

lemma new_daw_rep: "daw_rep visit (NewDenseAttributeWriter addr) [] []"
  using new_heap_inv [of 65536] new_heap_file_ok [of 65536] new_inv [of 4096]
  by (simp add: daw_rep_def NewDenseAttributeWriter_def) (simp add: NewWritableBTreeV2_def NewWritableFractalHeap_def Let_def)

lemma InsertRecord_room:
  assumes "bt_inv bt" "11 * Suc (length (bt_records bt)) + 10 \<le> unat (bt_nodeSize bt)"
  shows "\<exists>bt'. InsertRecord bt n h = Inr bt' \<and> bt_inv bt' \<and> bt_nodeSize bt' = bt_nodeSize bt
     \<and> bt_records bt' = insertRecordSorted (bt_records bt) \<lparr>NameHash = jenkinsHash n, rec_HeapID = heap_id7 h\<rparr>"
proof -
  have "calculateMaxRecords bt = (unat (bt_nodeSize bt) - 10) div 11" using assms(2) by (intro max_records) simp
  moreover have "Suc (length (bt_records bt)) \<le> (unat (bt_nodeSize bt) - 10) div 11"
    using assms(2) by (simp add: less_eq_div_iff_mult_less_eq)
  ultimately obtain bt' where bt': "InsertRecord bt n h = Inr bt'" "bt_nodeSize bt' = bt_nodeSize bt"
    by (auto simp: InsertRecord_def Let_def)
  then show ?thesis using InsertRecord_inv [OF assms(1) bt'(1)] by blast
qed

lemma encoded_attribute_nonempty: "EncodeAttributeFromStruct a = Inr m \<Longrightarrow> m \<noteq> []"
  by (auto simp: EncodeAttributeFromStruct_def EncodeAttributeMessage_def Let_def split: if_splits sum.splits)

lemma heap_insert_file:
  assumes "Fractal_Heap.heap_inv fh L" "heap_file_ok fh" "d \<noteq> []" "heap_room fh (length d)"
  shows "\<exists>i fh'. fh_InsertObject visit fh d = (Inr i, fh') \<and> length i = 8 \<and> i ! 7 = 0 \<and> i \<notin> L
     \<and> Fractal_Heap.heap_inv fh' (insert i L) \<and> heap_file_ok fh' \<and> fh_GetObject visit fh' i = Inr d
     \<and> (\<forall>j\<in>L. fh_GetObject visit fh' j = fh_GetObject visit fh j)
     \<and> unat (db_FreeOffset (fh_DirectBlock fh')) = unat (db_FreeOffset (fh_DirectBlock fh)) + length d
     \<and> db_Size (fh_DirectBlock fh') = db_Size (fh_DirectBlock fh) \<and> wh_Flags (fh_Header fh') = wh_Flags (fh_Header fh)
     \<and> (\<forall>n. heap_room fh (length d + n) \<longrightarrow> heap_room fh' n)"
proof -
  from heap_insert_law [OF assms(1,3,4), of visit] obtain i fh' where
    1: "store_insert visit fh d = Inr (i, fh')" "length i = 8" "i ! 7 = 0" "i \<notin> L" "Fractal_Heap.heap_inv fh' (insert i L)"
      "fh_GetObject visit fh' i = Inr d" "\<forall>j\<in>L. fh_GetObject visit fh' j = fh_GetObject visit fh j"
      "\<forall>n. heap_room fh (length d + n) \<longrightarrow> heap_room fh' n" by blast
  have "fractal_store.ins_all visit fh [d] = Inr ([i], fh')" using 1(1) by simp
  from ins_all_file [OF this assms(1,2)] assms(3,4) have "heap_file_ok fh'"
    "unat (db_FreeOffset (fh_DirectBlock fh')) = unat (db_FreeOffset (fh_DirectBlock fh)) + length d"
    "db_Size (fh_DirectBlock fh') = db_Size (fh_DirectBlock fh)" by simp_all
  moreover have "fh_InsertObject visit fh d = (Inr i, fh')"
    using 1(1) by (auto simp: store_insert_def split: prod.splits sum.splits)
  moreover have "wh_Flags (fh_Header fh') = wh_Flags (fh_Header fh)"
    using InsertObject_direct(1) [OF assms(1,3,4), of visit] 1(1) by (auto simp: count_object_def)
  ultimately show ?thesis using 1 by blast
qed

lemma AddAttribute_effect:
  assumes rep: "daw_rep visit daw as ids" and name: "at_Name a \<noteq> []" "at_Name a \<notin> at_Name ` set as"
    and m: "EncodeAttributeFromStruct a = Inr m" "heap_room (da_fractalHeap daw) (length m)" and n: "length as < 371"
  shows "\<exists>i daw'. AddAttribute visit daw a = (Inr (), daw') \<and> daw_rep visit daw' (as @ [a]) (ids @ [i])
     \<and> unat (db_FreeOffset (fh_DirectBlock (da_fractalHeap daw')))
         = unat (db_FreeOffset (fh_DirectBlock (da_fractalHeap daw))) + length m
     \<and> (\<forall>n. heap_room (da_fractalHeap daw) (length m + n) \<longrightarrow> heap_room (da_fractalHeap daw') n)"
proof -
  let ?fh = "da_fractalHeap daw" and ?bt = "da_btree daw"
  have r: "Fractal_Heap.heap_inv ?fh (set ids)" "heap_file_ok ?fh" "bt_inv ?bt" "bt_nodeSize ?bt = 4096"
    "mset (bt_records ?bt) = mset (map2 (\<lambda>a i. \<lparr>NameHash = jenkinsHash (at_Name a), rec_HeapID = take 7 i\<rparr>) as ids)"
    "map fst (da_attributes daw) = rev (map at_Name as)"
    "list_all2 (\<lambda>a i. EncodeAttributeFromStruct a = fh_GetObject visit ?fh i) as ids"
    using rep by (simp_all add: daw_rep_def)
  from heap_insert_file [OF r(1,2) encoded_attribute_nonempty [OF m(1)] m(2)] obtain i fh' where
    1: "fh_InsertObject visit ?fh m = (Inr i, fh')" "length i = 8" "i ! 7 = 0" "i \<notin> set ids"
      "Fractal_Heap.heap_inv fh' (insert i (set ids))" "heap_file_ok fh'" "fh_GetObject visit fh' i = Inr m"
      "\<forall>j\<in>set ids. fh_GetObject visit fh' j = fh_GetObject visit ?fh j"
      "unat (db_FreeOffset (fh_DirectBlock fh')) = unat (db_FreeOffset (fh_DirectBlock ?fh)) + length m"
      "db_Size (fh_DirectBlock fh') = db_Size (fh_DirectBlock ?fh)" "wh_Flags (fh_Header fh') = wh_Flags (fh_Header ?fh)"
      "\<forall>n. heap_room ?fh (length m + n) \<longrightarrow> heap_room fh' n" by metis
  have len: "length as = length ids" using r(7) by (rule list_all2_lengthD)
  have "length (bt_records ?bt) = length as" using arg_cong [OF r(5), of size] len by simp
  then have "11 * Suc (length (bt_records ?bt)) + 10 \<le> unat (bt_nodeSize ?bt)" using n r(4) by simp
  from InsertRecord_room [OF r(3) this, of "at_Name a" "le_get i"] obtain bt' where
    2: "InsertRecord ?bt (at_Name a) (le_get i) = Inr bt'" "bt_inv bt'" "bt_nodeSize bt' = 4096"
      "bt_records bt' = insertRecordSorted (bt_records ?bt) \<lparr>NameHash = jenkinsHash (at_Name a), rec_HeapID = heap_id7 (le_get i)\<rparr>"
    using r(4) by auto
  have h7: "heap_id7 (le_get i) = take 7 i"
  proof -
    have "take 7 (heap_id7 (le_get i) @ [0]) = take 7 i" by (simp only: heap_id7_le_get [OF 1(2,3)])
    then show ?thesis by simp
  qed
  let ?daw = "daw\<lparr>da_fractalHeap := fh', da_btree := bt', da_attributes := (at_Name a, a) # da_attributes daw\<rparr>"
  have none: "map_of (da_attributes daw) (at_Name a) = None"
  proof -
    have "set (map fst (da_attributes daw)) = at_Name ` set as" using r(6) by simp
    then show ?thesis using name(2) by (simp add: map_of_eq_None_iff)
  qed
  have "AddAttribute visit daw a = (Inr (), ?daw)"
    using name(1) none m(1) 1(1,2) 2(1) by (simp add: AddAttribute_def Let_def)
  moreover have "list_all2 (\<lambda>a i. EncodeAttributeFromStruct a = fh_GetObject visit fh' i) as ids"
    using r(7) 1(8) by (auto simp: list_all2_conv_all_nth)
  then have "daw_rep visit ?daw (as @ [a]) (ids @ [i])"
    using rep 1 2 m(1) len h7 r(5) by (simp add: daw_rep_def insertRecordSorted_mset list_all2_appendI)
  ultimately show ?thesis using 1(9,12) by (intro exI [of _ i] exI [of _ ?daw]) simp
qed

lemma add_attributes_effect:
  assumes "daw_rep visit daw as0 ids0" "list_all2 (\<lambda>a m. EncodeAttributeFromStruct a = Inr m) as ms"
    "[] \<notin> at_Name ` set as" "distinct (map at_Name (as0 @ as))" "length (as0 @ as) \<le> 371"
    "heap_room (da_fractalHeap daw) (sum_list (map length ms))"
  shows "\<exists>ids daw'. add_attributes visit daw as = (Inr (), daw') \<and> daw_rep visit daw' (as0 @ as) (ids0 @ ids)
     \<and> unat (db_FreeOffset (fh_DirectBlock (da_fractalHeap daw')))
         = unat (db_FreeOffset (fh_DirectBlock (da_fractalHeap daw))) + sum_list (map length ms)"
  using assms
proof (induction as arbitrary: daw as0 ids0 ms)
  case Nil
  then show ?case by (intro exI [of _ "[]"] exI [of _ daw]) simp
next
  case (Cons a as)
  obtain m ms' where ms: "ms = m # ms'" "EncodeAttributeFromStruct a = Inr m" "list_all2 (\<lambda>a m. EncodeAttributeFromStruct a = Inr m) as ms'"
    using Cons.prems(2) by (auto simp: list_all2_Cons1)
  have "heap_room (da_fractalHeap daw) (length m)" using fractal_store.room_mono [OF Cons.prems(6)] ms(1) by simp
  from AddAttribute_effect [OF Cons.prems(1) _ _ ms(2) this] Cons.prems(3-5) obtain i daw1 where
    1: "AddAttribute visit daw a = (Inr (), daw1)" "daw_rep visit daw1 (as0 @ [a]) (ids0 @ [i])"
      "unat (db_FreeOffset (fh_DirectBlock (da_fractalHeap daw1))) = unat (db_FreeOffset (fh_DirectBlock (da_fractalHeap daw))) + length m"
      "\<forall>n. heap_room (da_fractalHeap daw) (length m + n) \<longrightarrow> heap_room (da_fractalHeap daw1) n" by (auto simp: image_iff)
  have "heap_room (da_fractalHeap daw1) (sum_list (map length ms'))" using 1(4) Cons.prems(6) ms(1) by simp
  from Cons.IH [OF 1(2) ms(3) _ _ _ this] Cons.prems(3-5) obtain ids daw' where
    "add_attributes visit daw1 as = (Inr (), daw')" "daw_rep visit daw' (as0 @ a # as) (ids0 @ i # ids)"
    "unat (db_FreeOffset (fh_DirectBlock (da_fractalHeap daw')))
       = unat (db_FreeOffset (fh_DirectBlock (da_fractalHeap daw1))) + sum_list (map length ms')" by auto
  then show ?case using 1(1,3) ms(1) by (intro exI [of _ "i # ids"] exI [of _ daw']) simp
qed

section \<open>Sequences of modifications\<close>

text \<open>
  The calls a caller makes on dense attributes it has loaded, each with the time of its call, and what
  they do to a map from name hashes to attribute messages: a call succeeds when its name is there.
\<close>

datatype dense_op = Modify bytes Attribute | Remove bytes bool

fun exec_dense :: "(u64 list \<Rightarrow> u64 list) \<Rightarrow> (int \<times> dense_op) list \<Rightarrow> WritableFractalHeap \<Rightarrow> LazyBTree
    \<Rightarrow> unit result list \<times> WritableFractalHeap \<times> LazyBTree" where
  "exec_dense visit [] h b = ([], h, b)"
| "exec_dense visit ((now, x) # xs) h b =
     (let (r, h, b) = (case x of
                         Modify n a \<Rightarrow> ModifyDenseAttribute (fractal_writer visit) (btree_writer now) h b n a
                       | Remove n rebalance \<Rightarrow> DeleteDenseAttribute (fractal_writer visit) (btree_writer now) h b n rebalance);
          (rs, h, b) = exec_dense visit xs h b
      in (r # rs, h, b))"

fun spec_dense :: "(u32 \<rightharpoonup> bytes) \<Rightarrow> dense_op list \<Rightarrow> bool list \<times> (u32 \<rightharpoonup> bytes)" where
  "spec_dense m [] = ([], m)"
| "spec_dense m (x # xs) =
     (let k = (case x of Modify n _ \<Rightarrow> jenkinsHash n | Remove n _ \<Rightarrow> jenkinsHash n);
          ok = (m k \<noteq> None);
          (oks, m') = spec_dense (if ok then m(k := (case x of Modify _ a \<Rightarrow> Some (at_Data a) | Remove _ _ \<Rightarrow> None)) else m) xs
      in (ok # oks, m'))"

definition dense_lookup :: "(u64 list \<Rightarrow> u64 list) \<Rightarrow> WritableFractalHeap \<Rightarrow> LazyBTree \<Rightarrow> bytes \<Rightarrow> bytes option" where
  "dense_lookup visit h b n =
     (case SearchRecord (lb_tree b) n of
        None \<Rightarrow> None | Some i \<Rightarrow> (case fh_GetObject visit h i of Inl _ \<Rightarrow> None | Inr d \<Rightarrow> Some d))"

definition dense_ok :: "WritableFractalHeap \<Rightarrow> LazyBTree \<Rightarrow> bool" where
  "dense_ok h b \<longleftrightarrow> lazy_index_inv b \<and> Fractal_Heap.heap_inv h {i. \<exists>n. SearchRecord (lb_tree b) n = Some i}
     \<and> (\<forall>n m i. SearchRecord (lb_tree b) n = Some i \<longrightarrow> SearchRecord (lb_tree b) m = Some i \<longrightarrow> jenkinsHash n = jenkinsHash m)"

lemma dense_ok_inv: "dense_attributes.dense_inv now h b \<longleftrightarrow> dense_ok h b"
  unfolding dense_attributes.dense_inv_def dense_ok_def by (simp add: btree_writer_def)

lemma dense_lookup_look: "dense_attributes.look visit now h b n = dense_lookup visit h b n"
  unfolding dense_attributes.look_def dense_lookup_def by (simp add: btree_writer_def fractal_writer_def split: option.split)

definition op_ok :: "dense_op \<Rightarrow> bool" where
  "op_ok x = (case x of Modify n a \<Rightarrow> n \<noteq> [] \<and> at_Data a \<noteq> [] | Remove n _ \<Rightarrow> n \<noteq> [])"

definition op_size :: "dense_op \<Rightarrow> nat" where
  "op_size x = (case x of Modify n a \<Rightarrow> length (at_Data a) | Remove _ _ \<Rightarrow> 0)"

lemma exec_dense_step:
  assumes "dense_ok h b" "op_ok x" "heap_room h (op_size x)" "\<And>n. dense_lookup visit h b n = m (jenkinsHash n)"
  defines "k \<equiv> case x of Modify n _ \<Rightarrow> jenkinsHash n | Remove n _ \<Rightarrow> jenkinsHash n"
  shows "\<exists>r h' b'. (case x of Modify n a \<Rightarrow> ModifyDenseAttribute (fractal_writer visit) (btree_writer now) h b n a
                    | Remove n rebalance \<Rightarrow> DeleteDenseAttribute (fractal_writer visit) (btree_writer now) h b n rebalance) = (r, h', b')
     \<and> (r = Inr () \<longleftrightarrow> m k \<noteq> None) \<and> dense_ok h' b' \<and> (\<forall>n. heap_room h (op_size x + n) \<longrightarrow> heap_room h' n)
     \<and> (\<forall>n. dense_lookup visit h' b' n
          = (if m k \<noteq> None then m(k := (case x of Modify _ a \<Rightarrow> Some (at_Data a) | Remove _ _ \<Rightarrow> None)) else m) (jenkinsHash n))"
proof (cases x)
  case (Modify n a)
  obtain r h' b' where e: "ModifyDenseAttribute (fractal_writer visit) (btree_writer now) h b n a = (r, h', b')" by (metis prod_cases3)
  have mono: "\<forall>j. heap_room h (length (at_Data a) + j) \<longrightarrow> heap_room h j" by (auto simp: heap_room_def)
  have c: "case r of Inl e \<Rightarrow> m (jenkinsHash n) = None \<and> h' = h \<and> b' = b
     | Inr _ \<Rightarrow> m (jenkinsHash n) \<noteq> None \<and> dense_ok h' b' \<and> (\<forall>j. heap_room h (length (at_Data a) + j) \<longrightarrow> heap_room h' j)
        \<and> (\<forall>j. dense_lookup visit h' b' j = (if jenkinsHash j = jenkinsHash n then Some (at_Data a) else m (jenkinsHash j)))"
    using dense_attributes.modify_refines [of now h b n a visit] assms(1-4) Modify
    unfolding dense_ok_inv dense_lookup_look e by (cases r) (simp_all add: op_ok_def op_size_def)
  show ?thesis
  proof (cases r)
    case (Inl err)
    then show ?thesis using c e Modify assms(1,4) mono by (simp add: k_def op_size_def)
  next
    case (Inr u)
    then show ?thesis using c e Modify by (simp add: k_def op_size_def)
  qed
next
  case (Remove n rb)
  obtain r h' b' where e: "DeleteDenseAttribute (fractal_writer visit) (btree_writer now) h b n rb = (r, h', b')" by (metis prod_cases3)
  have c: "case r of Inl e \<Rightarrow> m (jenkinsHash n) = None \<and> h' = h \<and> b' = b
     | Inr _ \<Rightarrow> m (jenkinsHash n) \<noteq> None \<and> dense_ok h' b' \<and> (\<forall>j. heap_room h j \<longrightarrow> heap_room h' j)
        \<and> (\<forall>j. dense_lookup visit h' b' j = (if jenkinsHash j = jenkinsHash n then None else m (jenkinsHash j)))"
    using dense_attributes.delete_refines [of now h b n visit rb] assms(1-4) Remove
    unfolding dense_ok_inv dense_lookup_look e by (cases r) (simp_all add: op_ok_def op_size_def)
  show ?thesis
  proof (cases r)
    case (Inl err)
    then show ?thesis using c e Remove assms(1,4) by (simp add: k_def op_size_def)
  next
    case (Inr u)
    then show ?thesis using c e Remove by (simp add: k_def op_size_def)
  qed
qed

lemma exec_dense_refines:
  assumes "dense_ok h b" "list_all op_ok (map snd xs)" "heap_room h (sum_list (map op_size (map snd xs)))"
    "\<And>n. dense_lookup visit h b n = m (jenkinsHash n)"
  shows "case exec_dense visit xs h b of (rs, h', b') \<Rightarrow> case spec_dense m (map snd xs) of (oks, m') \<Rightarrow>
     map (\<lambda>r. r = Inr ()) rs = oks \<and> dense_ok h' b' \<and> (\<forall>n. dense_lookup visit h' b' n = m' (jenkinsHash n))"
  using assms
proof (induction xs arbitrary: h b m)
  case Nil
  then show ?case by simp
next
  case (Cons p xs)
  obtain now x where p: "p = (now, x)" by (cases p)
  let ?k = "case x of Modify n _ \<Rightarrow> jenkinsHash n | Remove n _ \<Rightarrow> jenkinsHash n"
  let ?m = "if m ?k \<noteq> None then m(?k := (case x of Modify _ a \<Rightarrow> Some (at_Data a) | Remove _ _ \<Rightarrow> None)) else m"
  have "op_ok x" "heap_room h (op_size x)" using Cons.prems(2,3) p by (auto simp: heap_room_def)
  from exec_dense_step [OF Cons.prems(1) this Cons.prems(4), of now] obtain r h1 b1 where
    1: "(case x of Modify n a \<Rightarrow> ModifyDenseAttribute (fractal_writer visit) (btree_writer now) h b n a
                    | Remove n rebalance \<Rightarrow> DeleteDenseAttribute (fractal_writer visit) (btree_writer now) h b n rebalance) = (r, h1, b1)"
      "r = Inr () \<longleftrightarrow> m ?k \<noteq> None" "dense_ok h1 b1" "\<forall>n. heap_room h (op_size x + n) \<longrightarrow> heap_room h1 n"
      "\<And>n. dense_lookup visit h1 b1 n = ?m (jenkinsHash n)" by blast
  have "list_all op_ok (map snd xs)" "heap_room h1 (sum_list (map op_size (map snd xs)))" using Cons.prems(2,3) p 1(4) by auto
  note ih = Cons.IH [OF 1(3) this 1(5)]
  obtain rs h' b' where rs: "exec_dense visit xs h1 b1 = (rs, h', b')" by (metis prod_cases3)
  obtain oks m' where oks: "spec_dense ?m (map snd xs) = (oks, m')" by (metis surj_pair)
  have "exec_dense visit (p # xs) h b = (r # rs, h', b')" using 1(1) rs by (simp add: p)
  moreover have "spec_dense m (map snd (p # xs)) = ((m ?k \<noteq> None) # oks, m')" using oks by (simp add: p Let_def)
  ultimately show ?case using ih [unfolded rs oks] 1(2) by simp
qed

section \<open>Properties\<close>

lemma find_unique: "distinct (map NameHash rs) \<Longrightarrow> r \<in> set rs \<Longrightarrow> find (\<lambda>x. NameHash x = NameHash r) rs = Some r"
  by (induction rs) (auto simp: image_iff)

text \<open>A filled writer whose names have different hashes is a map from the hashes to the encoded attributes.\<close>

lemma daw_rep_dense:
  assumes rep: "daw_rep visit daw as ids" and d: "distinct (map (\<lambda>a. jenkinsHash (at_Name a)) as)"
    and enc: "list_all2 (\<lambda>a m. EncodeAttributeFromStruct a = Inr m) as ms"
  defines "b \<equiv> \<lparr>lb_tree = da_btree daw, lb_lazy = None, lb_inc = None\<rparr>"
  shows "dense_ok (da_fractalHeap daw) b"
    "dense_lookup visit (da_fractalHeap daw) b n = map_of (zip (map (\<lambda>a. jenkinsHash (at_Name a)) as) ms) (jenkinsHash n)"
proof -
  let ?h = "\<lambda>a. jenkinsHash (at_Name a)" and ?rs = "bt_records (da_btree daw)"
  let ?f = "\<lambda>a i. \<lparr>NameHash = jenkinsHash (at_Name a), rec_HeapID = take 7 i\<rparr>"
  have r: "distinct ids" "\<And>i. i \<in> set ids \<Longrightarrow> length i = 8 \<and> i ! 7 = 0" "Fractal_Heap.heap_inv (da_fractalHeap daw) (set ids)"
    "list_all2 (\<lambda>a i. EncodeAttributeFromStruct a = fh_GetObject visit (da_fractalHeap daw) i) as ids" "bt_inv (da_btree daw)"
    "mset ?rs = mset (map2 ?f as ids)" using rep by (simp_all add: daw_rep_def)
  have len: "length ids = length as" "length ms = length as" using list_all2_lengthD [OF r(4)] list_all2_lengthD [OF enc] by simp_all
  have hs: "map NameHash (map2 ?f as ids) = map ?h as" using len(1) by (intro nth_equalityI) simp_all
  have "mset (map NameHash ?rs) = mset (map ?h as)" unfolding mset_map [of NameHash ?rs] r(6) mset_map [symmetric] hs ..
  then have dr: "distinct (map NameHash ?rs)" "NameHash ` set ?rs = ?h ` set as"
    using d by (metis mset_eq_imp_distinct_iff, metis list.set_map mset_eq_setD)
  have S: "SearchRecord (da_btree daw) n = Some (ids ! k)" if "k < length as" "jenkinsHash n = ?h (as ! k)" for n k
  proof -
    have "?f (as ! k) (ids ! k) \<in> set (map2 ?f as ids)" using that(1) len(1) by (force simp: set_zip)
    then have "?f (as ! k) (ids ! k) \<in> set ?rs" using mset_eq_setD [OF r(6)] by simp
    from find_unique [OF dr(1) this] have "find (\<lambda>x. NameHash x = jenkinsHash n) ?rs = Some (?f (as ! k) (ids ! k))" using that(2) by simp
    moreover have "take 7 (ids ! k) @ [0] = ids ! k"
    proof -
      have i: "length (ids ! k) = 8" "ids ! k ! 7 = 0" using r(2) that(1) len(1) by simp_all
      have "take (Suc 7) (ids ! k) = take 7 (ids ! k) @ [ids ! k ! 7]" using i(1) by (intro take_Suc_conv_app_nth) simp
      then show ?thesis using i by simp
    qed
    ultimately show ?thesis by (simp add: SearchRecord_def)
  qed
  have N: "SearchRecord (da_btree daw) n = None" if "jenkinsHash n \<notin> ?h ` set as" for n using that dr(2) by (simp add: SearchRecord_None)
  have cases: "(\<exists>k < length as. jenkinsHash n = ?h (as ! k)) \<or> jenkinsHash n \<notin> ?h ` set as" for n by (auto simp: in_set_conv_nth)
  have SI: "{i. \<exists>n. SearchRecord (da_btree daw) n = Some i} = set ids"
  proof (intro set_eqI iffI)
    fix i
    assume "i \<in> {i. \<exists>n. SearchRecord (da_btree daw) n = Some i}"
    then obtain n where n: "SearchRecord (da_btree daw) n = Some i" by blast
    then obtain k where "k < length as" "jenkinsHash n = ?h (as ! k)" using cases [of n] N [of n] by auto
    then show "i \<in> set ids" using S [of k n] n len(1) by auto
  next
    fix i
    assume "i \<in> set ids"
    then obtain k where "k < length as" "i = ids ! k" using len(1) by (auto simp: in_set_conv_nth)
    then show "i \<in> {i. \<exists>n. SearchRecord (da_btree daw) n = Some i}" using S [of k "at_Name (as ! k)"] by auto
  qed
  have INJ: "jenkinsHash n = jenkinsHash m" if nm: "SearchRecord (da_btree daw) n = Some i" "SearchRecord (da_btree daw) m = Some i" for n m i
  proof -
    obtain k j where kj: "k < length as" "jenkinsHash n = ?h (as ! k)" "j < length as" "jenkinsHash m = ?h (as ! j)"
      using cases [of n] N [of n] cases [of m] N [of m] nm by auto
    then have "ids ! k = ids ! j" using S [of k n] S [of j m] nm by simp
    then have "k = j" using r(1) kj len(1) by (simp add: nth_eq_iff_index_eq)
    then show ?thesis using kj by simp
  qed
  have L: "lazy_index_inv b" using r(5) dr(1) by (simp add: lazy_index_inv_def lazy_inv_def uniq_inv_def b_def)
  have sel: "lb_tree b = da_btree daw" by (simp add: b_def)
  show "dense_ok (da_fractalHeap daw) b" unfolding dense_ok_def sel SI using L r(3) INJ by blast
  show "dense_lookup visit (da_fractalHeap daw) b n = map_of (zip (map ?h as) ms) (jenkinsHash n)"
  proof (cases "\<exists>k < length as. jenkinsHash n = ?h (as ! k)")
    case True
    then obtain k where k: "k < length as" "jenkinsHash n = ?h (as ! k)" by blast
    have "fh_GetObject visit (da_fractalHeap daw) (ids ! k) = Inr (ms ! k)"
      using list_all2_nthD [OF r(4) k(1)] list_all2_nthD [OF enc k(1)] by simp
    moreover have "map_of (zip (map ?h as) ms) (map ?h as ! k) = Some (ms ! k)" using d k(1) len(2) by (intro map_of_zip_nth) simp_all
    ultimately show ?thesis using S [OF k] k by (simp add: dense_lookup_def b_def)
  next
    case False
    then have "jenkinsHash n \<notin> ?h ` set as" using cases by blast
    moreover from this have "map_of (zip (map ?h as) ms) (jenkinsHash n) = None" using len(2) by (subst map_of_zip_is_None) simp_all
    ultimately show ?thesis using N [of n] by (simp add: dense_lookup_def b_def)
  qed
qed



end
