(* ===== verification/Dense_Reading.thy ===== *)
theory Dense_Reading
  imports Dense_Storage
begin

text \<open>
  What the two writers of dense storage put into a file, read back by the readers of
  \<^verbatim>\<open>internal/core/attribute.go\<close> and \<^verbatim>\<open>internal/core/dense_heap.go\<close>, which have parsers of their own for
  the headers, leaves and blocks.
\<close>

section \<open>Reading dense storage back\<close>

lemma read_some_holds:
  "holds_at f (unat p) b \<Longrightarrow> n \<le> length b \<Longrightarrow> unat p < 2 ^ 63 \<Longrightarrow> read_some f n p = Inr (n, take n b)"
proof -
  assume h: "holds_at f (unat p) b" "n \<le> length b" "unat p < 2 ^ 63"
  have e: "take (length b) (drop (unat p) f) = b" using h(1) by (simp add: holds_at_def)
  have "take n b = take n (take (length b) (drop (unat p) f))" by (simp only: e)
  then have "take n (drop (unat p) f) = take n b" using h(2) by (simp add: min_def)
  moreover have "length (take n b) = n" using h(2) by simp
  ultimately show ?thesis using h(3) by (simp add: read_some_def Let_def)
qed

lemma core_readAddress_le_put: "core_readAddress (le_put 8 v) 8 = v"
  using core_address_roundtrip(1) [of 8 v] by (simp add: core_writeAddress_def del: le_put_numeral)

lemma raw_btree_header:
  assumes inv: "bt_inv bt" and at: "holds_at f (unat p) (encodeHeader bt sb)" "unat p < 2 ^ 63" and sb: "sb_8_8 sb"
  shows "\<exists>h. readBTreeV2HeaderRaw f p sb = Inr h \<and> hr_Depth h = bh_Depth (bt_header bt)
     \<and> hr_RootNodeAddr h = bh_RootNodeAddr (bt_header bt) \<and> hr_NumRecordsRoot h = bh_NumRecordsRoot (bt_header bt)"
proof -
  let ?h = "bt_header bt" and ?b = "encodeHeader bt sb"
  have s: "unat (OffsetSize sb) = 8" "Endianness sb = LittleEndian" using sb by (simp_all add: sb_8_8_def)
  have h: "header_ok ?h" using inv by (simp add: bt_inv_def)
  have len: "length ?b = 38" using length_encodeHeader [OF inv, of sb] s by simp
  have b: "?b = bthd @ [0, 5] @ le_put 4 (bh_NodeSize ?h) @ le_put 2 (bh_RecordSize ?h) @ le_put 2 (bh_Depth ?h)
      @ [bh_SplitPercent ?h, bh_MergePercent ?h] @ le_put 8 (bh_RootNodeAddr ?h) @ le_put 2 (bh_NumRecordsRoot ?h)
      @ le_put 8 (bh_TotalRecords ?h) @ le_put 4 (JenkinsChecksum (header_fields ?h sb))"
    using h s by (simp add: encodeHeader_def Let_def header_fields_def header_ok_def put_width_def del: le_put_numeral)
  have r: "read_some f 38 p = Inr (38, ?b)" using read_some_holds [OF at(1) _ at(2), of 38] len by simp
  have f: "take 4 ?b = [0x42, 0x54, 0x48, 0x44]" "take 2 (drop 12 ?b) = le_put 2 (bh_Depth ?h)"
      "take 8 (drop 16 ?b) = le_put 8 (bh_RootNodeAddr ?h)" "take 2 (drop 24 ?b) = le_put 2 (bh_NumRecordsRoot ?h)"
    unfolding b by (simp_all del: le_put_numeral)
  show ?thesis
    unfolding readBTreeV2HeaderRaw_def r
    using f by (simp add: s Let_def core_readAddress_le_put le_get_le_put_full del: le_put_numeral)
qed

lemma leaf_ids_concat:
  "\<forall>r\<in>set rs. length (rec_HeapID r) = 7 \<Longrightarrow> leaf_ids (length rs) (concat (map record_bytes rs) @ post) = map rec_HeapID rs"
  by (induction rs) (simp_all add: record_bytes_def del: le_put_numeral)

lemma raw_leaf:
  assumes inv: "bt_inv bt" and at: "holds_at f (unat p) (encodeLeafNode bt)" "unat p < 2 ^ 63"
  shows "readBTreeV2LeafRecords f p (bh_NumRecordsRoot (bt_header bt)) = Inr (map rec_HeapID (bt_records bt))"
proof -
  let ?l = "bt_leaf bt" and ?b = "encodeLeafNode bt" and ?rs = "bt_records bt"
  have l: "leaf_ok ?l" "bl_Records ?l = ?rs" "unat (bh_NumRecordsRoot (bt_header bt)) = length ?rs" using inv by (simp_all add: bt_inv_def)
  have len: "length ?b = 10 + length ?rs * 11" by (rule length_encodeLeafNode [OF inv])
  have b: "?b = btlf @ [0, 5] @ concat (map record_bytes ?rs) @ le_put 4 (JenkinsChecksum (leaf_fields ?l))"
    using l by (simp add: encodeLeafNode_def Let_def leaf_fields_def leaf_ok_def del: le_put_numeral)
  have r: "read_some f (6 + unat (bh_NumRecordsRoot (bt_header bt)) * 11 + 4) p = Inr (10 + length ?rs * 11, ?b)"
    using read_some_holds [OF at(1) _ at(2), of "10 + length ?rs * 11"] len l(3) by simp
  have "take 4 ?b = [0x42, 0x54, 0x4C, 0x46]" "leaf_ids (length ?rs) (drop 6 ?b) = map rec_HeapID ?rs"
    unfolding b using leaf_ids_concat [of ?rs] l(1,2) by (simp_all add: leaf_ok_def del: le_put_numeral)
  then show ?thesis unfolding readBTreeV2LeafRecords_def r by (simp add: l(3) del: le_put_numeral)
qed

lemma raw_heap_header:
  assumes at: "holds_at f (unat p) (with_checksum (heap_header_bytes h sb))" "unat p < 2 ^ 63" and sb: "sb_8_8 sb"
  shows "\<exists>r. readFractalHeapHeaderRaw f p sb = Inr r \<and> fr_RootBlockAddress r = wh_RootBlockAddress h
     \<and> fr_HeapOffsetSize r = hh_HeapOffsetSize (read_header h) \<and> fr_HeapLengthSize r = hh_HeapLengthSize (read_header h)
     \<and> fr_ChecksumDirBlocks r = (wh_Flags h AND 0x02 \<noteq> 0)"
proof -
  let ?b = "with_checksum (heap_header_bytes h sb)"
  have s: "unat (OffsetSize sb) = 8" "unat (LengthSize sb) = 8" "Endianness sb = LittleEndian" using sb by (simp_all add: sb_8_8_def)
  obtain x where x: "x = take 144 ?b" by blast
  have r: "read_some f 144 p = Inr (144, x)" unfolding x by (rule read_some_holds [OF at(1) _ at(2)]) (simp add: s)
  have v: "put_var v 8 LittleEndian = le_put 8 v" for v
  proof -
    have "length (le_put 8 v :: bytes) = 8" by (simp del: le_put_numeral)
    then show ?thesis by (simp add: put_var_def del: le_put_numeral)
  qed
  have b: "?b = frhp @ [wh_Version h] @ le_put 2 (wh_HeapIDLength h) @ le_put 2 (wh_IOFiltersLength h) @ [wh_Flags h]
         @ le_put 4 (wh_MaxManagedObjectSize h)
         @ le_put 8 (wh_NextHugeObjectID h) @ le_put 8 (wh_HugeObjectBTreeAddr h)
         @ le_put 8 (wh_FreeSpace h) @ le_put 8 (wh_FreeSectionAddress h)
         @ le_put 8 (wh_ManagedSpaceSize h) @ le_put 8 (wh_AllocatedManagedSpace h)
         @ le_put 8 (wh_ManagedSpaceOffset h) @ le_put 8 (wh_NumManagedObjects h)
         @ le_put 8 (wh_SizeHugeObjects h) @ le_put 8 (wh_NumHugeObjects h)
         @ le_put 8 (wh_SizeTinyObjects h) @ le_put 8 (wh_NumTinyObjects h)
         @ le_put 2 (wh_TableWidth h) @ le_put 8 (wh_StartingBlockSize h) @ le_put 8 (wh_MaxDirectBlockSize h)
         @ le_put 2 (wh_MaxHeapSize h) @ le_put 2 (wh_StartingNumRows h) @ le_put 8 (wh_RootBlockAddress h)
         @ le_put 2 (wh_CurrentNumRows h) @ le_put 4 (JenkinsChecksum (heap_header_bytes h sb))"
    by (simp add: with_checksum_def heap_header_bytes_def Let_def s v del: le_put_numeral)
  have lx: "length x = 144" by (simp add: x s)
  have tx: "take n (drop k x) = take n (drop k ?b)" if "k + n \<le> 144" for k n :: nat
    using that by (simp add: x drop_take min_def)
  have f: "take 4 x = frhp" "x ! 9 = wh_Flags h" "take 4 (drop 10 x) = le_put 4 (wh_MaxManagedObjectSize h)"
    "take 8 (drop 120 x) = le_put 8 (wh_MaxDirectBlockSize h)" "take 2 (drop 128 x) = le_put 2 (wh_MaxHeapSize h)"
    "take 8 (drop 132 x) = le_put 8 (wh_RootBlockAddress h)"
    using tx [of 0 4] tx [of 10 4] tx [of 120 8] tx [of 128 2] tx [of 132 8] unfolding b
    by (simp_all add: x b nth_append del: le_put_numeral)
  show ?thesis
    unfolding readFractalHeapHeaderRaw_def r
    using f by (simp add: s Let_def core_readAddress_le_put le_get_le_put_full read_header_def del: le_put_numeral)
qed

lemma holds_at_slice:
  assumes "holds_at f p b" "o' + n \<le> length b"
  shows "holds_at f (p + o') (take n (drop o' b))"
proof -
  have "b = take o' b @ take n (drop o' b) @ drop n (drop o' b)" by (metis append_take_drop_id)
  then have "holds_at f p (take o' b @ take n (drop o' b) @ drop n (drop o' b))" using assms(1) by simp
  then have "holds_at f (p + length (take o' b)) (take n (drop o' b))" unfolding holds_at_append by simp
  moreover have "length (take o' b) = o'" using assms(2) by simp
  ultimately show ?thesis by simp
qed

lemma raw_object:
  assumes wr: "written w a fh sb" and ok: "heap_file_ok fh" and inv: "Fractal_Heap.heap_inv fh L" "i \<in> L" and room: "disk_room fh"
    and hdr: "fr_HeapOffsetSize r = hh_HeapOffsetSize (read_header (fh_Header fh))"
      "fr_HeapLengthSize r = hh_HeapLengthSize (read_header (fh_Header fh))" "\<not> fr_ChecksumDirBlocks r"
    and lim: "unat (wh_RootBlockAddress (fh_Header fh)) + unat (db_Size (fh_DirectBlock fh)) < 2 ^ 63"
  shows "\<exists>off len. core_parseHeapID (take 7 i) r = Inr (off, len)
     \<and> readHeapObject (contents w) (wh_RootBlockAddress (fh_Header fh)) off len sb r = fh_GetObject visit fh i"
proof -
  let ?b = "fh_DirectBlock fh" and ?h = "fh_Header fh" and ?f = "contents w" and ?p = "wh_RootBlockAddress (fh_Header fh)"
  let ?n = "unat (db_Size ?b)"
  obtain off len where d: "decode_id ?h i = Inr (off, len)" "0 < unat len" "unat off + unat len \<le> unat (db_FreeOffset ?b)"
    "\<And>visit. fh_GetObject visit fh i = Inr (take (unat len) (drop (unat off) (db_Objects ?b)))"
    using heap_inv_get [OF inv] by blast
  note rd = reader_decodes [OF inv ok room d(1,3)]
  have sz: "unat (fr_HeapOffsetSize r) = 2" using hdr(1) read_header_sizes(1) [OF ok] by simp
  let ?l = "unat (fr_HeapLengthSize r)"
  have l: "?l = 2 \<or> ?l = 3" "readUint (take ?l (drop 3 i)) ?l LittleEndian = len" using rd(5,6) hdr(2) by simp_all
  have ll: "length (take ?l (drop 3 i)) = ?l" "take ?l (drop 3 (take 7 i)) = take ?l (drop 3 i)" "take 2 (drop 1 (take 7 i)) = take 2 (drop 1 i)"
    using l(1) rd(1) by (auto simp: drop_take)
  have "le_get (take 2 (drop 1 i)) = off" using rd(1,4) by (simp add: readUint_def)
  moreover have "le_get (take ?l (drop 3 i)) = len" using l(1,2) ll(1) by (auto simp: readUint_def)
  moreover have "take 7 i ! 0 = i ! 0" using rd(1) by simp
  ultimately have p: "core_parseHeapID (take 7 i) r = Inr (off, len)"
    using sz rd(3) ll(2,3) by (simp add: core_parseHeapID_def Let_def numeral_3_eq_3)
  have s: "unat (OffsetSize sb) = 8" "Endianness sb = LittleEndian" using wr by (auto simp: written_def sb_8_8_def)
  have hs: "unat (wh_HeapOffsetSize ?h) = 2" "?n < 2 ^ 40" "unat (db_FreeOffset ?b) \<le> length (db_Objects ?b)"
    using inv(1) by (auto simp: Fractal_Heap.heap_inv_def heap_shape_def)
  have n: "256 \<le> ?n" "db_BlockOffset ?b = 0" using ok by (auto simp: heap_file_ok_def Let_def)
  have st: "holds_at ?f (unat ?p) (with_checksum (block_image fh sb))" "unat ?p < 2 ^ 63"
    using wr stored_holds by (auto simp: written_def stored_def)
  let ?d = "take (?n - 19) (db_Objects ?b @ zeros ?n)"
  have im: "with_checksum (block_image fh sb) = block_header fh sb @ ?d @ le_put 4 (JenkinsChecksum (block_image fh sb))"
    using n(1) by (simp add: with_checksum_def take_append_long s hs(1) del: le_put_numeral)
  have bh: "block_header fh sb = fhdb @ [db_Version ?b] @ put_var (db_HeapHeaderAddress ?b) 8 LittleEndian @ put_var 0 2 LittleEndian"
    by (simp add: block_header_def Let_def s hs(1) n(2))
  have ld: "length ?d = ?n - 19" by simp
  obtain x where x: "x = take 31 (block_header fh sb @ ?d @ le_put 4 (JenkinsChecksum (block_image fh sb)))" by blast
  have r1: "read_some ?f 31 ?p = Inr (31, x)"
    using read_some_holds [OF st(1) _ st(2), of 31] n(1) unfolding im x by (simp add: s hs(1) del: le_put_numeral)
  have bo: "take 2 (drop 13 x) = put_var 0 2 LittleEndian" "take 4 x = fhdb"
    unfolding x bh by (simp_all add: drop_take del: le_put_numeral)
  have z: "le_get (put_var 0 2 LittleEndian) = (0 :: u64)" by (simp add: put_var_def)
  have fr: "unat off + unat len \<le> ?n - 19" using d(3) room by (simp add: disk_room_def)
  have addr: "unat (?p + of_nat 15 + (off - 0)) = unat ?p + 15 + unat off"
  proof -
    have "unat ?p + 15 + unat off < 2 ^ 64" using fr n(1) lim by simp
    then show ?thesis by (simp add: unat_word_ariths)
  qed
  have "holds_at ?f (unat ?p + 15) ?d"
    using st(1) unfolding im holds_at_append by (simp add: s hs(1))
  from holds_at_slice [OF this, of "unat off" "unat len"] fr ld
  have sl: "holds_at ?f (unat (?p + of_nat 15 + (off - 0))) (take (unat len) (drop (unat off) ?d))" unfolding addr by simp
  have sd: "take (unat len) (drop (unat off) ?d) = take (unat len) (drop (unat off) (db_Objects ?b))"
    using fr d(3) hs(3) by (simp add: drop_take min_def)
  have l2: "length (take (unat len) (drop (unat off) (db_Objects ?b))) = unat len" using d(3) hs(3) by simp
  have r2: "read_some ?f (unat len) (?p + of_nat 15 + (off - 0)) = Inr (unat len, take (unat len) (drop (unat off) (db_Objects ?b)))"
    using read_some_holds [OF sl, of "unat len"] fr n(1) lim addr l2 unfolding sd by simp
  have ml: "\<not> max_alloc \<le> unat len" using fr hs(2) by simp
  have num: "5 + 8 + 2 + (if fr_ChecksumDirBlocks r then 4 else 0) = (15 :: nat)" "(15 :: nat) + 16 = 31" "5 + 8 = (13 :: nat)"
    "13 + 2 = (15 :: nat)" using hdr(3) by simp_all
  obtain y where y: "y = take (unat len) (drop (unat off) (db_Objects ?b))" by blast
  have "readHeapObject ?f ?p off len sb r = Inr y"
    unfolding readHeapObject_def Let_def s sz num using r1 bo(2) hdr(3) ml r2 [folded y]
    by (simp add: num bo(1) z)
  then have "readHeapObject ?f ?p off len sb r = fh_GetObject visit fh i" unfolding y d(4) .
  then show ?thesis using p by blast
qed

text \<open>A heap and a tree in the file, as both writers leave them, and what the raw readers find there.\<close>

definition dense_written :: "FileWriter \<Rightarrow> u64 \<Rightarrow> u64 \<Rightarrow> WritableFractalHeap \<Rightarrow> WritableBTreeV2 \<Rightarrow> Superblock \<Rightarrow> bool" where
  "dense_written w a ha fh bt sb \<longleftrightarrow>
     a \<noteq> 0 \<and> ha \<noteq> 0 \<and> written w a fh sb
     \<and> unat (wh_RootBlockAddress (fh_Header fh)) + unat (db_Size (fh_DirectBlock fh)) < 2 ^ 63
     \<and> stored w (bh_RootNodeAddr (bt_header bt)) (encodeLeafNode bt) \<and> stored w ha (encodeHeader bt sb)"

lemma with_checksum_nonempty: "with_checksum b \<noteq> []"
  by (simp add: with_checksum_def)

lemma encoded_tree_nonempty: "bt_inv bt \<Longrightarrow> encodeLeafNode bt \<noteq> []" "bt_inv bt \<Longrightarrow> encodeHeader bt sb \<noteq> []"
  using length_encodeLeafNode [of bt] length_encodeHeader [of bt sb] by auto

lemma dense_written_mono:
  assumes "dense_written w a ha fh bt sb" "bt_inv bt" "\<And>p d. stored w p d \<Longrightarrow> d \<noteq> [] \<Longrightarrow> stored w' p d"
  shows "dense_written w' a ha fh bt sb"
  using assms(1) encoded_tree_nonempty [OF assms(2)]
  unfolding dense_written_def written_def by (auto intro!: assms(3) with_checksum_nonempty)

lemma dense_written_read:
  assumes wr: "dense_written w a ha fh bt sb" and inv: "bt_inv bt" "Fractal_Heap.heap_inv fh L"
    and ok: "heap_file_ok fh" "disk_room fh" "wh_Flags (fh_Header fh) = 0"
  shows "\<exists>hdr hh. readBTreeV2HeaderRaw (contents w) ha sb = Inr hdr \<and> hr_Depth hdr = 0
     \<and> readBTreeV2LeafRecords (contents w) (hr_RootNodeAddr hdr) (hr_NumRecordsRoot hdr) = Inr (map rec_HeapID (bt_records bt))
     \<and> readFractalHeapHeaderRaw (contents w) a sb = Inr hh
     \<and> (\<forall>i\<in>L. \<exists>off len. core_parseHeapID (take 7 i) hh = Inr (off, len)
          \<and> readHeapObject (contents w) (fr_RootBlockAddress hh) off len sb hh = fh_GetObject visit fh i)"
proof -
  have d: "written w a fh sb" "unat (wh_RootBlockAddress (fh_Header fh)) + unat (db_Size (fh_DirectBlock fh)) < 2 ^ 63"
    "stored w (bh_RootNodeAddr (bt_header bt)) (encodeLeafNode bt)" "stored w ha (encodeHeader bt sb)"
    using wr by (simp_all add: dense_written_def)
  have sb: "sb_8_8 sb" "stored w a (with_checksum (heap_header_bytes (fh_Header fh) sb))" using d(1) by (simp_all add: written_def)
  have b: "unat a < 2 ^ 63" "unat ha < 2 ^ 63" "unat (bh_RootNodeAddr (bt_header bt)) < 2 ^ 63" using sb(2) d(3,4) by (simp_all add: stored_def)
  obtain hdr where h: "readBTreeV2HeaderRaw (contents w) ha sb = Inr hdr" "hr_Depth hdr = bh_Depth (bt_header bt)"
     "hr_RootNodeAddr hdr = bh_RootNodeAddr (bt_header bt)" "hr_NumRecordsRoot hdr = bh_NumRecordsRoot (bt_header bt)"
    using raw_btree_header [OF inv(1) stored_holds [OF d(4)] b(2) sb(1)] by blast
  have "bh_Depth (bt_header bt) = 0" using inv(1) by (simp add: bt_inv_def header_ok_def)
  moreover have "readBTreeV2LeafRecords (contents w) (hr_RootNodeAddr hdr) (hr_NumRecordsRoot hdr) = Inr (map rec_HeapID (bt_records bt))"
    unfolding h(3,4) by (rule raw_leaf [OF inv(1) stored_holds [OF d(3)] b(3)])
  moreover obtain hh where "readFractalHeapHeaderRaw (contents w) a sb = Inr hh"
     and r: "fr_RootBlockAddress hh = wh_RootBlockAddress (fh_Header fh)" "fr_HeapOffsetSize hh = hh_HeapOffsetSize (read_header (fh_Header fh))"
       "fr_HeapLengthSize hh = hh_HeapLengthSize (read_header (fh_Header fh))" "\<not> fr_ChecksumDirBlocks hh"
    using raw_heap_header [OF stored_holds [OF sb(2)] b(1) sb(1)] ok(3) by auto
  moreover have "\<forall>i\<in>L. \<exists>off len. core_parseHeapID (take 7 i) hh = Inr (off, len)
          \<and> readHeapObject (contents w) (fr_RootBlockAddress hh) off len sb hh = fh_GetObject visit fh i"
    unfolding r(1) using raw_object [OF d(1) ok(1) inv(2) _ ok(2) r(2-4) d(2)] by blast
  ultimately show ?thesis using h(1,2) by auto
qed

lemma heap_WriteToFile_allocs:
  assumes "heap_WriteToFile fh w sb = Inr (a, fh', w')"
  shows "\<exists>al. Allocate (fw_allocator w) (of_nat (26 + 12 * unat (LengthSize sb) + 3 * unat (OffsetSize sb))) = Inr (a, al)
     \<and> Allocate al (db_Size (fh_DirectBlock fh)) = Inr (wh_RootBlockAddress (fh_Header fh'), fw_allocator w')"
  using assms
  by (auto simp: heap_WriteToFile_def writeHeaderAt_def writeDirectBlockAt_def fw_WriteAtAddress_def fw_WriteAt_def Let_def algebra_simps
      split: sum.splits prod.splits option.splits if_splits)

lemma dense_write_effect:
  assumes w: "writer_ok w" "base_reserved (fw_allocator w)" and sb: "sb_8_8 sb" and fh: "Fractal_Heap.heap_inv fh L" "19 \<le> unat (db_Size (fh_DirectBlock fh))"
    and bt: "bt_inv bt" and lim: "unat (fw_EndOfFile w) + unat (db_Size (fh_DirectBlock fh)) + unat (bt_nodeSize bt) + 184 < 2 ^ 63"
  obtains a r w1 ha la w2 where "heap_WriteToFile fh w sb = Inr (a, placed a r fh, w1)"
    "btree_WriteToFile bt w1 sb = Inr (ha, bt\<lparr>bt_header := (bt_header bt)\<lparr>bh_RootNodeAddr := la\<rparr>\<rparr>, w2)"
    "dense_written w2 a ha (placed a r fh) (bt\<lparr>bt_header := (bt_header bt)\<lparr>bh_RootNodeAddr := la\<rparr>\<rparr>) sb"
    "writer_ok w2" "base_reserved (fw_allocator w2)" "\<And>p d. stored w p d \<Longrightarrow> d \<noteq> [] \<Longrightarrow> stored w2 p d"
    "unat (fw_EndOfFile w2) \<le> unat (fw_EndOfFile w) + unat (db_Size (fh_DirectBlock fh)) + unat (bt_nodeSize bt) + 184"
proof -
  let ?n = "db_Size (fh_DirectBlock fh)"
  have lim1: "unat (fw_EndOfFile w) + 146 + unat ?n < 2 ^ 63" using lim by simp
  from heap_WriteToFile_effect [OF w sb heap_inv_block_shape [OF fh] lim1] obtain a r w1 where
    1: "heap_WriteToFile fh w sb = Inr (a, placed a r fh, w1)" "written w1 a (placed a r fh) sb" "writer_ok w1"
      "\<And>p d. stored w p d \<Longrightarrow> d \<noteq> [] \<Longrightarrow> stored w1 p d" "unat (fw_EndOfFile w1) \<le> unat (fw_EndOfFile w) + 146 + unat ?n" by blast
  have s: "unat (LengthSize sb) = 8" "unat (OffsetSize sb) = 8" "OffsetSize sb = 8" using sb by (simp_all add: sb_8_8_def)
  obtain al where al: "Allocate (fw_allocator w) 146 = Inr (a, al)" "Allocate al ?n = Inr (r, fw_allocator w1)"
    using heap_WriteToFile_allocs [OF 1(1)] s by auto
  have inv: "alloc_inv (fw_allocator w)" using w(1) by (simp add: writer_ok_def)
  have l0: "unat (nextOffset (fw_allocator w)) + unat (146 :: u64) < 2 ^ 64" "unat (nextOffset (fw_allocator w1)) + 0 < 2 ^ 63"
    using lim 1(5) by (simp_all add: fw_EndOfFile_def EndOfFile_def)
  note b1 = Allocate_base [OF w(2) inv al(1) l0(1)] and e1 = Allocate_effect [OF inv al(1) l0(1)]
  have nal: "unat (nextOffset al) \<le> unat (nextOffset (fw_allocator w)) + 146"
  proof -
    have "?thesis \<and> True" using allocate_effect [OF w(1), of 146] al(1) lim by (auto simp: fw_EndOfFile_def EndOfFile_def)
    then show ?thesis by simp
  qed
  then have l2: "unat (nextOffset al) + unat ?n < 2 ^ 64" using lim by (simp add: fw_EndOfFile_def EndOfFile_def)
  note b2 = Allocate_base [OF b1(1) e1(1) al(2) l2] and e2 = Allocate_effect [OF e1(1) al(2) l2]
  have rl: "unat r + unat ?n < 2 ^ 63" using e2(4) l0(2) by (simp add: bend_def)
  have lim2: "unat (fw_EndOfFile w1) + unat (bt_nodeSize bt) + 38 < 2 ^ 63" using lim 1(5) by simp
  from btree_WriteToFile_effect [OF bt 1(3) s(3) lim2] obtain la ha a2 w2 where
    2: "btree_WriteToFile bt w1 sb = Inr (ha, bt\<lparr>bt_header := (bt_header bt)\<lparr>bh_RootNodeAddr := la\<rparr>\<rparr>, w2)"
      "Allocate (fw_allocator w1) (ucast (bt_nodeSize bt)) = Inr (la, a2)" "Allocate a2 38 = Inr (ha, fw_allocator w2)" "writer_ok w2"
      "stored w2 la (encodeLeafNode bt)" "stored w2 ha (encodeHeader (bt\<lparr>bt_header := (bt_header bt)\<lparr>bh_RootNodeAddr := la\<rparr>\<rparr>) sb)"
      "\<And>p d. stored w1 p d \<Longrightarrow> d \<noteq> [] \<Longrightarrow> stored w2 p d" "unat (nextOffset a2) \<le> unat (fw_EndOfFile w1) + unat (bt_nodeSize bt)"
      "unat (fw_EndOfFile w2) \<le> unat (fw_EndOfFile w1) + unat (bt_nodeSize bt) + 38" by metis
  have l3: "unat (nextOffset (fw_allocator w1)) + unat (ucast (bt_nodeSize bt) :: u64) < 2 ^ 64" "unat (nextOffset a2) + unat (38 :: u64) < 2 ^ 64"
    using lim2 2(8) by (simp_all add: fw_EndOfFile_def EndOfFile_def)
  have inv1: "alloc_inv (fw_allocator w1)" using 1(3) by (simp add: writer_ok_def)
  note b3 = Allocate_base [OF b2(1) inv1 2(2) l3(1)]
  note b4 = Allocate_base [OF b3(1) Allocate_effect(1) [OF inv1 2(2) l3(1)] 2(3) l3(2)]
  have wr: "written w2 a (placed a r fh) sb"
    using 1(2) unfolding written_def by (auto intro!: 2(7) with_checksum_nonempty)
  show thesis
  proof (rule that [OF 1(1) 2(1) _ 2(4) b4(1)])
    show "dense_written w2 a ha (placed a r fh) (bt\<lparr>bt_header := (bt_header bt)\<lparr>bh_RootNodeAddr := la\<rparr>\<rparr>) sb"
      using b1(2) b4(2) wr rl 2(5,6) by (simp add: dense_written_def)
    show "stored w2 p d" if "stored w p d" "d \<noteq> []" for p d using that 1(4) 2(7) by blast
    show "unat (fw_EndOfFile w2) \<le> unat (fw_EndOfFile w) + unat ?n + unat (bt_nodeSize bt) + 184" using 1(5) 2(9) by simp
  qed
qed

text \<open>The loops over the ids, where every object is read and parsed.\<close>

lemma dense_attributes_of_map:
  assumes "list_all2 (\<lambda>i a. \<exists>off len m. core_parseHeapID i hh = Inr (off, len) \<and> readHeapObject f (fr_RootBlockAddress hh) off len sb hh = Inr m
     \<and> ParseAttributeMessage m (Endianness sb) = Inr a) ids as"
  shows "dense_attributes_of f sb hh ids = Inr as"
  using assms by (induction rule: list_all2_induct) auto

lemma heap_objects_of_map:
  assumes "list_all2 (\<lambda>i m. \<exists>off len. core_parseHeapID i hh = Inr (off, len) \<and> readHeapObject f (fr_RootBlockAddress hh) off len sb hh = Inr m) ids ms"
  shows "heap_objects_of f sb hh ids = Inr ms"
  using assms by (induction rule: list_all2_induct) auto

text \<open>A permutation of one side of a relation is followed by the other.\<close>

lemma list_all2_permuted:
  assumes "list_all2 P xs ys" "mset xs' = mset (map f xs)"
  shows "\<exists>ys'. mset ys' = mset ys \<and> list_all2 (\<lambda>x' y. \<exists>x. x' = f x \<and> P x y) xs' ys'"
proof -
  have "list_all2 (\<lambda>x' y. \<exists>x. x' = f x \<and> P x y) (map f xs) ys" using assms(1) by (auto simp: list.rel_map elim: list_all2_mono)
  from list_all2_reorder_left_invariance [OF this assms(2)] show ?thesis by blast
qed

section \<open>Properties\<close>

text \<open>
  C25. Dense attributes on disk: attributes with different names added to a new writer, as many as a
  4096-byte tree node and a 64 KB heap block hold, are written with their heap and tree; with the
  attribute info message that is returned in an object header, the attributes of the object are
  exactly the parsed forms of those added, in the order of their name hashes. Names with equal hashes
  do not disturb each other, and nothing that was in the file is lost.
\<close>
theorem dense_attributes_roundtrip:
  assumes "writer_ok w" "base_reserved (fw_allocator w)" "sb_8_8 sb" "unat (fw_EndOfFile w) + 69816 < 2 ^ 63"
    "as \<noteq> []" "length as \<le> 371" "[] \<notin> at_Name ` set as" "distinct (map at_Name as)"
    "list_all2 (\<lambda>a m. EncodeAttributeFromStruct a = Inr m) as ms" "sum_list (map length ms) \<le> 65517"
    "list_all2 (\<lambda>m b. ParseAttributeMessage m LittleEndian = Inr b) ms bs"
  shows "\<exists>daw info daw' w' d bs'. add_attributes visit (NewDenseAttributeWriter addr) as = (Inr (), daw)
     \<and> daw_WriteToFile daw w sb = Inr (info, daw', w') \<and> EncodeAttributeInfoMessage info sb = Inr d
     \<and> ParseAttributesFromMessages (contents w')
          [\<lparr>hm_Type = MsgAttributeInfo, hm_Offset = off, hm_Data = d, hm_FromContinuation = False\<rparr>] sb = Inr bs'
     \<and> mset bs' = mset bs \<and> (\<forall>p d. stored w p d \<longrightarrow> d \<noteq> [] \<longrightarrow> stored w' p d)"
proof -
  let ?new = "NewDenseAttributeWriter addr"
  have sb: "unat (OffsetSize sb) = 8" "Endianness sb = LittleEndian" using assms(3) by (simp_all add: sb_8_8_def)
  have fo: "da_fractalHeap ?new = NewWritableFractalHeap 65536" by (simp add: NewDenseAttributeWriter_def)
  have "heap_room (da_fractalHeap ?new) (sum_list (map length ms))" unfolding fo using assms(10) by (intro new_heap_room) simp_all
  from add_attributes_effect [OF new_daw_rep [of visit addr] assms(9,7) _ _ this] assms(6,8) obtain ids daw where
    1: "add_attributes visit ?new as = (Inr (), daw)" "daw_rep visit daw as ids"
      "unat (db_FreeOffset (fh_DirectBlock (da_fractalHeap daw))) = sum_list (map length ms)" unfolding fo by auto
  let ?fh = "da_fractalHeap daw" and ?bt = "da_btree daw"
  have r: "Fractal_Heap.heap_inv ?fh (set ids)" "heap_file_ok ?fh" "db_Size (fh_DirectBlock ?fh) = 65536" "wh_Flags (fh_Header ?fh) = 0"
    "list_all2 (\<lambda>a i. EncodeAttributeFromStruct a = fh_GetObject visit ?fh i) as ids" "bt_inv ?bt" "bt_nodeSize ?bt = 4096"
    "mset (bt_records ?bt) = mset (map2 (\<lambda>a i. \<lparr>NameHash = jenkinsHash (at_Name a), rec_HeapID = take 7 i\<rparr>) as ids)"
    "map fst (da_attributes daw) = rev (map at_Name as)"
    "da_attrInfo daw = \<lparr>ai_Version = 0, ai_Flags = 0, ai_FractalHeapAddr = 0, ai_BTreeNameIndexAddr = 0,
                        ai_MaxCreationIndex = 0, ai_BTreeOrderIndexAddr = 0\<rparr>"
    using 1(2) by (simp_all add: daw_rep_def)
  have room: "disk_room ?fh" using 1(3) assms(10) r(3) by (simp add: disk_room_def)
  have "unat (fw_EndOfFile w) + unat (db_Size (fh_DirectBlock ?fh)) + unat (bt_nodeSize ?bt) + 184 < 2 ^ 63" using assms(4) r(3,7) by simp
  moreover have "19 \<le> unat (db_Size (fh_DirectBlock ?fh))" using r(3) by simp
  ultimately obtain a rt w1 ha la w2 where
    2: "heap_WriteToFile ?fh w sb = Inr (a, placed a rt ?fh, w1)"
      "btree_WriteToFile ?bt w1 sb = Inr (ha, ?bt\<lparr>bt_header := (bt_header ?bt)\<lparr>bh_RootNodeAddr := la\<rparr>\<rparr>, w2)"
      "dense_written w2 a ha (placed a rt ?fh) (?bt\<lparr>bt_header := (bt_header ?bt)\<lparr>bh_RootNodeAddr := la\<rparr>\<rparr>) sb"
      "\<And>p d. stored w p d \<Longrightarrow> d \<noteq> [] \<Longrightarrow> stored w2 p d" using dense_write_effect [OF assms(1-3) r(1) _ r(6)] by metis
  let ?bt' = "?bt\<lparr>bt_header := (bt_header ?bt)\<lparr>bh_RootNodeAddr := la\<rparr>\<rparr>"
  define info where "info = (da_attrInfo daw)\<lparr>ai_FractalHeapAddr := a, ai_BTreeNameIndexAddr := ha\<rparr>"
  have "da_attributes daw \<noteq> []" using r(9) assms(5) by auto
  then obtain daw' where d: "daw_WriteToFile daw w sb = Inr (info, daw', w2)"
    using 2(1,2) by (simp add: daw_WriteToFile_def Let_def info_def)
  have "info_ok info sb" using assms(3) r(10) by (simp add: info_def info_ok_def sizes_ok_def sb_8_8_def)
  from attribute_info_parsed [OF this] obtain b where b: "EncodeAttributeInfoMessage info sb = Inr b" "ParseAttributeInfoMessage b sb = Inr info"
    by blast
  have ai: "ai_FractalHeapAddr info = a" "ai_BTreeNameIndexAddr info = ha" "a \<noteq> 0" "ha \<noteq> 0" using 2(3) by (simp_all add: info_def dense_written_def)
  have fl: "wh_Flags (fh_Header (placed a rt ?fh)) = 0" using r(4) by (simp add: placed_def)
  from dense_written_read [OF 2(3) bt_inv_root [OF r(6)], of "set ids" visit] r(1,2) room fl obtain hdr hh where
    h: "readBTreeV2HeaderRaw (contents w2) ha sb = Inr hdr"
      "readBTreeV2LeafRecords (contents w2) (hr_RootNodeAddr hdr) (hr_NumRecordsRoot hdr) = Inr (map rec_HeapID (bt_records ?bt))"
      "readFractalHeapHeaderRaw (contents w2) a sb = Inr hh"
      "\<forall>i\<in>set ids. \<exists>off len. core_parseHeapID (take 7 i) hh = Inr (off, len)
          \<and> readHeapObject (contents w2) (fr_RootBlockAddress hh) off len sb hh = fh_GetObject visit ?fh i" by auto
  let ?P = "\<lambda>i b. i \<in> set ids \<and> (\<exists>m. fh_GetObject visit ?fh i = Inr m \<and> ParseAttributeMessage m LittleEndian = Inr b)"
  have len: "length as = length ids" "length ids = length bs"
    using list_all2_lengthD [OF r(5)] list_all2_lengthD [OF assms(9)] list_all2_lengthD [OF assms(11)] by simp_all
  have P: "list_all2 ?P ids bs"
  proof (rule list_all2_all_nthI [OF len(2)])
    fix k
    assume k: "k < length ids"
    have "EncodeAttributeFromStruct (as ! k) = Inr (ms ! k)" "EncodeAttributeFromStruct (as ! k) = fh_GetObject visit ?fh (ids ! k)"
      "ParseAttributeMessage (ms ! k) LittleEndian = Inr (bs ! k)"
      using k len list_all2_lengthD [OF assms(9)] list_all2_nthD [OF r(5)] list_all2_nthD [OF assms(9)] list_all2_nthD [OF assms(11)] by simp_all
    then show "?P (ids ! k) (bs ! k)" using k by auto
  qed
  have m2: "map rec_HeapID (map2 (\<lambda>a i. \<lparr>NameHash = jenkinsHash (at_Name a), rec_HeapID = take 7 i\<rparr>) as ids) = map (take 7) ids"
    using len(1) by (intro nth_equalityI) simp_all
  have perm: "mset (map rec_HeapID (bt_records ?bt)) = mset (map (take 7) ids)"
    unfolding mset_map [of rec_HeapID "bt_records ?bt"] r(8) mset_map [symmetric] m2 ..
  from list_all2_permuted [OF P perm] obtain bs' where bs': "mset bs' = mset bs"
    "list_all2 (\<lambda>x' y. \<exists>x. x' = take 7 x \<and> ?P x y) (map rec_HeapID (bt_records ?bt)) bs'" by blast
  have "dense_attributes_of (contents w2) sb hh (map rec_HeapID (bt_records ?bt)) = Inr bs'"
    by (rule dense_attributes_of_map, rule list_all2_mono [OF bs'(2)]) (use h(4) sb(2) in fastforce)
  moreover have "bt_records ?bt \<noteq> []" using perm len(1) assms(5) by auto
  ultimately have "readDenseAttributes (contents w2) info sb = Inr bs'"
    using h(1-3) ai by (simp add: readDenseAttributes_def)
  then have "ParseAttributesFromMessages (contents w2)
          [\<lparr>hm_Type = MsgAttributeInfo, hm_Offset = off, hm_Data = b, hm_FromContinuation = False\<rparr>] sb = Inr bs'"
    using b(2) ai by (simp add: ParseAttributesFromMessages_def Let_def)
  then show ?thesis using 1(1) d b(1) bs'(1) 2(4) by blast
qed

theorem dense_attributes_roundtrip_witness:
  "\<exists>daw info daw' w' d bs'. add_attributes id (NewDenseAttributeWriter 96) [demo_attr 7] = (Inr (), daw)
     \<and> daw_WriteToFile daw \<lparr>fw_file = Some ([], True), fw_allocator = NewAllocator 48\<rparr> sb8 = Inr (info, daw', w')
     \<and> EncodeAttributeInfoMessage info sb8 = Inr d
     \<and> ParseAttributesFromMessages (contents w')
          [\<lparr>hm_Type = MsgAttributeInfo, hm_Offset = 0, hm_Data = d, hm_FromContinuation = False\<rparr>] sb8 = Inr bs'
     \<and> mset bs' = {#demo_read 7#}"
proof -
  have "sb_8_8 sb8" "at_Name (demo_attr 7) = [65]" "length (demo_message 7) = 43"
    by (simp_all add: sb_8_8_def demo_attr_def demo_message_def)
  then show ?thesis
    using dense_attributes_roundtrip [of "\<lparr>fw_file = Some ([], True), fw_allocator = NewAllocator 48\<rparr>" sb8 "[demo_attr 7]"
      "[demo_message 7]" "[demo_read 7]" id 96 0] new_writer_ok demo_encoded
    by (simp add: del: Superblock.simps) blast
qed

section \<open>Dense groups\<close>

text \<open>
  The object of a link in a dense group: version, type, flags, character set, length and name. The
  readers expect the flags behind the version.
\<close>

lemma compact_size_small: "0 < n \<Longrightarrow> n < 256 \<Longrightarrow> compactUint64Size (of_nat n) = 1 \<and> encodeCompactUint64 (of_nat n) = [of_nat n]"
proof -
  assume n: "0 < n" "n < 256"
  have u: "unat (of_nat n :: u64) = n" using n by (intro unat_of_nat_less) simp
  have nz: "(of_nat n :: u64) \<noteq> 0" using u n(1) by auto
  have "unat (drop_bit 8 (of_nat n :: u64)) = 0" using u n(2) by (simp add: drop_bit_eq_div unat_div)
  then have z: "drop_bit 8 (of_nat n :: u64) = 0" by (simp add: unat_eq_0)
  have "compact_size_loop (of_nat n) = 1"
    using nz z compact_size_loop.simps [of "of_nat n"] compact_size_loop.simps [of 0] by (simp del: compact_size_loop.simps)
  then have c: "compactUint64Size (of_nat n) = 1" using nz by (simp add: compactUint64Size_def)
  moreover have "(ucast (of_nat n :: u64) :: byte) = of_nat n"
    using u n(2) by (intro unat_eqD) (simp add: unsigned_ucast_eq unat_of_nat_less take_bit_nat_eq_self)
  ultimately show ?thesis by (simp add: encodeCompactUint64_def)
qed

text \<open>
  A link of a dense group with a name of two to 255 bytes is taken for one whose name is a zero byte,
  the length byte and the first two bytes of the name, with an address read from the rest: the name
  it was stored under is not found.
\<close>
theorem dense_link_misread:
  assumes "sb_8_8 sb" "2 \<le> length (dl_name l)" "length (dl_name l) < 256" "dl_name l ! 0 \<noteq> 0"
  shows "\<exists>lm. structures_ParseLinkMessage (createLinkMessage l sb) sb = Inr lm \<and> IsHardLink lm
     \<and> sl_Name lm = [0, of_nat (length (dl_name l)), dl_name l ! 0, dl_name l ! 1] \<and> sl_Name lm \<noteq> dl_name l
     \<and> sl_ObjectAddress lm = le_get (take 8 (drop 2 (dl_name l) @ le_put 8 (dl_targetAddr l)))"
proof -
  obtain x y ns where n: "dl_name l = x # y # ns" using assms(2) by (metis Suc_le_length_iff numeral_2_eq_2)
  have s: "unat (OffsetSize sb) = 8" "Endianness sb = LittleEndian" using assms(1) by (simp_all add: sb_8_8_def)
  let ?n = "of_nat (length (dl_name l)) :: byte" and ?A = "le_put 8 (dl_targetAddr l)"
  have c: "createLinkMessage l sb = [1, 0, 4, 0, ?n, x, y] @ ns @ ?A"
    using compact_size_small [of "length (dl_name l)"] assms(2,3) n s
    by (simp add: createLinkMessage_def put_width_def del: le_put_numeral of_nat_Suc)
  have "structures_ParseLinkMessage ([1, 0, 4, 0, ?n, x, y] @ ns @ ?A) sb = Inr \<lparr>sl_Version = 1, sl_Flags = 0, sl_Type = 0,
      sl_Name = [0, ?n, x, y], sl_CreationOrder = 0, sl_CreationOrderValid = False, sl_CharacterSet = 0,
      sl_ObjectAddress = le_get (take 8 (ns @ ?A)), sl_TargetPath = []\<rparr>"
  proof -
    obtain D where D: "D = [1, 0, 4, 0, ?n, x, y] @ ns @ ?A" by blast
    have f: "length D = 7 + length ns + 8" "D ! 0 = 1" "D ! 1 = 0" "take 1 (drop 2 D) = [4]" "take 4 (drop 3 D) = [0, ?n, x, y]"
      "take 8 (drop 7 D) = take 8 (ns @ ?A)"
      by (simp_all add: D del: le_put_numeral)
    show ?thesis unfolding D [symmetric] structures_ParseLinkMessage_def Let_def using s f
      by (simp add: link_target_def)
  qed
  moreover have "[0, ?n, x, y] \<noteq> dl_name l" using n assms(4) by auto
  ultimately show ?thesis unfolding c using n by (simp add: IsHardLink_def del: le_put_numeral)
qed

text \<open>The links stored so far: their messages in the heap, a record for each in the tree.\<close>

definition dgw_rep :: "(u64 list \<Rightarrow> u64 list) \<Rightarrow> DenseGroupWriter \<Rightarrow> Superblock \<Rightarrow> denseLink list \<Rightarrow> bytes list \<Rightarrow> bool" where
  "dgw_rep visit dgw sb ls ids \<longleftrightarrow>
     Fractal_Heap.heap_inv (dg_fractalHeap dgw) (set ids) \<and> heap_file_ok (dg_fractalHeap dgw)
     \<and> db_Size (fh_DirectBlock (dg_fractalHeap dgw)) = 524288 \<and> wh_Flags (fh_Header (dg_fractalHeap dgw)) = 0
     \<and> list_all2 (\<lambda>l i. fh_GetObject visit (dg_fractalHeap dgw) i = Inr (createLinkMessage l sb)) ls ids
     \<and> bt_inv (dg_btree dgw) \<and> bt_nodeSize (dg_btree dgw) = 4096
     \<and> mset (map rec_HeapID (bt_records (dg_btree dgw))) = mset (map (take 7) ids)"

lemma createLinkMessage_nonempty: "createLinkMessage l sb \<noteq> []"
  by (simp add: createLinkMessage_def)

lemma store_links_effect:
  assumes "dgw_rep visit dgw sb ls0 ids0" "length (ls0 @ ls) \<le> 371"
    "heap_room (dg_fractalHeap dgw) (sum_list (map (\<lambda>l. length (createLinkMessage l sb)) ls))"
  shows "\<exists>ids dgw'. store_links visit sb ls dgw = Inr dgw' \<and> dgw_rep visit dgw' sb (ls0 @ ls) (ids0 @ ids)
     \<and> dg_linkInfo dgw' = dg_linkInfo dgw
     \<and> unat (db_FreeOffset (fh_DirectBlock (dg_fractalHeap dgw')))
         = unat (db_FreeOffset (fh_DirectBlock (dg_fractalHeap dgw))) + sum_list (map (\<lambda>l. length (createLinkMessage l sb)) ls)"
  using assms
proof (induction ls arbitrary: dgw ls0 ids0)
  case Nil
  then show ?case by (intro exI [of _ "[]"] exI [of _ dgw]) simp
next
  case (Cons l ls)
  let ?fh = "dg_fractalHeap dgw" and ?bt = "dg_btree dgw" and ?m = "createLinkMessage l sb"
  have r: "Fractal_Heap.heap_inv ?fh (set ids0)" "heap_file_ok ?fh" "bt_inv ?bt" "bt_nodeSize ?bt = 4096"
    "mset (map rec_HeapID (bt_records ?bt)) = mset (map (take 7) ids0)" "db_Size (fh_DirectBlock ?fh) = 524288" "wh_Flags (fh_Header ?fh) = 0"
    "list_all2 (\<lambda>l i. fh_GetObject visit ?fh i = Inr (createLinkMessage l sb)) ls0 ids0"
    using Cons.prems(1) by (simp_all add: dgw_rep_def)
  have "heap_room ?fh (length ?m)" using fractal_store.room_mono [OF Cons.prems(3)] by simp
  from heap_insert_file [OF r(1,2) createLinkMessage_nonempty this, of visit] obtain i fh' where
    1: "fh_InsertObject visit ?fh ?m = (Inr i, fh')" "length i = 8" "i ! 7 = 0" "Fractal_Heap.heap_inv fh' (insert i (set ids0))"
      "heap_file_ok fh'" "fh_GetObject visit fh' i = Inr ?m" "\<forall>j\<in>set ids0. fh_GetObject visit fh' j = fh_GetObject visit ?fh j"
      "unat (db_FreeOffset (fh_DirectBlock fh')) = unat (db_FreeOffset (fh_DirectBlock ?fh)) + length ?m"
      "db_Size (fh_DirectBlock fh') = db_Size (fh_DirectBlock ?fh)" "wh_Flags (fh_Header fh') = wh_Flags (fh_Header ?fh)"
      "\<forall>n. heap_room ?fh (length ?m + n) \<longrightarrow> heap_room fh' n" by metis
  have "length (bt_records ?bt) = length ls0"
    using arg_cong [OF r(5), of size] list_all2_lengthD [OF r(8)] by simp
  then have "11 * Suc (length (bt_records ?bt)) + 10 \<le> unat (bt_nodeSize ?bt)" using Cons.prems(2) r(4) by simp
  from InsertRecord_room [OF r(3) this, of "dl_name l" "le_get i"] obtain bt' where
    2: "InsertRecord ?bt (dl_name l) (le_get i) = Inr bt'" "bt_inv bt'" "bt_nodeSize bt' = 4096"
      "bt_records bt' = insertRecordSorted (bt_records ?bt) \<lparr>NameHash = jenkinsHash (dl_name l), rec_HeapID = heap_id7 (le_get i)\<rparr>"
    using r(4) by auto
  have h7: "heap_id7 (le_get i) = take 7 i"
  proof -
    have "take 7 (heap_id7 (le_get i) @ [0]) = take 7 i" by (simp only: heap_id7_le_get [OF 1(2,3)])
    then show ?thesis by simp
  qed
  let ?dgw = "dgw\<lparr>dg_fractalHeap := fh', dg_btree := bt'\<rparr>"
  have "list_all2 (\<lambda>l i. fh_GetObject visit fh' i = Inr (createLinkMessage l sb)) ls0 ids0"
    using r(8) 1(7) by (auto simp: list_all2_conv_all_nth)
  moreover have "mset (map rec_HeapID (bt_records bt')) = mset (map (take 7) (ids0 @ [i]))"
    using r(5) by (simp add: 2(4) insertRecordSorted_mset h7)
  ultimately have rep: "dgw_rep visit ?dgw sb (ls0 @ [l]) (ids0 @ [i])"
    using 1 2(2,3) r(6,7) by (simp add: dgw_rep_def list_all2_appendI)
  have "heap_room (dg_fractalHeap ?dgw) (sum_list (map (\<lambda>l. length (createLinkMessage l sb)) ls))" using 1(11) Cons.prems(3) by simp
  from Cons.IH [OF rep _ this] Cons.prems(2) obtain ids dgw' where
    "store_links visit sb ls ?dgw = Inr dgw'" "dgw_rep visit dgw' sb (ls0 @ l # ls) (ids0 @ i # ids)" "dg_linkInfo dgw' = dg_linkInfo dgw"
    "unat (db_FreeOffset (fh_DirectBlock (dg_fractalHeap dgw')))
       = unat (db_FreeOffset (fh_DirectBlock fh')) + sum_list (map (\<lambda>l. length (createLinkMessage l sb)) ls)" by auto
  moreover have "le_get (take 8 i) = le_get i" using 1(2) by simp
  ultimately show ?case using 1(1,2,8) 2(1) by (intro exI [of _ "i # ids"] exI [of _ dgw']) simp
qed

text \<open>The header of a dense group: a link info message and a scalar dataspace.\<close>

lemma createObjectHeader_effect:
  assumes w: "writer_ok w" and sb: "sb_8_8 sb" and li: "li_Version (dg_linkInfo dgw) = 0" "li_Flags (dg_linkInfo dgw) = 0"
      "li_MaxCreationOrder (dg_linkInfo dgw) = 0" "li_CreationOrderBTreeAddress (dg_linkInfo dgw) = 0"
    and lim: "unat (fw_EndOfFile w) + 64 < 2 ^ 63"
  obtains addr w' oh d where "createObjectHeader dgw w sb = Inr (addr, w')" "writer_ok w'"
    "\<And>p d. stored w p d \<Longrightarrow> d \<noteq> [] \<Longrightarrow> stored w' p d"
    "ReadObjectHeader (contents w') addr sb = Some (Inr oh)"
    "map parsed (oh_Messages oh) = [(MsgLinkInfo, d), (MsgDataspace, createScalarDataspaceMessage)]"
    "ParseLinkInfoMessage d sb = Inr (dg_linkInfo dgw)"
proof -
  have s: "unat (OffsetSize sb) = 8" "Endianness sb = LittleEndian" using sb by (simp_all add: sb_8_8_def)
  obtain d where d: "EncodeLinkInfoMessage (dg_linkInfo dgw) sb = Inr d" "length d = 18"
    using li s by (simp add: EncodeLinkInfoMessage_def HasCreationOrderTracking_def HasCreationOrderIndex_def writeUint64_def Let_def
        del: le_put_numeral order_put.simps)
  have pd: "ParseLinkInfoMessage d sb = Inr (dg_linkInfo dgw)"
    by (rule link_info_roundtrip [OF d(1)]) (use li sb in \<open>simp_all add: sizes_ok_def sb_8_8_def\<close>)
  let ?ps = "[(MsgLinkInfo, d), (MsgDataspace, createScalarDataspaceMessage)]"
  let ?ohw = "v2_writer 0 ?ps"
  have ws: "\<lparr>ohw_Version = 2, ohw_Flags = 0, ohw_Messages = [\<lparr>mw_Type = MsgLinkInfo, mw_Data = d\<rparr>,
      \<lparr>mw_Type = MsgDataspace, mw_Data = createScalarDataspaceMessage\<rparr>], ohw_RefCount = 0\<rparr> = ?ohw" by (simp add: v2_writer_def)
  have sz: "ohw_Size ?ohw = Inr (sizeV2 ?ohw)" "sizeV2 ?ohw \<le> 64"
    by (simp_all add: ohw_Size_def v2_writer_def sizeV2_def messages_size_def chunkSizeFieldWidth_def createScalarDataspaceMessage_def d(2) Let_def)
  have ne: "header_v2 ?ohw \<noteq> []" by (simp add: header_v2_def with_checksum_def Let_def)
  have u: "unat (of_nat (sizeV2 ?ohw) :: u64) = sizeV2 ?ohw" using sz(2) by (intro unat_of_nat_less) simp
  have l: "length (header_v2 ?ohw) \<le> unat (of_nat (sizeV2 ?ohw) :: u64)" unfolding u by (simp add: length_header_v2)
  have "unat (nextOffset (fw_allocator w)) + unat (of_nat (sizeV2 ?ohw) :: u64) < 2 ^ 63"
    using lim sz(2) u by (simp add: fw_EndOfFile_def EndOfFile_def)
  from store_effect [OF w l ne this] obtain addr a w' where
    1: "Allocate (fw_allocator w) (of_nat (sizeV2 ?ohw)) = Inr (addr, a)"
      "fw_WriteAtAddress (w\<lparr>fw_allocator := a\<rparr>) (header_v2 ?ohw) addr = Inr w'" "writer_ok w'" "stored w' addr (header_v2 ?ohw)"
      "unat addr + unat (of_nat (sizeV2 ?ohw) :: u64) < 2 ^ 63" "\<And>p d. stored w p d \<Longrightarrow> d \<noteq> [] \<Longrightarrow> stored w' p d" by blast
  have wt: "ohw_WriteTo ?ohw (w\<lparr>fw_allocator := a\<rparr>) addr = Inr (sizeV2 ?ohw, w')"
    using 1(2) by (simp add: ohw_WriteTo_def writeToV2_def fw_WriteAtAddress_def) (simp add: v2_writer_def)
  have c: "createObjectHeader dgw w sb = Inr (addr, w')"
    unfolding createObjectHeader_def d(1) using sz(1) 1(1) wt by (simp add: ws Let_def)
  have ha: "header_at (contents w') addr 0 ?ps" using stored_holds [OF 1(4)] 1(5) u by (simp add: header_at_def)
  have pm: "\<forall>p\<in>set ?ps. plain_message p" using d(2) by (auto simp: plain_message_def createScalarDataspaceMessage_def)
  obtain oh where oh: "ReadObjectHeader (contents w') addr sb = Some (Inr oh)" "map parsed (oh_Messages oh) = ?ps"
    using ReadObjectHeader_plain [OF ha pm s(2)] by (elim exE conjE) (rule that, assumption+)
  show thesis by (rule that [OF c 1(3) _ oh pd]) (rule 1(6))
qed

fun add_links :: "DenseGroupWriter \<Rightarrow> denseLink list \<Rightarrow> DenseGroupWriter result" where
  "add_links dgw [] = Inr dgw"
| "add_links dgw (l # ls) = (case AddLink dgw (dl_name l) (dl_targetAddr l) of Inl e \<Rightarrow> Inl e | Inr dgw \<Rightarrow> add_links dgw ls)"

lemma add_links_effect:
  "[] \<notin> dl_name ` set ls \<Longrightarrow> distinct (map dl_name (dg_links dgw @ ls)) \<Longrightarrow> add_links dgw ls = Inr (dgw\<lparr>dg_links := dg_links dgw @ ls\<rparr>)"
proof (induction ls arbitrary: dgw)
  case (Cons l ls)
  have "\<not> list_ex (\<lambda>k. dl_name k = dl_name l) (dg_links dgw)" using Cons.prems(2) by (auto simp: list_ex_iff image_iff)
  moreover have "dl_name l \<noteq> []" using Cons.prems(1) by force
  ultimately have "AddLink dgw (dl_name l) (dl_targetAddr l) = Inr (dgw\<lparr>dg_links := dg_links dgw @ [l]\<rparr>)" by (simp add: AddLink_def)
  then show ?case using Cons.IH [of "dgw\<lparr>dg_links := dg_links dgw @ [l]\<rparr>"] Cons.prems by simp
qed simp



theorem dense_link_misread_witness:
  "\<exists>lm. structures_ParseLinkMessage (createLinkMessage \<lparr>dl_name = [97, 98], dl_targetAddr = 4096\<rparr> sb8) sb8 = Inr lm
     \<and> sl_Name lm = [0, 2, 97, 98] \<and> sl_Name lm \<noteq> [97, 98]"
  using dense_link_misread [of sb8 "\<lparr>dl_name = [97, 98], dl_targetAddr = 4096\<rparr>"] by (auto simp: sb_8_8_def)

end
