(* ===== verification/Spec2Isabelle.thy ===== *)
theory Spec2Isabelle
  imports Chunking Filters Datatype Heap_Writer Local_Heap Symbol_Table BTree_Lazy Object_Header Fractal_Heap_File Links BTree_V1 Dense_Reading
begin

text \<open>
  Verification of the HDF5 library \<^verbatim>\<open>scigolib/hdf5\<close>.
\<close>

end
